(* ===== verification/Prelude.thy ===== *)
theory Prelude
  imports Complex_Main "HOL-Library.AList"
begin

text \<open>
  The shared base of the development: the numbers of the program and the containers of
  Python.

  \<^item> Money in the program is a Python \<open>Decimal\<close> (\<open>src/sentinel/core/money.py\<close>). A decimal is
    modelled by the rational it denotes, and every arithmetic operation by the exact
    operation followed by the rounding the context applies: 28 significant digits,
    ties to even (\<open>dadd\<close>, \<open>dsub\<close>, \<open>dmul\<close>, \<open>ddiv\<close>). Comparisons, \<open>min\<close> and \<open>max\<close> are exact,
    as they are in Python. Exponents (trailing zeros) and the exponent range are not
    tracked.
  \<^item> A binary double is a rational too; where the code divides, the result is rounded
    to 53 significant bits (\<open>fround\<close>). A double that the code only compares, or turns into a
    \<open>Decimal\<close> through its \<open>repr\<close>, is the rational that \<open>repr\<close> denotes.
  \<^item> A Python \<open>dict\<close> whose order matters is an association list (\<open>AList.update\<close> keeps the
    position of an existing key and appends a new one, as \<open>dict\<close> does).
  \<^item> A raised exception is the left of a sum (\<open>'a res\<close>).

  The locale \<open>rounding\<close> is the interface the components use: what a correctly rounded
  arithmetic promises. It is interpreted on the three roundings of the program.
\<close>

named_theorems rounding_rules \<open>facts about the rounded operations\<close>
named_theorems res_simps \<open>unfolding of the exception monad\<close>

section \<open>Exceptions and results\<close>

text \<open>
  The exceptions the modelled code raises or catches: the builtin ones and the taxonomy of
  \<open>src/sentinel/core/errors.py\<close>.
\<close>

datatype exn =
    ValueError
  | KeyError
  | DecimalDivisionByZero
  | ConversionMissingError
  | TransientError
  | PermanentError
  | UnknownOutcomeError
  | BrokerError
  | IllegalTransition
  | AuditChainDamaged
  | TypeError
  | AttributeError
  | UnicodeDecodeError

type_synonym 'a res = "exn + 'a"

definition res_bind :: "'a res \<Rightarrow> ('a \<Rightarrow> 'b res) \<Rightarrow> 'b res" where
  "res_bind r f = (case r of Inl e \<Rightarrow> Inl e | Inr x \<Rightarrow> f x)"

lemma res_bind_weak_cong: "r = r' \<Longrightarrow> res_bind r f = res_bind r' f"
  by simp

text \<open>Congruences under which the simplifier evaluates the scrutinee first.\<close>

lemmas eval_congs = let_weak_cong res_bind_weak_cong option.case_cong_weak sum.case_cong_weak
  if_weak_cong prod.case_cong_weak

lemma res_bind_simps [simp, res_simps]:
  "res_bind (Inl e) f = Inl e"
  "res_bind (Inr x) f = f x"
  by (simp_all add: res_bind_def)

lemma res_bind_Inr_iff: "res_bind r f = Inr y \<longleftrightarrow> (\<exists>x. r = Inr x \<and> f x = Inr y)"
  by (cases r) auto

lemma res_bind_Inl_iff:
  "res_bind r f = Inl e \<longleftrightarrow> r = Inl e \<or> (\<exists>x. r = Inr x \<and> f x = Inl e)"
  by (cases r) auto

section \<open>Rounding to a number of significant digits\<close>

text \<open>Round to the nearest integer, ties to the even one (\<open>ROUND_HALF_EVEN\<close>).\<close>

definition round_half_even :: "rat \<Rightarrow> int" where
  "round_half_even x = (let f = \<lfloor>x\<rfloor>; r = x - of_int f in
     if r < 1/2 then f else if r > 1/2 then f + 1 else if even f then f else f + 1)"

lemma round_half_even_of_int [simp]: "round_half_even (of_int k) = k"
  by (simp add: round_half_even_def)

lemma round_half_even_literals [simp]:
  "round_half_even (numeral k) = numeral k" "round_half_even 1 = 1" "round_half_even 0 = 0"
  using round_half_even_of_int [of "numeral k"] round_half_even_of_int [of 1] round_half_even_of_int [of 0]
  by simp_all

lemma round_half_even_err: "\<bar>of_int (round_half_even x) - x\<bar> \<le> 1/2"
proof -
  define f where "f = \<lfloor>x\<rfloor>"
  have "of_int f \<le> x" "x < of_int f + 1" unfolding f_def by linarith+
  then show ?thesis
    unfolding round_half_even_def Let_def f_def [symmetric] by (simp add: abs_le_iff)
qed

lemma round_half_even_mono: "x \<le> y \<Longrightarrow> round_half_even x \<le> round_half_even y"
proof -
  assume le: "x \<le> y"
  then have fl: "\<lfloor>x\<rfloor> \<le> \<lfloor>y\<rfloor>" by (rule floor_mono)
  show ?thesis
  proof (cases "\<lfloor>x\<rfloor> = \<lfloor>y\<rfloor>")
    case True
    with le show ?thesis by (auto simp: round_half_even_def Let_def)
  next
    case False
    with fl have "\<lfloor>x\<rfloor> + 1 \<le> \<lfloor>y\<rfloor>" by simp
    moreover have "round_half_even x \<le> \<lfloor>x\<rfloor> + 1" "\<lfloor>y\<rfloor> \<le> round_half_even y"
      by (simp_all add: round_half_even_def Let_def)
    ultimately show ?thesis by linarith
  qed
qed

lemma round_half_even_minus: "round_half_even (- x) = - round_half_even x"
proof (cases "x = of_int \<lfloor>x\<rfloor>")
  case True
  then show ?thesis by (metis of_int_minus round_half_even_of_int)
next
  case False
  have lt: "of_int \<lfloor>x\<rfloor> < x" "x < of_int \<lfloor>x\<rfloor> + 1" using False by linarith+
  have fl: "\<lfloor>- x\<rfloor> = - \<lfloor>x\<rfloor> - 1"
    by (rule floor_unique) (use lt in auto)
  have ev: "even (- \<lfloor>x\<rfloor> - 1) = odd \<lfloor>x\<rfloor>" by simp
  show ?thesis
    unfolding round_half_even_def Let_def fl
    by (auto simp: field_simps)
qed

function ilog :: "int \<Rightarrow> int \<Rightarrow> nat" where
  "ilog b n = (if b \<le> 1 \<or> n < b then 0 else Suc (ilog b (n div b)))"
  by pat_completeness auto
termination
proof (relation "measure (\<lambda>(b, n). nat n)", simp)
  fix b n :: int
  assume "\<not> (b \<le> 1 \<or> n < b)"
  then have "1 < b" "0 < n" by auto
  then have "n div b < n" by (simp add: int_div_less_self)
  with \<open>0 < n\<close> show "((b, n div b), b, n) \<in> measure (\<lambda>(b, n). nat n)" by simp
qed

declare ilog.simps [simp del]

lemma ilog_bounds:
  assumes "1 < b" "0 < n"
  shows "b ^ ilog b n \<le> n \<and> n < b ^ Suc (ilog b n)"
  using assms
proof (induction b n rule: ilog.induct)
  case (1 b n)
  show ?case
  proof (cases "n < b")
    case True
    with 1 show ?thesis by (simp add: ilog.simps [of b n])
  next
    case False
    with 1 have q: "0 < n div b" by (simp add: pos_imp_zdiv_pos_iff)
    let ?k = "ilog b (n div b)"
    have IH: "b ^ ?k \<le> n div b" "n div b < b ^ Suc ?k"
      using 1 False q by auto
    have dm: "n = b * (n div b) + n mod b" "0 \<le> n mod b" "n mod b < b"
      using "1.prems" by simp_all
    have "b * b ^ ?k \<le> b * (n div b)" using IH(1) "1.prems" by simp
    then have lo: "b ^ Suc ?k \<le> n" using dm(1,2) power_Suc [of b ?k] by linarith
    have "b * (n div b + 1) = b * (n div b) + b" by (simp add: distrib_left)
    then have "n < b * (n div b + 1)" using dm by linarith
    also have "\<dots> \<le> b * b ^ Suc ?k" using IH(2) 1 by (simp add: mult_left_mono)
    finally have hi: "n < b ^ Suc (Suc ?k)" by simp
    from False 1 have "ilog b n = Suc ?k" by (subst ilog.simps) auto
    with lo hi show ?thesis by simp
  qed
qed

definition sig_expo :: "int \<Rightarrow> rat \<Rightarrow> int" where
  "sig_expo b x = (let (n, d) = quotient_of \<bar>x\<bar>; e = int (ilog b n) - int (ilog b d) in
     if \<bar>x\<bar> < of_int b powi e then e - 1 else e)"

lemma sig_expo_bounds:
  assumes b: "1 < b" and x: "x \<noteq> 0"
  shows "of_int b powi (sig_expo b x) \<le> \<bar>x\<bar>" "\<bar>x\<bar> < of_int b powi (sig_expo b x + 1)"
proof -
  obtain n d where q: "quotient_of \<bar>x\<bar> = (n, d)" by force
  have d: "0 < d" using quotient_of_denom_pos [OF q] .
  have xe: "\<bar>x\<bar> = of_int n / of_int d" using quotient_of_div [OF q] .
  have n: "0 < n" using x d xe by (metis zero_less_abs_iff zero_less_divide_iff of_int_0_less_iff less_asym)
  then have n0: "0 \<le> n" by simp
  define i where "i = ilog b n"
  define j where "j = ilog b d"
  let ?B = "of_int b :: rat"
  have B: "1 < ?B" using b by simp
  have ni: "?B ^ i \<le> of_int n" "of_int n < ?B ^ Suc i"
    using ilog_bounds [OF b n] unfolding i_def by (metis of_int_le_iff of_int_less_iff of_int_power)+
  have dj: "?B ^ j \<le> of_int d" "of_int d < ?B ^ Suc j"
    using ilog_bounds [OF b d] unfolding j_def by (metis of_int_le_iff of_int_less_iff of_int_power)+
  have pw: "?B powi (int i - int j + 1) = ?B ^ Suc i / ?B ^ j"
    using B by (simp add: power_int_add power_int_diff)
  have pw2: "?B powi (int i - int j - 1) = ?B ^ i / ?B ^ Suc j"
    using B by (simp add: power_int_diff)
  have hi: "\<bar>x\<bar> < ?B powi (int i - int j + 1)"
    unfolding xe pw using ni dj B d n0 by (intro frac_less) auto
  have lo: "?B powi (int i - int j - 1) \<le> \<bar>x\<bar>"
    unfolding xe pw2 using ni dj B d n0 by (intro frac_le) auto
  have e: "sig_expo b x = (if \<bar>x\<bar> < ?B powi (int i - int j) then int i - int j - 1 else int i - int j)"
    by (simp add: sig_expo_def q i_def j_def Let_def)
  show "?B powi (sig_expo b x) \<le> \<bar>x\<bar>" "\<bar>x\<bar> < ?B powi (sig_expo b x + 1)"
    using e lo hi by auto
qed

lemma sig_expo_minus [simp]: "sig_expo b (- x) = sig_expo b x"
  by (simp add: sig_expo_def)

definition round_sig :: "int \<Rightarrow> int \<Rightarrow> rat \<Rightarrow> rat" where
  "round_sig b p x = (if x = 0 then 0 else
     let u = of_int b powi (sig_expo b x - p + 1) in of_int (round_half_even (x / u)) * u)"

lemma round_sig_0 [simp]: "round_sig b p 0 = 0"
  by (simp add: round_sig_def)

lemma round_sig_minus: "round_sig b p (- x) = - round_sig b p x"
  by (simp add: round_sig_def Let_def round_half_even_minus)

lemma powi_pos: "1 < b \<Longrightarrow> 0 < (of_int b :: rat) powi k"
  by (simp add: zero_less_power_int)

lemma powi_le: "1 < b \<Longrightarrow> k \<le> l \<Longrightarrow> (of_int b :: rat) powi k \<le> of_int b powi l"
  by (rule power_int_increasing) auto

lemma round_sig_err:
  assumes b: "1 < b"
  shows "\<bar>round_sig b p x - x\<bar> \<le> \<bar>x\<bar> * of_int b powi (1 - p) / 2"
proof (cases "x = 0")
  case False
  define u where "u = (of_int b :: rat) powi (sig_expo b x - p + 1)"
  have u: "0 < u" unfolding u_def using b by (rule powi_pos)
  have r: "round_sig b p x = of_int (round_half_even (x / u)) * u"
    using False by (simp add: round_sig_def u_def Let_def)
  have "round_sig b p x - x = (of_int (round_half_even (x / u)) - x / u) * u"
    unfolding r using u by (simp add: field_simps)
  then have "\<bar>round_sig b p x - x\<bar> = \<bar>of_int (round_half_even (x / u)) - x / u\<bar> * u"
    using u by (simp add: abs_mult)
  also have "\<dots> \<le> 1/2 * u"
    using u round_half_even_err [of "x / u"] by (intro mult_right_mono) auto
  finally have 1: "\<bar>round_sig b p x - x\<bar> \<le> u / 2" by simp
  have "u = of_int b powi (sig_expo b x) * of_int b powi (1 - p)"
    unfolding u_def using b by (subst power_int_add [symmetric]) (auto simp: algebra_simps)
  also have "\<dots> \<le> \<bar>x\<bar> * of_int b powi (1 - p)"
    using sig_expo_bounds(1) [OF b False] b by (intro mult_right_mono) (auto simp: powi_pos less_imp_le)
  finally show ?thesis using 1 by simp
qed simp

text \<open>A value with at most \<open>p\<close> significant digits is a fixed point of the rounding.\<close>

definition representable :: "int \<Rightarrow> int \<Rightarrow> rat \<Rightarrow> bool" where
  "representable b p x \<longleftrightarrow> (\<exists>m k. x = of_int m * of_int b powi k \<and> \<bar>m\<bar> \<le> b ^ nat p)"

lemma powi_diff_int:
  assumes "1 < b" "l \<le> k"
  shows "(of_int b :: rat) powi k = of_int (b ^ nat (k - l)) * of_int b powi l"
proof -
  have "(of_int b :: rat) powi k = of_int b powi (k - l) * of_int b powi l"
    using assms by (subst power_int_add [symmetric]) auto
  also have "(of_int b :: rat) powi (k - l) = of_int b ^ nat (k - l)"
    using assms by (simp add: power_int_def)
  finally show ?thesis by simp
qed

lemma round_sig_grid:
  assumes b: "1 < b" and x: "x = of_int m * of_int b powi k" and k: "sig_expo b x - p + 1 \<le> k"
  shows "round_sig b p x = x"
proof (cases "x = 0")
  case False
  define l where "l = sig_expo b x - p + 1"
  have "x = of_int (m * b ^ nat (k - l)) * of_int b powi l"
    using powi_diff_int [OF b k] unfolding x l_def by simp
  then have "x / of_int b powi l = of_int (m * b ^ nat (k - l))"
    using powi_pos [OF b, of l] by (metis less_numeral_extra(3) nonzero_mult_div_cancel_right)
  then have "of_int (round_half_even (x / of_int b powi l)) * of_int b powi l = x"
    using \<open>x = of_int (m * b ^ nat (k - l)) * of_int b powi l\<close> by (metis round_half_even_of_int)
  then show ?thesis using False by (simp add: round_sig_def Let_def l_def)
qed simp

lemma powi_less_imp: "1 < b \<Longrightarrow> (of_int b :: rat) powi k < of_int b powi l \<Longrightarrow> k < l"
  by (metis linorder_not_le powi_le)

lemma round_sig_exact:
  assumes b: "1 < b" and p: "1 \<le> p" and r: "representable b p x"
  shows "round_sig b p x = x"
proof (cases "x = 0")
  case False
  from r obtain m k where x: "x = of_int m * of_int b powi k" and m: "\<bar>m\<bar> \<le> b ^ nat p"
    by (auto simp: representable_def)
  have pw: "(of_int b :: rat) ^ nat p = of_int b powi p" using p by (simp add: power_int_def)
  have "\<bar>x\<bar> = of_int \<bar>m\<bar> * of_int b powi k"
    unfolding x using powi_pos [OF b, of k] by (simp add: abs_mult)
  also have "\<dots> \<le> of_int b powi p * of_int b powi k"
    using m pw powi_pos [OF b, of k] by (metis less_imp_le mult_right_mono of_int_le_iff of_int_power)
  also have "\<dots> = of_int b powi (p + k)" using b by (subst power_int_add) auto
  finally have le: "\<bar>x\<bar> \<le> of_int b powi (p + k)" .
  show ?thesis
  proof (cases "\<bar>x\<bar> = of_int b powi (p + k)")
    case True
    have "(of_int b :: rat) powi (p + k) < of_int b powi (p + k + 1)"
      using b by (intro power_int_strict_increasing) auto
    then have "sig_expo b x < p + k + 1"
      using sig_expo_bounds(1) [OF b False] True powi_less_imp [OF b, of "sig_expo b x" "p + k + 1"]
      by linarith
    then have "sig_expo b x - p + 1 \<le> p + k" using p by linarith
    moreover have "x = of_int (if 0 < x then 1 else - 1) * of_int b powi (p + k)"
      using True False by auto
    ultimately show ?thesis using round_sig_grid [OF b] by blast
  next
    case False
    then have "\<bar>x\<bar> < of_int b powi (p + k)" using le by simp
    then have "of_int b powi (sig_expo b x) < (of_int b :: rat) powi (p + k)"
      using sig_expo_bounds(1) [OF b \<open>x \<noteq> 0\<close>] by linarith
    then have "sig_expo b x < p + k" by (rule powi_less_imp [OF b])
    then show ?thesis using round_sig_grid [OF b x] by simp
  qed
qed simp

lemma round_sig_bracket:
  assumes b: "1 < b" and p: "1 \<le> p" and x: "0 < x"
  shows "of_int b powi (sig_expo b x) \<le> round_sig b p x" "round_sig b p x \<le> of_int b powi (sig_expo b x + 1)"
proof -
  define e where "e = sig_expo b x"
  define u where "u = (of_int b :: rat) powi (e - p + 1)"
  have u: "0 < u" unfolding u_def using b by (rule powi_pos)
  have r: "round_sig b p x = of_int (round_half_even (x / u)) * u"
    using x by (simp add: round_sig_def u_def e_def Let_def)
  have lo: "of_int b powi e = of_int (b ^ nat (p - 1)) * u"
    using powi_diff_int [OF b, of "e - p + 1" e] p by (simp add: u_def)
  have hi: "of_int b powi (e + 1) = of_int (b ^ nat p) * u"
    using powi_diff_int [OF b, of "e - p + 1" "e + 1"] p by (simp add: u_def)
  have bnd: "of_int b powi e \<le> x" "x \<le> of_int b powi (e + 1)"
    using sig_expo_bounds [OF b, of x] x unfolding e_def by auto
  have "of_int (b ^ nat (p - 1)) \<le> x / u" using bnd(1) lo u by (simp add: pos_le_divide_eq)
  then have "b ^ nat (p - 1) \<le> round_half_even (x / u)"
    using round_half_even_mono round_half_even_of_int by metis
  then show "of_int b powi (sig_expo b x) \<le> round_sig b p x"
    unfolding r e_def [symmetric] lo using u
    by (metis less_imp_le mult_right_mono of_int_le_iff)
  have "x / u \<le> of_int (b ^ nat p)" using bnd(2) hi u by (simp add: pos_divide_le_eq)
  then have "round_half_even (x / u) \<le> b ^ nat p"
    using round_half_even_mono round_half_even_of_int by metis
  then show "round_sig b p x \<le> of_int b powi (sig_expo b x + 1)"
    unfolding r e_def [symmetric] hi using u
    by (metis less_imp_le mult_right_mono of_int_le_iff)
qed

lemma sig_expo_mono:
  assumes b: "1 < b" and x: "0 < x" and xy: "x \<le> y"
  shows "sig_expo b x \<le> sig_expo b y"
proof -
  have "of_int b powi (sig_expo b x) \<le> x" "y < of_int b powi (sig_expo b y + 1)"
    using sig_expo_bounds [OF b, of x] sig_expo_bounds [OF b, of y] x xy by auto
  then have "(of_int b :: rat) powi (sig_expo b x) < of_int b powi (sig_expo b y + 1)"
    using xy by linarith
  then show ?thesis using powi_less_imp [OF b] by fastforce
qed

lemma round_sig_mono_pos:
  assumes b: "1 < b" and p: "1 \<le> p" and x: "0 < x" and xy: "x \<le> y"
  shows "round_sig b p x \<le> round_sig b p y"
proof (cases "sig_expo b x = sig_expo b y")
  case True
  define u where "u = (of_int b :: rat) powi (sig_expo b x - p + 1)"
  have u: "0 < u" unfolding u_def using b by (rule powi_pos)
  have "x / u \<le> y / u" using xy u by (simp add: divide_right_mono)
  then have "round_half_even (x / u) \<le> round_half_even (y / u)" by (rule round_half_even_mono)
  then show ?thesis
    using x xy u True by (simp add: round_sig_def u_def [symmetric] Let_def True [symmetric])
next
  case False
  then have "sig_expo b x + 1 \<le> sig_expo b y" using sig_expo_mono [OF b x xy] by simp
  then have "(of_int b :: rat) powi (sig_expo b x + 1) \<le> of_int b powi (sig_expo b y)"
    by (rule powi_le [OF b])
  then show ?thesis
    using round_sig_bracket(2) [OF b p x] round_sig_bracket(1) [OF b p, of y] x xy by linarith
qed

lemma round_sig_pos: "1 < b \<Longrightarrow> 1 \<le> p \<Longrightarrow> 0 < x \<Longrightarrow> 0 < round_sig b p x"
  using round_sig_bracket(1) [of b p x] powi_pos [of b "sig_expo b x"] by linarith

lemma round_sig_mono:
  assumes b: "1 < b" and p: "1 \<le> p" and xy: "x \<le> y"
  shows "round_sig b p x \<le> round_sig b p y"
proof -
  consider "0 < x" | "x \<le> 0" "0 \<le> y" | "y < 0" by linarith
  then show ?thesis
  proof cases
    case 1
    then show ?thesis by (rule round_sig_mono_pos [OF b p _ xy])
  next
    case 2
    have "round_sig b p x \<le> 0"
      using 2 round_sig_pos [OF b p, of "- x"] by (cases "x = 0") (auto simp: round_sig_minus)
    moreover have "0 \<le> round_sig b p y"
      using 2 round_sig_pos [OF b p, of y] by (cases "y = 0") auto
    ultimately show ?thesis by linarith
  next
    case 3
    then show ?thesis
      using round_sig_mono_pos [OF b p, of "- y" "- x"] xy by (simp add: round_sig_minus)
  qed
qed

lemma representable_round_sig:
  assumes b: "1 < b" and p: "1 \<le> p"
  shows "representable b p (round_sig b p x)"
proof (cases "x = 0")
  case True
  then show ?thesis using b by (auto simp: representable_def intro!: exI [of _ 0])
next
  case False
  define u where "u = (of_int b :: rat) powi (sig_expo b x - p + 1)"
  have u: "0 < u" unfolding u_def using b by (rule powi_pos)
  let ?m = "round_half_even (x / u)"
  have r: "round_sig b p x = of_int ?m * u" using False by (simp add: round_sig_def u_def Let_def)
  have hi: "of_int b powi (sig_expo b x + 1) = of_int (b ^ nat p) * u"
    using powi_diff_int [OF b, of "sig_expo b x - p + 1" "sig_expo b x + 1"] p by (simp add: u_def)
  have "\<bar>x\<bar> < of_int b powi (sig_expo b x + 1)" by (rule sig_expo_bounds(2) [OF b False])
  then have "\<bar>x\<bar> / u \<le> of_int (b ^ nat p)" using hi u by (simp add: pos_divide_le_eq)
  then have "x / u \<le> of_int (b ^ nat p)" "of_int (- (b ^ nat p)) \<le> x / u"
    using u by (auto simp: abs_le_iff pos_divide_le_eq pos_le_divide_eq)
  then have "?m \<le> b ^ nat p" "- (b ^ nat p) \<le> ?m"
    using round_half_even_mono round_half_even_of_int by metis+
  then show ?thesis unfolding representable_def r u_def by (intro exI [of _ ?m] exI) (auto simp: u_def)
qed

section \<open>The interface of a correctly rounded arithmetic\<close>

text \<open>
  What the components rely on: rounding is monotone, odd, exact on its own results, and off
  by at most the relative error \<open>eps\<close>.
\<close>

locale rounding =
  fixes rnd :: "rat \<Rightarrow> rat" and eps :: rat
  assumes rnd_mono: "x \<le> y \<Longrightarrow> rnd x \<le> rnd y"
    and rnd_minus: "rnd (- x) = - rnd x"
    and rnd_idem: "rnd (rnd x) = rnd x"
    and rnd_err: "\<bar>rnd x - x\<bar> \<le> \<bar>x\<bar> * eps"
    and eps_small: "0 < eps" "eps < 1"
begin

lemma rnd_zero: "rnd 0 = 0"
  using rnd_minus [of 0] by simp

lemma rnd_nonneg: "0 \<le> x \<Longrightarrow> 0 \<le> rnd x"
  using rnd_mono [of 0 x] rnd_zero by simp

lemma rnd_nonpos: "x \<le> 0 \<Longrightarrow> rnd x \<le> 0"
  using rnd_mono [of x 0] rnd_zero by simp

lemma rnd_abs: "rnd \<bar>x\<bar> = \<bar>rnd x\<bar>"
  using rnd_nonneg [of x] rnd_nonpos [of x] rnd_minus [of x] by (cases "0 \<le> x") auto

lemma rnd_upper: "0 \<le> x \<Longrightarrow> rnd x \<le> x * (1 + eps)"
  using rnd_err [of x] by (auto simp: algebra_simps abs_le_iff)

lemma rnd_lower: "0 \<le> x \<Longrightarrow> x * (1 - eps) \<le> rnd x"
  using rnd_err [of x] by (auto simp: algebra_simps abs_le_iff)

lemma rnd_pos: "0 < x \<Longrightarrow> 0 < rnd x"
proof -
  assume x: "0 < x"
  then have "0 < x * (1 - eps)" using eps_small by simp
  then show ?thesis using rnd_lower [of x] x by linarith
qed

lemma rnd_pos_iff: "0 < rnd x \<longleftrightarrow> 0 < x"
  using rnd_pos [of x] rnd_nonpos [of x] by (meson linorder_not_le)

lemma rnd_nonneg_iff: "0 \<le> rnd x \<longleftrightarrow> 0 \<le> x"
  using rnd_pos_iff [of "- x"] rnd_minus [of x] by (simp add: not_less [symmetric])

lemma rnd_zero_iff: "rnd x = 0 \<longleftrightarrow> x = 0"
  using rnd_pos_iff [of x] rnd_nonneg_iff [of x] rnd_zero by (cases x "0 :: rat" rule: linorder_cases) auto

lemma rnd_le_fixed: "x \<le> y \<Longrightarrow> rnd y = y \<Longrightarrow> rnd x \<le> y"
  using rnd_mono [of x y] by simp

lemma rnd_ge_fixed: "x \<le> y \<Longrightarrow> rnd x = x \<Longrightarrow> x \<le> rnd y"
  using rnd_mono [of x y] by simp

text \<open>The triangle inequality survives rounding.\<close>

lemma rnd_triangle: "\<bar>rnd (x + y)\<bar> \<le> rnd (\<bar>x\<bar> + \<bar>y\<bar>)"
  using rnd_mono [of "\<bar>x + y\<bar>" "\<bar>x\<bar> + \<bar>y\<bar>"] rnd_abs [of "x + y"] by (simp add: abs_triangle_ineq)

end

lemma rounding_round_sig:
  assumes b: "1 < b" and p: "1 < p"
  shows "rounding (round_sig b p) (of_int b powi (1 - p))"
proof
  show "round_sig b p x \<le> round_sig b p y" if "x \<le> y" for x y
    using that b p by (intro round_sig_mono) auto
  show "round_sig b p (- x) = - round_sig b p x" for x by (rule round_sig_minus)
  show "round_sig b p (round_sig b p x) = round_sig b p x" for x
    using b p by (intro round_sig_exact representable_round_sig) auto
  show "\<bar>round_sig b p x - x\<bar> \<le> \<bar>x\<bar> * of_int b powi (1 - p)" for x
  proof -
    have "0 \<le> \<bar>x\<bar> * of_int b powi (1 - p)" using powi_pos [OF b, of "1 - p"] by simp
    then show ?thesis using round_sig_err [OF b, of p x] by linarith
  qed
  show "0 < (of_int b :: rat) powi (1 - p)" by (rule powi_pos [OF b])
  show "(of_int b :: rat) powi (1 - p) < 1"
    using b p power_int_strict_increasing [of "1 - p" 0 "of_int b :: rat"] by simp
qed

section \<open>Decimals\<close>

type_synonym dec = rat

text \<open>The default context: 28 significant digits; \<open>quantize\<close> works in a local one of 34.\<close>

definition dround :: "rat \<Rightarrow> dec" where
  "dround = round_sig 10 28"

definition dround34 :: "rat \<Rightarrow> dec" where
  "dround34 = round_sig 10 34"

text \<open>The largest relative error of one operation in each context.\<close>

definition deps :: rat where
  "deps = 1 / 10 ^ 27"

definition deps34 :: rat where
  "deps34 = 1 / 10 ^ 33"

definition dadd :: "dec \<Rightarrow> dec \<Rightarrow> dec" where "dadd x y = dround (x + y)"
definition dsub :: "dec \<Rightarrow> dec \<Rightarrow> dec" where "dsub x y = dround (x - y)"
definition dmul :: "dec \<Rightarrow> dec \<Rightarrow> dec" where "dmul x y = dround (x * y)"
definition ddiv :: "dec \<Rightarrow> dec \<Rightarrow> dec" where "ddiv x y = dround (x / y)"
definition dabs :: "dec \<Rightarrow> dec" where "dabs x = dround \<bar>x\<bar>"
definition dneg :: "dec \<Rightarrow> dec" where "dneg x = dround (- x)"

text \<open>\<open>sum(xs, ZERO)\<close>: rounded at every addition, from the left.\<close>

definition dsum :: "dec list \<Rightarrow> dec" where
  "dsum xs = foldl dadd 0 xs"

text \<open>A Python truth test on a decimal: \<open>x or y\<close>.\<close>

definition dor :: "dec \<Rightarrow> dec \<Rightarrow> dec" where
  "dor x y = (if x = 0 then y else x)"

lemma powi_eps: "(of_int 10 :: rat) powi (1 - 28) = deps" "(of_int 10 :: rat) powi (1 - 34) = deps34"
  by (simp_all add: deps_def deps34_def power_int_minus field_simps)

interpretation D: rounding dround deps
  using rounding_round_sig [of 10 28] unfolding dround_def powi_eps by simp

interpretation D34: rounding dround34 deps34
  using rounding_round_sig [of 10 34] unfolding dround34_def powi_eps by simp

text \<open>
  For evaluation: a number with few decimals is representable, and rounding it is the identity.
\<close>

lemma round_sig_frac:
  assumes d0: "0 < d" and d: "10 ^ j mod d = 0" and n: "\<bar>n\<bar> * (10 ^ j div d) \<le> 10 ^ nat p"
    and p: "1 \<le> p"
  shows "round_sig 10 p (of_int n / of_int d) = of_int n / of_int d"
proof -
  have e: "(10 :: int) ^ j = d * (10 ^ j div d)" using d by (simp add: mod_eq_0_iff_dvd)
  then have "(10 :: rat) ^ j = of_int d * of_int (10 ^ j div d)" by (metis of_int_mult of_int_numeral of_int_power)
  then have "1 / of_int d = of_int (10 ^ j div d) / (10 :: rat) ^ j"
    using d0 by (subst frac_eq_eq) (auto simp: mult.commute)
  then have "of_int n * (1 / of_int d) = of_int n * (of_int (10 ^ j div d) / (10 :: rat) ^ j)" by (rule arg_cong)
  then have "of_int n / of_int d = of_int (n * (10 ^ j div d)) * (of_int 10 :: rat) powi (- int j)"
    by (simp add: power_int_minus divide_inverse mult.assoc)
  moreover have "\<bar>n * (10 ^ j div d)\<bar> \<le> 10 ^ nat p"
    using n d0 by (simp add: abs_mult pos_imp_zdiv_nonneg_iff)
  ultimately have "representable 10 p (of_int n / of_int d :: rat)" unfolding representable_def by metis
  then show ?thesis using p by (intro round_sig_exact) auto
qed

lemma round_sig_short:
  assumes "quotient_of x = (n, d)" "10 ^ j mod d = 0" "\<bar>n\<bar> * (10 ^ j div d) \<le> 10 ^ nat p" "1 \<le> p"
  shows "round_sig 10 p x = x"
  unfolding quotient_of_div [OF assms(1)]
  by (rule round_sig_frac [OF quotient_of_denom_pos [OF assms(1)] assms(2-4)])

text \<open>Literals with few digits, for the simplifier.\<close>

definition short_dec :: "int \<Rightarrow> int \<Rightarrow> bool" where
  "short_dec m n \<longleftrightarrow> 0 < n \<and> 100000000000000000000 mod n = 0
     \<and> \<bar>m\<bar> * (100000000000000000000 div n) \<le> 10000000000000000000000000000"

lemma dround_short:
  assumes "short_dec m n"
  shows "dround (of_int m / of_int n) = of_int m / of_int n"
  unfolding dround_def using assms round_sig_frac [of n 20 m 28] by (simp add: short_dec_def)

lemma dround34_short:
  assumes "short_dec m n"
  shows "dround34 (of_int m / of_int n) = of_int m / of_int n"
proof -
  have "\<bar>m\<bar> * (10 ^ 20 div n) \<le> 10 ^ nat 34" using assms by (simp add: short_dec_def)
  then show ?thesis
    unfolding dround34_def using assms round_sig_frac [of n 20 m 34] by (simp add: short_dec_def)
qed

lemma rounded_literals:
  "short_dec (numeral m) 1 \<Longrightarrow> dround (numeral m) = numeral m"
  "short_dec (- numeral m) 1 \<Longrightarrow> dround (- numeral m) = - numeral m"
  "short_dec 1 (numeral n) \<Longrightarrow> dround (1 / numeral n) = 1 / numeral n"
  "short_dec (- 1) (numeral n) \<Longrightarrow> dround (- (1 / numeral n)) = - (1 / numeral n)"
  "short_dec (numeral m) (numeral n) \<Longrightarrow> dround (numeral m / numeral n) = numeral m / numeral n"
  "short_dec (- numeral m) (numeral n) \<Longrightarrow> dround (- (numeral m / numeral n)) = - (numeral m / numeral n)"
  "short_dec 1 1 \<Longrightarrow> dround (- 1) = - 1"
  "short_dec (numeral m) 1 \<Longrightarrow> dround34 (numeral m) = numeral m"
  "short_dec 1 (numeral n) \<Longrightarrow> dround34 (1 / numeral n) = 1 / numeral n"
  "short_dec (numeral m) (numeral n) \<Longrightarrow> dround34 (numeral m / numeral n) = numeral m / numeral n"
  using dround_short [of "numeral m" 1] dround_short [of "- numeral m" 1] dround_short [of 1 1]
    dround_short [of 1 "numeral n"] dround_short [of "- 1" "numeral n"]
    dround_short [of "numeral m" "numeral n"] dround_short [of "- numeral m" "numeral n"]
    dround34_short [of "numeral m" 1] dround34_short [of 1 "numeral n"] dround34_short [of "numeral m" "numeral n"]
  by (simp_all add: D.rnd_minus)

lemma dround_code [code]:
  "dround x = (let (n, d) = quotient_of x in
     if 100000000000000000000 mod d = 0
        \<and> \<bar>n\<bar> * (100000000000000000000 div d) \<le> 10000000000000000000000000000
     then x else round_sig 10 28 x)"
  using round_sig_short [of x _ _ 20 28] by (auto simp: dround_def split: prod.splits)

lemma dround34_code [code]:
  "dround34 x = (let (n, d) = quotient_of x in
     if 100000000000000000000 mod d = 0
        \<and> \<bar>n\<bar> * (100000000000000000000 div d) \<le> 10000000000000000000000000000000000
     then x else round_sig 10 34 x)"
  using round_sig_short [of x _ _ 20 34] by (auto simp: dround34_def split: prod.splits)

lemmas dec_ops = dadd_def dsub_def dmul_def ddiv_def dabs_def dneg_def

lemmas decimal_eval = dec_ops rounded_literals short_dec_def

lemma dround_fixed_ops [simp]:
  "dround (dadd x y) = dadd x y" "dround (dsub x y) = dsub x y" "dround (dmul x y) = dmul x y"
  "dround (ddiv x y) = ddiv x y" "dround (dabs x) = dabs x" "dround (dneg x) = dneg x"
  by (simp_all add: dec_ops D.rnd_idem)

lemma dround_0 [simp]: "dround 0 = 0"
  by (rule D.rnd_zero)

lemma dmul_pos [rounding_rules]: "0 < x \<Longrightarrow> 0 < y \<Longrightarrow> 0 < dmul x y"
  by (simp add: dmul_def D.rnd_pos)

lemma ddiv_pos [rounding_rules]: "0 < x \<Longrightarrow> 0 < y \<Longrightarrow> 0 < ddiv x y"
  by (simp add: ddiv_def D.rnd_pos)

lemma dadd_pos [rounding_rules]: "0 < x \<Longrightarrow> 0 \<le> y \<Longrightarrow> 0 < dadd x y"
  by (simp add: dadd_def D.rnd_pos)

lemma dmul_nonneg [rounding_rules]: "0 \<le> x \<Longrightarrow> 0 \<le> y \<Longrightarrow> 0 \<le> dmul x y"
  by (simp add: dmul_def D.rnd_nonneg)

lemma ddiv_nonneg [rounding_rules]: "0 \<le> x \<Longrightarrow> 0 \<le> y \<Longrightarrow> 0 \<le> ddiv x y"
  by (simp add: ddiv_def D.rnd_nonneg)

lemma dadd_nonneg [rounding_rules]: "0 \<le> x \<Longrightarrow> 0 \<le> y \<Longrightarrow> 0 \<le> dadd x y"
  by (simp add: dadd_def D.rnd_nonneg)

lemma dabs_nonneg [simp]: "0 \<le> dabs x"
  by (simp add: dabs_def D.rnd_nonneg)

lemma dabs_pos_iff [simp]: "0 < dabs x \<longleftrightarrow> x \<noteq> 0"
  by (simp add: dabs_def D.rnd_pos_iff)

lemma dabs_nonpos_iff [simp]: "dabs x \<le> 0 \<longleftrightarrow> x = 0"
  using dabs_pos_iff [of x] by linarith

lemma dsub_pos_iff: "0 < dsub x y \<longleftrightarrow> y < x"
  by (simp add: dsub_def D.rnd_pos_iff)

lemma dsub_zero_iff: "dsub x y = 0 \<longleftrightarrow> x = y"
  by (simp add: dsub_def D.rnd_zero_iff)

lemma dabs_dsub_pos_iff: "0 < dabs (dsub x y) \<longleftrightarrow> x \<noteq> y"
  by (simp add: dsub_zero_iff)

text \<open>Multiplying by a factor of at most one never makes a decimal larger.\<close>

lemma dmul_le_fixed: "0 \<le> x \<Longrightarrow> y \<le> 1 \<Longrightarrow> dround x = x \<Longrightarrow> dmul x y \<le> x"
  unfolding dmul_def by (rule D.rnd_le_fixed) (simp_all add: mult_left_le)

lemma dmul_mono: "0 \<le> c \<Longrightarrow> x \<le> y \<Longrightarrow> dmul c x \<le> dmul c y"
  unfolding dmul_def by (rule D.rnd_mono) (rule mult_left_mono)

lemma ddiv_mono: "0 \<le> c \<Longrightarrow> x \<le> y \<Longrightarrow> ddiv x c \<le> ddiv y c"
  unfolding ddiv_def by (rule D.rnd_mono) (rule divide_right_mono)

lemma dadd_mono: "x \<le> x' \<Longrightarrow> y \<le> y' \<Longrightarrow> dadd x y \<le> dadd x' y'"
  unfolding dadd_def by (rule D.rnd_mono) simp

lemma dround_1 [simp]: "dround 1 = 1"
  by code_simp

lemma ddiv_self: "x \<noteq> 0 \<Longrightarrow> ddiv x x = 1"
  by (simp add: ddiv_def)

section \<open>Doubles\<close>

type_synonym pyfloat = rat

definition fround :: "rat \<Rightarrow> pyfloat" where
  "fround = round_sig 2 53"

definition feps :: rat where
  "feps = 1 / 2 ^ 52"

interpretation F: rounding fround feps
proof -
  have "(of_int 2 :: rat) powi (1 - 53) = feps" "1 < (2 :: int)" "1 < (53 :: int)"
    by (simp_all add: feps_def power_int_minus field_simps)
  then show "rounding fround feps"
    using rounding_round_sig [of 2 53] unfolding fround_def by metis
qed

text \<open>\<open>a / b\<close> on Python numbers converted to doubles: both operands are rounded first.\<close>

definition fdiv :: "rat \<Rightarrow> rat \<Rightarrow> pyfloat" where
  "fdiv x y = fround (fround x / fround y)"

section \<open>Dictionaries\<close>

type_synonym ('k, 'v) dict = "('k \<times> 'v) list"

abbreviation dget :: "('k, 'v) dict \<Rightarrow> 'k \<Rightarrow> 'v option" where
  "dget d k \<equiv> map_of d k"

definition dget_default :: "('k, 'v) dict \<Rightarrow> 'k \<Rightarrow> 'v \<Rightarrow> 'v" where
  "dget_default d k v = (case dget d k of None \<Rightarrow> v | Some w \<Rightarrow> w)"

abbreviation dset :: "('k, 'v) dict \<Rightarrow> 'k \<Rightarrow> 'v \<Rightarrow> ('k, 'v) dict" where
  "dset d k v \<equiv> AList.update k v d"

abbreviation dpop :: "('k, 'v) dict \<Rightarrow> 'k \<Rightarrow> ('k, 'v) dict" where
  "dpop d k \<equiv> AList.delete k d"

abbreviation dvalues :: "('k, 'v) dict \<Rightarrow> 'v list" where
  "dvalues d \<equiv> map snd d"

abbreviation dmem :: "('k, 'v) dict \<Rightarrow> 'k \<Rightarrow> bool" where
  "dmem d k \<equiv> k \<in> set (map fst d)"

lemma dget_dset [simp]: "dget (dset d k v) k' = (if k' = k then Some v else dget d k')"
  by (simp add: update_conv')

lemma dget_dpop [simp]: "dget (dpop d k) k' = (if k' = k then None else dget d k')"
  by (simp add: delete_conv')

lemma dget_None_iff: "dget d k = None \<longleftrightarrow> \<not> dmem d k"
  by (induction d) auto

section \<open>Runs and refinement\<close>

text \<open>Steps that may raise, one after the other.\<close>

fun res_run :: "('x \<Rightarrow> 's \<Rightarrow> 's res) \<Rightarrow> 'x list \<Rightarrow> 's \<Rightarrow> 's res" where
  "res_run step [] s = Inr s"
| "res_run step (x # xs) s = res_bind (step x s) (res_run step xs)"

text \<open>
  A functional refinement: on the concrete image of an abstract state every step returns the image
  of the abstract step. Runs then never raise and end in the image of the abstract run.
\<close>

locale refinement =
  fixes cstep :: "'x \<Rightarrow> 'c \<Rightarrow> 'c res"
    and astep :: "'x \<Rightarrow> 'a \<Rightarrow> 'a"
    and conc :: "'a \<Rightarrow> 'c"
  assumes simulates: "cstep x (conc a) = Inr (conc (astep x a))"
begin

lemma run_simulates: "res_run cstep xs (conc a) = Inr (conc (foldl (\<lambda>a x. astep x a) a xs))"
  by (induction xs arbitrary: a) (simp_all add: simulates)

end

end
