(* ===== verification/Civil.thy ===== *)
theory Civil
  imports Prelude
begin

text \<open>
  Civil time: the part of Python's \<open>datetime\<close> the program uses, and the zone rules of
  \<open>src/sentinel/core/tzrules.py\<close>.

  A \<open>date\<close> is its proleptic Gregorian ordinal (\<open>date.toordinal()\<close>, day 1 is 0001-01-01), a
  naive \<open>datetime\<close> the number of microseconds \<open>ordinal * 86400000000 + time of day\<close>, so that
  comparison and the addition of a \<open>timedelta\<close> are those of the integers. \<open>ymd2ord\<close> and
  \<open>ord2year\<close> are CPython's \<open>_ymd2ord\<close> and the year of \<open>_ord2ymd\<close>.
\<close>

section \<open>Dates\<close>

definition is_leap :: "int \<Rightarrow> bool" where
  "is_leap y \<longleftrightarrow> y mod 4 = 0 \<and> (y mod 100 \<noteq> 0 \<or> y mod 400 = 0)"

definition days_before_year :: "int \<Rightarrow> int" where
  "days_before_year y = (y - 1) * 365 + (y - 1) div 4 - (y - 1) div 100 + (y - 1) div 400"

definition days_before_month :: "int \<Rightarrow> int \<Rightarrow> int" where
  "days_before_month y m =
     [0, 0, 31, 59, 90, 120, 151, 181, 212, 243, 273, 304, 334] ! nat m
     + (if 2 < m \<and> is_leap y then 1 else 0)"

definition ymd2ord :: "int \<Rightarrow> int \<Rightarrow> int \<Rightarrow> int" where
  "ymd2ord y m d = days_before_year y + days_before_month y m + d"

definition weekday :: "int \<Rightarrow> int" where
  "weekday n = (n + 6) mod 7"

definition ord2year :: "int \<Rightarrow> int" where
  "ord2year n0 =
     (let n = n0 - 1;
          n400 = n div 146097; n = n mod 146097;
          n100 = n div 36524; n = n mod 36524;
          n4 = n div 1461; n = n mod 1461;
          n1 = n div 365;
          y = n400 * 400 + 1 + n100 * 100 + n4 * 4 + n1
      in if n1 = 4 \<or> n100 = 4 then y - 1 else y)"

definition yday :: "int \<Rightarrow> int" where
  "yday n = n - days_before_year (ord2year n)"

text \<open>\<open>isocalendar\<close> and the month of an ordinal, as in CPython.\<close>

definition iso_week1_monday :: "int \<Rightarrow> int" where
  "iso_week1_monday y =
     (let first = ymd2ord y 1 1; wd = (first + 6) mod 7; m = first - wd in if 3 < wd then m + 7 else m)"

definition iso_week :: "int \<Rightarrow> int \<times> int" where
  "iso_week n =
     (let y = ord2year n; week = (n - iso_week1_monday y) div 7 in
      if week < 0 then (y - 1, (n - iso_week1_monday (y - 1)) div 7 + 1)
      else if 52 \<le> week \<and> iso_week1_monday (y + 1) \<le> n then (y + 1, 1)
      else (y, week + 1))"

definition ord2month :: "int \<Rightarrow> int" where
  "ord2month n = int (length (filter (\<lambda>m. days_before_month (ord2year n) m < yday n) [1, 2, 3, 4, 5, 6, 7, 8, 9, 10, 11, 12]))"

definition ord2day :: "int \<Rightarrow> int" where
  "ord2day n = yday n - days_before_month (ord2year n) (ord2month n)"

definition days_in_month :: "int \<Rightarrow> int \<Rightarrow> int" where
  "days_in_month y m =
     (if m = 2 \<and> is_leap y then 29 else [0, 31, 28, 31, 30, 31, 30, 31, 31, 30, 31, 30, 31] ! nat m)"

section \<open>Naive datetimes\<close>

abbreviation hour_us :: int where "hour_us \<equiv> 3600000000"
abbreviation day_us :: int where "day_us \<equiv> 86400000000"

definition dt_date :: "int \<Rightarrow> int" where
  "dt_date t = t div day_us"

definition dt_hour :: "int \<Rightarrow> int" where
  "dt_hour t = t mod day_us div hour_us"

definition dt_minute :: "int \<Rightarrow> int" where
  "dt_minute t = t mod hour_us div 60000000"

definition dt_year :: "int \<Rightarrow> int" where
  "dt_year t = ord2year (dt_date t)"

text \<open>
  \<open>datetime.fromtimestamp(ns / 1e9, tz=timezone.utc)\<close>: the integer is divided as a double, the
  double is split into its integral and fractional seconds, and the fraction is rounded
  half-even to microseconds. 719163 is the ordinal of 1970-01-01.
\<close>

definition trunc_rat :: "rat \<Rightarrow> int" where
  "trunc_rat x = (if 0 \<le> x then \<lfloor>x\<rfloor> else \<lceil>x\<rceil>)"

definition from_timestamp_ns :: "int \<Rightarrow> int" where
  "from_timestamp_ns ns =
     (let t = fdiv (of_int ns) 1000000000; i = trunc_rat t;
          us = round_half_even (fround ((t - of_int i) * 1000000))
      in 719163 * day_us + i * 1000000 + us)"

section \<open>Zone rules\<close>

definition nth_weekday :: "int \<Rightarrow> int \<Rightarrow> int \<Rightarrow> int \<Rightarrow> int" where
  "nth_weekday y m w n =
     (let first = ymd2ord y m 1; offset = (w - weekday first) mod 7
      in ymd2ord y m (1 + offset + (n - 1) * 7))"

definition last_weekday :: "int \<Rightarrow> int \<Rightarrow> int \<Rightarrow> int" where
  "last_weekday y m w =
     (let nxt = (if m = 12 then ymd2ord (y + 1) 1 1 else ymd2ord y (m + 1) 1);
          last = nxt - 1
      in last - (weekday last - w) mod 7)"

definition us_dst :: "int \<Rightarrow> bool" where
  "us_dst t =
     (let y = dt_year t; start = nth_weekday y 3 6 2; stop = nth_weekday y 11 6 1; today = dt_date t
      in if today < start \<or> stop < today then False
         else if start < today \<and> today < stop then True
         else if today = start then 2 \<le> dt_hour t
         else dt_hour t < 2)"

definition us_dst_bounds_utc :: "int \<Rightarrow> int \<times> int" where
  "us_dst_bounds_utc y =
     (nth_weekday y 3 6 2 * day_us + 7 * hour_us, nth_weekday y 11 6 1 * day_us + 6 * hour_us)"

definition eu_dst :: "int \<Rightarrow> bool" where
  "eu_dst t =
     (let y = dt_year t; start = last_weekday y 3 6; stop = last_weekday y 10 6; today = dt_date t
      in if today < start \<or> stop < today then False
         else if start < today \<and> today < stop then True
         else if today = start then 2 \<le> dt_hour t
         else dt_hour t < 2)"

datatype dst_regime = DstUs | DstEu | DstNone

definition zone_base :: "string \<Rightarrow> (int \<times> dst_regime) option" where
  "zone_base z =
     map_of [(''America/New_York'', (-5, DstUs)), (''Europe/Frankfurt'', (1, DstEu)),
             (''Europe/London'', (0, DstEu)), (''Asia/Tokyo'', (9, DstNone)),
             (''UTC'', (0, DstNone))] z"

definition utc_offset_hours :: "string \<Rightarrow> int \<Rightarrow> int res" where
  "utc_offset_hours z t =
     (case zone_base z of
        None \<Rightarrow> Inl ValueError
      | Some (base, DstUs) \<Rightarrow> Inr (base + (if us_dst t then 1 else 0))
      | Some (base, DstEu) \<Rightarrow> Inr (base + (if eu_dst t then 1 else 0))
      | Some (base, DstNone) \<Rightarrow> Inr base)"

definition local_to_utc :: "int \<Rightarrow> string \<Rightarrow> int res" where
  "local_to_utc t z = res_bind (utc_offset_hours z t) (\<lambda>off. Inr (t - off * hour_us))"

definition utc_to_local :: "int \<Rightarrow> string \<Rightarrow> int res" where
  "utc_to_local u z =
     res_bind (utc_offset_hours z u) (\<lambda>off.
     res_bind (utc_offset_hours z (u + off * hour_us)) (\<lambda>off'.
     Inr (u + off' * hour_us)))"

section \<open>The calendar is consistent\<close>

lemma div_pred: "0 < k \<Longrightarrow> y div k - (y - 1) div k = (if y mod k = 0 then 1 else 0)" for k :: int
proof -
  assume k: "0 < k"
  have y: "y = k * (y div k) + y mod k" "0 \<le> y mod k" "y mod k < k" using k by simp_all
  show ?thesis
  proof (cases "y mod k = 0")
    case True
    then have "y - 1 = k * (y div k - 1) + (k - 1)" using y(1) by (simp add: algebra_simps)
    then have "(y - 1) div k = y div k - 1"
      using k by (intro int_div_pos_eq [of _ _ _ "k - 1"]) auto
    then show ?thesis using True by simp
  next
    case False
    then have "y - 1 = k * (y div k) + (y mod k - 1)" using y(1) by simp
    then have "(y - 1) div k = y div k"
      using False y(2,3) by (intro int_div_pos_eq [of _ _ _ "y mod k - 1"]) auto
    then show ?thesis using False by simp
  qed
qed

lemma days_before_year_Suc:
  "days_before_year (y + 1) = days_before_year y + (if is_leap y then 366 else 365)"
proof -
  have "y mod 100 = 0 \<Longrightarrow> y mod 4 = 0"
    using mod_mod_cancel [of 4 100 y] by simp
  moreover have "y mod 400 = 0 \<Longrightarrow> y mod 100 = 0"
    using mod_mod_cancel [of 100 400 y] by simp
  ultimately have leap: "(if is_leap y then 366 else 365) = 365 + (if y mod 4 = 0 then 1 else 0)
      - (if y mod 100 = 0 then 1 else 0) + (if y mod 400 = 0 then 1 else 0 :: int)"
    unfolding is_leap_def by (cases "y mod 4 = 0"; cases "y mod 100 = 0"; cases "y mod 400 = 0") simp_all
  have sums: "y * 365 + A - B + C = (y - 1) * 365 + A' - B' + C' + (365 + a - b + c)"
    if "A - A' = a" "B - B' = b" "C - C' = c" for A A' a B B' b C C' c :: int
    using that by simp
  show ?thesis
    unfolding days_before_year_def leap add_diff_cancel_right'
    by (rule sums; rule div_pred; simp)
qed

lemma days_before_year_mono: "y \<le> z \<Longrightarrow> days_before_year y \<le> days_before_year z"
proof (induction z rule: int_ge_induct)
  case (step i)
  then show ?case using days_before_year_Suc [of i] by (auto split: if_splits)
qed simp

lemma ord2year_bounds:
  "days_before_year (ord2year n) < n \<and> n \<le> days_before_year (ord2year n + 1)"
proof -
  define a where "a = (n - 1) div 146097"
  define r where "r = (n - 1) mod 146097"
  define b where "b = r div 36524"
  define s where "s = r mod 36524"
  define c where "c = s div 1461"
  define t where "t = s mod 1461"
  define d where "d = t div 365"
  have e1: "n - 1 = 146097 * a + r" "0 \<le> r" "r < 146097" by (simp_all add: a_def r_def)
  have e2: "r = 36524 * b + s" "0 \<le> s" "s < 36524" by (simp_all add: b_def s_def)
  have e3: "s = 1461 * c + t" "0 \<le> t" "t < 1461" by (simp_all add: c_def t_def)
  have b: "0 \<le> b" "b \<le> 4" and c: "0 \<le> c" "c \<le> 24" and d: "0 \<le> d" "d \<le> 4"
    using e1 e2 e3 unfolding b_def c_def d_def by auto
  have e4: "365 * d \<le> t" "t < 365 * d + 365" unfolding d_def by auto
  have y: "ord2year n = (if d = 4 \<or> b = 4 then 400 * a + 100 * b + 4 * c + d else 400 * a + 100 * b + 4 * c + d + 1)"
    by (simp add: ord2year_def Let_def a_def r_def b_def s_def c_def t_def d_def)
  have dby: "days_before_year (400 * a + k + 1) = 146097 * a + 365 * k + k div 4 - k div 100 + k div 400" for k
  proof -
    have "(400 * a + k) div 4 = 100 * a + k div 4" "(400 * a + k) div 100 = 4 * a + k div 100"
      "(400 * a + k) div 400 = a + k div 400"
      using div_mult_self2 [of 4 k "100 * a"] div_mult_self2 [of 100 k "4 * a"] by (simp_all add: ac_simps)
    then show ?thesis by (simp add: days_before_year_def algebra_simps)
  qed
  show ?thesis
  proof (cases "b = 4")
    case True
    then have "s = 0" using e1 e2 by linarith
    then have "c = 0" "d = 0" by (simp_all add: c_def d_def t_def)
    then show ?thesis using True y e1 e2 \<open>s = 0\<close> dby [of 399] dby [of 400] by (simp add: add.commute)
  next
    case False
    with b have b3: "b \<le> 3" by simp
    have k: "days_before_year (400 * a + (100 * b + 4 * c + i) + 1)
        = 146097 * a + 36524 * b + 1461 * c + 365 * i" if i: "0 \<le> i" "i \<le> 3" for i
    proof -
      have "(100 * b + 4 * c + i) div 4 = 25 * b + c" using i by (intro int_div_pos_eq [of _ _ _ i]) auto
      moreover have "(100 * b + 4 * c + i) div 100 = b"
        using i c by (intro int_div_pos_eq [of _ _ _ "4 * c + i"]) auto
      moreover have "(100 * b + 4 * c + i) div 400 = 0" using i c b b3 by (intro div_pos_pos_trivial) auto
      ultimately show ?thesis unfolding dby by simp
    qed
    show ?thesis
    proof (cases "d = 4")
      case True
      have "ord2year n = 400 * a + (100 * b + 4 * c + 3) + 1" using y True by simp
      moreover have t: "t = 1460" using True e3 e4 by simp
      moreover have c23: "c \<le> 23" using t e2 e3 by simp
      have "(100 * b + 4 * c + 4) div 4 = 25 * b + c + 1" by (intro int_div_pos_eq [of _ _ _ 0]) auto
      moreover have "(100 * b + 4 * c + 4) div 100 = b"
        using c c23 by (intro int_div_pos_eq [of _ _ _ "4 * c + 4"]) auto
      moreover have "(100 * b + 4 * c + 4) div 400 = 0"
        using c c23 b b3 by (intro div_pos_pos_trivial) auto
      ultimately show ?thesis
        using k [of 3] dby [of "100 * b + 4 * c + 4"] e1 e2 e3 by (simp add: algebra_simps)
    next
      case False
      with d have d3: "d \<le> 3" by simp
      have "ord2year n = 400 * a + (100 * b + 4 * c + d) + 1" using y False \<open>b \<noteq> 4\<close> by simp
      then show ?thesis
        using k [OF d(1) d3] days_before_year_Suc [of "ord2year n"] e1 e2 e3 e4
        by (auto split: if_splits)
    qed
  qed
qed

lemma ord2year_unique:
  assumes "days_before_year y < n" "n \<le> days_before_year (y + 1)"
  shows "ord2year n = y"
proof -
  have b: "days_before_year (ord2year n) < n" "n \<le> days_before_year (ord2year n + 1)"
    using ord2year_bounds [of n] by simp_all
  have "\<not> ord2year n + 1 \<le> y" using days_before_year_mono [of "ord2year n + 1" y] b assms by linarith
  moreover have "\<not> y + 1 \<le> ord2year n" using days_before_year_mono [of "y + 1" "ord2year n"] b assms by linarith
  ultimately show ?thesis by linarith
qed

text \<open>\<open>toordinal\<close> and the year of \<open>fromordinal\<close> agree on every real date.\<close>

lemma ord2year_ymd2ord:
  assumes "1 \<le> d" "days_before_month y m + d \<le> (if is_leap y then 366 else 365)" "0 \<le> days_before_month y m"
  shows "ord2year (ymd2ord y m d) = y"
  using assms days_before_year_Suc [of y] by (intro ord2year_unique) (auto simp: ymd2ord_def)

lemma yday_bounds: "1 \<le> yday n \<and> yday n \<le> 366"
  using ord2year_bounds [of n] days_before_year_Suc [of "ord2year n"]
  by (auto simp: yday_def split: if_splits)

lemma weekday_bounds: "0 \<le> weekday n \<and> weekday n < 7"
  by (simp add: weekday_def)

text \<open>Month and day of a real date.\<close>

lemma month_cases: "1 \<le> m \<Longrightarrow> m \<le> 12 \<Longrightarrow> m \<in> {1, 2, 3, 4, 5, 6, 7, 8, 9, 10, 11, 12}" for m :: int
  by simp presburger

lemma month_table:
  assumes "1 \<le> m" "m \<le> 12"
  shows "0 \<le> days_before_month y m" "28 \<le> days_in_month y m" "days_in_month y m \<le> 31"
    "days_before_month y m + days_in_month y m \<le> (if is_leap y then 366 else 365)"
  using month_cases [OF assms] by (auto simp: days_before_month_def days_in_month_def)

lemma days_before_next:
  assumes "1 \<le> k" "k < 12"
  shows "days_before_month y (k + 1) = days_before_month y k + days_in_month y k"
  using month_cases [of k] assms by (auto simp: days_before_month_def days_in_month_def)

lemma days_before_later:
  assumes "1 \<le> k" "k < m" "m \<le> 12"
  shows "days_before_month y k + days_in_month y k \<le> days_before_month y m"
  using assms(2,3)
proof (induction m rule: int_gr_induct)
  case base
  then show ?case using days_before_next [of k y] assms(1) by simp
next
  case (step m)
  then show ?case using days_before_next [of m y] month_table(2) [of m y] assms(1) by simp
qed

lemma month_of_yday:
  assumes "1 \<le> m" "m \<le> 12" "1 \<le> d" "d \<le> days_in_month y m" "1 \<le> k" "k \<le> 12"
  shows "days_before_month y k < days_before_month y m + d \<longleftrightarrow> k \<le> m"
  using days_before_later [of k m y] days_before_later [of m k y] month_table(2) [of k y] assms
  by (cases k m rule: linorder_cases) auto

lemma ord2ymd:
  assumes "1 \<le> m" "m \<le> 12" "1 \<le> d" "d \<le> days_in_month y m"
  shows "ord2year (ymd2ord y m d) = y" "ord2month (ymd2ord y m d) = m" "ord2day (ymd2ord y m d) = d"
proof -
  show y: "ord2year (ymd2ord y m d) = y"
    using assms month_table [OF assms(1,2), of y] by (intro ord2year_ymd2ord) auto
  then have yd: "yday (ymd2ord y m d) = days_before_month y m + d" by (simp add: yday_def ymd2ord_def)
  show m: "ord2month (ymd2ord y m d) = m"
  proof -
    let ?ms = "[1, 2, 3, 4, 5, 6, 7, 8, 9, 10, 11, 12] :: int list"
    have "filter (\<lambda>k. days_before_month y k < days_before_month y m + d) ?ms = filter (\<lambda>k. k \<le> m) ?ms"
      by (rule filter_cong [OF refl]) (use month_of_yday [OF assms] in auto)
    moreover have "int (length (filter (\<lambda>k. k \<le> m) ?ms)) = m" using month_cases [OF assms(1,2)] by auto
    ultimately show ?thesis by (simp add: ord2month_def y yd)
  qed
  show "ord2day (ymd2ord y m d) = d" by (simp add: ord2day_def y m yd)
qed

text \<open>Splitting a datetime into its date and its time of day.\<close>

lemma dt_split: "t = dt_date t * day_us + t mod day_us"
  by (simp add: dt_date_def)

lemma le_div_iff_mult_le: "0 < b \<Longrightarrow> k \<le> a div b \<longleftrightarrow> k * b \<le> a" for a b k :: int
proof -
  assume b: "0 < b"
  have a: "a = b * (a div b) + a mod b" "0 \<le> a mod b" "a mod b < b" using b by simp_all
  show ?thesis
  proof
    assume "k \<le> a div b"
    then have "k * b \<le> (a div b) * b" using b by (intro mult_right_mono) auto
    then show "k * b \<le> a" using a by (metis add_increasing2 mult.commute order_trans)
  next
    assume le: "k * b \<le> a"
    show "k \<le> a div b"
    proof (rule ccontr)
      assume "\<not> k \<le> a div b"
      then have "(a div b + 1) * b \<le> k * b" using b by (intro mult_right_mono) auto
      moreover have "(a div b + 1) * b = b * (a div b) + b" by (simp add: distrib_right)
      ultimately show False using le a by linarith
    qed
  qed
qed

lemma dt_hour_ge: "2 \<le> dt_hour t \<longleftrightarrow> 2 * hour_us \<le> t mod day_us"
  unfolding dt_hour_def by (subst le_div_iff_mult_le) simp_all

section \<open>Summer time as a window of local instants\<close>

text \<open>
  A summer-time rule: in every year a start date and an end date, and the test the code makes
  on a local datetime. What follows from it is proved once for both rules of \<open>tzrules.py\<close>.
\<close>

locale dst_rule =
  fixes start stop :: "int \<Rightarrow> int" and dst :: "int \<Rightarrow> bool"
  assumes start_in_year: "days_before_year y + 60 \<le> start y"
    and start_before_stop: "start y + 100 \<le> stop y"
    and stop_in_year: "stop y \<le> days_before_year y + 320"
    and dst_test: "dst t =
      (let y = dt_year t; today = dt_date t
       in if today < start y \<or> stop y < today then False
          else if start y < today \<and> today < stop y then True
          else if today = start y then 2 \<le> dt_hour t
          else dt_hour t < 2)"
begin

lemma dst_year: "dst t \<longleftrightarrow> start (dt_year t) * day_us + 2 * hour_us \<le> t \<and> t < stop (dt_year t) * day_us + 2 * hour_us"
proof -
  define y where "y = dt_year t"
  define d where "d = dt_date t"
  define r where "r = t mod day_us"
  have t: "t = d * day_us + r" "0 \<le> r" "r < day_us"
    using dt_split [of t] by (simp_all add: d_def r_def)
  have "dst t = (if d < start y \<or> stop y < d then False
          else if start y < d \<and> d < stop y then True
          else if d = start y then 2 * hour_us \<le> r else r < 2 * hour_us)"
    unfolding dst_test Let_def y_def [symmetric] d_def [symmetric]
    using dt_hour_ge [of t] by (auto simp: r_def)
  then show ?thesis
    using t start_before_stop [of y] unfolding y_def [symmetric] by (auto split: if_splits)
qed

lemma dst_year_unique:
  assumes "start y * day_us - hour_us \<le> t" "t < stop y * day_us + 2 * hour_us"
  shows "dt_year t = y"
proof -
  have "start y - 1 \<le> dt_date t" "dt_date t \<le> stop y"
    using assms dt_split [of t] pos_mod_bound [of day_us t] pos_mod_sign [of day_us t] by auto
  then show ?thesis
    unfolding dt_year_def
    using start_in_year [of y] stop_in_year [of y] start_before_stop [of y] days_before_year_Suc [of y]
    by (intro ord2year_unique) (auto split: if_splits)
qed

lemma dst_iff: "dst t \<longleftrightarrow> (\<exists>y. start y * day_us + 2 * hour_us \<le> t \<and> t < stop y * day_us + 2 * hour_us)"
  using dst_year [of t] dst_year_unique [of _ t] by force

text \<open>
  Converting a local time to UTC with the offset of the local time, and back by the code's two
  passes, is the identity but for the hour before and the hour after the spring switch.
\<close>

lemma two_passes:
  fixes base :: int
  defines "off \<equiv> \<lambda>t. base + (if dst t then 1 else 0)"
  assumes clear: "\<And>y. \<not> (start y * day_us + hour_us \<le> t \<and> t < start y * day_us + 3 * hour_us)"
  defines "u \<equiv> t - off t * hour_us"
  shows "u + off (u + off u * hour_us) * hour_us = t"
proof (cases "dst t")
  case True
  then obtain y where y: "start y * day_us + 2 * hour_us \<le> t" "t < stop y * day_us + 2 * hour_us"
    using dst_iff by blast
  then have late: "start y * day_us + 3 * hour_us \<le> t" using clear [of y] by linarith
  show ?thesis
  proof (cases "dst u")
    case True
    then show ?thesis using \<open>dst t\<close> by (simp add: off_def u_def)
  next
    case False
    have "dst (t - hour_us)" unfolding dst_iff by (rule exI [of _ y]) (use y(2) late in linarith)
    then show ?thesis using False \<open>dst t\<close> by (simp add: off_def u_def algebra_simps)
  qed
next
  case False
  show ?thesis
  proof (cases "dst u")
    case True
    have "\<not> dst (t + hour_us)"
    proof
      assume "dst (t + hour_us)"
      then obtain y where y: "start y * day_us + 2 * hour_us \<le> t + hour_us" "t + hour_us < stop y * day_us + 2 * hour_us"
        using dst_iff by blast
      then have "start y * day_us + 3 * hour_us \<le> t" using clear [of y] by linarith
      with y(2) have "dst t" unfolding dst_iff by (intro exI [of _ y]) linarith
      then show False using False by simp
    qed
    then show ?thesis using True False by (simp add: off_def u_def algebra_simps)
  next
    case False
    then show ?thesis using \<open>\<not> dst t\<close> by (simp add: off_def u_def)
  qed
qed

end

lemma nth_weekday_eq:
  "nth_weekday y m w n = days_before_year y + days_before_month y m + 1
     + (w - weekday (ymd2ord y m 1)) mod 7 + (n - 1) * 7"
  by (simp add: nth_weekday_def ymd2ord_def Let_def)

lemma last_weekday_eq:
  "m < 12 \<Longrightarrow> last_weekday y m w = days_before_year y + days_before_month y (m + 1)
     - (weekday (days_before_year y + days_before_month y (m + 1)) - w) mod 7"
  by (simp add: last_weekday_def ymd2ord_def Let_def)

lemma days_before_months:
  "days_before_month y 3 = 59 + (if is_leap y then 1 else 0)"
  "days_before_month y 4 = 90 + (if is_leap y then 1 else 0)"
  "days_before_month y 11 = 304 + (if is_leap y then 1 else 0)"
  by (simp_all add: days_before_month_def)

lemma mod7_bounds: "0 \<le> (k :: int) mod 7" "(k :: int) mod 7 \<le> 6"
  using pos_mod_bound [of 7 k] by simp_all

interpretation us: dst_rule "\<lambda>y. nth_weekday y 3 6 2" "\<lambda>y. nth_weekday y 11 6 1" us_dst
proof
  fix y t :: int
  have b: "0 \<le> (6 - weekday (ymd2ord y 3 1)) mod 7" "(6 - weekday (ymd2ord y 3 1)) mod 7 \<le> 6"
    "0 \<le> (6 - weekday (ymd2ord y 11 1)) mod 7" "(6 - weekday (ymd2ord y 11 1)) mod 7 \<le> 6"
    by (rule mod7_bounds)+
  show "days_before_year y + 60 \<le> nth_weekday y 3 6 2"
    "nth_weekday y 3 6 2 + 100 \<le> nth_weekday y 11 6 1"
    "nth_weekday y 11 6 1 \<le> days_before_year y + 320"
    unfolding nth_weekday_eq days_before_months using b by simp_all
  show "us_dst t = (let y = dt_year t; today = dt_date t
       in if today < nth_weekday y 3 6 2 \<or> nth_weekday y 11 6 1 < today then False
          else if nth_weekday y 3 6 2 < today \<and> today < nth_weekday y 11 6 1 then True
          else if today = nth_weekday y 3 6 2 then 2 \<le> dt_hour t
          else dt_hour t < 2)"
    by (simp add: us_dst_def Let_def)
qed

interpretation eu: dst_rule "\<lambda>y. last_weekday y 3 6" "\<lambda>y. last_weekday y 10 6" eu_dst
proof
  fix y t :: int
  have e: "last_weekday y 3 6 = days_before_year y + days_before_month y 4
      - (weekday (days_before_year y + days_before_month y 4) - 6) mod 7"
    "last_weekday y 10 6 = days_before_year y + days_before_month y 11
      - (weekday (days_before_year y + days_before_month y 11) - 6) mod 7"
    using last_weekday_eq [of 3 y 6] last_weekday_eq [of 10 y 6] by simp_all
  have b: "0 \<le> (weekday (days_before_year y + days_before_month y m) - 6) mod 7"
    "(weekday (days_before_year y + days_before_month y m) - 6) mod 7 \<le> 6" for m
    by (rule mod7_bounds)+
  show "days_before_year y + 60 \<le> last_weekday y 3 6"
    "last_weekday y 3 6 + 100 \<le> last_weekday y 10 6"
    "last_weekday y 10 6 \<le> days_before_year y + 320"
    using b [of 4] b [of 11] unfolding e days_before_months by (simp_all split: if_splits)
  show "eu_dst t = (let y = dt_year t; today = dt_date t
       in if today < last_weekday y 3 6 \<or> last_weekday y 10 6 < today then False
          else if last_weekday y 3 6 < today \<and> today < last_weekday y 10 6 then True
          else if today = last_weekday y 3 6 then 2 \<le> dt_hour t
          else dt_hour t < 2)"
    by (simp add: eu_dst_def Let_def)
qed

text \<open>The two hours around a spring switch, in local time, for a zone's rule.\<close>

definition near_spring_switch :: "dst_regime \<Rightarrow> int \<Rightarrow> bool" where
  "near_spring_switch r t =
     (case r of
        DstUs \<Rightarrow> nth_weekday (dt_year t) 3 6 2 * day_us + hour_us \<le> t
          \<and> t < nth_weekday (dt_year t) 3 6 2 * day_us + 3 * hour_us
      | DstEu \<Rightarrow> last_weekday (dt_year t) 3 6 * day_us + hour_us \<le> t
          \<and> t < last_weekday (dt_year t) 3 6 * day_us + 3 * hour_us
      | DstNone \<Rightarrow> False)"

lemma near_spring_us:
  "\<not> near_spring_switch DstUs t \<Longrightarrow>
   \<not> (nth_weekday y 3 6 2 * day_us + hour_us \<le> t \<and> t < nth_weekday y 3 6 2 * day_us + 3 * hour_us)"
  using us.dst_year_unique [of y t] us.start_before_stop [of y] by (auto simp: near_spring_switch_def)

lemma near_spring_eu:
  "\<not> near_spring_switch DstEu t \<Longrightarrow>
   \<not> (last_weekday y 3 6 * day_us + hour_us \<le> t \<and> t < last_weekday y 3 6 * day_us + 3 * hour_us)"
  using eu.dst_year_unique [of y t] eu.start_before_stop [of y] by (auto simp: near_spring_switch_def)

lemma wall_time_back:
  assumes "zone_base z = Some (base, r)" and "\<not> near_spring_switch r t"
  shows "res_bind (local_to_utc t z) (\<lambda>u. utc_to_local u z) = Inr t"
proof (cases r)
  case DstUs
  with assms show ?thesis
    using us.two_passes [of t base, OF near_spring_us]
    by (simp add: local_to_utc_def utc_to_local_def utc_offset_hours_def)
next
  case DstEu
  with assms show ?thesis
    using eu.two_passes [of t base, OF near_spring_eu]
    by (simp add: local_to_utc_def utc_to_local_def utc_offset_hours_def)
next
  case DstNone
  with assms show ?thesis
    by (simp add: local_to_utc_def utc_to_local_def utc_offset_hours_def)
qed

text \<open>
  C39. Round trip of \<open>local_to_utc\<close> and \<open>utc_to_local\<close>: in every known zone a local wall time
  survives the conversion to UTC and back, unless it lies within an hour of the spring switch.
\<close>

theorem local_utc_round_trip:
  assumes "zone_base z = Some (base, r)" and "\<not> near_spring_switch r t"
  shows "res_bind (local_to_utc t z) (\<lambda>u. utc_to_local u z) = Inr t"
  using assms by (rule wall_time_back)

theorem local_utc_round_trip_witness:
  "res_bind (local_to_utc (738703 * day_us + 12 * hour_us) ''America/New_York'')
     (\<lambda>u. utc_to_local u ''America/New_York'') = Inr (738703 * day_us + 12 * hour_us)"
proof -
  have "zone_base ''America/New_York'' = Some (- 5, DstUs)" by code_simp
  moreover have "\<not> near_spring_switch DstUs (738703 * day_us + 12 * hour_us)" by code_simp
  ultimately show ?thesis by (rule local_utc_round_trip)
qed

text \<open>
  The exception is real: on 10 March 2024 the New York time 01:30 is 06:30 UTC, and
  \<open>utc_to_local\<close> reads 06:30 UTC back as 02:30, a wall time that does not exist that day.
\<close>

theorem utc_to_local_spring_error:
  "local_to_utc (ymd2ord 2024 3 10 * day_us + 5400000000) ''America/New_York''
     = Inr (ymd2ord 2024 3 10 * day_us + 23400000000) \<and>
   utc_to_local (ymd2ord 2024 3 10 * day_us + 23400000000) ''America/New_York''
     = Inr (ymd2ord 2024 3 10 * day_us + 9000000000)"
  by code_simp

text \<open>
  The local test of \<open>_us_dst\<close> and the UTC instants of \<open>us_dst_bounds_utc\<close> describe the same
  summer: outside the local hour the spring switch skips, a New York time is summer time
  exactly when its UTC instant lies between the two switch instants of its year.
\<close>

theorem us_dst_agrees_with_utc_bounds:
  assumes "local_to_utc t ''America/New_York'' = Inr u"
    and "\<not> (nth_weekday (dt_year t) 3 6 2 * day_us + 2 * hour_us \<le> t
           \<and> t < nth_weekday (dt_year t) 3 6 2 * day_us + 3 * hour_us)"
  shows "us_dst t \<longleftrightarrow> fst (us_dst_bounds_utc (dt_year t)) \<le> u \<and> u < snd (us_dst_bounds_utc (dt_year t))"
proof -
  have u: "u = t + (if us_dst t then 4 else 5) * hour_us"
    using assms(1) by (auto simp: local_to_utc_def utc_offset_hours_def zone_base_def)
  show ?thesis
    using u assms(2) us.dst_year [of t] by (auto simp: us_dst_bounds_utc_def split: if_splits)
qed

theorem us_dst_agrees_with_utc_bounds_witness:
  "us_dst (738703 * day_us + 12 * hour_us)
     \<longleftrightarrow> fst (us_dst_bounds_utc 2023) \<le> 738703 * day_us + 16 * hour_us
       \<and> 738703 * day_us + 16 * hour_us < snd (us_dst_bounds_utc 2023)"
proof -
  have "local_to_utc (738703 * day_us + 12 * hour_us) ''America/New_York'' = Inr (738703 * day_us + 16 * hour_us)"
    by code_simp
  moreover have "\<not> (nth_weekday (dt_year (738703 * day_us + 12 * hour_us)) 3 6 2 * day_us + 2 * hour_us
        \<le> 738703 * day_us + 12 * hour_us
      \<and> 738703 * day_us + 12 * hour_us
        < nth_weekday (dt_year (738703 * day_us + 12 * hour_us)) 3 6 2 * day_us + 3 * hour_us)"
    by code_simp
  moreover have "dt_year (738703 * day_us + 12 * hour_us) = 2023" by code_simp
  ultimately show ?thesis using us_dst_agrees_with_utc_bounds by metis
qed

end
