(* ===== verification/Money.thy ===== *)
theory Money
  imports Prelude
begin

text \<open>
  \<open>src/sentinel/core/money.py\<close>: the price and lot grids, contract specifications, pip values
  and the cost arithmetic. An \<open>Instrument\<close> is a record; its \<open>__post_init__\<close> is the checked
  constructor \<open>mk_instrument\<close>, and \<open>instrument_ok\<close> is what it guarantees of every object.
  The \<open>InvalidOperation\<close> of a quantised result with more than 34 digits is outside the model
  (the exponents of decimals are not tracked), and so is the rejection of a string by \<open>dec\<close>.
\<close>

section \<open>Coercion to Decimal\<close>

text \<open>The numeric values \<open>dec\<close> distinguishes; a finite float is the decimal of its \<open>repr\<close>.\<close>

datatype pynum =
    PyDecimal dec
  | PyDecimalNonFinite
  | PyBool bool
  | PyInt int
  | PyFloat pyfloat
  | PyFloatNonFinite

fun to_dec :: "pynum \<Rightarrow> dec res" where
  "to_dec (PyDecimal d) = Inr d"
| "to_dec PyDecimalNonFinite = Inl ValueError"
| "to_dec (PyBool b) = Inl ValueError"
| "to_dec (PyInt i) = Inr (of_int i)"
| "to_dec (PyFloat f) = Inr f"
| "to_dec PyFloatNonFinite = Inl ValueError"

section \<open>Grids\<close>

datatype rounding_mode = RoundHalfEven | RoundDown

definition to_integral_value :: "rounding_mode \<Rightarrow> dec \<Rightarrow> int" where
  "to_integral_value m x =
     (case m of RoundHalfEven \<Rightarrow> round_half_even x
      | RoundDown \<Rightarrow> (if 0 \<le> x then \<lfloor>x\<rfloor> else \<lceil>x\<rceil>))"

definition quantize_grid :: "dec \<Rightarrow> dec \<Rightarrow> rounding_mode \<Rightarrow> dec" where
  "quantize_grid v e m =
     (let steps = to_integral_value m (dround34 (v / e)) in dround34 (of_int steps * e))"

definition quantize :: "dec \<Rightarrow> dec \<Rightarrow> rounding_mode \<Rightarrow> dec res" where
  "quantize v e m = (if e \<le> 0 then Inl ValueError else Inr (quantize_grid v e m))"

section \<open>Contract specifications\<close>

datatype asset_class = FX_SPOT | FX_CFD | METAL | INDEX_CFD | CRYPTO

record instrument =
  symbol :: string
  base_ccy :: string
  quote_ccy :: string
  asset_class :: asset_class
  pip :: dec
  tick :: dec
  contract_size :: dec
  min_lot :: dec
  lot_step :: dec
  max_lot :: dec
  margin_rate :: dec
  venue :: string

definition instrument_ok :: "instrument \<Rightarrow> bool" where
  "instrument_ok i \<longleftrightarrow> 0 < pip i \<and> 0 < tick i \<and> 0 < contract_size i \<and> 0 < min_lot i
     \<and> 0 < lot_step i \<and> 0 < max_lot i \<and> lot_step i \<le> min_lot i \<and> tick i \<le> pip i"

definition mk_instrument :: "instrument \<Rightarrow> instrument res" where
  "mk_instrument i =
     (if pip i \<le> 0 \<or> tick i \<le> 0 \<or> contract_size i \<le> 0 \<or> min_lot i \<le> 0 \<or> lot_step i \<le> 0 \<or> max_lot i \<le> 0
      then Inl ValueError
      else if min_lot i < lot_step i then Inl ValueError
      else if pip i < tick i then Inl ValueError
      else Inr i)"

definition round_price :: "instrument \<Rightarrow> dec \<Rightarrow> dec" where
  "round_price i p = quantize_grid p (tick i) RoundHalfEven"

definition price_to_pips :: "instrument \<Rightarrow> dec \<Rightarrow> dec" where
  "price_to_pips i d = ddiv d (pip i)"

definition pips_to_price :: "instrument \<Rightarrow> dec \<Rightarrow> dec" where
  "pips_to_price i p = dmul p (pip i)"

definition units :: "instrument \<Rightarrow> dec \<Rightarrow> dec" where
  "units i lots = dmul lots (contract_size i)"

definition round_lots_down :: "instrument \<Rightarrow> dec \<Rightarrow> dec" where
  "round_lots_down i l =
     (if l \<le> 0 then 0
      else let steps = to_integral_value RoundDown (ddiv l (lot_step i))
           in quantize_grid (dmul (of_int steps) (lot_step i)) (lot_step i) RoundHalfEven)"

definition pip_value_quote :: "instrument \<Rightarrow> dec \<Rightarrow> dec" where
  "pip_value_quote i lots = dmul (units i lots) (pip i)"

record conversion_rate =
  cr_pair :: string
  cr_rate :: dec
  cr_as_of_ns :: int
  cr_source :: string

definition convert :: "conversion_rate \<Rightarrow> dec \<Rightarrow> dec" where
  "convert r amount = dmul amount (cr_rate r)"

definition pip_value_account :: "instrument \<Rightarrow> dec \<Rightarrow> string \<Rightarrow> conversion_rate option \<Rightarrow> dec res" where
  "pip_value_account i lots account_ccy q2a =
     (let v = pip_value_quote i lots
      in if quote_ccy i = account_ccy then Inr v
         else case q2a of None \<Rightarrow> Inl ValueError | Some r \<Rightarrow> Inr (convert r v))"

section \<open>Cost arithmetic\<close>

record cost_model =
  cm_spread_pips :: dec
  cm_commission_per_lot_round_turn :: dec
  cm_swap_long_per_lot_per_day :: dec
  cm_swap_short_per_lot_per_day :: dec
  cm_news_spread_multiplier :: dec
  cm_slippage_pips_median :: dec

text \<open>\<open>CostModel(spread_pips=s)\<close>: every other field at its default.\<close>

definition default_cost_model :: "dec \<Rightarrow> cost_model" where
  "default_cost_model s =
     \<lparr>cm_spread_pips = s, cm_commission_per_lot_round_turn = 7, cm_swap_long_per_lot_per_day = 0,
      cm_swap_short_per_lot_per_day = 0, cm_news_spread_multiplier = 4, cm_slippage_pips_median = 1/10\<rparr>"

definition round_trip_pips :: "cost_model \<Rightarrow> dec \<Rightarrow> dec \<Rightarrow> bool \<Rightarrow> dec res" where
  "round_trip_pips c lots pip_val during_news =
     (if pip_val \<le> 0 then Inl ValueError
      else let spread = dmul (cm_spread_pips c) (if during_news then cm_news_spread_multiplier c else 1);
               commission = ddiv (dmul (cm_commission_per_lot_round_turn c) lots) pip_val
           in Inr (dadd (dadd spread commission) (dmul (cm_slippage_pips_median c) 2)))"

definition break_even_win_rate :: "dec \<Rightarrow> dec \<Rightarrow> dec \<Rightarrow> dec res" where
  "break_even_win_rate T S c =
     (if T \<le> 0 \<or> S \<le> 0 then Inl ValueError
      else if dadd T S = 0 then Inl ValueError
      else Inr (ddiv (dadd S c) (dadd T S)))"

definition expectancy_pips :: "dec \<Rightarrow> dec \<Rightarrow> dec \<Rightarrow> dec \<Rightarrow> dec res" where
  "expectancy_pips p T S c =
     (if \<not> (0 \<le> p \<and> p \<le> 1) then Inl ValueError
      else Inr (dsub (dmul p (dsub T c)) (dmul (dsub 1 p) (dadd S c))))"

definition LOT_GRANULARITY_TOLERANCE :: dec where
  "LOT_GRANULARITY_TOLERANCE = 20/100"

definition annual_cost_pct_of_equity :: "dec \<Rightarrow> dec \<Rightarrow> int \<Rightarrow> dec res" where
  "annual_cost_pct_of_equity bp leverage trades =
     (if trades < 0 \<or> leverage < 0 then Inl ValueError
      else if bp < 0 then Inl ValueError
      else Inr (ddiv (dmul (dmul bp leverage) (of_int trades)) 100))"

definition min_equity_for_granularity :: "dec \<Rightarrow> dec \<Rightarrow> instrument \<Rightarrow> dec \<Rightarrow> dec \<Rightarrow> dec res" where
  "min_equity_for_granularity S r i pip_value_per_lot err =
     (if S \<le> 0 \<or> r \<le> 0 then Inl ValueError
      else if \<not> (0 < err \<and> err \<le> 1) then Inl ValueError
      else let min_lots = ddiv (lot_step i) err
           in Inr (ddiv (dmul (dmul min_lots pip_value_per_lot) S) r))"

text \<open>Unfolding rules with which the simplifier evaluates the operations on literals.\<close>

lemmas money_eval = decimal_eval pip_value_quote_def units_def round_lots_down_def quantize_grid_def
  to_integral_value_def default_cost_model_def round_trip_pips_def break_even_win_rate_def
  annual_cost_pct_of_equity_def round_price_def

section \<open>Lemmas on grids\<close>

lemma mk_instrument_ok: "mk_instrument i = Inr j \<longleftrightarrow> j = i \<and> instrument_ok i"
  by (auto simp: mk_instrument_def instrument_ok_def)

lemma instrument_okD:
  assumes "instrument_ok i"
  shows "0 < pip i" "0 < tick i" "0 < contract_size i" "0 < min_lot i" "0 < lot_step i" "0 < max_lot i"
    "lot_step i \<le> min_lot i" "tick i \<le> pip i"
  using assms by (simp_all add: instrument_ok_def)

text \<open>On an instrument that was constructed, the price grid never raises.\<close>

lemma quantize_tick: "instrument_ok i \<Longrightarrow> quantize p (tick i) RoundHalfEven = Inr (round_price i p)"
  by (simp add: quantize_def round_price_def instrument_ok_def)

lemma pip_value_quote_pos: "instrument_ok i \<Longrightarrow> 0 < lots \<Longrightarrow> 0 < pip_value_quote i lots"
  by (simp add: pip_value_quote_def units_def instrument_ok_def dmul_pos)

text \<open>
  A step written with a coefficient \<open>c\<close> and an exponent \<open>k\<close>, small enough against \<open>bound\<close> that
  every number of steps in play is exact.
\<close>

definition grid_step :: "dec \<Rightarrow> int \<Rightarrow> int \<Rightarrow> bool" where
  "grid_step e c k \<longleftrightarrow> 0 < c \<and> e = of_int c * 10 powi k"

lemma grid_step_pos: "grid_step e c k \<Longrightarrow> 0 < e"
  by (simp add: grid_step_def zero_less_power_int)

lemma round_sig_grid_multiple:
  assumes g: "grid_step e c k" and n: "\<bar>n\<bar> * c \<le> 10 ^ nat p" and p: "1 \<le> p"
  shows "round_sig 10 p (of_int n * e) = of_int n * e"
proof -
  have "of_int n * e = of_int (n * c) * (of_int 10 :: rat) powi k"
    using g by (simp add: grid_step_def)
  moreover have "\<bar>n * c\<bar> \<le> 10 ^ nat p" using n g by (simp add: abs_mult grid_step_def)
  ultimately have "representable 10 p (of_int n * e)" unfolding representable_def by metis
  then show ?thesis using p by (intro round_sig_exact) auto
qed

lemma dround_grid:
  "grid_step e c k \<Longrightarrow> \<bar>n\<bar> * c \<le> 10 ^ 28 \<Longrightarrow> dround (of_int n * e) = of_int n * e"
  unfolding dround_def using round_sig_grid_multiple [of e c k n 28] by simp

lemma dround34_grid:
  "grid_step e c k \<Longrightarrow> \<bar>n\<bar> * c \<le> 10 ^ 34 \<Longrightarrow> dround34 (of_int n * e) = of_int n * e"
  unfolding dround34_def using round_sig_grid_multiple [of e c k n 34] by simp

lemma grid_step_one: "grid_step 1 1 0"
  by (simp add: grid_step_def)

lemma dround34_int: "\<bar>n\<bar> \<le> 10 ^ 34 \<Longrightarrow> dround34 (of_int n) = of_int n"
  using dround34_grid [OF grid_step_one, of n] by simp

lemma quantize_grid_multiple:
  assumes g: "grid_step e c k" and n: "\<bar>n\<bar> * c \<le> 10 ^ 34"
  shows "quantize_grid (of_int n * e) e RoundHalfEven = of_int n * e"
proof -
  have c: "1 \<le> c" and e: "0 < e" using g grid_step_pos by (auto simp: grid_step_def)
  have "\<bar>n\<bar> * 1 \<le> \<bar>n\<bar> * c" using c by (intro mult_left_mono) auto
  then have "dround34 (of_int n) = of_int n" using n by (intro dround34_int) simp
  then show ?thesis using e dround34_grid [OF g n]
    by (simp add: quantize_grid_def to_integral_value_def)
qed

lemma quantize_grid_nearest:
  assumes g: "grid_step e c k" and v: "\<bar>v / e\<bar> * of_int c \<le> 10 ^ 33" and c: "c \<le> 10 ^ 33"
  obtains n where "quantize_grid v e RoundHalfEven = of_int n * e" "\<bar>n\<bar> * c \<le> 10 ^ 34"
    "\<bar>of_int n * e - v\<bar> \<le> e / 2 + \<bar>v\<bar> * deps34"
proof -
  have e: "0 < e" and c0: "0 < c" using g grid_step_pos by (auto simp: grid_step_def)
  define x where "x = dround34 (v / e)"
  define n where "n = round_half_even x"
  have nx: "\<bar>of_int n - x\<bar> \<le> 1/2" unfolding n_def by (rule round_half_even_err)
  have xv: "\<bar>x - v / e\<bar> \<le> \<bar>v / e\<bar> * deps34" unfolding x_def by (rule D34.rnd_err)
  have "\<bar>v / e\<bar> * deps34 \<le> \<bar>v / e\<bar>" using D34.eps_small by (intro mult_left_le) auto
  then have "\<bar>of_int n\<bar> \<le> 2 * \<bar>v / e\<bar> + 1/2" using nx xv by linarith
  then have "\<bar>of_int n\<bar> * of_int c \<le> (2 * \<bar>v / e\<bar> + 1/2) * (of_int c :: rat)"
    using c0 by (intro mult_right_mono) auto
  also have "\<dots> = 2 * (\<bar>v / e\<bar> * of_int c) + of_int c / 2" by (simp add: algebra_simps)
  also have "\<dots> \<le> 2 * 10 ^ 33 + 10 ^ 33 / 2"
  proof -
    have "(of_int c :: rat) \<le> 10 ^ 33" using c by (metis of_int_le_iff of_int_numeral of_int_power)
    then show ?thesis using v by linarith
  qed
  also have "\<dots> \<le> of_int (10 ^ 34)" by simp
  finally have nc: "\<bar>n\<bar> * c \<le> 10 ^ 34" by (metis of_int_abs of_int_le_iff of_int_mult)
  have "quantize_grid v e RoundHalfEven = of_int n * e"
    using dround34_grid [OF g nc]
    by (simp add: quantize_grid_def to_integral_value_def Let_def n_def x_def)
  moreover have "of_int n * e - v = (of_int n - v / e) * e"
    using e by (simp add: left_diff_distrib)
  then have "\<bar>of_int n * e - v\<bar> = \<bar>of_int n - v / e\<bar> * e"
    using e by (simp add: abs_mult)
  moreover have "\<bar>of_int n - v / e\<bar> * e \<le> (1/2 + \<bar>v / e\<bar> * deps34) * e"
    using e nx xv by (intro mult_right_mono) linarith+
  moreover have "(1/2 + \<bar>v / e\<bar> * deps34) * e = e / 2 + \<bar>v\<bar> * deps34"
    using e by (simp add: field_simps)
  ultimately show thesis using that [of n] nc by linarith
qed

text \<open>Rounding lots down counts whole steps of the rounded quotient.\<close>

lemma round_lots_down_steps:
  assumes g: "grid_step (lot_step i) c k" and l: "0 < l" "l / lot_step i * of_int c \<le> 10 ^ 27"
  defines "n \<equiv> \<lfloor>ddiv l (lot_step i)\<rfloor>"
  shows "round_lots_down i l = of_int n * lot_step i" "0 \<le> n"
proof -
  let ?e = "lot_step i"
  have e: "0 < ?e" and c0: "0 < c" using g grid_step_pos by (auto simp: grid_step_def)
  have q: "0 < l / ?e" using e l by simp
  have dq: "0 \<le> ddiv l ?e" "ddiv l ?e \<le> l / ?e * (1 + deps)"
    using q D.rnd_upper [of "l / ?e"] by (auto simp: ddiv_def D.rnd_nonneg)
  then show n0: "0 \<le> n" by (simp add: n_def)
  have "of_int n \<le> l / ?e * (1 + deps)" unfolding n_def using dq by linarith
  then have "of_int n * of_int c \<le> l / ?e * (1 + deps) * (of_int c :: rat)"
    using c0 by (intro mult_right_mono) auto
  also have "\<dots> = (l / ?e * of_int c) * (1 + deps)" by simp
  also have "\<dots> \<le> 10 ^ 27 * (1 + deps)" using l(2) by (intro mult_right_mono) (auto simp: deps_def)
  also have "\<dots> \<le> of_int (10 ^ 28)" by (simp add: deps_def)
  finally have nc: "\<bar>n\<bar> * c \<le> 10 ^ 28" using n0 by (metis abs_of_nonneg of_int_le_iff of_int_mult)
  then have "quantize_grid (of_int n * ?e) ?e RoundHalfEven = of_int n * ?e"
    by (intro quantize_grid_multiple [OF g]) simp
  then show "round_lots_down i l = of_int n * ?e"
    using l dq(1) dround_grid [OF g nc]
    by (simp add: round_lots_down_def to_integral_value_def n_def dmul_def)
qed

lemma round_lots_down_nonneg:
  assumes "grid_step (lot_step i) c k" "l / lot_step i * of_int c \<le> 10 ^ 27"
  shows "0 \<le> round_lots_down i l"
proof (cases "l \<le> 0")
  case False
  then show ?thesis
    using round_lots_down_steps [OF assms(1) _ assms(2)] grid_step_pos [OF assms(1)] by simp
qed (simp add: round_lots_down_def)

lemma round_lots_down_bounds:
  assumes g: "grid_step (lot_step i) c k" and l: "0 < l" "l / lot_step i * of_int c \<le> 10 ^ 27"
  shows "round_lots_down i l \<le> l * (1 + deps)" "l * (1 - deps) < round_lots_down i l + lot_step i"
proof -
  let ?e = "lot_step i"
  define n where "n = \<lfloor>ddiv l ?e\<rfloor>"
  have e: "0 < ?e" using g by (rule grid_step_pos)
  have r: "round_lots_down i l = of_int n * ?e" unfolding n_def using round_lots_down_steps [OF g l] by simp
  have q: "0 \<le> l / ?e" using e l by simp
  have "of_int n \<le> l / ?e * (1 + deps)" "l / ?e * (1 - deps) < of_int n + 1"
    using D.rnd_upper [OF q] D.rnd_lower [OF q] unfolding n_def ddiv_def by linarith+
  then have "of_int n * ?e \<le> l / ?e * (1 + deps) * ?e" "l / ?e * (1 - deps) * ?e < (of_int n + 1) * ?e"
    using e by (intro mult_right_mono mult_strict_right_mono; simp)+
  moreover have "l / ?e * a * ?e = l * a" for a using e by simp
  ultimately show "round_lots_down i l \<le> l * (1 + deps)" "l * (1 - deps) < round_lots_down i l + ?e"
    unfolding r by (simp_all only: distrib_right mult_1)
qed

text \<open>On a decimal lot step the division is exact, and so is the promise never to round up.\<close>

lemma dround_fixed_imp_representable: "dround x = x \<Longrightarrow> representable 10 28 x"
  using representable_round_sig [of 10 28 x] by (simp add: dround_def)

lemma dround_scaled:
  assumes "dround x = x"
  shows "dround (x / 10 powi k) = x / 10 powi k"
proof -
  obtain m j where x: "x = of_int m * of_int 10 powi j" and m: "\<bar>m\<bar> \<le> 10 ^ nat 28"
    using dround_fixed_imp_representable [OF assms] by (auto simp: representable_def)
  have "x / 10 powi k = of_int m * of_int 10 powi (j - k)"
    unfolding x by (simp add: power_int_diff)
  then have "representable 10 28 (x / 10 powi k)" using m unfolding representable_def by blast
  then show ?thesis unfolding dround_def by (intro round_sig_exact) auto
qed

lemma lots_whole_steps:
  assumes "lot_step i = 10 powi k" "0 < l" "dround l = l" "l / lot_step i \<le> 10 ^ 27"
  shows "round_lots_down i l = of_int \<lfloor>l / lot_step i\<rfloor> * lot_step i" "0 \<le> \<lfloor>l / lot_step i\<rfloor>"
    "round_lots_down i l \<le> l" "l < round_lots_down i l + lot_step i"
proof -
  let ?e = "lot_step i" and ?n = "\<lfloor>l / lot_step i\<rfloor>"
  have g: "grid_step ?e 1 k" using assms(1) by (simp add: grid_step_def)
  have e: "0 < ?e" using g by (rule grid_step_pos)
  have "ddiv l ?e = l / ?e" using dround_scaled [OF assms(3)] assms(1) by (simp add: ddiv_def)
  then show r: "round_lots_down i l = of_int ?n * ?e" "0 \<le> ?n"
    using round_lots_down_steps [OF g assms(2)] assms(4) by simp_all
  have "of_int ?n \<le> l / ?e" "l / ?e < of_int ?n + 1" by linarith+
  moreover have "l / ?e * ?e = l" using e by simp
  ultimately have "of_int ?n * ?e \<le> l" "l < (of_int ?n + 1) * ?e"
    using e mult_right_mono [of "of_int ?n" "l / ?e" ?e] mult_strict_right_mono [of "l / ?e" "of_int ?n + 1" ?e] by simp_all
  then show "round_lots_down i l \<le> l" "l < round_lots_down i l + ?e" by (simp_all add: r(1) distrib_right)
qed

text \<open>
  \<open>round_lots_down\<close> never rounds risk upward: on a lot step that is a power of ten, for a
  size that is a decimal, the result is a whole number of steps, at most the size asked for,
  and less than one step below it.
\<close>

theorem round_lots_down_never_up:
  assumes "lot_step i = 10 powi k" and "0 < l" and "dround l = l" and "l / lot_step i \<le> 10 ^ 27"
  shows "\<exists>n. 0 \<le> n \<and> round_lots_down i l = of_int n * lot_step i
           \<and> round_lots_down i l \<le> l \<and> l < round_lots_down i l + lot_step i"
  using lots_whole_steps [OF assms] by blast

definition eur_usd :: instrument where
  "eur_usd = \<lparr>symbol = ''EUR_USD'', base_ccy = ''EUR'', quote_ccy = ''USD'', asset_class = FX_CFD,
     pip = 1/10000, tick = 1/100000, contract_size = 100000, min_lot = 1/100, lot_step = 1/100,
     max_lot = 100, margin_rate = 33/1000, venue = ''sim''\<rparr>"

theorem round_lots_down_never_up_witness:
  "\<exists>n. 0 \<le> n \<and> round_lots_down eur_usd (1279/1000) = of_int n * lot_step eur_usd
     \<and> round_lots_down eur_usd (1279/1000) \<le> 1279/1000
     \<and> 1279/1000 < round_lots_down eur_usd (1279/1000) + lot_step eur_usd"
proof -
  have "lot_step eur_usd = 10 powi (- 2)" by (simp add: eur_usd_def power_int_minus)
  moreover have "dround (1279/1000) = 1279/1000" by code_simp
  moreover have "1279/1000 / lot_step eur_usd \<le> 10 ^ 27" by (simp add: eur_usd_def)
  ultimately show ?thesis using round_lots_down_never_up [of eur_usd "- 2" "1279/1000"] by simp
qed

text \<open>
  \<open>Instrument.round_price\<close> is the nearest tick: the result is a whole number of ticks, off by
  at most half a tick (and the last digit of the 34-digit context), and rounding it again
  changes nothing.
\<close>

theorem round_price_nearest_tick:
  assumes "grid_step (tick i) c k" and "\<bar>p / tick i\<bar> * of_int c \<le> 10 ^ 33" and "c \<le> 10 ^ 33"
  shows "(\<exists>n. round_price i p = of_int n * tick i)
    \<and> \<bar>round_price i p - p\<bar> \<le> tick i / 2 + \<bar>p\<bar> * deps34
    \<and> round_price i (round_price i p) = round_price i p"
proof -
  obtain n where "quantize_grid p (tick i) RoundHalfEven = of_int n * tick i" "\<bar>n\<bar> * c \<le> 10 ^ 34"
    "\<bar>of_int n * tick i - p\<bar> \<le> tick i / 2 + \<bar>p\<bar> * deps34"
    using quantize_grid_nearest [OF assms] by metis
  then show ?thesis using quantize_grid_multiple [OF assms(1)] by (auto simp: round_price_def)
qed

theorem round_price_nearest_tick_witness:
  "(\<exists>n. round_price eur_usd (1085374/1000000) = of_int n * tick eur_usd)
    \<and> \<bar>round_price eur_usd (1085374/1000000) - 1085374/1000000\<bar>
        \<le> tick eur_usd / 2 + \<bar>1085374/1000000\<bar> * deps34
    \<and> round_price eur_usd (round_price eur_usd (1085374/1000000)) = round_price eur_usd (1085374/1000000)"
proof -
  have "grid_step (tick eur_usd) 1 (- 5)" by (simp add: grid_step_def eur_usd_def power_int_minus)
  then show ?thesis
    by (rule round_price_nearest_tick) (simp_all add: eur_usd_def)
qed

lemma frac_cancel: "y \<noteq> 0 \<Longrightarrow> (x * a) / (y * b) * c * y = x * (a * c / b)" for x y a b c :: rat
  by (simp add: divide_simps)

lemma quotient_slack:
  assumes x: "0 \<le> x" and y: "0 < y"
  shows "\<bar>dround (dround x / dround y) * y - x\<bar> \<le> x * (4 * deps)"
proof -
  let ?d = deps
  have d: "?d = 1 / 10 ^ 27" by (simp add: deps_def)
  have yp: "0 < dround y" "0 < y * (1 - ?d)" using y by (simp_all add: D.rnd_pos d)
  have q0: "0 \<le> dround x / dround y" using x yp by (simp add: D.rnd_nonneg)
  have "dround x / dround y \<le> (x * (1 + ?d)) / (y * (1 - ?d))"
    using x y yp D.rnd_upper [OF x] D.rnd_lower [of y] by (intro frac_le) (auto simp: d)
  then have "dround (dround x / dround y) \<le> (x * (1 + ?d)) / (y * (1 - ?d)) * (1 + ?d)"
    using D.rnd_upper [OF q0] by (metis add_nonneg_nonneg d divide_nonneg_nonneg mult_right_mono order_trans zero_le_numeral zero_le_one zero_le_power)
  then have "dround (dround x / dround y) * y \<le> (x * (1 + ?d)) / (y * (1 - ?d)) * (1 + ?d) * y"
    using y by (intro mult_right_mono) auto
  also have "\<dots> = x * ((1 + ?d) * (1 + ?d) / (1 - ?d))" using y by (intro frac_cancel) simp
  also have "\<dots> \<le> x * (1 + 4 * ?d)" using x by (intro mult_left_mono) (simp_all add: d)
  finally have up: "dround (dround x / dround y) * y \<le> x * (1 + 4 * ?d)" .
  have "(x * (1 - ?d)) / (y * (1 + ?d)) \<le> dround x / dround y"
    using x y yp D.rnd_lower [OF x] D.rnd_upper [of y] by (intro frac_le) (auto simp: D.rnd_nonneg)
  then have "(x * (1 - ?d)) / (y * (1 + ?d)) * (1 - ?d) \<le> dround (dround x / dround y)"
    using D.rnd_lower [OF q0] by (meson D.eps_small(2) diff_ge_0_iff_ge less_imp_le mult_right_mono order_trans)
  then have "(x * (1 - ?d)) / (y * (1 + ?d)) * (1 - ?d) * y \<le> dround (dround x / dround y) * y"
    using y by (intro mult_right_mono) auto
  moreover have "(x * (1 - ?d)) / (y * (1 + ?d)) * (1 - ?d) * y = x * ((1 - ?d) * (1 - ?d) / (1 + ?d))"
    using y by (intro frac_cancel) simp
  moreover have "x * (1 - 4 * ?d) \<le> x * ((1 - ?d) * (1 - ?d) / (1 + ?d))"
    using x by (intro mult_left_mono) (simp_all add: d)
  ultimately have lo: "x * (1 - 4 * ?d) \<le> dround (dround x / dround y) * y" by linarith
  show ?thesis using up lo by (simp add: abs_le_iff algebra_simps)
qed

text \<open>
  \<open>break_even_win_rate\<close> breaks even: at the win rate it returns, the expected value of the
  trade, \<open>p (T - c) - (1 - p) (S + c)\<close> in exact arithmetic, is zero up to four units of the last
  of 28 digits of the losing leg; and it raises exactly when a leg is not positive.
\<close>

theorem break_even_has_zero_expectancy:
  assumes "0 \<le> c"
  shows "case break_even_win_rate T S c of
           Inl e \<Rightarrow> e = ValueError \<and> (T \<le> 0 \<or> S \<le> 0)
         | Inr p \<Rightarrow> 0 < T \<and> 0 < S \<and> 0 < p
             \<and> \<bar>p * (T - c) - (1 - p) * (S + c)\<bar> \<le> (S + c) * (4 * deps)"
proof (cases "T \<le> 0 \<or> S \<le> 0")
  case True
  then show ?thesis by (auto simp: break_even_win_rate_def)
next
  case False
  then have TS: "0 < T" "0 < S" "0 < T + S" by auto
  then have "dadd T S \<noteq> 0" using dadd_pos [of T S] by simp
  then have b: "break_even_win_rate T S c = Inr (dround (dround (S + c) / dround (T + S)))"
    using False by (simp add: break_even_win_rate_def dadd_def ddiv_def)
  have "p * (T - c) - (1 - p) * (S + c) = p * (T + S) - (S + c)" for p :: rat
    by (simp add: algebra_simps)
  then show ?thesis
    using quotient_slack [of "S + c" "T + S"] TS assms unfolding b by (simp add: D.rnd_pos)
qed

theorem break_even_has_zero_expectancy_witness:
  "case break_even_win_rate 3 3 1 of
     Inl e \<Rightarrow> e = ValueError \<and> ((3::rat) \<le> 0 \<or> (3::rat) \<le> 0)
   | Inr p \<Rightarrow> (0::rat) < 3 \<and> (0::rat) < 3 \<and> 0 < p
       \<and> \<bar>p * (3 - 1) - (1 - p) * (3 + 1)\<bar> \<le> (3 + 1) * (4 * deps)"
  by (rule break_even_has_zero_expectancy) simp

text \<open>
  \<open>pip_value_account\<close> never assumes a rate of one: for a positive size it raises exactly when
  the quote currency is not the account's and no rate is given; otherwise it is the value in
  the quote currency, converted by the given rate.
\<close>

theorem pip_value_account_no_silent_rate:
  "pip_value_account i lots ccy q =
     (if quote_ccy i \<noteq> ccy \<and> q = None then Inl ValueError
      else if quote_ccy i = ccy then Inr (pip_value_quote i lots)
      else Inr (dmul (pip_value_quote i lots) (cr_rate (the q))))"
  by (auto simp: pip_value_account_def convert_def Let_def split: option.splits)

end
