(* ===== verification/Domain.thy ===== *)
theory Domain
  imports Money
begin

text \<open>
  \<open>src/sentinel/core/types.py\<close>: the records every layer passes around. A dataclass is a record
  (field names carry a prefix, since Isabelle's selectors share one name space), an enum a
  datatype, a \<open>__post_init__\<close> a checked constructor \<open>mk_...\<close>. Display-only fields (free text,
  tags, feature dictionaries) are left out.
\<close>

section \<open>Enumerations\<close>

datatype side = BUY | SELL

definition side_sign :: "side \<Rightarrow> dec" where
  "side_sign s = (case s of BUY \<Rightarrow> 1 | SELL \<Rightarrow> - 1)"

definition side_opposite :: "side \<Rightarrow> side" where
  "side_opposite s = (case s of BUY \<Rightarrow> SELL | SELL \<Rightarrow> BUY)"

datatype order_type = MARKET | LIMIT | STOP

datatype order_state = PENDING | SENT | ACKED | PARTIAL | FILLED | REJECTED | CANCELLED | UNKNOWN

definition terminal :: "order_state \<Rightarrow> bool" where
  "terminal s \<longleftrightarrow> s \<in> {FILLED, REJECTED, CANCELLED}"

datatype data_quality = DQ_OK | DQ_STALE | DQ_GAP | DQ_SUSPECT

section \<open>Market data\<close>

record quote =
  q_instrument :: string
  q_bid :: dec
  q_ask :: dec
  q_ts_ns :: int
  q_received_ns :: int

definition mk_quote :: "quote \<Rightarrow> quote res" where
  "mk_quote q = (if q_ask q < q_bid q then Inl ValueError else Inr q)"

definition quote_mid :: "quote \<Rightarrow> dec" where
  "quote_mid q = ddiv (dadd (q_bid q) (q_ask q)) 2"

definition quote_spread :: "quote \<Rightarrow> dec" where
  "quote_spread q = dsub (q_ask q) (q_bid q)"

definition quote_spread_pips :: "quote \<Rightarrow> instrument \<Rightarrow> dec" where
  "quote_spread_pips q i = ddiv (quote_spread q) (pip i)"

definition price_for :: "quote \<Rightarrow> side \<Rightarrow> dec" where
  "price_for q s = (case s of BUY \<Rightarrow> q_ask q | SELL \<Rightarrow> q_bid q)"

record bar =
  b_instrument :: string
  b_open :: dec
  b_high :: dec
  b_low :: dec
  b_close :: dec
  b_volume :: dec
  b_start_ns :: int
  b_end_ns :: int
  b_complete :: bool

definition mk_bar :: "bar \<Rightarrow> bar res" where
  "mk_bar b =
     (if b_high b < b_low b then Inl ValueError
      else if \<not> (b_low b \<le> b_open b \<and> b_open b \<le> b_high b) then Inl ValueError
      else if \<not> (b_low b \<le> b_close b \<and> b_close b \<le> b_high b) then Inl ValueError
      else if b_end_ns b \<le> b_start_ns b then Inl ValueError
      else Inr b)"

section \<open>Orders\<close>

record order_intent =
  oi_client_order_id :: string
  oi_strategy :: string
  oi_instrument :: string
  oi_side :: side
  oi_lots :: dec
  oi_order_type :: order_type
  oi_limit_price :: "dec option"
  oi_stop_loss :: "dec option"
  oi_take_profit :: "dec option"
  oi_decision_ns :: int
  oi_risk_amount :: dec
  oi_risk_pct :: dec
  oi_expected_cost_pips :: dec

definition mk_intent :: "order_intent \<Rightarrow> order_intent res" where
  "mk_intent i =
     (if oi_lots i \<le> 0 then Inl ValueError
      else if oi_order_type i = MARKET \<and> oi_limit_price i \<noteq> None then Inl ValueError
      else if oi_order_type i \<in> {LIMIT, STOP} \<and> oi_limit_price i = None then Inl ValueError
      else case (oi_stop_loss i, oi_take_profit i) of
        (Some sl, Some tp) \<Rightarrow>
          if oi_side i = BUY \<and> \<not> sl < tp then Inl ValueError
          else if oi_side i = SELL \<and> \<not> tp < sl then Inl ValueError
          else Inr i
      | _ \<Rightarrow> Inr i)"

record fill =
  f_client_order_id :: string
  f_venue_order_id :: string
  f_instrument :: string
  f_side :: side
  f_lots :: dec
  f_price :: dec
  f_ts_ns :: int
  f_commission :: dec
  f_slippage_pips :: dec

record order =
  o_intent :: order_intent
  o_state :: order_state
  o_stop_confirmed :: bool
  o_venue_order_id :: "string option"
  o_fills :: "fill list"
  o_attempts :: nat

definition filled_lots :: "order \<Rightarrow> dec" where
  "filled_lots o' = dsum (map f_lots (o_fills o'))"

definition avg_fill_price :: "order \<Rightarrow> dec option" where
  "avg_fill_price o' =
     (let total = filled_lots o'
      in if total \<le> 0 then None
         else Some (ddiv (dsum (map (\<lambda>f. dmul (f_price f) (f_lots f)) (o_fills o'))) total))"

section \<open>Positions, accounts, trades\<close>

record position =
  p_instrument :: string
  p_side :: side
  p_lots :: dec
  p_entry_price :: dec
  p_opened_ns :: int
  p_strategy :: string
  p_stop_loss :: "dec option"
  p_take_profit :: "dec option"
  p_broker_stop_confirmed :: bool
  p_client_order_id :: "string option"
  p_realised_pnl :: dec
  p_financing_paid :: dec
  p_commission_paid :: dec
  p_initial_risk :: dec
  p_max_favourable :: dec
  p_max_adverse :: dec
  p_partial_taken :: bool
  p_breakeven_moved :: bool

definition unrealised :: "position \<Rightarrow> quote \<Rightarrow> instrument \<Rightarrow> dec \<Rightarrow> dec" where
  "unrealised p q i q2a =
     (let exit_price = price_for q (side_opposite (p_side p));
          delta = dmul (dsub exit_price (p_entry_price p)) (side_sign (p_side p))
      in dmul (dmul delta (units i (p_lots p))) q2a)"

definition r_multiple :: "position \<Rightarrow> quote \<Rightarrow> instrument \<Rightarrow> dec \<Rightarrow> dec option" where
  "r_multiple p q i q2a =
     (if p_initial_risk p \<le> 0 then None
      else Some (ddiv (unrealised p q i q2a) (p_initial_risk p)))"

record account_state =
  ac_account_id :: string
  ac_currency :: string
  ac_balance :: dec
  ac_equity :: dec
  ac_margin_used :: dec
  ac_margin_available :: dec
  ac_unrealised_pnl :: dec
  ac_open_positions :: nat
  ac_account_type :: string

definition margin_level_pct :: "account_state \<Rightarrow> dec option" where
  "margin_level_pct a =
     (if ac_margin_used a \<le> 0 then None else Some (dmul (ddiv (ac_equity a) (ac_margin_used a)) 100))"

definition is_live :: "account_state \<Rightarrow> bool option" where
  "is_live a =
     (if ac_account_type a = ''live'' then Some True
      else if ac_account_type a = ''demo'' then Some False else None)"

record closed_trade =
  ct_trade_seq :: nat
  ct_strategy :: string
  ct_instrument :: string
  ct_side :: side
  ct_lots :: dec
  ct_entry_price :: dec
  ct_exit_price :: dec
  ct_opened_ns :: int
  ct_closed_ns :: int
  ct_pnl :: dec
  ct_pnl_pips :: dec
  ct_commission :: dec
  ct_financing :: dec
  ct_initial_risk :: dec
  ct_r_multiple :: dec
  ct_exit_reason :: string
  ct_max_favourable_r :: dec
  ct_max_adverse_r :: dec

definition won :: "closed_trade \<Rightarrow> bool" where
  "won t \<longleftrightarrow> 0 < ct_pnl t"

section \<open>Lemmas\<close>

lemma side_opposite_opposite [simp]: "side_opposite (side_opposite s) = s"
  by (cases s) (simp_all add: side_opposite_def)

lemma side_sign_opposite: "side_sign (side_opposite s) = - side_sign s"
  by (cases s) (simp_all add: side_opposite_def side_sign_def)

lemma side_simps [simp]:
  "side_sign BUY = 1" "side_sign SELL = - 1"
  "side_opposite BUY = SELL" "side_opposite SELL = BUY"
  "price_for q BUY = q_ask q" "price_for q SELL = q_bid q"
  by (simp_all add: side_sign_def side_opposite_def price_for_def)

lemma terminal_simps [simp]:
  "terminal FILLED" "terminal REJECTED" "terminal CANCELLED"
  "\<not> terminal PENDING" "\<not> terminal SENT" "\<not> terminal ACKED" "\<not> terminal PARTIAL" "\<not> terminal UNKNOWN"
  by (simp_all add: terminal_def)

lemma mk_quote_Inr: "mk_quote q = Inr q' \<longleftrightarrow> q' = q \<and> q_bid q \<le> q_ask q"
  by (auto simp: mk_quote_def)

text \<open>The round trip costs the spread: a position marked at its entry quote is never in profit.\<close>

lemma entry_mark_nonpos:
  assumes "mk_quote q = Inr q" "instrument_ok i" "0 \<le> p_lots p" "0 \<le> q2a"
    and "p_entry_price p = price_for q (p_side p)"
  shows "unrealised p q i q2a \<le> 0"
proof -
  have le: "q_bid q \<le> q_ask q" using assms(1) by (simp add: mk_quote_def split: if_splits)
  have "dmul (dsub (price_for q (side_opposite (p_side p))) (p_entry_price p)) (side_sign (p_side p)) \<le> 0"
    using le assms(5) by (cases "p_side p") (auto simp: dmul_def dsub_def D.rnd_nonpos D.rnd_nonneg D.rnd_minus)
  moreover have "0 \<le> units i (p_lots p)"
    using assms(2,3) by (simp add: units_def dmul_nonneg instrument_ok_def)
  ultimately show ?thesis
    using assms(4) by (simp add: unrealised_def dmul_def D.rnd_nonpos mult_nonpos_nonneg)
qed

end
