(* ===== verification/Config.thy ===== *)
theory Config
  imports Prelude
begin

text \<open>
  The risk envelope of \<open>src/sentinel/core/config.py\<close>: the fields of \<open>RiskConfig\<close>, the bounds
  their \<open>Field\<close> declarations put on them, and the cross-validator \<open>_coherent\<close>. Together they
  are the constructor: \<open>mk_risk_config\<close> returns a configuration or raises.
\<close>

record ladder_row =
  lr_drawdown_pct :: dec
  lr_risk_multiplier :: dec

record risk_config =
  risk_per_trade_pct :: dec
  max_lots_per_trade :: dec
  min_stop_pips :: dec
  max_stop_pips :: dec
  min_reward_risk :: dec
  require_broker_side_stop :: bool
  max_open_positions :: int
  max_positions_per_instrument :: int
  max_gross_leverage :: dec
  max_currency_exposure_pct :: dec
  max_correlated_risk_pct :: dec
  max_total_open_risk_pct :: dec
  max_group_open_risk_pct :: dec
  max_group_currency_exposure_pct :: dec
  group_ledger_stale_sec :: int
  correlation_threshold :: pyfloat
  correlation_lookback_bars :: int
  daily_loss_limit_pct :: dec
  weekly_loss_limit_pct :: dec
  monthly_loss_limit_pct :: dec
  max_drawdown_halt_pct :: dec
  max_trades_per_day :: int
  max_trades_per_week :: int
  max_trades_per_year :: int
  min_seconds_between_entries :: int
  max_annual_cost_pct_of_equity :: dec
  ladder_enabled :: bool
  ladder :: "ladder_row list"
  breakeven_trigger_r :: dec
  partial_take_r :: dec
  partial_take_fraction :: dec
  trail_atr_multiple :: dec
  trail_activate_r :: dec
  giveback_arm_r :: dec
  giveback_keep_fraction :: dec
  max_hold_sec :: int
  daily_profit_lock_pct :: dec
  profit_lock_keep_fraction :: dec
  ladder_hysteresis_pct :: dec
  rolling_24h_loss_limit_pct :: dec
  max_data_staleness_sec :: int
  max_clock_skew_ms :: pyfloat
  max_spread_pips_multiple :: dec
  block_minutes_before_high_impact :: int
  block_minutes_after_high_impact :: int
  weekend_flat_enabled :: bool
  friday_close_utc_hour :: int
  max_offline_seconds_before_freeze :: int

definition in_range :: "'a::linorder \<Rightarrow> 'a \<Rightarrow> 'a \<Rightarrow> bool" where
  "in_range lo hi x \<longleftrightarrow> lo \<le> x \<and> x \<le> hi"

definition risk_config_fields_ok :: "risk_config \<Rightarrow> bool" where
  "risk_config_fields_ok c \<longleftrightarrow>
     in_range (1/100) 2 (risk_per_trade_pct c)
     \<and> 0 < max_lots_per_trade c \<and> max_lots_per_trade c \<le> 100
     \<and> 1 \<le> min_stop_pips c \<and> 0 < max_stop_pips c \<and> 3/10 \<le> min_reward_risk c
     \<and> in_range 0 50 (max_open_positions c) \<and> in_range 0 10 (max_positions_per_instrument c)
     \<and> 0 < max_gross_leverage c \<and> max_gross_leverage c \<le> 100
     \<and> 0 < max_currency_exposure_pct c \<and> 0 < max_correlated_risk_pct c \<and> 0 < max_total_open_risk_pct c
     \<and> 0 < max_group_open_risk_pct c \<and> 0 < max_group_currency_exposure_pct c
     \<and> in_range 30 3600 (group_ledger_stale_sec c)
     \<and> in_range 0 1 (correlation_threshold c) \<and> in_range 30 5000 (correlation_lookback_bars c)
     \<and> 0 < daily_loss_limit_pct c \<and> daily_loss_limit_pct c \<le> 20
     \<and> 0 < weekly_loss_limit_pct c \<and> weekly_loss_limit_pct c \<le> 40
     \<and> 0 < monthly_loss_limit_pct c \<and> monthly_loss_limit_pct c \<le> 60
     \<and> 0 < max_drawdown_halt_pct c \<and> max_drawdown_halt_pct c \<le> 50
     \<and> in_range 0 500 (max_trades_per_day c) \<and> in_range 0 2000 (max_trades_per_week c)
     \<and> in_range 0 100000 (max_trades_per_year c) \<and> in_range 0 86400 (min_seconds_between_entries c)
     \<and> 0 < max_annual_cost_pct_of_equity c
     \<and> 0 \<le> breakeven_trigger_r c \<and> 0 \<le> partial_take_r c \<and> in_range 0 1 (partial_take_fraction c)
     \<and> 0 \<le> trail_atr_multiple c \<and> 0 \<le> trail_activate_r c
     \<and> 0 \<le> giveback_arm_r c \<and> in_range 0 (95/100) (giveback_keep_fraction c)
     \<and> in_range 0 2592000 (max_hold_sec c)
     \<and> 0 \<le> daily_profit_lock_pct c \<and> in_range 0 1 (profit_lock_keep_fraction c)
     \<and> in_range 0 5 (ladder_hysteresis_pct c) \<and> 0 \<le> rolling_24h_loss_limit_pct c
     \<and> in_range 1 3600 (max_data_staleness_sec c) \<and> 0 < max_clock_skew_ms c
     \<and> 0 < max_spread_pips_multiple c
     \<and> in_range 0 600 (block_minutes_before_high_impact c) \<and> in_range 0 600 (block_minutes_after_high_impact c)
     \<and> in_range 0 23 (friday_close_utc_hour c) \<and> in_range 5 7200 (max_offline_seconds_before_freeze c)"

text \<open>The ladder part of \<open>_coherent\<close>: \<open>xs == sorted(xs)\<close> is sortedness.\<close>

definition ladder_coherent :: "risk_config \<Rightarrow> bool" where
  "ladder_coherent c =
     (let dds = map lr_drawdown_pct (ladder c); mults = map lr_risk_multiplier (ladder c)
      in sorted dds \<and> sorted (rev mults) \<and> (\<forall>m \<in> set mults. 0 \<le> m \<and> m \<le> 1)
         \<and> (dds \<noteq> [] \<longrightarrow> last dds \<le> max_drawdown_halt_pct c))"

definition risk_config_coherent :: "risk_config \<Rightarrow> bool" where
  "risk_config_coherent c =
     (let budget = dmul (risk_per_trade_pct c) (of_int (max_open_positions c))
      in min_stop_pips c < max_stop_pips c
         \<and> daily_loss_limit_pct c \<le> weekly_loss_limit_pct c
         \<and> weekly_loss_limit_pct c \<le> monthly_loss_limit_pct c
         \<and> monthly_loss_limit_pct c \<le> max_drawdown_halt_pct c
         \<and> max_trades_per_day c * 5 \<le> max_trades_per_week c * 2
         \<and> (ladder_enabled c \<longrightarrow> ladder_coherent c)
         \<and> \<not> (0 < partial_take_fraction c \<and> partial_take_r c \<le> 0)
         \<and> \<not> (0 < trail_activate_r c \<and> 0 < breakeven_trigger_r c \<and> trail_activate_r c < breakeven_trigger_r c)
         \<and> \<not> (0 < giveback_arm_r c \<and> giveback_keep_fraction c \<le> 0)
         \<and> \<not> (0 < rolling_24h_loss_limit_pct c \<and> weekly_loss_limit_pct c < rolling_24h_loss_limit_pct c)
         \<and> risk_per_trade_pct c \<le> max_currency_exposure_pct c
         \<and> risk_per_trade_pct c \<le> max_correlated_risk_pct c
         \<and> risk_per_trade_pct c \<le> max_total_open_risk_pct c
         \<and> \<not> (0 < max_open_positions c \<and> max_total_open_risk_pct c < budget)
         \<and> budget \<le> dmul (daily_loss_limit_pct c) 3)"

definition mk_risk_config :: "risk_config \<Rightarrow> risk_config res" where
  "mk_risk_config c =
     (if risk_config_fields_ok c \<and> risk_config_coherent c then Inr c else Inl ValueError)"

definition default_risk_config :: risk_config where
  "default_risk_config =
     \<lparr>risk_per_trade_pct = 1/2, max_lots_per_trade = 5, min_stop_pips = 10, max_stop_pips = 250,
      min_reward_risk = 12/10, require_broker_side_stop = True, max_open_positions = 4,
      max_positions_per_instrument = 1, max_gross_leverage = 5, max_currency_exposure_pct = 125/100,
      max_correlated_risk_pct = 9/10, max_total_open_risk_pct = 2, max_group_open_risk_pct = 3,
      max_group_currency_exposure_pct = 2, group_ledger_stale_sec = 300,
      correlation_threshold = 65/100, correlation_lookback_bars = 240, daily_loss_limit_pct = 2,
      weekly_loss_limit_pct = 4, monthly_loss_limit_pct = 6, max_drawdown_halt_pct = 10,
      max_trades_per_day = 6, max_trades_per_week = 20, max_trades_per_year = 500,
      min_seconds_between_entries = 300, max_annual_cost_pct_of_equity = 15, ladder_enabled = True,
      ladder = [\<lparr>lr_drawdown_pct = 3, lr_risk_multiplier = 75/100\<rparr>,
                \<lparr>lr_drawdown_pct = 5, lr_risk_multiplier = 1/2\<rparr>,
                \<lparr>lr_drawdown_pct = 7, lr_risk_multiplier = 1/4\<rparr>,
                \<lparr>lr_drawdown_pct = 85/10, lr_risk_multiplier = 0\<rparr>],
      breakeven_trigger_r = 1, partial_take_r = 15/10, partial_take_fraction = 1/2,
      trail_atr_multiple = 25/10, trail_activate_r = 1, giveback_arm_r = 15/10,
      giveback_keep_fraction = 1/2, max_hold_sec = 0, daily_profit_lock_pct = 3,
      profit_lock_keep_fraction = 6/10, ladder_hysteresis_pct = 1/2, rolling_24h_loss_limit_pct = 25/10,
      max_data_staleness_sec = 90, max_clock_skew_ms = 750, max_spread_pips_multiple = 25/10,
      block_minutes_before_high_impact = 30, block_minutes_after_high_impact = 30,
      weekend_flat_enabled = True, friday_close_utc_hour = 19, max_offline_seconds_before_freeze = 120\<rparr>"

section \<open>Lemmas\<close>

lemma mk_risk_config_Inr:
  "mk_risk_config c = Inr c' \<longleftrightarrow> c' = c \<and> risk_config_fields_ok c \<and> risk_config_coherent c"
  by (auto simp: mk_risk_config_def)

lemma default_risk_config_accepted: "mk_risk_config default_risk_config = Inr default_risk_config"
  by (simp add: mk_risk_config_Inr) code_simp

text \<open>What an accepted ladder looks like: thresholds ascending, multipliers falling within [0, 1].\<close>

definition ladder_ok :: "ladder_row list \<Rightarrow> bool" where
  "ladder_ok rows \<longleftrightarrow> sorted (map lr_drawdown_pct rows) \<and> sorted (rev (map lr_risk_multiplier rows))
     \<and> (\<forall>r \<in> set rows. 0 \<le> lr_risk_multiplier r \<and> lr_risk_multiplier r \<le> 1)"

lemma mk_risk_config_ladder_ok:
  "mk_risk_config c = Inr c' \<Longrightarrow> ladder_enabled c \<Longrightarrow> ladder_ok (ladder c)"
  by (auto simp: mk_risk_config_Inr risk_config_coherent_def ladder_coherent_def ladder_ok_def Let_def)

lemma mk_risk_config_budget:
  assumes "mk_risk_config c = Inr c'"
  shows "0 < risk_per_trade_pct c" "0 < max_lots_per_trade c"
proof -
  have "risk_config_fields_ok c" using assms by (simp add: mk_risk_config_Inr)
  then have "1/100 \<le> risk_per_trade_pct c" "0 < max_lots_per_trade c"
    unfolding risk_config_fields_ok_def in_range_def by blast+
  then show "0 < risk_per_trade_pct c" "0 < max_lots_per_trade c" by simp_all
qed

lemma ladder_ok_multiplier_antimono:
  assumes "ladder_ok rows" "i \<le> j" "j < length rows"
  shows "lr_risk_multiplier (rows ! j) \<le> lr_risk_multiplier (rows ! i)"
  using assms sorted_rev_nth_mono [of "map lr_risk_multiplier rows" i j]
  by (simp add: ladder_ok_def)

end
