(* ===== verification/Sizing.thy ===== *)
theory Sizing
  imports Domain Config
begin

text \<open>
  \<open>src/sentinel/risk/sizing.py\<close>: risk-based position sizing and the drawdown ladder. The texts of
  \<open>SizingResult.notes\<close> are display strings; each is represented by a constructor of
  \<open>sizing_note\<close>. The division by a zero tolerance raises, as in the code.
\<close>

datatype sizing_note =
    NoConversionRate
  | IdenticalEntryAndStop
  | EquityNotPositive
  | RiskBudgetZero
  | PipValueZero
  | BelowMinimumLot
  | GranularityError
  | SizeCapped

record sizing_result =
  sr_lots :: dec
  sr_risk_amount :: dec
  sr_risk_pct :: dec
  sr_intended_lots :: dec
  sr_rounding_error_pct :: dec
  sr_pip_value_account :: dec
  sr_stop_pips :: dec
  sr_required_min_equity :: dec
  sr_notes :: "sizing_note list"
  sr_feasible :: bool

text \<open>The early returns: everything zero but, once known, the stop distance in pips.\<close>

definition refused_sizing :: "dec \<Rightarrow> sizing_note \<Rightarrow> sizing_result" where
  "refused_sizing stop_pips note =
     \<lparr>sr_lots = 0, sr_risk_amount = 0, sr_risk_pct = 0, sr_intended_lots = 0, sr_rounding_error_pct = 0,
      sr_pip_value_account = 0, sr_stop_pips = stop_pips, sr_required_min_equity = 0,
      sr_notes = [note], sr_feasible = False\<rparr>"

definition DEFAULT_MAX_ROUNDING_ERROR_PCT :: dec where
  "DEFAULT_MAX_ROUNDING_ERROR_PCT = dmul LOT_GRANULARITY_TOLERANCE 100"

definition size_position ::
  "dec \<Rightarrow> dec \<Rightarrow> dec \<Rightarrow> dec \<Rightarrow> instrument \<Rightarrow> dec option \<Rightarrow> dec \<Rightarrow> dec \<Rightarrow> dec \<Rightarrow> sizing_result res" where
  "size_position equity risk_pct entry stop i q2a mult max_lots max_err_pct =
     (case q2a of None \<Rightarrow> Inr (refused_sizing 0 NoConversionRate)
      | Some conv \<Rightarrow>
     let stop_distance = dabs (dsub entry stop) in
     if stop_distance \<le> 0 then Inr (refused_sizing 0 IdenticalEntryAndStop)
     else if equity \<le> 0 then Inr (refused_sizing 0 EquityNotPositive)
     else
     let stop_pips = ddiv stop_distance (pip i);
         effective_risk_pct = dmul risk_pct mult in
     if effective_risk_pct \<le> 0 then Inr (refused_sizing stop_pips RiskBudgetZero)
     else
     let risk_budget = ddiv (dmul equity effective_risk_pct) 100;
         pip_value_per_lot = dmul (pip_value_quote i 1) conv in
     if pip_value_per_lot \<le> 0 then Inr (refused_sizing stop_pips PipValueZero)
     else
     let intended = ddiv risk_budget (dmul stop_pips pip_value_per_lot);
         capped = min intended max_lots;
         lots = round_lots_down i capped;
         tolerance = ddiv max_err_pct 100 in
     if tolerance = 0 then Inl DecimalDivisionByZero
     else
     let min_lots_needed = ddiv (lot_step i) tolerance;
         required_min_equity =
           ddiv (dmul (dmul (dmul min_lots_needed pip_value_per_lot) stop_pips) 100) effective_risk_pct in
     if lots < min_lot i then
       Inr \<lparr>sr_lots = 0, sr_risk_amount = 0, sr_risk_pct = 0, sr_intended_lots = intended,
            sr_rounding_error_pct = 100, sr_pip_value_account = pip_value_per_lot,
            sr_stop_pips = stop_pips, sr_required_min_equity = required_min_equity,
            sr_notes = [BelowMinimumLot], sr_feasible = False\<rparr>
     else
     let actual_risk = dmul (dmul lots stop_pips) pip_value_per_lot;
         rounding_error_pct = (if 0 < capped then dmul (ddiv (dabs (dsub capped lots)) capped) 100 else 0);
         coarse = max_err_pct < rounding_error_pct in
       Inr \<lparr>sr_lots = lots, sr_risk_amount = actual_risk,
            sr_risk_pct = dmul (ddiv actual_risk equity) 100,
            sr_intended_lots = intended, sr_rounding_error_pct = rounding_error_pct,
            sr_pip_value_account = pip_value_per_lot, sr_stop_pips = stop_pips,
            sr_required_min_equity = required_min_equity,
            sr_notes = (if coarse then [GranularityError] else [])
                       @ (if capped < intended then [SizeCapped] else []),
            sr_feasible = \<not> coarse\<rparr>)"

section \<open>The drawdown ladder\<close>

text \<open>The loop \<open>for i, row in enumerate(ladder, start=1)\<close>: the last threshold that is reached.\<close>

fun ladder_target :: "dec \<Rightarrow> int \<Rightarrow> int \<Rightarrow> ladder_row list \<Rightarrow> int" where
  "ladder_target dd i target [] = target"
| "ladder_target dd i target (row # rows) =
     ladder_target dd (i + 1) (if lr_drawdown_pct row \<le> dd then i else target) rows"

definition ladder_rung :: "dec \<Rightarrow> ladder_row list \<Rightarrow> int \<Rightarrow> dec \<Rightarrow> int" where
  "ladder_rung dd rows current hysteresis =
     (if rows = [] then 0
      else let target = ladder_target dd 1 0 rows in
        if current \<le> target then target
        else if int (length rows) < current then target
        else if dd \<le> dsub (lr_drawdown_pct (rows ! nat (current - 1))) hysteresis then target
        else current)"

definition ladder_multiplier :: "dec \<Rightarrow> ladder_row list \<Rightarrow> bool \<Rightarrow> int \<Rightarrow> dec \<Rightarrow> dec" where
  "ladder_multiplier dd rows enabled current hysteresis =
     (if \<not> enabled \<or> rows = [] then 1
      else let rung = ladder_rung dd rows current hysteresis in
        if rung \<le> 0 then 1
        else lr_risk_multiplier (rows ! nat (min rung (int (length rows)) - 1)))"

lemmas sizing_eval = money_eval size_position_def refused_sizing_def ladder_multiplier_def ladder_rung_def
  DEFAULT_MAX_ROUNDING_ERROR_PCT_def LOT_GRANULARITY_TOLERANCE_def Let_def

section \<open>Lemmas on the ladder\<close>

lemma ladder_target_range:
  "target < i \<Longrightarrow> target \<le> ladder_target dd i target rows \<and> ladder_target dd i target rows < i + int (length rows)"
proof (induction rows arbitrary: i target)
  case (Cons row rows)
  from Cons.IH [of "if lr_drawdown_pct row \<le> dd then i else target" "i + 1"] Cons.prems
  show ?case by (auto split: if_splits)
qed simp

lemma ladder_target_mono:
  "dd \<le> dd' \<Longrightarrow> t \<le> t' \<Longrightarrow> t' < i \<Longrightarrow> ladder_target dd i t rows \<le> ladder_target dd' i t' rows"
proof (induction rows arbitrary: i t t')
  case (Cons row rows)
  then show ?case by simp
qed simp

lemma ladder_rung_range:
  "rows \<noteq> [] \<Longrightarrow> 0 \<le> ladder_rung dd rows current h \<and> ladder_rung dd rows current h \<le> int (length rows)"
  using ladder_target_range [of 0 1 dd rows] by (auto simp: ladder_rung_def Let_def)

lemma ladder_rung_ge_target:
  "rows \<noteq> [] \<Longrightarrow> ladder_target dd 1 0 rows \<le> ladder_rung dd rows current h"
  by (auto simp: ladder_rung_def Let_def)

text \<open>The multiplier as a function of the rung, falling on an accepted ladder.\<close>

definition rung_multiplier :: "ladder_row list \<Rightarrow> int \<Rightarrow> dec" where
  "rung_multiplier rows r = (if r \<le> 0 then 1 else lr_risk_multiplier (rows ! nat (r - 1)))"

lemma ladder_multiplier_rung:
  "rows \<noteq> [] \<Longrightarrow> ladder_multiplier dd rows True current h = rung_multiplier rows (ladder_rung dd rows current h)"
  using ladder_rung_range [of rows dd current h]
  by (auto simp: ladder_multiplier_def rung_multiplier_def Let_def min_def)

lemma rung_multiplier_bounds:
  assumes "ladder_ok rows" "r \<le> int (length rows)"
  shows "0 \<le> rung_multiplier rows r \<and> rung_multiplier rows r \<le> 1"
proof (cases "r \<le> 0")
  case False
  then have "rows ! nat (r - 1) \<in> set rows" using assms(2) by (intro nth_mem) linarith
  then show ?thesis using assms(1) False by (simp add: rung_multiplier_def ladder_ok_def)
qed (simp add: rung_multiplier_def)

lemma rung_multiplier_antimono:
  assumes "ladder_ok rows" "r \<le> s" "s \<le> int (length rows)"
  shows "rung_multiplier rows s \<le> rung_multiplier rows r"
proof (cases "r \<le> 0")
  case True
  then show ?thesis using rung_multiplier_bounds [OF assms(1,3)] by (simp add: rung_multiplier_def)
next
  case False
  then show ?thesis
    using ladder_ok_multiplier_antimono [OF assms(1), of "nat (r - 1)" "nat (s - 1)"] assms(2,3)
    by (simp add: rung_multiplier_def nat_diff_distrib')
qed

lemma ladder_multiplier_bounds:
  assumes "ladder_ok rows"
  shows "0 \<le> ladder_multiplier dd rows en current h \<and> ladder_multiplier dd rows en current h \<le> 1"
proof (cases "en \<and> rows \<noteq> []")
  case True
  then show ?thesis
    using rung_multiplier_bounds [OF assms] ladder_rung_range [of rows dd current h]
    by (simp add: ladder_multiplier_rung)
qed (auto simp: ladder_multiplier_def)

text \<open>
  The drawdown ladder only de-risks: on an accepted ladder the multiplier lies in
  [0, 1], whatever rung is remembered; the hysteresis band only makes it smaller than the
  memoryless one; and without memory a deeper drawdown never gets a larger multiplier.
\<close>

theorem ladder_only_derisks:
  assumes "ladder_ok rows" and "dd \<le> dd'"
  shows "0 \<le> ladder_multiplier dd rows en current h \<and> ladder_multiplier dd rows en current h \<le> 1
    \<and> ladder_multiplier dd rows en current h \<le> ladder_multiplier dd rows en 0 h
    \<and> ladder_multiplier dd' rows en 0 h \<le> ladder_multiplier dd rows en 0 h"
proof (cases "en \<and> rows \<noteq> []")
  case True
  then have ne: "rows \<noteq> []" and en: "en = True" by simp_all
  have memoryless: "ladder_rung d rows 0 h = ladder_target d 1 0 rows" for d
    using ne ladder_target_range [of 0 1 d rows] by (simp add: ladder_rung_def Let_def)
  have "ladder_target dd 1 0 rows \<le> ladder_target dd' 1 0 rows"
    using assms(2) by (intro ladder_target_mono) auto
  then show ?thesis
    unfolding en ladder_multiplier_rung [OF ne]
    using ladder_rung_range [OF ne, of dd current h] ladder_rung_range [OF ne, of dd' 0 h]
      ladder_rung_ge_target [OF ne, of dd current h] memoryless
      rung_multiplier_bounds [OF assms(1)] rung_multiplier_antimono [OF assms(1)] by simp
next
  case False
  then show ?thesis by (auto simp: ladder_multiplier_def)
qed

theorem ladder_only_derisks_witness:
  "0 \<le> ladder_multiplier 4 (ladder default_risk_config) True 2 (1/2)
    \<and> ladder_multiplier 4 (ladder default_risk_config) True 2 (1/2) \<le> 1
    \<and> ladder_multiplier 4 (ladder default_risk_config) True 2 (1/2)
        \<le> ladder_multiplier 4 (ladder default_risk_config) True 0 (1/2)
    \<and> ladder_multiplier 6 (ladder default_risk_config) True 0 (1/2)
        \<le> ladder_multiplier 4 (ladder default_risk_config) True 0 (1/2)"
proof -
  have "ladder_ok (ladder default_risk_config)"
    using mk_risk_config_ladder_ok [OF default_risk_config_accepted] by (simp add: default_risk_config_def)
  then show ?thesis by (rule ladder_only_derisks) simp
qed

section \<open>Lemmas on sizing\<close>

text \<open>The quantities on the main path of \<open>size_position\<close>.\<close>

lemma size_position_feasible:
  assumes "size_position eq rp en st i q2a mu ml me = Inr r" "sr_feasible r"
  obtains conv where
    "q2a = Some conv" "en \<noteq> st" "0 < eq" "0 < dmul rp mu" "0 < dmul (pip_value_quote i 1) conv"
    "min_lot i \<le> sr_lots r"
    "sr_stop_pips r = ddiv (dabs (dsub en st)) (pip i)"
    "sr_pip_value_account r = dmul (pip_value_quote i 1) conv"
    "sr_intended_lots r = ddiv (ddiv (dmul eq (dmul rp mu)) 100) (dmul (sr_stop_pips r) (sr_pip_value_account r))"
    "sr_lots r = round_lots_down i (min (sr_intended_lots r) ml)"
    "sr_risk_amount r = dmul (dmul (sr_lots r) (sr_stop_pips r)) (sr_pip_value_account r)"
    "sr_risk_pct r = dmul (ddiv (sr_risk_amount r) eq) 100"
    "sr_rounding_error_pct r \<le> me"
  using assms
  by (auto simp: size_position_def refused_sizing_def Let_def dsub_zero_iff split: option.splits if_splits)

lemma size_position_infeasible_or_feasible:
  "size_position eq rp en st i q2a mu ml me = Inr r \<Longrightarrow> sr_feasible r \<or> sr_notes r \<noteq> []"
  by (auto simp: size_position_def refused_sizing_def Let_def split: option.splits if_splits)

text \<open>Chains of rounded products and quotients, bounded by the exact value.\<close>

lemma dmul_upper: "0 \<le> x \<Longrightarrow> 0 \<le> y \<Longrightarrow> dmul x y \<le> x * y * (1 + deps)"
  unfolding dmul_def by (rule D.rnd_upper) simp

lemma dmul_lower: "0 \<le> x \<Longrightarrow> 0 \<le> y \<Longrightarrow> x * y * (1 - deps) \<le> dmul x y"
  unfolding dmul_def by (rule D.rnd_lower) simp

lemma ddiv_upper: "0 \<le> x \<Longrightarrow> 0 \<le> y \<Longrightarrow> ddiv x y \<le> x / y * (1 + deps)"
  unfolding ddiv_def by (rule D.rnd_upper) simp

lemma deps_pos [simp]: "0 < deps" "0 \<le> deps" "deps < 1" "0 < 1 + deps" "0 \<le> 1 + deps" "0 < 1 - deps" "deps \<le> 1"
  using D.eps_small by simp_all

lemma risk_budget_upper:
  assumes "0 < eq" "0 \<le> rp" "0 \<le> mu"
  shows "ddiv (dmul eq (dmul rp mu)) 100 \<le> eq * rp * mu / 100 * (1 + deps) ^ 3"
proof -
  have "dmul eq (dmul rp mu) \<le> eq * dmul rp mu * (1 + deps)"
    using assms by (intro dmul_upper dmul_nonneg) auto
  also have "\<dots> \<le> eq * (rp * mu * (1 + deps)) * (1 + deps)"
    using assms by (intro mult_right_mono mult_left_mono dmul_upper) auto
  finally have "dmul eq (dmul rp mu) / 100 \<le> eq * rp * mu / 100 * (1 + deps) ^ 2"
    by (simp add: power2_eq_square algebra_simps)
  then have "dmul eq (dmul rp mu) / 100 * (1 + deps) \<le> eq * rp * mu / 100 * (1 + deps) ^ 2 * (1 + deps)"
    by (intro mult_right_mono) auto
  moreover have "ddiv (dmul eq (dmul rp mu)) 100 \<le> dmul eq (dmul rp mu) / 100 * (1 + deps)"
    using assms by (intro ddiv_upper dmul_nonneg) auto
  ultimately have "ddiv (dmul eq (dmul rp mu)) 100 \<le> eq * rp * mu / 100 * (1 + deps) ^ 2 * (1 + deps)"
    by (rule order_trans [rotated])
  then show ?thesis by (simp only: power3_eq_cube power2_eq_square mult.assoc)
qed

lemma budget_chain:
  assumes "x * (1 - deps) \<le> B * (1 + deps) ^ 2" "y \<le> x * (1 + deps) ^ 2" "B \<le> X * (1 + deps) ^ 3"
    and "0 \<le> X"
  shows "y \<le> X * (1 + 1 / 10 ^ 26)"
proof -
  let ?k = "1 + deps"
  have "y * (1 - deps) \<le> x * ?k ^ 2 * (1 - deps)" using assms(2) by (intro mult_right_mono) auto
  also have "\<dots> = x * (1 - deps) * ?k ^ 2" by simp
  also have "\<dots> \<le> B * ?k ^ 2 * ?k ^ 2" using assms(1) by (intro mult_right_mono) auto
  also have "\<dots> \<le> X * ?k ^ 3 * ?k ^ 2 * ?k ^ 2" using assms(3) by (intro mult_right_mono) auto
  also have "\<dots> = X * ?k ^ 7" by (simp add: power_add [symmetric])
  also have "\<dots> \<le> X * ((1 + 1 / 10 ^ 26) * (1 - deps))"
  proof -
    have "?k ^ 7 \<le> (1 + 1 / 10 ^ 26) * (1 - deps)" by code_simp
    then show ?thesis using assms(4) by (rule mult_left_mono)
  qed
  finally have "y * (1 - deps) \<le> X * (1 + 1 / 10 ^ 26) * (1 - deps)" by (simp only: mult.assoc)
  then show ?thesis by (rule mult_right_le_imp_le) simp
qed

lemma size_position_budget:
  assumes "size_position eq rp en st i q2a mu ml me = Inr r" and "sr_feasible r"
    and "instrument_ok i" and "0 \<le> rp" and "0 \<le> mu"
    and "grid_step (lot_step i) c k" and "0 < ml" and "ml / lot_step i * of_int c \<le> 10 ^ 27"
  shows "sr_risk_amount r \<le> eq * rp * mu / 100 * (1 + 1 / 10 ^ 26)
    \<and> min_lot i \<le> sr_lots r \<and> sr_rounding_error_pct r \<le> me"
proof -
  from size_position_feasible [OF assms(1,2)] obtain conv where
    f: "en \<noteq> st" "0 < eq" "0 < dmul rp mu" "0 < dmul (pip_value_quote i 1) conv"
      "min_lot i \<le> sr_lots r"
      "sr_stop_pips r = ddiv (dabs (dsub en st)) (pip i)"
      "sr_pip_value_account r = dmul (pip_value_quote i 1) conv"
      "sr_intended_lots r = ddiv (ddiv (dmul eq (dmul rp mu)) 100) (dmul (sr_stop_pips r) (sr_pip_value_account r))"
      "sr_lots r = round_lots_down i (min (sr_intended_lots r) ml)"
      "sr_risk_amount r = dmul (dmul (sr_lots r) (sr_stop_pips r)) (sr_pip_value_account r)"
      "sr_rounding_error_pct r \<le> me" by metis
  define S where "S = sr_stop_pips r"
  define V where "V = sr_pip_value_account r"
  define L where "L = sr_lots r"
  define B where "B = ddiv (dmul eq (dmul rp mu)) 100"
  define P where "P = dmul S V"
  let ?k = "1 + deps"
  have e: "0 < lot_step i" by (rule grid_step_pos [OF assms(6)])
  have S: "0 < S" unfolding S_def f(6) using f(1) instrument_okD(1) [OF assms(3)]
    by (intro ddiv_pos) (simp_all add: dsub_zero_iff)
  have V: "0 < V" unfolding V_def f(7) by (rule f(4))
  have P: "0 < P" unfolding P_def using S V by (rule dmul_pos)
  have B: "0 < B" unfolding B_def using f(3) by (intro ddiv_pos dmul_pos [OF f(2)]) auto
  have I: "sr_intended_lots r = ddiv B P" unfolding f(8) by (simp add: B_def P_def S_def V_def)
  have cap: "0 < min (ddiv B P) ml" using B P assms(7) by (simp add: ddiv_pos)
  have "min (ddiv B P) ml / lot_step i * of_int c \<le> ml / lot_step i * of_int c"
    using e assms(6) by (intro mult_right_mono divide_right_mono) (auto simp: grid_step_def)
  then have "L \<le> min (ddiv B P) ml * ?k"
    unfolding L_def f(9) I using assms(8) cap by (intro round_lots_down_bounds(1) [OF assms(6)]) auto
  also have "\<dots> \<le> ddiv B P * ?k" by (intro mult_right_mono) auto
  also have "\<dots> \<le> B / P * ?k * ?k" using B P by (intro mult_right_mono ddiv_upper) auto
  finally have "L * P \<le> B * ?k ^ 2" using P by (simp add: field_simps power2_eq_square)
  moreover have L: "0 \<le> L" unfolding L_def using f(5) instrument_okD(4) [OF assms(3)] by simp
  moreover have "L * (S * V * (1 - deps)) \<le> L * P"
    unfolding P_def using S V L by (intro mult_left_mono dmul_lower) auto
  ultimately have 1: "L * S * V * (1 - deps) \<le> B * ?k ^ 2" by (simp add: mult.assoc)
  have "sr_risk_amount r \<le> dmul L S * V * ?k"
    unfolding f(10) L_def [symmetric] S_def [symmetric] V_def [symmetric]
    using S V L by (intro dmul_upper dmul_nonneg) auto
  also have "\<dots> \<le> L * S * ?k * V * ?k" using S V L by (intro mult_right_mono dmul_upper) auto
  finally have 2: "sr_risk_amount r \<le> L * S * V * ?k ^ 2" by (simp add: power2_eq_square mult_ac)
  have 3: "B \<le> eq * rp * mu / 100 * ?k ^ 3" unfolding B_def using f(2) assms(4,5) by (rule risk_budget_upper)
  have "0 \<le> eq * rp * mu / 100" using f(2) assms(4,5) by simp
  then show ?thesis using budget_chain [OF 1 2 3] f(5,11) by blast
qed

text \<open>
  Sizing never overspends: a feasible size risks at most the budget \<open>equity * risk% * multiplier\<close>
  (up to one part in 10 to the 26, the accumulated rounding of 28-digit arithmetic), is at least
  the venue's minimum lot, and its rounding error is within the tolerance.
\<close>

theorem size_position_within_budget:
  assumes "size_position eq rp en st i q2a mu ml me = Inr r" and "sr_feasible r"
    and "instrument_ok i" and "0 \<le> rp" and "0 \<le> mu"
    and "grid_step (lot_step i) c k" and "0 < ml" and "ml / lot_step i * of_int c \<le> 10 ^ 27"
  shows "sr_risk_amount r \<le> eq * rp * mu / 100 * (1 + 1 / 10 ^ 26)
    \<and> min_lot i \<le> sr_lots r \<and> sr_rounding_error_pct r \<le> me"
  using assms by (rule size_position_budget)

theorem size_position_within_budget_witness:
  "\<exists>r. size_position 10000 (1/2) (108540/100000) (108340/100000) eur_usd (Some 1) 1 5 20 = Inr r
     \<and> sr_feasible r \<and> sr_lots r = 1/4
     \<and> sr_risk_amount r \<le> 10000 * (1/2) * 1 / 100 * (1 + 1 / 10 ^ 26)
     \<and> min_lot eur_usd \<le> sr_lots r \<and> sr_rounding_error_pct r \<le> 20"
proof -
  have "case size_position 10000 (1/2) (108540/100000) (108340/100000) eur_usd (Some 1) 1 5 20 of
      Inl _ \<Rightarrow> False | Inr r \<Rightarrow> sr_feasible r \<and> sr_lots r = 1/4"
    by (simp add: sizing_eval eur_usd_def)
  then obtain r where eq: "size_position 10000 (1/2) (108540/100000) (108340/100000) eur_usd (Some 1) 1 5 20 = Inr r"
    and fe: "sr_feasible r" "sr_lots r = 1/4" by (auto split: sum.splits)
  have g: "grid_step (lot_step eur_usd) 1 (- 2)" by (simp add: grid_step_def eur_usd_def power_int_minus)
  have ok: "instrument_ok eur_usd" by code_simp
  have "5 / lot_step eur_usd * of_int 1 \<le> 10 ^ 27" by (simp add: eur_usd_def)
  then have "sr_risk_amount r \<le> 10000 * (1/2) * 1 / 100 * (1 + 1 / 10 ^ 26)
      \<and> min_lot eur_usd \<le> sr_lots r \<and> sr_rounding_error_pct r \<le> 20"
    by (intro size_position_within_budget [OF eq fe(1) ok _ _ g]) simp_all
  then show ?thesis using eq fe by blast
qed

end
