(* ===== verification/Exposure.thy ===== *)
theory Exposure
  imports Domain "HOL-Library.List_Lexorder" "HOL-Library.Char_ord"
begin

text \<open>
  \<open>src/sentinel/risk/exposure.py\<close>, \<open>risk/stress.py\<close> and \<open>risk/portfolio.py\<close>: the decomposition of
  the book into currency legs, the single-linkage clusters of correlated instruments, the
  gap-stress loss and the view of the owner's other engines. A \<open>defaultdict\<close> is a dictionary
  read with a default; the lists the callers pass to collect unconvertible legs start empty
  and are returned. The union-find loop is a partial function, so that not returning would be
  the value None; that it returns is proved.
\<close>

section \<open>Currency legs\<close>

record currency_exposure =
  ce_currency :: string
  ce_net_risk :: dec
  ce_gross_risk :: dec
  ce_net_notional :: dec
  ce_contributors :: "string list"

record exposure_acc =
  ea_net_risk :: "(string, dec) dict"
  ea_gross_risk :: "(string, dec) dict"
  ea_net_notional :: "(string, dec) dict"
  ea_contributors :: "(string, string list) dict"
  ea_unconvertible :: "string list"

text \<open>\<open>d[k] += x\<close> on a \<open>defaultdict\<close> of decimals, and \<open>d[k].append(x)\<close> on one of lists.\<close>

definition dd_add :: "(string, dec) dict \<Rightarrow> string \<Rightarrow> dec \<Rightarrow> (string, dec) dict" where
  "dd_add d k x = dset d k (dadd (dget_default d k 0) x)"

definition dd_sub :: "(string, dec) dict \<Rightarrow> string \<Rightarrow> dec \<Rightarrow> (string, dec) dict" where
  "dd_sub d k x = dset d k (dsub (dget_default d k 0) x)"

definition dd_append :: "('k, 'v list) dict \<Rightarrow> 'k \<Rightarrow> 'v \<Rightarrow> ('k, 'v list) dict" where
  "dd_append d k x = dset d k (dget_default d k [] @ [x])"

text \<open>The rate to the account currency: one for the account currency itself, else looked up.\<close>

definition leg_rate :: "(string, dec) dict \<Rightarrow> string option \<Rightarrow> string \<Rightarrow> dec option" where
  "leg_rate conversions account_currency q =
     (if Some q = account_currency then Some 1 else dget conversions q)"

definition add_legs ::
  "(string, dec) dict \<Rightarrow> (string, dec) dict \<Rightarrow> position \<Rightarrow> instrument \<Rightarrow> dec \<Rightarrow> exposure_acc \<Rightarrow> exposure_acc" where
  "add_legs risk_by_instrument mids pos inst conv a =
     (let risk = dget_default risk_by_instrument (p_instrument pos) (p_initial_risk pos);
          sign = side_sign (p_side pos);
          mid = dget_default mids (p_instrument pos) (p_entry_price pos);
          notional = dmul (dmul (units inst (p_lots pos)) mid) conv
      in \<lparr>ea_net_risk = dd_sub (dd_add (ea_net_risk a) (base_ccy inst) (dmul risk sign))
                          (quote_ccy inst) (dmul risk sign),
          ea_gross_risk = dd_add (dd_add (ea_gross_risk a) (base_ccy inst) (dabs risk))
                            (quote_ccy inst) (dabs risk),
          ea_net_notional = dd_sub (dd_add (ea_net_notional a) (base_ccy inst) (dmul notional sign))
                              (quote_ccy inst) (dmul notional sign),
          ea_contributors = dd_append (dd_append (ea_contributors a) (base_ccy inst) (p_instrument pos))
                              (quote_ccy inst) (p_instrument pos),
          ea_unconvertible = ea_unconvertible a\<rparr>)"

definition exposure_step ::
  "(string, instrument) dict \<Rightarrow> (string, dec) dict \<Rightarrow> (string, dec) dict \<Rightarrow> (string, dec) dict
    \<Rightarrow> string option \<Rightarrow> exposure_acc \<Rightarrow> position \<Rightarrow> exposure_acc" where
  "exposure_step instruments risks conversions mids account_currency a pos =
     (case dget instruments (p_instrument pos) of
        None \<Rightarrow> a
      | Some inst \<Rightarrow>
          (case leg_rate conversions account_currency (quote_ccy inst) of
             None \<Rightarrow> a\<lparr>ea_unconvertible := ea_unconvertible a @ [p_instrument pos]\<rparr>
           | Some conv \<Rightarrow> add_legs risks mids pos inst conv a))"

definition empty_exposure :: exposure_acc where
  "empty_exposure = \<lparr>ea_net_risk = [], ea_gross_risk = [], ea_net_notional = [],
     ea_contributors = [], ea_unconvertible = []\<rparr>"

text \<open>The returned dictionary, in the order of its currencies, and the unconvertible instruments.\<close>

definition currency_exposure ::
  "position list \<Rightarrow> (string, instrument) dict \<Rightarrow> (string, dec) dict \<Rightarrow> (string, dec) dict
    \<Rightarrow> (string, dec) dict \<Rightarrow> string option \<Rightarrow> (string, currency_exposure) dict \<times> string list" where
  "currency_exposure positions instruments risks conversions mids account_currency =
     (let a = foldl (exposure_step instruments risks conversions mids account_currency)
                empty_exposure positions;
          ccys = sort (remdups (map fst (ea_net_risk a) @ map fst (ea_gross_risk a)))
      in (map (\<lambda>c. (c, \<lparr>ce_currency = c,
                 ce_net_risk = dget_default (ea_net_risk a) c 0,
                 ce_gross_risk = dget_default (ea_gross_risk a) c 0,
                 ce_net_notional = dget_default (ea_net_notional a) c 0,
                 ce_contributors = sort (remdups (dget_default (ea_contributors a) c []))\<rparr>)) ccys,
          ea_unconvertible a))"

text \<open>\<open>gross_notional\<close>: a leg without a positive rate is left out and its currency recorded once.\<close>

definition gross_step ::
  "(string, instrument) dict \<Rightarrow> (string, dec) dict \<Rightarrow> (string, dec) dict \<Rightarrow> string option
    \<Rightarrow> dec \<times> string list \<Rightarrow> position \<Rightarrow> dec \<times> string list" where
  "gross_step instruments mids conversions account_currency = (\<lambda>(total, unconv) pos.
     case dget instruments (p_instrument pos) of
       None \<Rightarrow> (total, unconv)
     | Some inst \<Rightarrow>
         (let mid = dget_default mids (p_instrument pos) (p_entry_price pos) in
          case leg_rate conversions account_currency (quote_ccy inst) of
            None \<Rightarrow> (total, if quote_ccy inst \<in> set unconv then unconv else unconv @ [quote_ccy inst])
          | Some rate \<Rightarrow>
              if rate \<le> 0
              then (total, if quote_ccy inst \<in> set unconv then unconv else unconv @ [quote_ccy inst])
              else (dadd total (dmul (dmul (units inst (p_lots pos)) mid) rate), unconv)))"

definition gross_notional ::
  "position list \<Rightarrow> (string, instrument) dict \<Rightarrow> (string, dec) dict \<Rightarrow> (string, dec) dict
    \<Rightarrow> string option \<Rightarrow> dec \<times> string list" where
  "gross_notional positions instruments mids conversions account_currency =
     foldl (gross_step instruments mids conversions account_currency) (0, []) positions"

section \<open>Correlation clusters\<close>

record cluster =
  cl_instruments :: "string list"
  cl_total_risk :: dec
  cl_max_pairwise_corr :: pyfloat

text \<open>\<open>find\<close> with path halving; the parent table is a map defined on every candidate.\<close>

partial_function (option) uf_find :: "('a \<Rightarrow> 'a) \<Rightarrow> 'a \<Rightarrow> (('a \<Rightarrow> 'a) \<times> 'a) option" where
  "uf_find p x =
     (if p x = x then Some (p, x)
      else (let p' = p(x := p (p x)) in uf_find p' (p' x)))"

definition uf_union :: "('a \<Rightarrow> 'a) \<Rightarrow> 'a \<Rightarrow> 'a \<Rightarrow> ('a \<Rightarrow> 'a) option" where
  "uf_union p a b =
     Option.bind (uf_find p a) (\<lambda>(p1, ra).
     Option.bind (uf_find p1 b) (\<lambda>(p2, rb).
       Some (if ra \<noteq> rb then p2(rb := ra) else p2)))"

definition pair_corr :: "((string \<times> string), pyfloat) dict \<Rightarrow> string \<Rightarrow> string \<Rightarrow> pyfloat" where
  "pair_corr correlations a b = dget_default correlations (a, b) (dget_default correlations (b, a) 0)"

text \<open>The pairs of the double loop, in its order, and the unions of those at the threshold.\<close>

fun later_pairs :: "'a list \<Rightarrow> ('a \<times> 'a) list" where
  "later_pairs [] = []"
| "later_pairs (a # xs) = map (Pair a) xs @ later_pairs xs"

fun uf_unions :: "('a \<Rightarrow> 'a) \<Rightarrow> ('a \<times> 'a) list \<Rightarrow> ('a \<Rightarrow> 'a) option" where
  "uf_unions p [] = Some p"
| "uf_unions p ((a, b) # es) = Option.bind (uf_union p a b) (\<lambda>p'. uf_unions p' es)"

fun uf_groups :: "('a \<Rightarrow> 'a) \<Rightarrow> ('a, 'a list) dict \<Rightarrow> 'a list \<Rightarrow> ('a, 'a list) dict option" where
  "uf_groups p g [] = Some g"
| "uf_groups p g (n # ns) = Option.bind (uf_find p n) (\<lambda>(p', r). uf_groups p' (dd_append g r n) ns)"

definition mk_cluster ::
  "(string, dec) dict \<Rightarrow> ((string \<times> string), pyfloat) dict \<Rightarrow> string list \<Rightarrow> cluster" where
  "mk_cluster risks correlations members =
     \<lparr>cl_instruments = sort members,
      cl_total_risk = dsum (map (\<lambda>m. dget_default risks m 0) members),
      cl_max_pairwise_corr = fold max (map (\<lambda>(a, b). \<bar>pair_corr correlations a b\<bar>) (later_pairs members)) 0\<rparr>"

text \<open>\<open>list(dict.fromkeys(xs))\<close>: the first occurrence of every element.\<close>

definition fromkeys :: "'a list \<Rightarrow> 'a list" where
  "fromkeys xs = rev (remdups (rev xs))"

definition correlation_clusters ::
  "string list \<Rightarrow> (string, dec) dict \<Rightarrow> ((string \<times> string), pyfloat) dict \<Rightarrow> pyfloat \<Rightarrow> cluster list option" where
  "correlation_clusters candidates risks correlations threshold =
     (let names = fromkeys candidates;
          edges = filter (\<lambda>(a, b). threshold \<le> \<bar>pair_corr correlations a b\<bar>) (later_pairs names)
      in Option.bind (uf_unions (\<lambda>n. n) edges) (\<lambda>p.
         Option.bind (uf_groups p [] names) (\<lambda>g.
           Some (sort_key (\<lambda>c. - cl_total_risk c)
             (map (mk_cluster risks correlations) (filter (\<lambda>ms. ms \<noteq> []) (dvalues g)))))))"

section \<open>Gap stress\<close>

definition scenario_gap :: "instrument \<Rightarrow> (string, pyfloat) dict \<Rightarrow> dec" where
  "scenario_gap i scenarios =
     (let d = dget_default scenarios ''*'' (3/100);
          worst = max (dget_default scenarios (base_ccy i) d) (dget_default scenarios (quote_ccy i) d)
      in max 0 (min 1 worst))"

definition position_notional :: "instrument \<Rightarrow> dec \<Rightarrow> dec \<Rightarrow> dec option \<Rightarrow> dec option" where
  "position_notional i lots mid conversion =
     (case conversion of
        None \<Rightarrow> None
      | Some c \<Rightarrow> if c \<le> 0 \<or> mid \<le> 0 then None else Some (dmul (dmul (units i lots) mid) c))"

definition stress_step ::
  "(string, instrument) dict \<Rightarrow> (string, dec) dict \<Rightarrow> (string, dec) dict \<Rightarrow> string \<Rightarrow> (string, pyfloat) dict
    \<Rightarrow> dec \<times> string list \<Rightarrow> position \<Rightarrow> dec \<times> string list" where
  "stress_step instruments mids conversions account_currency scenarios = (\<lambda>(total, unpriced) p.
     case dget instruments (p_instrument p) of
       None \<Rightarrow> (total, unpriced @ [p_instrument p])
     | Some inst \<Rightarrow>
         (case position_notional inst (p_lots p) (dget_default mids (p_instrument p) (p_entry_price p))
                 (leg_rate conversions (Some account_currency) (quote_ccy inst)) of
            None \<Rightarrow> (total, unpriced @ [p_instrument p])
          | Some notional \<Rightarrow> (dadd total (dmul notional (scenario_gap inst scenarios)), unpriced)))"

definition book_stress_loss ::
  "position list \<Rightarrow> (string, instrument) dict \<Rightarrow> (string, dec) dict \<Rightarrow> (string, dec) dict \<Rightarrow> string
    \<Rightarrow> (string, pyfloat) dict \<Rightarrow> dec \<times> string list" where
  "book_stress_loss positions instruments mids conversions account_currency scenarios =
     foldl (stress_step instruments mids conversions account_currency scenarios) (0, []) positions"

definition max_lots_within ::
  "dec \<Rightarrow> instrument \<Rightarrow> dec \<Rightarrow> dec option \<Rightarrow> (string, pyfloat) dict \<Rightarrow> dec" where
  "max_lots_within budget i mid conversion scenarios =
     (case position_notional i 1 mid conversion of
        None \<Rightarrow> 0
      | Some one_lot \<Rightarrow>
          if one_lot \<le> 0 then 0
          else let per_lot = dmul one_lot (scenario_gap i scenarios)
               in if per_lot \<le> 0 then 1000000000 else max 0 (ddiv budget per_lot))"

section \<open>The owner's other engines\<close>

record group_row =
  gr_account :: string
  gr_currency :: string
  gr_equity :: dec
  gr_open_risk :: dec
  gr_pending_risk :: dec
  gr_drawdown_pct :: dec
  gr_positions :: int
  gr_currency_risk :: "(string, dec) dict"
  gr_written_ns :: int
  gr_halted :: bool

record group_view =
  gv_members :: "group_row list"
  gv_stale :: "string list"
  gv_unreadable :: "string list"
  gv_others_open_risk :: dec
  gv_others_equity :: dec
  gv_others_positions :: int
  gv_others_currency_risk :: "(string, dec) dict"

text \<open>
  The directory is the dictionary of its \<open>.json\<close> files by stem; a file that cannot be read or
  parsed holds None. \<open>isalnum\<close> is the one of ASCII names.
\<close>

type_synonym ledger_dir = "(string, group_row option) dict"

definition safe_char :: "char \<Rightarrow> char" where
  "safe_char c =
     (if CHR ''0'' \<le> c \<and> c \<le> CHR ''9'' \<or> CHR ''A'' \<le> c \<and> c \<le> CHR ''Z''
         \<or> CHR ''a'' \<le> c \<and> c \<le> CHR ''z'' \<or> c \<in> {CHR ''-'', CHR ''_'', CHR ''.''}
      then c else CHR ''_'')"

definition safe_name :: "string \<Rightarrow> string" where
  "safe_name name = take 64 (map safe_char name)"

definition publish :: "string \<Rightarrow> group_row \<Rightarrow> ledger_dir \<Rightarrow> ledger_dir" where
  "publish account row dir = dset dir (safe_name account) (Some row)"

text \<open>The rate a row is converted at: None when it is needed and unknown or not positive.\<close>

definition row_rate :: "(string, dec) dict \<Rightarrow> string \<Rightarrow> group_row \<Rightarrow> dec option" where
  "row_rate conversions own_currency row =
     (if own_currency \<noteq> [] \<and> gr_currency row \<noteq> [] \<and> gr_currency row \<noteq> own_currency
      then (case dget conversions (gr_currency row) of
              None \<Rightarrow> None | Some r \<Rightarrow> if r \<le> 0 then None else Some r)
      else Some 1)"

definition view_step ::
  "int \<Rightarrow> int \<Rightarrow> (string, dec) dict \<Rightarrow> string \<Rightarrow> group_view \<Rightarrow> string \<times> group_row option \<Rightarrow> group_view" where
  "view_step now stale_after_ns conversions own_currency v = (\<lambda>(stem, content).
     case content of
       None \<Rightarrow> v\<lparr>gv_unreadable := gv_unreadable v @ [stem]\<rparr>
     | Some row \<Rightarrow>
         (let v = v\<lparr>gv_members := gv_members v @ [row]\<rparr> in
          if stale_after_ns < now - gr_written_ns row
          then v\<lparr>gv_stale := gv_stale v @ [gr_account row]\<rparr>
          else case row_rate conversions own_currency row of
            None \<Rightarrow> v\<lparr>gv_unreadable := gv_unreadable v @ [gr_account row]\<rparr>
          | Some rate \<Rightarrow>
              v\<lparr>gv_others_open_risk := dadd (gv_others_open_risk v)
                    (dmul (dadd (gr_open_risk row) (gr_pending_risk row)) rate),
                gv_others_equity := dadd (gv_others_equity v) (dmul (gr_equity row) rate),
                gv_others_positions := gv_others_positions v + gr_positions row,
                gv_others_currency_risk :=
                  foldl (\<lambda>d (ccy, x). dset d ccy (dadd (dget_default d ccy 0) (dmul x rate)))
                    (gv_others_currency_risk v) (gr_currency_risk row)\<rparr>))"

definition empty_view :: group_view where
  "empty_view = \<lparr>gv_members = [], gv_stale = [], gv_unreadable = [], gv_others_open_risk = 0,
     gv_others_equity = 0, gv_others_positions = 0, gv_others_currency_risk = []\<rparr>"

definition view ::
  "string \<Rightarrow> int \<Rightarrow> int \<Rightarrow> (string, dec) dict \<Rightarrow> string \<Rightarrow> ledger_dir \<Rightarrow> group_view" where
  "view account stale_after_sec now conversions own_currency dir =
     foldl (view_step now (stale_after_sec * 1000000000) conversions own_currency) empty_view
       (filter (\<lambda>(stem, _). stem \<noteq> safe_name account) (sort_key (\<lambda>(stem, _). stem @ ''.json'') dir))"


section \<open>Lemmas on the legs\<close>

lemma dget_default_dset [simp]:
  "dget_default (dset d k v) k' w = (if k' = k then v else dget_default d k' w)"
  by (simp add: dget_default_def)

lemma dget_default_Nil [simp]: "dget_default [] k w = w"
  by (simp add: dget_default_def)

text \<open>One leg keeps the net within the gross: rounding is monotone and odd.\<close>

lemma leg_net_within_gross:
  assumes "\<bar>n\<bar> \<le> g" "\<bar>r\<bar> \<le> s"
  shows "\<bar>dadd n r\<bar> \<le> dadd g s" "\<bar>dsub n r\<bar> \<le> dadd g s"
  unfolding dadd_def dsub_def D.rnd_abs [symmetric] using assms by (auto intro: D.rnd_mono)

lemma dmul_sign_abs: "\<bar>dmul r (side_sign s)\<bar> = dabs r"
  by (cases s) (simp_all add: dmul_def dabs_def D.rnd_abs [symmetric] D.rnd_minus)

definition net_within_gross :: "exposure_acc \<Rightarrow> bool" where
  "net_within_gross a \<longleftrightarrow>
     (\<forall>c. \<bar>dget_default (ea_net_risk a) c 0\<bar> \<le> dget_default (ea_gross_risk a) c 0)"

lemma add_legs_net_within_gross:
  "net_within_gross a \<Longrightarrow> net_within_gross (add_legs risks mids pos inst conv a)"
  unfolding net_within_gross_def add_legs_def Let_def dd_add_def dd_sub_def
  by (auto intro!: leg_net_within_gross simp: dmul_sign_abs)

lemma exposure_step_net_within_gross:
  "net_within_gross a \<Longrightarrow> net_within_gross (exposure_step is risks convs mids ac a pos)"
  using add_legs_net_within_gross
  by (auto simp: exposure_step_def net_within_gross_def split: option.splits)

lemma empty_net_within_gross: "net_within_gross empty_exposure"
  by (simp add: net_within_gross_def empty_exposure_def)

lemma foldl_invariant:
  "P a \<Longrightarrow> (\<And>a x. P a \<Longrightarrow> P (f a x)) \<Longrightarrow> P (foldl f a xs)"
  by (induction xs arbitrary: a) auto

text \<open>A position is accounted for: reported as unconvertible, or listed in both of its legs.\<close>

definition accounted :: "(string, instrument) dict \<Rightarrow> exposure_acc \<Rightarrow> position \<Rightarrow> bool" where
  "accounted is a pos =
     (case dget is (p_instrument pos) of
        None \<Rightarrow> True
      | Some inst \<Rightarrow> p_instrument pos \<in> set (ea_unconvertible a)
          \<or> p_instrument pos \<in> set (dget_default (ea_contributors a) (base_ccy inst) [])
            \<and> p_instrument pos \<in> set (dget_default (ea_contributors a) (quote_ccy inst) []))"

lemma exposure_step_accounted:
  "accounted is a q \<Longrightarrow> accounted is (exposure_step is risks convs mids ac a pos) q"
  "accounted is (exposure_step is risks convs mids ac a pos) pos"
  by (auto simp: accounted_def exposure_step_def add_legs_def Let_def dd_append_def split: option.splits)

lemma exposure_fold_accounted:
  "pos \<in> set ps \<Longrightarrow> accounted is (foldl (exposure_step is risks convs mids ac) a ps) pos"
  by (induction ps rule: rev_induct) (auto intro: exposure_step_accounted)

text \<open>The currencies with contributors are the ones that get an entry.\<close>

lemma exposure_fold_contributor_keys:
  "x \<in> set (dget_default (ea_contributors (foldl (exposure_step is risks convs mids ac) empty_exposure ps)) c [])
    \<Longrightarrow> dmem (ea_net_risk (foldl (exposure_step is risks convs mids ac) empty_exposure ps)) c"
proof (induction ps rule: rev_induct)
  case Nil
  then show ?case by (simp add: empty_exposure_def)
next
  case (snoc p ps)
  then show ?case
    by (auto simp: exposure_step_def add_legs_def Let_def dd_append_def dd_add_def dd_sub_def dom_update
        split: option.splits if_splits)
qed

text \<open>
  No leg is lost and netting never exceeds the gross: in the result of
  \<open>currency_exposure\<close> every currency's net risk is at most its gross risk in size, and every
  position on a known instrument is either reported as unconvertible or named among the
  contributors of both of its currencies.
\<close>

theorem currency_exposure_sound:
  "case currency_exposure ps is risks convs mids ac of (exps, unconv) \<Rightarrow>
     list_all (\<lambda>(c, e). ce_currency e = c \<and> \<bar>ce_net_risk e\<bar> \<le> ce_gross_risk e) exps
     \<and> list_all (\<lambda>pos. case dget is (p_instrument pos) of None \<Rightarrow> True
         | Some inst \<Rightarrow> p_instrument pos \<in> set unconv
             \<or> (\<exists>e. dget exps (base_ccy inst) = Some e \<and> p_instrument pos \<in> set (ce_contributors e))
               \<and> (\<exists>e. dget exps (quote_ccy inst) = Some e \<and> p_instrument pos \<in> set (ce_contributors e))) ps"
proof -
  let ?a = "foldl (exposure_step is risks convs mids ac) empty_exposure ps"
  have net: "net_within_gross ?a"
    by (rule foldl_invariant [of net_within_gross])
      (rule empty_net_within_gross, erule exposure_step_net_within_gross)
  have "accounted is ?a pos" if "pos \<in> set ps" for pos using that by (rule exposure_fold_accounted)
  moreover have "dmem (ea_net_risk ?a) c" if "x \<in> set (dget_default (ea_contributors ?a) c [])" for x c
    using that by (rule exposure_fold_contributor_keys)
  ultimately show ?thesis
    using net by (fastforce simp: currency_exposure_def Let_def list_all_iff map_of_map_keys [symmetric]
        map_of_map_restrict restrict_map_def net_within_gross_def accounted_def split: option.splits)
qed

section \<open>Union-find computes connected components\<close>

text \<open>The root of an element, and the invariant: some rank falls along every parent link.\<close>

inductive roots_to :: "('a \<Rightarrow> 'a) \<Rightarrow> 'a \<Rightarrow> 'a \<Rightarrow> bool" for p where
  root: "p r = r \<Longrightarrow> roots_to p r r"
| link: "p x \<noteq> x \<Longrightarrow> roots_to p (p x) r \<Longrightarrow> roots_to p x r"

inductive_cases roots_toE: "roots_to p x r"

definition forest :: "('a \<Rightarrow> 'a) \<Rightarrow> bool" where
  "forest p \<longleftrightarrow> (\<exists>rank :: 'a \<Rightarrow> nat. \<forall>x. p x \<noteq> x \<longrightarrow> rank (p x) < rank x)"

lemma roots_to_root: "roots_to p x r \<Longrightarrow> p r = r"
  by (induction rule: roots_to.induct) auto

lemma roots_to_unique: "roots_to p x r \<Longrightarrow> roots_to p x s \<Longrightarrow> r = s"
proof (induction arbitrary: s rule: roots_to.induct)
  case (root r)
  then show ?case by (auto elim: roots_toE)
next
  case (link x r)
  from link.prems link.hyps(1) have "roots_to p (p x) s" by (auto elim: roots_toE)
  then show ?case by (rule link.IH)
qed

lemma forest_has_root: "forest p \<Longrightarrow> \<exists>r. roots_to p x r"
proof -
  assume "forest p"
  then obtain rank :: "'a \<Rightarrow> nat" where rank: "\<And>x. p x \<noteq> x \<Longrightarrow> rank (p x) < rank x"
    unfolding forest_def by blast
  show ?thesis
  proof (induction "rank x" arbitrary: x rule: less_induct)
    case less
    then show ?case using rank [of x] roots_to.root [of p x] roots_to.link [of p x] by metis
  qed
qed

lemma forest_id: "forest (\<lambda>n. n)"
  by (simp add: forest_def)

text \<open>Halving a path keeps the invariant (with the same rank) and every root.\<close>

lemma halve_rank:
  assumes rank: "\<And>x. p x \<noteq> x \<Longrightarrow> rank (p x) < (rank x :: nat)" and px: "p x \<noteq> x"
  shows "(p(x := p (p x))) y \<noteq> y \<Longrightarrow> rank ((p(x := p (p x))) y) < rank y"
  using rank [of y] rank [OF px] rank [of "p x"] by (cases "p (p x) = p x") (auto split: if_splits)

lemma halve_roots:
  assumes rank: "\<And>x. p x \<noteq> x \<Longrightarrow> rank (p x) < (rank x :: nat)" and px: "p x \<noteq> x"
    and q: "q = p(x := p (p x))" and "roots_to p y r"
  shows "roots_to q y r"
  using assms(4)
proof (induction rule: roots_to.induct)
  case (root r)
  then have "q r = r" using px by (cases "r = x") (simp_all add: q)
  then show ?case by (rule roots_to.root)
next
  case (link y r)
  have qx: "q x = p (p x)" and qy: "\<And>z. z \<noteq> x \<Longrightarrow> q z = p z" by (simp_all add: q)
  have nx: "p (p x) \<noteq> x" using rank [OF px] rank [of "p x"] by (cases "p (p x) = p x") auto
  show ?case
  proof (cases "y = x")
    case True
    have r: "roots_to q (p x) r" using link.IH unfolding True .
    have "roots_to q (q x) r"
    proof (cases "p (p x) = p x")
      case False
      have q2: "q (p x) = p (p x)" by (rule qy [OF px])
      from r have "roots_to q (q (p x)) r"
      proof cases
        case root
        then show ?thesis using False q2 by simp
      qed
      then show ?thesis unfolding q2 qx .
    next
      case True
      then show ?thesis using r unfolding qx by simp
    qed
    moreover have "q x \<noteq> x" using nx by (simp add: qx)
    ultimately show ?thesis unfolding True by (rule roots_to.link [rotated])
  next
    case False
    then have "q y = p y" by (rule qy)
    then show ?thesis using link roots_to.link [of q y r] by metis
  qed
qed

definition same_roots :: "('a \<Rightarrow> 'a) \<Rightarrow> ('a \<Rightarrow> 'a) \<Rightarrow> bool" where
  "same_roots p p' \<longleftrightarrow> (\<forall>y r. roots_to p' y r = roots_to p y r)"

lemma same_rootsI:
  assumes "forest p" "\<And>y r. roots_to p y r \<Longrightarrow> roots_to p' y r"
  shows "same_roots p p'"
  unfolding same_roots_def using assms forest_has_root roots_to_unique by metis

text \<open>\<open>find\<close> returns: the rank bounds its steps.\<close>

lemma uf_find_returns:
  assumes "forest p"
  shows "\<exists>p' r. uf_find p x = Some (p', r) \<and> roots_to p x r \<and> forest p' \<and> same_roots p p'"
proof -
  from assms obtain rank :: "'a \<Rightarrow> nat" where "\<And>x. p x \<noteq> x \<Longrightarrow> rank (p x) < rank x"
    unfolding forest_def by blast
  then show ?thesis
  proof (induction "rank x" arbitrary: p x rule: less_induct)
    case less
    show ?case
    proof (cases "p x = x")
      case True
      then show ?thesis using less.prems
        by (subst uf_find.simps) (auto simp: same_roots_def forest_def intro: roots_to.root)
    next
      case False
      let ?p = "p(x := p (p x))"
      have f: "forest p" using less.prems unfolding forest_def by blast
      have r: "\<And>y. ?p y \<noteq> y \<Longrightarrow> rank (?p y) < rank y" using halve_rank [of p rank x] less.prems False by blast
      have s: "same_roots p ?p" using halve_roots [of p rank x ?p] less.prems False f by (blast intro: same_rootsI)
      have "rank (?p x) < rank x"
        using less.prems [OF False] less.prems [of "p x"] by (cases "p (p x) = p x") auto
      from less.hyps [OF this r] obtain p' r where
        "uf_find ?p (?p x) = Some (p', r)" "roots_to ?p (?p x) r" "forest p'" "same_roots ?p p'" by blast
      moreover from this(2) s have "roots_to p x r"
        unfolding same_roots_def
        by (metis f forest_has_root roots_to.cases roots_to_unique roots_to_root roots_to.link)
      ultimately show ?thesis
        using False s by (subst uf_find.simps) (auto simp: same_roots_def Let_def)
    qed
  qed
qed

text \<open>\<open>union\<close> merges the two components and nothing else.\<close>

definition together :: "('a \<Rightarrow> 'a) \<Rightarrow> 'a \<Rightarrow> 'a \<Rightarrow> bool" where
  "together p y z \<longleftrightarrow> (\<exists>r. roots_to p y r \<and> roots_to p z r)"

lemma together_iff: "roots_to p y a \<Longrightarrow> roots_to p z b \<Longrightarrow> together p y z \<longleftrightarrow> a = b"
  by (auto simp: together_def dest: roots_to_unique)

lemma hang_roots:
  assumes "p ra = ra" "p rb = rb" "ra \<noteq> rb" "q = p(rb := ra)" "roots_to p y r"
  shows "roots_to q y (if r = rb then ra else r)"
  using assms(5)
proof (induction rule: roots_to.induct)
  case (root r)
  have ra: "roots_to q ra ra" using assms by (intro roots_to.root) simp
  show ?case
  proof (cases "r = rb")
    case True
    have "q rb = ra" by (simp add: assms(4))
    then have "roots_to q rb ra" using assms(3) ra roots_to.link [of q rb ra] by metis
    then show ?thesis using True by simp
  qed (use root in \<open>auto simp: assms(4) intro: roots_to.root\<close>)
next
  case (link y r)
  then have "q y = p y" using assms(2,4) by auto
  then show ?case using link roots_to.link [of q y] by metis
qed

lemma hang_forest:
  assumes "forest p" "p ra = ra" "p rb = rb" "ra \<noteq> rb"
  shows "forest (p(rb := ra))"
proof -
  from assms(1) obtain rank :: "'a \<Rightarrow> nat" where rank: "\<And>x. p x \<noteq> x \<Longrightarrow> rank (p x) < rank x"
    unfolding forest_def by blast
  define rank' where "rank' y = (if roots_to p y rb then rank y + rank ra + 1 else rank y)" for y
  have "\<not> roots_to p ra rb" using assms roots_to.root [of p ra] roots_to_unique by metis
  moreover have "roots_to p rb rb" using assms(3) by (rule roots_to.root)
  moreover have "roots_to p (p x) rb = roots_to p x rb" if "p x \<noteq> x" for x
    using that by (metis roots_to.cases roots_to.link)
  ultimately have "\<forall>x. (p(rb := ra)) x \<noteq> x \<longrightarrow> rank' ((p(rb := ra)) x) < rank' x"
    using rank by (auto simp: rank'_def)
  then show ?thesis unfolding forest_def by blast
qed

lemma uf_union_returns:
  assumes "forest p"
  shows "\<exists>p'. uf_union p a b = Some p' \<and> forest p' \<and>
    (\<forall>y z. together p' y z \<longleftrightarrow>
       together p y z \<or> together p y a \<and> together p b z \<or> together p y b \<and> together p a z)"
proof -
  from uf_find_returns [OF assms, of a] obtain p1 ra where
    1: "uf_find p a = Some (p1, ra)" "roots_to p a ra" "forest p1" "same_roots p p1" by blast
  from uf_find_returns [OF 1(3), of b] obtain p2 rb where
    2: "uf_find p1 b = Some (p2, rb)" "roots_to p1 b rb" "forest p2" "same_roots p1 p2" by blast
  have eq: "roots_to p2 y r = roots_to p y r" for y r using 1(4) 2(4) by (simp add: same_roots_def)
  have rb: "roots_to p b rb" using 1(4) 2(2) by (simp add: same_roots_def)
  let ?p' = "if ra \<noteq> rb then p2(rb := ra) else p2"
  have fix2: "p2 ra = ra" "p2 rb = rb"
    using roots_to_root [of p2 a ra] roots_to_root [of p2 b rb] 1(2) rb by (simp_all add: eq)
  have f: "forest ?p'" using hang_forest [OF 2(3) fix2] 2(3) by simp
  have r: "roots_to ?p' y (if r = rb then ra else r)" if "roots_to p y r" for y r
    using that hang_roots [OF fix2, of "p2(rb := ra)" y r] eq [of y r] by (cases "ra = rb") auto
  have t: "together ?p' y z \<longleftrightarrow> (if ry = rb then ra else ry) = (if rz = rb then ra else rz)"
    if "roots_to p y ry" "roots_to p z rz" for y z ry rz
    by (rule together_iff [OF r [OF that(1)] r [OF that(2)]])
  have "together ?p' y z \<longleftrightarrow>
       together p y z \<or> together p y a \<and> together p b z \<or> together p y b \<and> together p a z" for y z
  proof -
    from forest_has_root [OF assms] obtain ry rz where yz: "roots_to p y ry" "roots_to p z rz" by meson
    show ?thesis
      unfolding t [OF yz] together_iff [OF yz] together_iff [OF yz(1) 1(2)] together_iff [OF yz(1) rb]
        together_iff [OF 1(2) yz(2)] together_iff [OF rb yz(2)] by auto
  qed
  then show ?thesis using 1(1) 2(1) f by (simp add: uf_union_def)
qed

definition linkage :: "('a \<times> 'a) list \<Rightarrow> ('a \<times> 'a) set" where
  "linkage es = set es \<union> (set es)\<inverse>"

lemma together_refl: "forest p \<Longrightarrow> together p y y"
  using forest_has_root [of p y] by (auto simp: together_def)

lemma uf_unions_returns:
  assumes "forest p"
  shows "\<exists>p'. uf_unions p es = Some p' \<and> forest p' \<and>
    {(y, z). together p' y z} = ({(y, z). together p y z} \<union> linkage es)\<^sup>*"
  using assms
proof (induction es arbitrary: p)
  case Nil
  have "trans {(y, z). together p y z}"
    by (rule transI) (auto simp: together_def dest: roots_to_unique)
  then have "{(y, z). together p y z}\<^sup>* = {(y, z). together p y z}"
    using together_refl [OF Nil] by (auto simp: rtrancl_trancl_reflcl)
  then show ?case using Nil by (simp add: linkage_def)
next
  case (Cons e es)
  obtain a b where e: "e = (a, b)" by (cases e)
  from uf_union_returns [OF Cons.prems, of a b] obtain p1 where p1:
    "uf_union p a b = Some p1" "forest p1"
    "\<And>y z. together p1 y z \<longleftrightarrow>
       together p y z \<or> together p y a \<and> together p b z \<or> together p y b \<and> together p a z" by blast
  let ?S = "{(y, z). together p y z}" and ?S1 = "{(y, z). together p1 y z}"
  have sub: "?S \<union> linkage (e # es) \<subseteq> ?S1 \<union> linkage es"
    using p1(3) together_refl [OF Cons.prems] by (auto simp: linkage_def e)
  have "?S1 \<subseteq> (?S \<union> linkage (e # es))\<^sup>*"
  proof
    fix x assume "x \<in> ?S1"
    then obtain y z where x: "x = (y, z)" and "together p1 y z" by auto
    then consider "(y, z) \<in> ?S" | "(y, a) \<in> ?S" "(b, z) \<in> ?S" | "(y, b) \<in> ?S" "(a, z) \<in> ?S"
      using p1(3) by blast
    then show "x \<in> (?S \<union> linkage (e # es))\<^sup>*"
    proof cases
      case 1
      then show ?thesis unfolding x by blast
    next
      case 2
      have "(a, b) \<in> linkage (e # es)" by (simp add: linkage_def e)
      then show ?thesis unfolding x using 2 by (meson UnI1 UnI2 converse_rtrancl_into_rtrancl rtrancl.rtrancl_refl)
    next
      case 3
      have "(b, a) \<in> linkage (e # es)" by (simp add: linkage_def e)
      then show ?thesis unfolding x using 3 by (meson UnI1 UnI2 converse_rtrancl_into_rtrancl rtrancl.rtrancl_refl)
    qed
  qed
  moreover have "linkage es \<subseteq> (?S \<union> linkage (e # es))\<^sup>*" by (auto simp: linkage_def)
  ultimately have "(?S1 \<union> linkage es)\<^sup>* = (?S \<union> linkage (e # es))\<^sup>*"
    by (intro rtrancl_subset [OF sub]) blast
  then show ?case using Cons.IH [OF p1(2)] p1(1) by (simp add: e)
qed

text \<open>Grouping by root: every group lists the names with that root, in order.\<close>

lemma dd_append_keys: "distinct (map fst g) \<Longrightarrow> distinct (map fst (dd_append g r n))"
  by (simp add: dd_append_def distinct_update)

lemma uf_groups_returns:
  assumes "forest p"
  shows "\<exists>g'. uf_groups p g ns = Some g'
    \<and> (\<forall>r. dget_default g' r [] = dget_default g r [] @ filter (\<lambda>n. roots_to p n r) ns)
    \<and> (distinct (map fst g) \<longrightarrow> distinct (map fst g'))"
  using assms
proof (induction ns arbitrary: p g)
  case (Cons n ns)
  from uf_find_returns [OF Cons.prems, of n] obtain p' r where
    1: "uf_find p n = Some (p', r)" "roots_to p n r" "forest p'" "same_roots p p'" by blast
  have "roots_to p n s \<longleftrightarrow> s = r" for s using 1(2) roots_to_unique by metis
  moreover have "roots_to p' = roots_to p" using 1(4) by (auto simp: same_roots_def fun_eq_iff)
  ultimately show ?case
    using Cons.IH [OF 1(3), of "dd_append g r n"] 1(1) dd_append_keys [of g r n]
    by (fastforce simp: dd_append_def)
qed simp

lemma fromkeys_set [simp]: "set (fromkeys xs) = set xs"
  by (simp add: fromkeys_def)

lemma fromkeys_distinct [simp]: "distinct (fromkeys xs)"
  by (simp add: fromkeys_def)

text \<open>The groups of a forest: the non-empty fibres of the root function, each once.\<close>

lemma groups_values:
  assumes "\<forall>r. dget_default g r [] = filter (\<lambda>n. roots_to p n r) ns" "distinct (map fst g)"
  shows "(ms \<in> set (dvalues g) \<and> ms \<noteq> []) \<longleftrightarrow> (\<exists>r. ms = filter (\<lambda>n. roots_to p n r) ns \<and> ms \<noteq> [])"
proof
  assume "ms \<in> set (dvalues g) \<and> ms \<noteq> []"
  then obtain r where "(r, ms) \<in> set g" by auto
  then have "dget_default g r [] = ms" using assms(2) by (simp add: dget_default_def)
  then show "\<exists>r. ms = filter (\<lambda>n. roots_to p n r) ns \<and> ms \<noteq> []" using assms(1) \<open>ms \<in> _ \<and> _\<close> by metis
next
  assume "\<exists>r. ms = filter (\<lambda>n. roots_to p n r) ns \<and> ms \<noteq> []"
  then obtain r where "dget_default g r [] = ms" "ms \<noteq> []" using assms(1) by metis
  then show "ms \<in> set (dvalues g) \<and> ms \<noteq> []"
    by (force simp: dget_default_def dest!: map_of_SomeD split: option.splits)
qed

definition strong_pairs :: "string list \<Rightarrow> ((string \<times> string), pyfloat) dict \<Rightarrow> pyfloat \<Rightarrow> (string \<times> string) list" where
  "strong_pairs names correlations threshold =
     filter (\<lambda>(a, b). threshold \<le> \<bar>pair_corr correlations a b\<bar>) (later_pairs names)"

text \<open>
  C38. \<open>correlation_clusters\<close> returns (the union-find loops end), and its clusters are exactly the
  connected components of the graph of pairs at or above the threshold: two instruments share
  a cluster if and only if both are candidates joined by a chain of such pairs, and every
  cluster carries the summed risk of its members.
\<close>

theorem correlation_clusters_components:
  "\<exists>cs. correlation_clusters candidates risks correlations threshold = Some cs
    \<and> (list_ex (\<lambda>c. a \<in> set (cl_instruments c) \<and> b \<in> set (cl_instruments c)) cs \<longleftrightarrow>
        a \<in> set candidates \<and> b \<in> set candidates
        \<and> (a, b) \<in> (linkage (strong_pairs (fromkeys candidates) correlations threshold))\<^sup>*)
    \<and> list_all (\<lambda>c. cl_total_risk c = dsum (map (\<lambda>m. dget_default risks m 0)
        (filter (\<lambda>m. m \<in> set (cl_instruments c)) (fromkeys candidates)))) cs"
proof -
  let ?names = "fromkeys candidates" and ?es = "strong_pairs (fromkeys candidates) correlations threshold"
  from uf_unions_returns [OF forest_id, of ?es] obtain p where p: "uf_unions (\<lambda>n. n) ?es = Some p" "forest p"
    "{(y, z). together p y z} = ({(y, z). together (\<lambda>n. n) y z} \<union> linkage ?es)\<^sup>*" by blast
  have id: "{(y, z). together (\<lambda>n. n) y z} = Id" by (auto simp: together_def elim: roots_toE intro: roots_to.root)
  have "{(y, z). together p y z} = (linkage ?es)\<^sup>*"
    using p(3) rtrancl_reflcl [of "linkage ?es"] unfolding id by (simp only: Un_commute)
  then have t: "together p y z \<longleftrightarrow> (y, z) \<in> (linkage ?es)\<^sup>*" for y z by blast
  from uf_groups_returns [OF p(2), of "[]" ?names] obtain g where g: "uf_groups p [] ?names = Some g"
    "\<forall>r. dget_default g r [] = filter (\<lambda>n. roots_to p n r) ?names" "distinct (map fst g)" by auto
  let ?ms = "filter (\<lambda>ms. ms \<noteq> []) (dvalues g)"
  have ms: "m \<in> set ?ms \<longleftrightarrow> (\<exists>r. m = filter (\<lambda>n. roots_to p n r) ?names \<and> m \<noteq> [])" for m
    using groups_values [OF g(2,3), of m] by simp
  have "list_ex (\<lambda>m. a \<in> set m \<and> b \<in> set m) ?ms \<longleftrightarrow>
      (\<exists>r. a \<in> set (filter (\<lambda>n. roots_to p n r) ?names) \<and> b \<in> set (filter (\<lambda>n. roots_to p n r) ?names))"
    unfolding list_ex_iff Bex_def ms by (metis empty_iff list.set(1))
  then have "list_ex (\<lambda>m. a \<in> set m \<and> b \<in> set m) ?ms \<longleftrightarrow>
      a \<in> set candidates \<and> b \<in> set candidates \<and> together p a b" by (auto simp: together_def)
  moreover have "list_all (\<lambda>m. m = filter (\<lambda>x. x \<in> set m) ?names) ?ms"
    unfolding list_all_iff Ball_def ms by (auto intro: filter_cong)
  ultimately show ?thesis
    using p(1) g(1) by (auto simp: correlation_clusters_def strong_pairs_def [symmetric] t mk_cluster_def
        list_ex_iff list_all_iff)
qed

section \<open>Lemmas on gap stress\<close>

lemma scenario_gap_range: "0 \<le> scenario_gap i sc \<and> scenario_gap i sc \<le> 1"
  by (simp add: scenario_gap_def Let_def)

lemma max_lots_within_nonneg: "0 \<le> max_lots_within budget i mid conv sc"
  by (auto simp: max_lots_within_def Let_def split: option.splits)

text \<open>Where a lot can lose anything, the largest position costs at most the budget.\<close>

lemma max_lots_within_budget:
  assumes "position_notional i 1 mid conv = Some n" "0 < dmul n (scenario_gap i sc)"
  shows "max_lots_within budget i mid conv sc * dmul n (scenario_gap i sc) \<le> max 0 budget * (1 + deps)"
proof -
  let ?k = "dmul n (scenario_gap i sc)"
  have n: "0 < n"
    using assms(2) scenario_gap_range [of i sc]
    by (auto simp: dmul_def D.rnd_pos_iff zero_less_mult_iff)
  show ?thesis
  proof (cases "0 \<le> budget")
    case True
    have "ddiv budget ?k * ?k \<le> budget / ?k * (1 + deps) * ?k"
      unfolding ddiv_def using True assms(2) by (intro mult_right_mono D.rnd_upper) auto
    then show ?thesis
      using True n assms ddiv_nonneg [OF True, of ?k] by (simp add: max_lots_within_def Let_def max_def)
  next
    case False
    then have "ddiv budget ?k \<le> 0"
      unfolding ddiv_def using assms(2) by (intro D.rnd_nonpos) (simp add: divide_nonpos_pos)
    then show ?thesis using False n assms by (simp add: max_lots_within_def Let_def)
  qed
qed

section \<open>Lemmas on the group ledger\<close>

text \<open>The rows that are counted: readable, fresh and convertible, with the rate they are counted at.\<close>

definition counted_row ::
  "int \<Rightarrow> int \<Rightarrow> (string, dec) dict \<Rightarrow> string \<Rightarrow> string \<times> group_row option \<Rightarrow> (group_row \<times> dec) option" where
  "counted_row now stale_ns convs own = (\<lambda>(stem, content).
     case content of None \<Rightarrow> None
     | Some row \<Rightarrow> if stale_ns < now - gr_written_ns row then None
                  else map_option (Pair row) (row_rate convs own row))"

lemma view_fold:
  fixes now stale convs own
  defines "step \<equiv> view_step now stale convs own" and "cnt \<equiv> counted_row now stale convs own"
  shows "gv_others_open_risk (foldl step v xs) =
      foldl dadd (gv_others_open_risk v)
        (map (\<lambda>(row, rate). dmul (dadd (gr_open_risk row) (gr_pending_risk row)) rate) (List.map_filter cnt xs))"
    and "gv_others_positions (foldl step v xs) =
      gv_others_positions v + sum_list (map (\<lambda>(row, rate). gr_positions row) (List.map_filter cnt xs))"
    and "length (gv_stale (foldl step v xs)) + length (gv_unreadable (foldl step v xs))
      + length (List.map_filter cnt xs) = length (gv_stale v) + length (gv_unreadable v) + length xs"
  unfolding assms
  by (induction xs arbitrary: v)
    (auto simp: view_step_def counted_row_def map_filter_simps Let_def split: option.splits prod.splits)

text \<open>
  What one engine sees of the others: the risk it adds up is that of exactly the rows that
  are readable, fresh and convertible, each at its rate, and every other row is reported: the
  number of files of other engines is the number of counted rows plus the number of stale and
  unreadable names, so the two report lists are empty exactly when nothing was left out.
\<close>

theorem view_counts_or_reports:
  "let others = filter (\<lambda>(stem, _). stem \<noteq> safe_name account) (sort_key (\<lambda>(stem, _). stem @ ''.json'') dir);
       v = view account stale_sec now convs own dir;
       counted = List.map_filter (counted_row now (stale_sec * 1000000000) convs own) others
   in gv_others_open_risk v
        = dsum (map (\<lambda>(row, rate). dmul (dadd (gr_open_risk row) (gr_pending_risk row)) rate) counted)
      \<and> gv_others_positions v = sum_list (map (\<lambda>(row, rate). gr_positions row) counted)
      \<and> length others = length counted + length (gv_stale v) + length (gv_unreadable v)"
proof -
  have "length xs = length (List.map_filter (counted_row now (stale_sec * 1000000000) convs own) xs)
      + length (gv_stale (foldl (view_step now (stale_sec * 1000000000) convs own) empty_view xs))
      + length (gv_unreadable (foldl (view_step now (stale_sec * 1000000000) convs own) empty_view xs))" for xs
    using view_fold(3) [of now "stale_sec * 1000000000" convs own empty_view xs] by (simp add: empty_view_def)
  then show ?thesis
    unfolding Let_def view_def view_fold(1,2) dsum_def by (simp add: empty_view_def)
qed

text \<open>
  The file name of a row is the sanitised account name, so two accounts whose names differ
  only in replaced characters share one file: whatever the second publishes, the first engine
  sees an empty group, and reports nothing missing.
\<close>

theorem colliding_account_is_invisible:
  "view ''desk/1'' stale_sec now convs own (publish ''desk:1'' row []) = empty_view
   \<and> view ''desk/1'' stale_sec now convs own (publish ''desk-1'' row []) \<noteq> empty_view"
proof -
  have 1: "safe_name ''desk/1'' = ''desk_1''" "safe_name ''desk:1'' = ''desk_1''" "safe_name ''desk-1'' = ''desk-1''"
    by code_simp+
  have "gv_members (view ''desk/1'' stale_sec now convs own (publish ''desk-1'' row [])) \<noteq> gv_members empty_view"
    by (auto simp: view_def publish_def 1 view_step_def Let_def empty_view_def split: option.splits)
  then show ?thesis by (auto simp: view_def publish_def 1)
qed

end
