(* ===== verification/RiskEngine.thy ===== *)
theory RiskEngine
  imports Sizing Exposure Civil
begin

text \<open>
  \<open>src/sentinel/risk/engine.py\<close>: the independent risk engine. The context is a record, every
  rule a veto with its name and severity (the message texts and the diagnostics dictionary are
  display only and left out), and \<open>evaluate_entry\<close> the composition of its numbered sections with
  the four early returns. A section that can raise returns a result.
\<close>

datatype severity = BLOCK | HALT | WARN

record veto =
  v_rule :: string
  v_severity :: severity

definition block :: "string \<Rightarrow> veto" where "block r = \<lparr>v_rule = r, v_severity = BLOCK\<rparr>"
definition halt :: "string \<Rightarrow> veto" where "halt r = \<lparr>v_rule = r, v_severity = HALT\<rparr>"
definition warn :: "string \<Rightarrow> veto" where "warn r = \<lparr>v_rule = r, v_severity = WARN\<rparr>"

text \<open>\<open>if c: vetoes.append(v)\<close>, as the list to be appended.\<close>

abbreviation veto_if :: "bool \<Rightarrow> veto \<Rightarrow> veto list" where
  "veto_if c v \<equiv> (if c then [v] else [])"

record risk_context =
  now_ns :: int
  account :: account_state
  positions :: "position list"
  instruments :: "(string, instrument) dict"
  quotes :: "(string, quote) dict"
  conversions :: "(string, dec) dict"
  equity_peak :: dec
  day_pnl :: dec
  week_pnl :: dec
  month_pnl :: dec
  week_start_equity :: dec
  month_start_equity :: dec
  rolling_24h_pnl :: dec
  day_profit_locked :: bool
  ladder_rung_now :: int
  venue_min_stop_pips :: "(string, dec) dict"
  day_start_equity :: dec
  trades_today :: int
  trades_this_week :: int
  trades_this_year :: int
  last_entry_ns :: "int option"
  pending_risk :: dec
  unresolved_orders :: int
  blocking_alarms :: "string list"
  regime_risk_multiplier :: dec
  clock_skew_ms :: "pyfloat option"
  connectivity_ok :: bool
  offline_seconds :: pyfloat
  data_age_sec :: "(string, pyfloat) dict"
  data_quality :: "(string, data_quality) dict"
  normal_spread_pips :: "(string, dec) dict"
  news_blackout :: "(string, string) dict"
  price_divergence :: "(string, string) dict"
  cooldowns :: "(string, string) dict"
  stress_scenarios :: "(string, pyfloat) dict"
  stress_limit_pct :: dec
  correlations :: "((string \<times> string), pyfloat) dict"
  cost_models :: "(string, cost_model) dict"
  halted :: bool
  kill_switch :: bool
  strategy_lifecycles :: "(string, string) dict"
  live_money :: bool
  projected_trades_per_year :: "int option"
  group_others_open_risk :: "dec option"
  group_others_equity :: dec
  group_others_currency_risk :: "(string, dec) dict"
  group_unknown_members :: "string list"

definition ctx_conversion :: "risk_context \<Rightarrow> string \<Rightarrow> dec option" where
  "ctx_conversion ctx ccy =
     (if ccy = ac_currency (account ctx) then Some 1 else dget (conversions ctx) ccy)"

definition drawdown_pct :: "risk_context \<Rightarrow> dec" where
  "drawdown_pct ctx =
     (if equity_peak ctx \<le> 0 then 0
      else max 0 (dmul (ddiv (dsub (equity_peak ctx) (ac_equity (account ctx))) (equity_peak ctx)) 100))"

definition day_pnl_pct :: "risk_context \<Rightarrow> dec" where
  "day_pnl_pct ctx =
     (let base = dor (day_start_equity ctx) (ac_equity (account ctx))
      in if 0 < base then dmul (ddiv (day_pnl ctx) base) 100 else 0)"

record risk_decision =
  rd_approved :: bool
  rd_vetoes :: "veto list"
  rd_warnings :: "veto list"
  rd_sizing :: "sizing_result option"
  rd_risk_multiplier :: dec
  rd_approved_lots :: dec
  rd_risk_amount :: dec
  rd_risk_pct :: dec
  rd_expected_cost_pips :: dec
  rd_break_even_win_rate :: "dec option"

definition rd_halting :: "risk_decision \<Rightarrow> bool" where
  "rd_halting d \<longleftrightarrow> list_ex (\<lambda>v. v_severity v = HALT) (rd_vetoes d)"

text \<open>\<open>RiskDecision(False, vetoes, warnings, ...)\<close>: the early returns.\<close>

definition refused :: "veto list \<Rightarrow> veto list \<Rightarrow> risk_decision" where
  "refused vs ws =
     \<lparr>rd_approved = False, rd_vetoes = vs, rd_warnings = ws, rd_sizing = None, rd_risk_multiplier = 1,
      rd_approved_lots = 0, rd_risk_amount = 0, rd_risk_pct = 0, rd_expected_cost_pips = 0,
      rd_break_even_win_rate = None\<rparr>"

section \<open>Sections 0 to 5: stops, data, spread, stop discipline\<close>

definition absolute_stops :: "risk_config \<Rightarrow> risk_context \<Rightarrow> veto list" where
  "absolute_stops cfg ctx =
     veto_if (kill_switch ctx) (halt ''kill_switch'')
     @ veto_if (halted ctx) (halt ''halted'')
     @ veto_if (0 < equity_peak ctx \<and> max_drawdown_halt_pct cfg
           \<le> dmul (ddiv (dsub (equity_peak ctx) (ac_equity (account ctx))) (equity_peak ctx)) 100)
         (halt ''max_drawdown'')
     @ veto_if (0 < unresolved_orders ctx) (block ''unresolved_orders'')
     @ veto_if (\<not> connectivity_ok ctx \<or> of_int (max_offline_seconds_before_freeze cfg) < offline_seconds ctx)
         (block ''connectivity'')"

definition lifecycle_vetoes :: "order_intent \<Rightarrow> risk_context \<Rightarrow> veto list" where
  "lifecycle_vetoes intent ctx =
     veto_if (live_money ctx
         \<and> dget_default (strategy_lifecycles ctx) (oi_strategy intent) ''hypothesis'' \<noteq> ''accepted'')
       (block ''lifecycle'')"

definition alarm_vetoes :: "risk_context \<Rightarrow> veto list" where
  "alarm_vetoes ctx = map (\<lambda>_. block ''portfolio_alarm'') (blocking_alarms ctx)"

text \<open>An instrument missing from a non-empty age table is infinitely old; an empty table is not tracked.\<close>

definition data_integrity :: "risk_config \<Rightarrow> order_intent \<Rightarrow> risk_context \<Rightarrow> veto list" where
  "data_integrity cfg intent ctx =
     veto_if (data_age_sec ctx \<noteq> [] \<and>
         (case dget (data_age_sec ctx) (oi_instrument intent) of
            None \<Rightarrow> True | Some age \<Rightarrow> of_int (max_data_staleness_sec cfg) < age)
       \<or> data_age_sec ctx = [] \<and> of_int (max_data_staleness_sec cfg) < (0 :: pyfloat))
       (block ''stale_data'')
     @ veto_if (dget_default (data_quality ctx) (oi_instrument intent) DQ_OK \<noteq> DQ_OK) (block ''data_quality'')
     @ veto_if (case clock_skew_ms ctx of None \<Rightarrow> False | Some s \<Rightarrow> max_clock_skew_ms cfg < \<bar>s\<bar>)
         (block ''clock_skew'')"

definition market_vetoes :: "risk_config \<Rightarrow> order_intent \<Rightarrow> risk_context \<Rightarrow> dec \<Rightarrow> veto list" where
  "market_vetoes cfg intent ctx spread =
     (let normal = dget_default (normal_spread_pips ctx) (oi_instrument intent) spread
      in veto_if (0 < normal \<and> dmul normal (max_spread_pips_multiple cfg) < spread) (block ''spread''))
     @ veto_if (dmem (news_blackout ctx) (oi_instrument intent)) (block ''news_blackout'')
     @ veto_if (dmem (cooldowns ctx) ''*'' \<or> dmem (cooldowns ctx) (oi_strategy intent))
         (block ''loss_streak_cooldown'')
     @ veto_if (dmem (price_divergence ctx) (oi_instrument intent)) (block ''reference_divergence'')"

text \<open>\<open>intent.limit_price or quote.price_for(intent.side)\<close>.\<close>

definition entry_reference :: "order_intent \<Rightarrow> quote \<Rightarrow> dec" where
  "entry_reference intent q =
     (case oi_limit_price intent of
        None \<Rightarrow> price_for q (oi_side intent) | Some p \<Rightarrow> dor p (price_for q (oi_side intent)))"

definition stop_discipline ::
  "risk_config \<Rightarrow> order_intent \<Rightarrow> risk_context \<Rightarrow> instrument \<Rightarrow> dec \<Rightarrow> dec \<Rightarrow> dec \<Rightarrow> veto list" where
  "stop_discipline cfg intent ctx inst entry_ref stop_loss stop_pips =
     (let venue_floor = dget_default (venue_min_stop_pips ctx) (oi_instrument intent) 0 in
     veto_if (stop_pips < min_stop_pips cfg) (block ''stop_too_tight'')
     @ veto_if (0 < venue_floor \<and> stop_pips < venue_floor) (block ''venue_stop_distance'')
     @ veto_if (max_stop_pips cfg < stop_pips) (block ''stop_too_wide'')
     @ veto_if (oi_side intent = BUY \<and> entry_ref \<le> stop_loss) (block ''stop_side'')
     @ veto_if (oi_side intent = SELL \<and> stop_loss \<le> entry_ref) (block ''stop_side'')
     @ (case oi_take_profit intent of
          None \<Rightarrow> []
        | Some tp \<Rightarrow> veto_if (0 < stop_pips
            \<and> ddiv (ddiv (dabs (dsub tp entry_ref)) (pip inst)) stop_pips < min_reward_risk cfg)
            (block ''reward_risk'')))"

section \<open>Section 6: cost feasibility\<close>

text \<open>The cost in pips: the \<open>except ValueError\<close> falls back to the spread.\<close>

definition entry_cost_pips ::
  "order_intent \<Rightarrow> risk_context \<Rightarrow> instrument \<Rightarrow> dec \<Rightarrow> dec \<Rightarrow> dec" where
  "entry_cost_pips intent ctx inst conv spread =
     (let model = dget_default (cost_models ctx) (oi_instrument intent) (default_cost_model spread);
          pip_val = dmul (pip_value_quote inst 1) conv
      in case round_trip_pips model 1 pip_val (dmem (news_blackout ctx) (oi_instrument intent)) of
           Inl _ \<Rightarrow> spread | Inr c \<Rightarrow> c)"

definition cost_feasibility ::
  "order_intent \<Rightarrow> instrument \<Rightarrow> dec \<Rightarrow> dec \<Rightarrow> dec \<Rightarrow> (dec option \<times> veto list \<times> veto list) res" where
  "cost_feasibility intent inst entry_ref stop_pips cost_pips =
     (case oi_take_profit intent of
        None \<Rightarrow> Inr (None, [], [])
      | Some tp \<Rightarrow>
          if stop_pips \<le> 0 then Inr (None, [], [])
          else
          res_bind (break_even_win_rate (ddiv (dabs (dsub tp entry_ref)) (pip inst)) stop_pips cost_pips)
            (\<lambda>be. Inr (Some be, veto_if (65/100 \<le> be) (block ''cost_barrier''),
                      veto_if (58/100 \<le> be \<and> be < 65/100) (warn ''cost_barrier''))))"

section \<open>Sections 7 and 8: loss budgets and frequency\<close>

definition base_equity :: "risk_context \<Rightarrow> dec" where
  "base_equity ctx = dor (ac_equity (account ctx)) 1"

definition period_loss_pct :: "dec \<Rightarrow> dec \<Rightarrow> risk_context \<Rightarrow> dec" where
  "period_loss_pct pnl start_equity ctx =
     dneg (dmul (ddiv pnl (dor start_equity (base_equity ctx))) 100)"

definition loss_budgets :: "risk_config \<Rightarrow> risk_context \<Rightarrow> veto list" where
  "loss_budgets cfg ctx =
     veto_if (daily_loss_limit_pct cfg \<le> dneg (day_pnl_pct ctx)) (block ''daily_loss'')
     @ veto_if (weekly_loss_limit_pct cfg \<le> period_loss_pct (week_pnl ctx) (week_start_equity ctx) ctx)
         (block ''weekly_loss'')
     @ veto_if (monthly_loss_limit_pct cfg \<le> period_loss_pct (month_pnl ctx) (month_start_equity ctx) ctx)
         (block ''monthly_loss'')
     @ veto_if (0 < rolling_24h_loss_limit_pct cfg \<and> rolling_24h_pnl ctx < 0
         \<and> (let roll_base = dsub (ac_equity (account ctx)) (rolling_24h_pnl ctx)
            in 0 < roll_base
               \<and> rolling_24h_loss_limit_pct cfg \<le> dneg (dmul (ddiv (rolling_24h_pnl ctx) roll_base) 100)))
         (block ''rolling_24h_loss'')
     @ veto_if (0 < daily_profit_lock_pct cfg
         \<and> (day_profit_locked ctx \<or> daily_profit_lock_pct cfg \<le> day_pnl_pct ctx))
         (block ''profit_lock'')"

definition frequency_vetoes :: "risk_config \<Rightarrow> risk_context \<Rightarrow> veto list" where
  "frequency_vetoes cfg ctx =
     veto_if (max_trades_per_day cfg \<le> trades_today ctx) (block ''frequency_day'')
     @ veto_if (max_trades_per_week cfg \<le> trades_this_week ctx) (block ''frequency_week'')
     @ veto_if (max_trades_per_year cfg \<le> trades_this_year ctx) (block ''frequency_year'')
     @ veto_if (case last_entry_ns ctx of None \<Rightarrow> False
         | Some t \<Rightarrow> fdiv (of_int (now_ns ctx - t)) 1000000000 < of_int (min_seconds_between_entries cfg))
         (block ''entry_spacing'')"

text \<open>\<open>int(trades * 365 / elapsed)\<close>: a true division rounded to a double, then truncated.\<close>

definition projected_trades :: "risk_context \<Rightarrow> int option" where
  "projected_trades ctx =
     (case projected_trades_per_year ctx of
        Some n \<Rightarrow> Some n
      | None \<Rightarrow>
          if 0 < trades_this_year ctx
          then let elapsed = max 1 (yday (dt_date (from_timestamp_ns (now_ns ctx))))
               in Some (trunc_rat (fround (of_int (trades_this_year ctx * 365) / of_int elapsed)))
          else None)"

definition quote_mids :: "risk_context \<Rightarrow> (string, dec) dict" where
  "quote_mids ctx = map (\<lambda>(k, q). (k, quote_mid q)) (quotes ctx)"

definition annual_cost_vetoes ::
  "risk_config \<Rightarrow> risk_context \<Rightarrow> instrument \<Rightarrow> quote \<Rightarrow> dec \<Rightarrow> dec \<Rightarrow> veto list res" where
  "annual_cost_vetoes cfg ctx inst q conv cost_pips =
     (case projected_trades ctx of
        None \<Rightarrow> Inr []
      | Some projected \<Rightarrow>
          if projected = 0 then Inr []
          else
          let notional = dmul (dmul (units inst 1) (quote_mid q)) conv;
              cost_bp = (if 0 < notional
                then dmul (ddiv (dmul (dmul (dmul cost_pips (pip inst)) (units inst 1)) conv) notional) 10000
                else 0);
              gross = fst (gross_notional (positions ctx) (instruments ctx) (quote_mids ctx) (conversions ctx)
                        (Some (ac_currency (account ctx))));
              leverage = max (if 0 < base_equity ctx then ddiv gross (base_equity ctx) else 0) 1
          in res_bind (annual_cost_pct_of_equity cost_bp leverage projected)
               (\<lambda>annual. Inr (veto_if (max_annual_cost_pct_of_equity cfg < annual) (block ''annual_cost''))))"

section \<open>Section 10: sizing and gap stress\<close>

definition entry_multiplier :: "risk_config \<Rightarrow> risk_context \<Rightarrow> dec" where
  "entry_multiplier cfg ctx =
     dmul (ladder_multiplier (drawdown_pct ctx) (ladder cfg) (ladder_enabled cfg) (ladder_rung_now ctx)
             (ladder_hysteresis_pct cfg))
          (max 0 (min 1 (regime_risk_multiplier ctx)))"

definition stress_cap ::
  "risk_context \<Rightarrow> instrument \<Rightarrow> quote \<Rightarrow> dec \<Rightarrow> dec \<times> string list" where
  "stress_cap ctx inst q conv =
     (let (open_stress, unpriced) = book_stress_loss (positions ctx) (instruments ctx) (quote_mids ctx)
            (conversions ctx) (ac_currency (account ctx)) (stress_scenarios ctx);
          budget = dsub (ddiv (dmul (base_equity ctx) (stress_limit_pct ctx)) 100) open_stress
      in (round_lots_down inst (max_lots_within budget inst (quote_mid q) (Some conv) (stress_scenarios ctx)),
          unpriced))"

definition stress_gap ::
  "risk_context \<Rightarrow> instrument \<Rightarrow> quote \<Rightarrow> dec \<Rightarrow> sizing_result \<Rightarrow> sizing_result \<times> veto list \<times> veto list" where
  "stress_gap ctx inst q conv sizing =
     (if stress_scenarios ctx \<noteq> [] \<and> 0 < stress_limit_pct ctx \<and> sr_feasible sizing \<and> 0 < sr_lots sizing
      then let (cap, unpriced) = stress_cap ctx inst q conv;
               ws = veto_if (unpriced \<noteq> []) (warn ''stress_unpriced'')
           in if cap < sr_lots sizing
              then if cap < min_lot inst then (sizing, [block ''stress_gap''], ws)
                   else let scale = ddiv cap (sr_lots sizing)
                        in (sizing\<lparr>sr_lots := cap,
                                   sr_risk_amount := dmul (sr_risk_amount sizing) scale,
                                   sr_risk_pct := dmul (sr_risk_pct sizing) scale\<rparr>,
                            [], ws @ [warn ''stress_shrunk''])
              else (sizing, [], ws)
      else (sizing, [], []))"

definition sizing_stage ::
  "risk_config \<Rightarrow> risk_context \<Rightarrow> instrument \<Rightarrow> quote \<Rightarrow> dec \<Rightarrow> dec \<Rightarrow> dec
    \<Rightarrow> (sizing_result \<times> veto list \<times> veto list) res" where
  "sizing_stage cfg ctx inst q conv entry_ref stop_loss =
     (let multiplier = entry_multiplier cfg ctx in
      res_bind (size_position (ac_equity (account ctx)) (risk_per_trade_pct cfg) entry_ref stop_loss inst
                  (Some conv) multiplier (max_lots_per_trade cfg) DEFAULT_MAX_ROUNDING_ERROR_PCT)
        (\<lambda>sizing.
          let (sizing', svs, sws) = stress_gap ctx inst q conv sizing
          in Inr (sizing',
                  veto_if (multiplier \<le> 0) (block ''ladder_halt'')
                  @ veto_if (\<not> sr_feasible sizing) (block ''sizing'') @ svs,
                  sws @ (if sr_feasible sizing' then map (\<lambda>_. warn ''sizing'') (sr_notes sizing') else []))))"

section \<open>Sections 11 and 12: portfolio limits\<close>

definition prospective_position ::
  "order_intent \<Rightarrow> risk_context \<Rightarrow> sizing_result \<Rightarrow> dec \<Rightarrow> position" where
  "prospective_position intent ctx sizing entry_ref =
     \<lparr>p_instrument = oi_instrument intent, p_side = oi_side intent, p_lots = sr_lots sizing,
      p_entry_price = entry_ref, p_opened_ns = now_ns ctx, p_strategy = oi_strategy intent,
      p_stop_loss = None, p_take_profit = None, p_broker_stop_confirmed = False, p_client_order_id = None,
      p_realised_pnl = 0, p_financing_paid = 0, p_commission_paid = 0, p_initial_risk = sr_risk_amount sizing,
      p_max_favourable = 0, p_max_adverse = 0, p_partial_taken = False, p_breakeven_moved = False\<rparr>"

text \<open>The loop over the prospective book skips every position at the proposed instrument and price.\<close>

definition risk_by_instrument ::
  "order_intent \<Rightarrow> dec \<Rightarrow> sizing_result \<Rightarrow> position list \<Rightarrow> (string, dec) dict" where
  "risk_by_instrument intent entry_ref sizing prospective =
     dd_add
       (foldl (\<lambda>d p. dd_add d (p_instrument p) (p_initial_risk p)) []
         (filter (\<lambda>p. \<not> (p_instrument p = oi_instrument intent \<and> p_entry_price p = entry_ref)) prospective))
       (oi_instrument intent) (sr_risk_amount sizing)"

text \<open>\<open>x / base * 100 if base > 0 else 0\<close>.\<close>

definition pct_of :: "dec \<Rightarrow> dec \<Rightarrow> dec" where
  "pct_of x base = (if 0 < base then dmul (ddiv x base) 100 else 0)"

definition count_vetoes :: "risk_config \<Rightarrow> order_intent \<Rightarrow> risk_context \<Rightarrow> veto list" where
  "count_vetoes cfg intent ctx =
     veto_if (max_open_positions cfg \<le> int (length (positions ctx))) (block ''max_positions'')
     @ veto_if (max_positions_per_instrument cfg
           \<le> int (length (filter (\<lambda>p. p_instrument p = oi_instrument intent) (positions ctx))))
         (block ''per_instrument'')"

definition leverage_vetoes :: "risk_config \<Rightarrow> risk_context \<Rightarrow> position list \<Rightarrow> veto list" where
  "leverage_vetoes cfg ctx prospective =
     (let (gross, unconv) = gross_notional prospective (instruments ctx) (quote_mids ctx) (conversions ctx)
            (Some (ac_currency (account ctx)));
          leverage = (if 0 < base_equity ctx then ddiv gross (base_equity ctx) else 0)
      in veto_if (unconv \<noteq> []) (block ''exposure_unconvertible'')
         @ veto_if (max_gross_leverage cfg < leverage) (block ''leverage''))"

definition exposure_vetoes ::
  "risk_config \<Rightarrow> risk_context \<Rightarrow> (string, currency_exposure) dict \<Rightarrow> string list \<Rightarrow> veto list" where
  "exposure_vetoes cfg ctx exposures unconv =
     veto_if (unconv \<noteq> []) (block ''exposure_unconvertible'')
     @ map (\<lambda>_. block ''currency_exposure'')
         (filter (\<lambda>e. max_currency_exposure_pct cfg < pct_of (dabs (ce_net_risk e)) (base_equity ctx))
           (dvalues exposures))"

definition cluster_vetoes ::
  "risk_config \<Rightarrow> risk_context \<Rightarrow> position list \<Rightarrow> (string, dec) dict \<Rightarrow> veto list" where
  "cluster_vetoes cfg ctx prospective risk_map =
     map (\<lambda>_. block ''correlated_risk'')
       (filter (\<lambda>c. \<not> length (cl_instruments c) < 2
                   \<and> max_correlated_risk_pct cfg < pct_of (cl_total_risk c) (base_equity ctx))
         (the (correlation_clusters (map p_instrument prospective) risk_map (correlations ctx)
                 (correlation_threshold cfg))))"

definition margin_vetoes ::
  "risk_context \<Rightarrow> instrument \<Rightarrow> quote \<Rightarrow> dec \<Rightarrow> sizing_result \<Rightarrow> veto list" where
  "margin_vetoes ctx inst q conv sizing =
     veto_if (dmul (ac_margin_available (account ctx)) (1/2)
        < dmul (dmul (dmul (units inst (sr_lots sizing)) (quote_mid q)) (margin_rate inst)) conv) (block ''margin'')"

text \<open>Positions with no recorded risk are charged the full per-trade budget.\<close>

definition unknown_risk_positions :: "risk_context \<Rightarrow> position list" where
  "unknown_risk_positions ctx = filter (\<lambda>p. p_initial_risk p \<le> 0) (positions ctx)"

definition committed_risk :: "risk_config \<Rightarrow> risk_context \<Rightarrow> sizing_result \<Rightarrow> dec" where
  "committed_risk cfg ctx sizing =
     (let assumed = dmul (ddiv (dmul (base_equity ctx) (risk_per_trade_pct cfg)) 100)
                      (of_nat (length (unknown_risk_positions ctx)));
          open_risk = dadd (dsum (map p_initial_risk (positions ctx))) assumed
      in dadd (dadd open_risk (sr_risk_amount sizing)) (pending_risk ctx))"

definition group_vetoes ::
  "risk_config \<Rightarrow> risk_context \<Rightarrow> (string, currency_exposure) dict \<Rightarrow> dec \<Rightarrow> veto list" where
  "group_vetoes cfg ctx exposures total_risk =
     (case group_others_open_risk ctx of
        None \<Rightarrow> []
      | Some others \<Rightarrow>
          (let group_equity = dadd (base_equity ctx) (group_others_equity ctx);
               group_risk = dadd total_risk others
           in veto_if (group_unknown_members ctx \<noteq> []) (block ''group_visibility'')
              @ veto_if (max_group_open_risk_pct cfg < pct_of group_risk group_equity) (block ''group_total_risk'')
              @ map (\<lambda>_. block ''group_currency_exposure'')
                  (filter (\<lambda>(ccy, e). max_group_currency_exposure_pct cfg
                       < pct_of (dabs (dadd (ce_net_risk e) (dget_default (group_others_currency_risk ctx) ccy 0)))
                           group_equity) exposures)))"

definition unprotected_vetoes :: "risk_config \<Rightarrow> risk_context \<Rightarrow> veto list" where
  "unprotected_vetoes cfg ctx =
     veto_if (require_broker_side_stop cfg \<and> \<not> list_all p_broker_stop_confirmed (positions ctx))
       (block ''unprotected_book'')"

definition portfolio_vetoes ::
  "risk_config \<Rightarrow> order_intent \<Rightarrow> risk_context \<Rightarrow> instrument \<Rightarrow> quote \<Rightarrow> dec \<Rightarrow> dec \<Rightarrow> sizing_result \<Rightarrow> veto list" where
  "portfolio_vetoes cfg intent ctx inst q conv entry_ref sizing =
     (let prospective = positions ctx @ [prospective_position intent ctx sizing entry_ref];
          risk_map = risk_by_instrument intent entry_ref sizing prospective;
          (exposures, unconv) = currency_exposure prospective (instruments ctx) risk_map (conversions ctx)
            (quote_mids ctx) (Some (ac_currency (account ctx)));
          total = committed_risk cfg ctx sizing
      in count_vetoes cfg intent ctx
         @ leverage_vetoes cfg ctx prospective
         @ exposure_vetoes cfg ctx exposures unconv
         @ cluster_vetoes cfg ctx prospective risk_map
         @ margin_vetoes ctx inst q conv sizing
         @ veto_if (max_total_open_risk_pct cfg < pct_of total (base_equity ctx)) (block ''total_open_risk'')
         @ group_vetoes cfg ctx exposures total
         @ unprotected_vetoes cfg ctx)"

definition portfolio_warnings :: "risk_context \<Rightarrow> veto list" where
  "portfolio_warnings ctx = veto_if (unknown_risk_positions ctx \<noteq> []) (warn ''unknown_position_risk'')"

section \<open>The evaluator\<close>

text \<open>From the stop on: sections 5 to 12, the vetoes so far given.\<close>

definition evaluate_sized ::
  "risk_config \<Rightarrow> order_intent \<Rightarrow> risk_context \<Rightarrow> instrument \<Rightarrow> quote \<Rightarrow> dec \<Rightarrow> dec \<Rightarrow> veto list
    \<Rightarrow> risk_decision res" where
  "evaluate_sized cfg intent ctx inst q conv stop_loss vs =
     (let spread = quote_spread_pips q inst;
          entry_ref = entry_reference intent q;
          stop_pips = ddiv (dabs (dsub entry_ref stop_loss)) (pip inst);
          cost_pips = entry_cost_pips intent ctx inst conv spread
      in res_bind (cost_feasibility intent inst entry_ref stop_pips cost_pips) (\<lambda>(be, cvs, cws).
         res_bind (annual_cost_vetoes cfg ctx inst q conv cost_pips) (\<lambda>avs.
         res_bind (sizing_stage cfg ctx inst q conv entry_ref stop_loss) (\<lambda>(sizing, svs, sws).
           let vetoes = vs @ stop_discipline cfg intent ctx inst entry_ref stop_loss stop_pips @ cvs
                 @ loss_budgets cfg ctx @ frequency_vetoes cfg ctx @ avs @ svs
                 @ portfolio_vetoes cfg intent ctx inst q conv entry_ref sizing;
               approved = (vetoes = [])
           in Inr \<lparr>rd_approved = approved, rd_vetoes = vetoes,
                   rd_warnings = cws @ sws @ portfolio_warnings ctx, rd_sizing = Some sizing,
                   rd_risk_multiplier = entry_multiplier cfg ctx,
                   rd_approved_lots = (if approved then sr_lots sizing else 0),
                   rd_risk_amount = (if approved then sr_risk_amount sizing else 0),
                   rd_risk_pct = (if approved then sr_risk_pct sizing else 0),
                   rd_expected_cost_pips = cost_pips, rd_break_even_win_rate = be\<rparr>))))"

definition evaluate_entry :: "risk_config \<Rightarrow> order_intent \<Rightarrow> risk_context \<Rightarrow> risk_decision res" where
  "evaluate_entry cfg intent ctx =
     (let vs0 = absolute_stops cfg ctx @ lifecycle_vetoes intent ctx in
      case dget (instruments ctx) (oi_instrument intent) of
        None \<Rightarrow> Inr (refused (vs0 @ [block ''unknown_instrument'']) [])
      | Some inst \<Rightarrow>
      (case dget (quotes ctx) (oi_instrument intent) of
        None \<Rightarrow> Inr (refused (vs0 @ [block ''no_price'']) [])
      | Some q \<Rightarrow>
      (case ctx_conversion ctx (quote_ccy inst) of
        None \<Rightarrow> Inr (refused (vs0 @ [block ''missing_conversion'']) [])
      | Some conv \<Rightarrow>
      if conv \<le> 0 then Inr (refused (vs0 @ [block ''missing_conversion'']) [])
      else
      let vs = vs0 @ alarm_vetoes ctx @ data_integrity cfg intent ctx
                 @ market_vetoes cfg intent ctx (quote_spread_pips q inst) in
      (case oi_stop_loss intent of
        None \<Rightarrow> Inr (refused (vs @ [block ''no_stop'']) [])
      | Some stop_loss \<Rightarrow> evaluate_sized cfg intent ctx inst q conv stop_loss vs))))"

definition evaluate_exit :: "position \<Rightarrow> risk_context \<Rightarrow> risk_decision" where
  "evaluate_exit position ctx =
     \<lparr>rd_approved = True, rd_vetoes = [], rd_warnings = [], rd_sizing = None, rd_risk_multiplier = 1,
      rd_approved_lots = p_lots position, rd_risk_amount = 0, rd_risk_pct = 0, rd_expected_cost_pips = 0,
      rd_break_even_win_rate = None\<rparr>"

definition portfolio_alarms :: "risk_config \<Rightarrow> risk_context \<Rightarrow> veto list" where
  "portfolio_alarms cfg ctx =
     veto_if (max_drawdown_halt_pct cfg \<le> drawdown_pct ctx) (halt ''max_drawdown'')
     @ (case margin_level_pct (account ctx) of
          None \<Rightarrow> []
        | Some level \<Rightarrow> veto_if (level < 200)
            (if 150 \<le> level then warn ''margin_level'' else block ''margin_level''))
     @ map (\<lambda>_. block ''unprotected_position'')
         (filter (\<lambda>p. require_broker_side_stop cfg \<and> \<not> p_broker_stop_confirmed p) (positions ctx))
     @ veto_if (case clock_skew_ms ctx of None \<Rightarrow> False | Some s \<Rightarrow> max_clock_skew_ms cfg < \<bar>s\<bar>)
         (block ''clock_skew'')"

section \<open>An example evaluation\<close>

definition demo_quote :: quote where
  "demo_quote = \<lparr>q_instrument = ''EUR_USD'', q_bid = 108530/100000, q_ask = 108540/100000, q_ts_ns = 0, q_received_ns = 0\<rparr>"

definition demo_account :: account_state where
  "demo_account = \<lparr>ac_account_id = ''A'', ac_currency = ''USD'', ac_balance = 10000, ac_equity = 10000,
     ac_margin_used = 0, ac_margin_available = 10000, ac_unrealised_pnl = 0, ac_open_positions = 0,
     ac_account_type = ''demo''\<rparr>"

definition demo_intent :: order_intent where
  "demo_intent = \<lparr>oi_client_order_id = ''c1'', oi_strategy = ''trend'', oi_instrument = ''EUR_USD'',
     oi_side = BUY, oi_lots = 1/100, oi_order_type = MARKET, oi_limit_price = None,
     oi_stop_loss = Some (108340/100000), oi_take_profit = Some (108940/100000), oi_decision_ns = 0,
     oi_risk_amount = 0, oi_risk_pct = 0, oi_expected_cost_pips = 0\<rparr>"

definition demo_context :: risk_context where
  "demo_context = \<lparr>now_ns = 0, account = demo_account, positions = [], instruments = [(''EUR_USD'', eur_usd)],
     quotes = [(''EUR_USD'', demo_quote)], conversions = [], equity_peak = 10000, day_pnl = 0, week_pnl = 0,
     month_pnl = 0, week_start_equity = 10000, month_start_equity = 10000, rolling_24h_pnl = 0,
     day_profit_locked = False, ladder_rung_now = 0, venue_min_stop_pips = [], day_start_equity = 10000,
     trades_today = 0, trades_this_week = 0, trades_this_year = 0, last_entry_ns = None, pending_risk = 0,
     unresolved_orders = 0, blocking_alarms = [], regime_risk_multiplier = 1, clock_skew_ms = None,
     connectivity_ok = True, offline_seconds = 0, data_age_sec = [], data_quality = [], normal_spread_pips = [],
     news_blackout = [], price_divergence = [], cooldowns = [], stress_scenarios = [], stress_limit_pct = 0,
     correlations = [], cost_models = [], halted = False, kill_switch = False, strategy_lifecycles = [],
     live_money = False, projected_trades_per_year = None, group_others_open_risk = None,
     group_others_equity = 0, group_others_currency_risk = [], group_unknown_members = []\<rparr>"

lemma uf_find_root: "p x = x \<Longrightarrow> uf_find p x = Some (p, x)"
  by (subst uf_find.simps) simp

lemmas exposure_eval = currency_exposure_def exposure_step_def add_legs_def dd_add_def dd_sub_def dd_append_def
  leg_rate_def empty_exposure_def dget_default_def gross_notional_def gross_step_def correlation_clusters_def
  fromkeys_def mk_cluster_def uf_find_root dsum_def

lemmas engine_eval = sizing_eval exposure_eval absolute_stops_def lifecycle_vetoes_def alarm_vetoes_def
  data_integrity_def market_vetoes_def entry_reference_def stop_discipline_def entry_cost_pips_def
  cost_feasibility_def base_equity_def period_loss_pct_def loss_budgets_def frequency_vetoes_def
  projected_trades_def quote_mids_def annual_cost_vetoes_def entry_multiplier_def stress_gap_def stress_cap_def
  sizing_stage_def prospective_position_def risk_by_instrument_def pct_of_def count_vetoes_def
  leverage_vetoes_def exposure_vetoes_def cluster_vetoes_def margin_vetoes_def unknown_risk_positions_def
  committed_risk_def group_vetoes_def unprotected_vetoes_def portfolio_vetoes_def portfolio_warnings_def
  evaluate_sized_def evaluate_entry_def ctx_conversion_def drawdown_pct_def day_pnl_pct_def dor_def
  quote_mid_def quote_spread_pips_def quote_spread_def block_def

lemmas demo_defs = demo_quote_def demo_account_def demo_intent_def demo_context_def eur_usd_def
  default_risk_config_def

lemma demo_entry_approved:
  "case evaluate_entry default_risk_config demo_intent demo_context of
     Inl _ \<Rightarrow> False | Inr d \<Rightarrow> rd_approved d \<and> rd_approved_lots d = 1/4 \<and> rd_risk_amount d = 50"
  by (simp add: engine_eval demo_defs cong: eval_congs)

section \<open>Which sections can halt\<close>

definition no_halt :: "veto list \<Rightarrow> bool" where
  "no_halt vs \<longleftrightarrow> list_all (\<lambda>v. v_severity v \<noteq> HALT) vs"

lemma severities [simp]:
  "v_severity (block r) = BLOCK" "v_severity (halt r) = HALT" "v_severity (warn r) = WARN"
  by (simp_all add: block_def halt_def warn_def)

lemma no_halt_simps [simp]:
  "no_halt []" "no_halt (v # vs) \<longleftrightarrow> v_severity v \<noteq> HALT \<and> no_halt vs"
  "no_halt (vs @ ws) \<longleftrightarrow> no_halt vs \<and> no_halt ws"
  "no_halt (map (\<lambda>x. block r) xs)"
  by (auto simp: no_halt_def list_all_iff)

lemma no_halt_if: "no_halt (veto_if c (block r))"
  by simp

lemma sections_no_halt:
  "no_halt (lifecycle_vetoes intent ctx)" "no_halt (alarm_vetoes ctx)" "no_halt (data_integrity cfg intent ctx)"
  "no_halt (market_vetoes cfg intent ctx sp)" "no_halt (stop_discipline cfg intent ctx inst e sl sps)"
  "no_halt (loss_budgets cfg ctx)" "no_halt (frequency_vetoes cfg ctx)"
  "no_halt (count_vetoes cfg intent ctx)" "no_halt (margin_vetoes ctx inst q conv sizing)"
  "no_halt (cluster_vetoes cfg ctx ps rm)" "no_halt (unprotected_vetoes cfg ctx)"
  "no_halt (exposure_vetoes cfg ctx ex un)"
  by (simp_all add: lifecycle_vetoes_def alarm_vetoes_def data_integrity_def market_vetoes_def
      stop_discipline_def loss_budgets_def frequency_vetoes_def count_vetoes_def margin_vetoes_def
      cluster_vetoes_def unprotected_vetoes_def exposure_vetoes_def Let_def split: option.splits)

lemma result_sections_no_halt:
  "cost_feasibility intent inst e sps c = Inr (be, cvs, cws) \<Longrightarrow> no_halt cvs"
  "annual_cost_vetoes cfg ctx inst q conv c = Inr avs \<Longrightarrow> no_halt avs"
  "sizing_stage cfg ctx inst q conv e sl = Inr (sizing, svs, sws) \<Longrightarrow> no_halt svs"
  "no_halt (portfolio_vetoes cfg intent ctx inst q conv e sizing)"
     apply (auto simp: cost_feasibility_def res_bind_def split: option.splits if_splits sum.splits)[1]
    apply (auto simp: annual_cost_vetoes_def res_bind_def Let_def split: option.splits if_splits sum.splits)[1]
   apply (auto simp: sizing_stage_def res_bind_def Let_def stress_gap_def
      split: option.splits if_splits sum.splits prod.splits)[1]
  by (simp add: portfolio_vetoes_def leverage_vetoes_def group_vetoes_def Let_def sections_no_halt
      split: option.splits prod.splits)

text \<open>The outcomes of an evaluation: refused early, or sized.\<close>

lemma evaluate_entry_Inr:
  assumes "evaluate_entry cfg intent ctx = Inr d"
  obtains (early) vs r where "d = refused (absolute_stops cfg ctx @ vs @ [block r]) []" "no_halt vs"
  | (sized) inst q conv sl vs where
      "dget (instruments ctx) (oi_instrument intent) = Some inst"
      "dget (quotes ctx) (oi_instrument intent) = Some q"
      "ctx_conversion ctx (quote_ccy inst) = Some conv" "0 < conv" "oi_stop_loss intent = Some sl"
      "vs = absolute_stops cfg ctx @ lifecycle_vetoes intent ctx @ alarm_vetoes ctx
          @ data_integrity cfg intent ctx @ market_vetoes cfg intent ctx (quote_spread_pips q inst)"
      "evaluate_sized cfg intent ctx inst q conv sl vs = Inr d"
proof (cases "dget (instruments ctx) (oi_instrument intent)")
  case None
  then show ?thesis using assms early [of "lifecycle_vetoes intent ctx" "''unknown_instrument''"]
    by (simp add: evaluate_entry_def sections_no_halt)
next
  case i: (Some inst)
  show ?thesis
  proof (cases "dget (quotes ctx) (oi_instrument intent)")
    case None
    then show ?thesis using assms i early [of "lifecycle_vetoes intent ctx" "''no_price''"]
      by (simp add: evaluate_entry_def sections_no_halt)
  next
    case q: (Some q)
    show ?thesis
    proof (cases "\<exists>conv. ctx_conversion ctx (quote_ccy inst) = Some conv \<and> 0 < conv")
      case False
      then have "d = refused (absolute_stops cfg ctx @ lifecycle_vetoes intent ctx @ [block ''missing_conversion'']) []"
        using assms i q by (auto simp: evaluate_entry_def Let_def split: option.splits if_splits)
      then show ?thesis using early sections_no_halt(1) by blast
    next
      case True
      then obtain conv where c: "ctx_conversion ctx (quote_ccy inst) = Some conv" "0 < conv" by blast
      show ?thesis
      proof (cases "oi_stop_loss intent")
        case None
        then show ?thesis
          using assms i q c early [of "lifecycle_vetoes intent ctx @ alarm_vetoes ctx @ data_integrity cfg intent ctx
              @ market_vetoes cfg intent ctx (quote_spread_pips q inst)" "''no_stop''"]
          by (simp add: evaluate_entry_def Let_def sections_no_halt)
      next
        case (Some sl)
        then show ?thesis using sized [OF i q c Some refl] assms i q c by (simp add: evaluate_entry_def Let_def)
      qed
    qed
  qed
qed

lemma evaluate_sized_Inr:
  assumes "evaluate_sized cfg intent ctx inst q conv sl vs = Inr d"
  obtains be cvs cws avs sizing svs sws e where
    "e = entry_reference intent q"
    "cost_feasibility intent inst e (ddiv (dabs (dsub e sl)) (pip inst))
       (entry_cost_pips intent ctx inst conv (quote_spread_pips q inst)) = Inr (be, cvs, cws)"
    "annual_cost_vetoes cfg ctx inst q conv
       (entry_cost_pips intent ctx inst conv (quote_spread_pips q inst)) = Inr avs"
    "sizing_stage cfg ctx inst q conv e sl = Inr (sizing, svs, sws)"
    "rd_vetoes d = vs @ stop_discipline cfg intent ctx inst e sl (ddiv (dabs (dsub e sl)) (pip inst)) @ cvs
       @ loss_budgets cfg ctx @ frequency_vetoes cfg ctx @ avs @ svs
       @ portfolio_vetoes cfg intent ctx inst q conv e sizing"
    "rd_approved d \<longleftrightarrow> rd_vetoes d = []" "rd_sizing d = Some sizing"
    "rd_approved_lots d = (if rd_approved d then sr_lots sizing else 0)"
    "rd_risk_amount d = (if rd_approved d then sr_risk_amount sizing else 0)"
    "rd_risk_multiplier d = entry_multiplier cfg ctx"
  using assms unfolding evaluate_sized_def Let_def
  by (auto simp: res_bind_def split: sum.splits prod.splits)

definition halt_condition :: "risk_config \<Rightarrow> risk_context \<Rightarrow> bool" where
  "halt_condition cfg ctx \<longleftrightarrow> kill_switch ctx \<or> halted ctx \<or> 0 < equity_peak ctx \<and>
     max_drawdown_halt_pct cfg \<le> dmul (ddiv (dsub (equity_peak ctx) (ac_equity (account ctx))) (equity_peak ctx)) 100"

lemma absolute_stops_halt: "no_halt (absolute_stops cfg ctx) \<longleftrightarrow> \<not> halt_condition cfg ctx"
  by (auto simp: absolute_stops_def halt_condition_def)

lemma rd_halting_iff: "rd_halting d \<longleftrightarrow> \<not> no_halt (rd_vetoes d)"
  by (simp add: rd_halting_def no_halt_def list_all_iff list_ex_iff)

text \<open>
  C29. Every decision, on every path and early return: it halts exactly when the kill switch is
  engaged, the agent is halted or the drawdown has reached the halt threshold; it approves
  exactly when there is no veto; and without approval it grants no lots and no risk.
\<close>

theorem entry_decision_halts_and_refuses:
  "case evaluate_entry cfg intent ctx of
     Inl _ \<Rightarrow> True
   | Inr d \<Rightarrow> rd_halting d = halt_condition cfg ctx \<and> rd_approved d = (rd_vetoes d = [])
       \<and> (rd_approved d \<or> rd_approved_lots d = 0 \<and> rd_risk_amount d = 0)"
proof (cases "evaluate_entry cfg intent ctx")
  case (Inr d)
  then show ?thesis
  proof (cases rule: evaluate_entry_Inr)
    case (early vs r)
    then show ?thesis using Inr absolute_stops_halt [of cfg ctx]
      by (simp add: rd_halting_iff refused_def)
  next
    case (sized inst q conv sl vs)
    from sized(7) show ?thesis
      by (rule evaluate_sized_Inr)
        (use Inr sized(6) absolute_stops_halt [of cfg ctx] in
          \<open>simp add: rd_halting_iff sections_no_halt result_sections_no_halt\<close>)
  qed
qed simp

section \<open>What an approval guarantees\<close>

lemma stress_gap_shrinks:
  assumes "stress_gap ctx inst q conv r = (r', [], ws)" "min_lot inst \<le> sr_lots r"
    and "instrument_ok inst" "0 \<le> sr_risk_amount r" "dround (sr_risk_amount r) = sr_risk_amount r"
  shows "sr_risk_amount r' \<le> sr_risk_amount r \<and> sr_lots r' \<le> sr_lots r \<and> min_lot inst \<le> sr_lots r'
    \<and> sr_feasible r' = sr_feasible r"
proof -
  have scale: "ddiv cap (sr_lots r) \<le> 1" if "cap < sr_lots r" "min_lot inst \<le> cap" for cap
  proof -
    have "cap / sr_lots r \<le> 1" using that instrument_okD(4) [OF assms(3)] by simp
    then show ?thesis unfolding ddiv_def using D.rnd_mono [of "cap / sr_lots r" 1] by simp
  qed
  then show ?thesis
    using assms(1,2) by (auto simp: stress_gap_def Let_def assms(4,5) intro!: dmul_le_fixed
        split: if_splits prod.splits)
qed

lemma sizing_stage_clean:
  assumes "sizing_stage cfg ctx inst q conv e sl = Inr (sizing, [], sws)" "instrument_ok inst"
  obtains r where
    "size_position (ac_equity (account ctx)) (risk_per_trade_pct cfg) e sl inst (Some conv)
       (entry_multiplier cfg ctx) (max_lots_per_trade cfg) DEFAULT_MAX_ROUNDING_ERROR_PCT = Inr r"
    "sr_feasible r" "0 < entry_multiplier cfg ctx" "sr_risk_amount sizing \<le> sr_risk_amount r"
    "sr_lots sizing \<le> sr_lots r" "min_lot inst \<le> sr_lots sizing" "sr_feasible sizing"
proof -
  from assms(1) obtain r ws where r:
    "size_position (ac_equity (account ctx)) (risk_per_trade_pct cfg) e sl inst (Some conv)
       (entry_multiplier cfg ctx) (max_lots_per_trade cfg) DEFAULT_MAX_ROUNDING_ERROR_PCT = Inr r"
    and m: "0 < entry_multiplier cfg ctx" and f: "sr_feasible r"
    and g: "stress_gap ctx inst q conv r = (sizing, [], ws)"
    by (auto simp: sizing_stage_def Let_def res_bind_def split: sum.splits prod.splits if_splits)
  from size_position_feasible [OF r f] have a:
    "min_lot inst \<le> sr_lots r" "e \<noteq> sl" "sr_stop_pips r = ddiv (dabs (dsub e sl)) (pip inst)"
    "0 < sr_pip_value_account r"
    "sr_risk_amount r = dmul (dmul (sr_lots r) (sr_stop_pips r)) (sr_pip_value_account r)" by metis+
  have "0 \<le> sr_risk_amount r"
    unfolding a(5) a(3) using a(1,4) instrument_okD(1,4) [OF assms(2)]
    by (intro dmul_nonneg ddiv_nonneg) auto
  moreover have "dround (sr_risk_amount r) = sr_risk_amount r" unfolding a(5) by simp
  ultimately show ?thesis using stress_gap_shrinks [OF g a(1) assms(2)] that [OF r f m] f by blast
qed

text \<open>An approved entry went through every section and collected no veto in any.\<close>

lemma approved_entry:
  assumes "evaluate_entry cfg intent ctx = Inr d" "rd_approved d"
  obtains inst q conv sl e be cws sizing sws where
    "dget (instruments ctx) (oi_instrument intent) = Some inst"
    "dget (quotes ctx) (oi_instrument intent) = Some q"
    "ctx_conversion ctx (quote_ccy inst) = Some conv" "0 < conv" "oi_stop_loss intent = Some sl"
    "e = entry_reference intent q"
    "absolute_stops cfg ctx = []" "lifecycle_vetoes intent ctx = []" "alarm_vetoes ctx = []"
    "data_integrity cfg intent ctx = []" "market_vetoes cfg intent ctx (quote_spread_pips q inst) = []"
    "stop_discipline cfg intent ctx inst e sl (ddiv (dabs (dsub e sl)) (pip inst)) = []"
    "cost_feasibility intent inst e (ddiv (dabs (dsub e sl)) (pip inst))
       (entry_cost_pips intent ctx inst conv (quote_spread_pips q inst)) = Inr (be, [], cws)"
    "loss_budgets cfg ctx = []" "frequency_vetoes cfg ctx = []"
    "sizing_stage cfg ctx inst q conv e sl = Inr (sizing, [], sws)"
    "portfolio_vetoes cfg intent ctx inst q conv e sizing = []"
    "rd_sizing d = Some sizing" "rd_approved_lots d = sr_lots sizing" "rd_risk_amount d = sr_risk_amount sizing"
  using assms(1)
proof (cases rule: evaluate_entry_Inr)
  case (early vs r)
  then show ?thesis using assms(2) by (simp add: refused_def)
next
  case (sized inst q conv sl vs)
  from sized(7) show ?thesis
  proof (rule evaluate_sized_Inr)
    fix be cvs cws avs sizing svs sws e
    assume a: "e = entry_reference intent q"
      "cost_feasibility intent inst e (ddiv (dabs (dsub e sl)) (pip inst))
         (entry_cost_pips intent ctx inst conv (quote_spread_pips q inst)) = Inr (be, cvs, cws)"
      "sizing_stage cfg ctx inst q conv e sl = Inr (sizing, svs, sws)"
      "rd_vetoes d = vs @ stop_discipline cfg intent ctx inst e sl (ddiv (dabs (dsub e sl)) (pip inst)) @ cvs
         @ loss_budgets cfg ctx @ frequency_vetoes cfg ctx @ avs @ svs
         @ portfolio_vetoes cfg intent ctx inst q conv e sizing"
      "rd_approved d \<longleftrightarrow> rd_vetoes d = []" "rd_sizing d = Some sizing"
      "rd_approved_lots d = (if rd_approved d then sr_lots sizing else 0)"
      "rd_risk_amount d = (if rd_approved d then sr_risk_amount sizing else 0)"
    have "rd_vetoes d = []" using a(5) assms(2) by simp
    then show ?thesis
      using a assms(2) sized(6) by (intro that [OF sized(1-5) a(1), of be cws sizing sws]) simp_all
  qed
qed


lemma demo_entry:
  obtains d where "evaluate_entry default_risk_config demo_intent demo_context = Inr d" "rd_approved d"
    "rd_approved_lots d = 1/4" "rd_risk_amount d = 50"
  using demo_entry_approved by (auto split: sum.splits)

lemma eur_usd_ok: "instrument_ok eur_usd"
  by (simp add: instrument_ok_def eur_usd_def)


lemma entry_multiplier_bounds:
  assumes "ladder_enabled cfg \<Longrightarrow> ladder_ok (ladder cfg)"
  shows "0 \<le> entry_multiplier cfg ctx" "entry_multiplier cfg ctx \<le> 1"
proof -
  define l where "l = ladder_multiplier (drawdown_pct ctx) (ladder cfg) (ladder_enabled cfg) (ladder_rung_now ctx)
    (ladder_hysteresis_pct cfg)"
  define r where "r = max 0 (min 1 (regime_risk_multiplier ctx))"
  have l: "0 \<le> l \<and> l \<le> 1"
  proof (cases "ladder_enabled cfg")
    case True
    then show ?thesis unfolding l_def by (intro ladder_multiplier_bounds assms)
  qed (simp add: l_def ladder_multiplier_def)
  have r: "0 \<le> r \<and> r \<le> 1" by (simp add: r_def)
  have e: "entry_multiplier cfg ctx = dmul l r" by (simp add: entry_multiplier_def l_def r_def)
  show "0 \<le> entry_multiplier cfg ctx" unfolding e using l r by (simp add: dmul_nonneg)
  have "l * r \<le> 1" using l r by (intro mult_le_one) auto
  then show "entry_multiplier cfg ctx \<le> 1"
    unfolding e dmul_def using D.rnd_mono [of "l * r" 1] by simp
qed

text \<open>
  C3. An approved entry never risks more than the per-trade budget: with an accepted
  configuration, whatever the drawdown ladder, the regime multiplier and the stress shrink do,
  the approved risk is at most \<open>risk_per_trade_pct\<close> percent of equity (up to one part in 10 to
  the 26 of rounding), and the multiplier that was applied lies in (0, 1].
\<close>

theorem approved_entry_within_budget:
  assumes "evaluate_entry cfg intent ctx = Inr d" and "rd_approved d"
    and "mk_risk_config cfg = Inr cfg"
    and "dget (instruments ctx) (oi_instrument intent) = Some inst" and "instrument_ok inst"
    and "grid_step (lot_step inst) c k" and "max_lots_per_trade cfg / lot_step inst * of_int c \<le> 10 ^ 27"
  shows "rd_risk_amount d \<le> ac_equity (account ctx) * risk_per_trade_pct cfg / 100 * (1 + 1 / 10 ^ 26)
    \<and> 0 < entry_multiplier cfg ctx \<and> entry_multiplier cfg ctx \<le> 1"
  using assms(1,2)
proof (rule approved_entry)
  fix inst' q conv sl e be cws sizing sws
  assume i: "dget (instruments ctx) (oi_instrument intent) = Some inst'"
    and sz: "sizing_stage cfg ctx inst' q conv e sl = Inr (sizing, [], sws)"
    and d: "rd_risk_amount d = sr_risk_amount sizing"
  have ii: "inst' = inst" using i assms(4) by simp
  note cfg = mk_risk_config_budget [OF assms(3)]
  have mb: "0 \<le> entry_multiplier cfg ctx" "entry_multiplier cfg ctx \<le> 1"
    by (rule entry_multiplier_bounds [OF mk_risk_config_ladder_ok [OF assms(3)]], assumption)+
  from sizing_stage_clean [OF sz [unfolded ii] assms(5)] obtain r where
    r: "size_position (ac_equity (account ctx)) (risk_per_trade_pct cfg) e sl inst (Some conv)
       (entry_multiplier cfg ctx) (max_lots_per_trade cfg) DEFAULT_MAX_ROUNDING_ERROR_PCT = Inr r"
      "sr_feasible r" "0 < entry_multiplier cfg ctx" "sr_risk_amount sizing \<le> sr_risk_amount r" by blast
  define K :: rat where "K = 1 + 1 / 10 ^ 26"
  have K: "0 \<le> K" by (simp add: K_def)
  have eq: "0 < ac_equity (account ctx)" using size_position_feasible [OF r(1,2)] by blast
  have "sr_risk_amount r \<le> ac_equity (account ctx) * risk_per_trade_pct cfg * entry_multiplier cfg ctx / 100 * K"
    unfolding K_def
    using size_position_budget [OF r(1,2) assms(5) less_imp_le [OF cfg(1)] mb(1) assms(6) cfg(2) assms(7)] by blast
  also have "\<dots> \<le> ac_equity (account ctx) * risk_per_trade_pct cfg * 1 / 100 * K"
    using eq cfg(1) mb(2) K by (intro mult_right_mono divide_right_mono mult_left_mono) auto
  finally have "sr_risk_amount r \<le> ac_equity (account ctx) * risk_per_trade_pct cfg / 100 * K" by (simp only: mult_1_right)
  then have "rd_risk_amount d \<le> ac_equity (account ctx) * risk_per_trade_pct cfg / 100 * K"
    unfolding d using r(4) by (rule order_trans [rotated])
  then show ?thesis unfolding K_def using r(3) mb(2) by blast
qed

theorem approved_entry_within_budget_witness:
  "\<exists>d. evaluate_entry default_risk_config demo_intent demo_context = Inr d \<and> rd_approved d
     \<and> rd_risk_amount d = 50
     \<and> rd_risk_amount d \<le> ac_equity (account demo_context) * risk_per_trade_pct default_risk_config / 100 * (1 + 1 / 10 ^ 26)"
proof -
  obtain d where d: "evaluate_entry default_risk_config demo_intent demo_context = Inr d" "rd_approved d"
    "rd_risk_amount d = 50" by (rule demo_entry)
  have i: "dget (instruments demo_context) (oi_instrument demo_intent) = Some eur_usd"
    by (simp add: demo_context_def demo_intent_def)
  have g: "grid_step (lot_step eur_usd) 1 (- 2)" by (simp add: grid_step_def eur_usd_def power_int_minus)
  have m: "max_lots_per_trade default_risk_config / lot_step eur_usd * of_int 1 \<le> 10 ^ 27"
    by (simp add: eur_usd_def default_risk_config_def)
  from approved_entry_within_budget [OF d(1,2) default_risk_config_accepted i eur_usd_ok g m] d
  show ?thesis by blast
qed

section \<open>When the evaluation raises\<close>

lemma cost_feasibility_Inl:
  assumes "instrument_ok inst"
  shows "isl (cost_feasibility intent inst e (ddiv (dabs (dsub e sl)) (pip inst)) c)
      \<longleftrightarrow> sl \<noteq> e \<and> oi_take_profit intent = Some e"
    and "cost_feasibility intent inst e (ddiv (dabs (dsub e sl)) (pip inst)) c = Inl x \<Longrightarrow> x = ValueError"
proof -
  have p: "0 < pip inst" by (rule instrument_okD(1) [OF assms])
  have z: "ddiv (dabs (dsub a b)) (pip inst) \<le> 0 \<longleftrightarrow> a = b" for a b
    using p D.rnd_pos_iff [of "dabs (dsub a b) / pip inst"]
    by (auto simp: ddiv_def dsub_zero_iff not_less [symmetric] zero_less_divide_iff)
  have pos: "\<not> ddiv (dabs (dsub a b)) (pip inst) \<le> 0 \<Longrightarrow> \<not> ddiv (dabs (dsub a' b')) (pip inst) \<le> 0 \<Longrightarrow>
    dadd (ddiv (dabs (dsub a b)) (pip inst)) (ddiv (dabs (dsub a' b')) (pip inst)) \<noteq> 0" for a b a' b'
    using dadd_pos [of "ddiv (dabs (dsub a b)) (pip inst)" "ddiv (dabs (dsub a' b')) (pip inst)"] by linarith
  show "isl (cost_feasibility intent inst e (ddiv (dabs (dsub e sl)) (pip inst)) c)
      \<longleftrightarrow> sl \<noteq> e \<and> oi_take_profit intent = Some e"
    using pos by (auto simp: cost_feasibility_def break_even_win_rate_def res_bind_def z split: option.splits)
  show "cost_feasibility intent inst e (ddiv (dabs (dsub e sl)) (pip inst)) c = Inl x \<Longrightarrow> x = ValueError"
    by (auto simp: cost_feasibility_def break_even_win_rate_def res_bind_def split: option.splits if_splits sum.splits)
qed

lemma annual_cost_vetoes_Inr:
  assumes "instrument_ok inst" "0 < conv" "0 \<le> cost"
    and "case projected_trades ctx of None \<Rightarrow> True | Some n \<Rightarrow> 0 \<le> n"
  shows "\<not> isl (annual_cost_vetoes cfg ctx inst q conv cost)"
proof -
  have u: "0 \<le> units inst 1" using instrument_okD(3) [OF assms(1)] by (simp add: units_def dmul_nonneg)
  have "\<not> dmul (ddiv (dmul (dmul (dmul cost (pip inst)) (units inst 1)) conv) n) 10000 < 0" if "0 < n" for n
    unfolding not_less
    using that u assms(2,3) instrument_okD(1) [OF assms(1)] by (intro dmul_nonneg ddiv_nonneg) auto
  then show ?thesis
    using assms(4) by (auto simp: annual_cost_vetoes_def Let_def annual_cost_pct_of_equity_def res_bind_def
        split: option.splits sum.splits if_splits)
qed

lemma size_position_Inr: "ddiv me 100 \<noteq> 0 \<Longrightarrow> \<exists>r. size_position eq rp e sl i q2a mu ml me = Inr r"
  unfolding size_position_def Let_def by (simp split: option.split)

lemma sizing_stage_Inr: "\<exists>r. sizing_stage cfg ctx inst q conv e sl = Inr r"
proof -
  have "ddiv DEFAULT_MAX_ROUNDING_ERROR_PCT 100 = 1/5"
    by (simp add: DEFAULT_MAX_ROUNDING_ERROR_PCT_def LOT_GRANULARITY_TOLERANCE_def decimal_eval)
  then obtain r where "size_position (ac_equity (account ctx)) (risk_per_trade_pct cfg) e sl inst (Some conv)
      (entry_multiplier cfg ctx) (max_lots_per_trade cfg) DEFAULT_MAX_ROUNDING_ERROR_PCT = Inr r"
    using size_position_Inr [of DEFAULT_MAX_ROUNDING_ERROR_PCT] by fastforce
  then show ?thesis by (simp add: sizing_stage_def Let_def split: prod.split)
qed

text \<open>
  C30. When \<open>evaluate_entry\<close> raises instead of returning a decision: once instrument, quote, rate
  and stop are there (before, it always returns a refusal) and costs and trade counts are not
  negative, it raises exactly when the take profit equals the entry price and the stop does
  not. The reward/risk veto of that intent is computed and lost, because the break-even win
  rate of a zero target is not guarded.
\<close>

theorem entry_raises_iff:
  assumes "dget (instruments ctx) (oi_instrument intent) = Some inst" and "instrument_ok inst"
    and "dget (quotes ctx) (oi_instrument intent) = Some q"
    and "ctx_conversion ctx (quote_ccy inst) = Some conv" and "0 < conv" and "oi_stop_loss intent = Some sl"
    and "0 \<le> entry_cost_pips intent ctx inst conv (quote_spread_pips q inst)"
    and "case projected_trades ctx of None \<Rightarrow> True | Some n \<Rightarrow> 0 \<le> n"
  shows "(isl (evaluate_entry cfg intent ctx)
      \<longleftrightarrow> sl \<noteq> entry_reference intent q \<and> oi_take_profit intent = Some (entry_reference intent q))
    \<and> (isl (evaluate_entry cfg intent ctx) \<longrightarrow> evaluate_entry cfg intent ctx = Inl ValueError)"
proof -
  let ?e = "entry_reference intent q" and ?c = "entry_cost_pips intent ctx inst conv (quote_spread_pips q inst)"
  obtain vs where ee: "evaluate_entry cfg intent ctx = evaluate_sized cfg intent ctx inst q conv sl vs"
    using assms(1,3-6) by (auto simp: evaluate_entry_def Let_def)
  obtain avs where a: "annual_cost_vetoes cfg ctx inst q conv ?c = Inr avs"
    using annual_cost_vetoes_Inr [OF assms(2,5,7,8), of cfg q] by (cases "annual_cost_vetoes cfg ctx inst q conv ?c") auto
  obtain sz svs sws where s: "sizing_stage cfg ctx inst q conv ?e sl = Inr (sz, svs, sws)"
    using sizing_stage_Inr [of cfg ctx inst q conv ?e sl] by auto
  show ?thesis
  proof (cases "cost_feasibility intent inst ?e (ddiv (dabs (dsub ?e sl)) (pip inst)) ?c")
    case (Inl x)
    then show ?thesis
      using cost_feasibility_Inl [OF assms(2), of intent ?e sl ?c] unfolding ee
      by (simp add: evaluate_sized_def Let_def)
  next
    case (Inr y)
    moreover obtain be cvs cws where "y = (be, cvs, cws)" by (cases y)
    ultimately show ?thesis
      using cost_feasibility_Inl [OF assms(2), of intent ?e sl ?c] unfolding ee
      by (simp add: evaluate_sized_def Let_def a s)
  qed
qed

theorem entry_raises_iff_witness:
  "evaluate_entry default_risk_config (demo_intent\<lparr>oi_take_profit := Some (108540/100000)\<rparr>) demo_context = Inl ValueError"
proof -
  let ?i = "demo_intent\<lparr>oi_take_profit := Some (108540/100000)\<rparr>"
  have e: "entry_reference ?i demo_quote = 108540/100000"
    by (simp add: entry_reference_def demo_intent_def demo_quote_def)
  have c: "0 \<le> entry_cost_pips ?i demo_context eur_usd 1 (quote_spread_pips demo_quote eur_usd)"
    by (simp add: engine_eval demo_defs cong: eval_congs)
  have p: "case projected_trades demo_context of None \<Rightarrow> True | Some n \<Rightarrow> 0 \<le> n"
    by (simp add: projected_trades_def demo_context_def)
  have "isl (evaluate_entry default_risk_config ?i demo_context)"
    and "isl (evaluate_entry default_risk_config ?i demo_context) \<Longrightarrow> ?thesis"
    using entry_raises_iff [of demo_context ?i eur_usd demo_quote 1 "108340/100000" default_risk_config,
        OF _ eur_usd_ok _ _ _ _ c p] e
    by (simp_all add: demo_context_def demo_intent_def ctx_conversion_def demo_account_def eur_usd_def)
  then show ?thesis by blast
qed

text \<open>
  The risk table behind the correlated-risk ceiling identifies the proposed leg by its
  price: an open position on the same instrument whose entry price equals the proposed entry
  is left out of the table, so two positions with a risk of 50 each count as 50; at any other
  price they count as 100.
\<close>

theorem risk_map_omits_same_price:
  "risk_by_instrument intent e sizing (p\<lparr>p_instrument := oi_instrument intent, p_entry_price := e\<rparr> # book)
     = risk_by_instrument intent e sizing book
   \<and> dget (risk_by_instrument intent e (sizing\<lparr>sr_risk_amount := 50\<rparr>)
        [p\<lparr>p_instrument := oi_instrument intent, p_initial_risk := 50, p_entry_price := e\<rparr>]) (oi_instrument intent) = Some 50
   \<and> dget (risk_by_instrument intent e (sizing\<lparr>sr_risk_amount := 50\<rparr>)
        [p\<lparr>p_instrument := oi_instrument intent, p_initial_risk := 50, p_entry_price := e + 1\<rparr>]) (oi_instrument intent) = Some 100"
  by (simp add: risk_by_instrument_def dd_add_def dget_default_def decimal_eval)

text \<open>
  The standing alarms agree with the entry check: with a positive threshold the alarm
  halts exactly when the drawdown halt of \<open>evaluate_entry\<close> would fire, and there is an alarm at
  block severity for every open position without a confirmed stop that must have one.
\<close>

theorem portfolio_alarms_agree:
  assumes "0 < max_drawdown_halt_pct cfg"
  shows "(halt ''max_drawdown'' \<in> set (portfolio_alarms cfg ctx)
      \<longleftrightarrow> halt ''max_drawdown'' \<in> set (absolute_stops cfg ctx))
    \<and> (block ''unprotected_position'' \<in> set (portfolio_alarms cfg ctx)
      \<longleftrightarrow> require_broker_side_stop cfg \<and> \<not> list_all p_broker_stop_confirmed (positions ctx))"
  using assms
  by (auto simp: portfolio_alarms_def absolute_stops_def drawdown_pct_def halt_def block_def warn_def list_all_iff
      max_def split: option.splits if_splits)

theorem portfolio_alarms_agree_witness:
  "halt ''max_drawdown'' \<in> set (portfolio_alarms default_risk_config (demo_context\<lparr>equity_peak := 12500\<rparr>))"
proof -
  have "0 < max_drawdown_halt_pct default_risk_config" by (simp add: default_risk_config_def)
  from portfolio_alarms_agree [OF this, of "demo_context\<lparr>equity_peak := 12500\<rparr>"] show ?thesis
    by (simp add: absolute_stops_def demo_context_def demo_account_def default_risk_config_def decimal_eval halt_def)
qed

end
