(* ===== verification/Protect.thy ===== *)
theory Protect
  imports Domain Config Civil
begin

text \<open>
  \<open>src/sentinel/risk/protect.py\<close>: profit protection on every tick. The four rules each propose
  an instruction; \<open>evaluate_protection\<close> collapses the proposals. The texts of \<open>reason\<close> are left
  out; the rule tag is kept.
\<close>

datatype protect_action = MOVE_STOP | PARTIAL_CLOSE | CLOSE

record protect_instruction =
  pi_action :: protect_action
  pi_instrument :: string
  pi_new_stop :: "dec option"
  pi_close_lots :: "dec option"
  pi_r_at_trigger :: dec
  pi_rule :: string

definition tighter :: "side \<Rightarrow> dec option \<Rightarrow> dec \<Rightarrow> bool" where
  "tighter s current candidate =
     (case current of None \<Rightarrow> True | Some c \<Rightarrow> if s = BUY then c < candidate else candidate < c)"

definition price_at_r :: "position \<Rightarrow> instrument \<Rightarrow> dec \<Rightarrow> dec \<Rightarrow> dec option" where
  "price_at_r p i target_r risk_distance =
     (if risk_distance \<le> 0 then None
      else Some (round_price i (dadd (p_entry_price p)
                   (dmul (dmul risk_distance target_r) (side_sign (p_side p))))))"

definition move_stop :: "position \<Rightarrow> dec \<Rightarrow> dec \<Rightarrow> string \<Rightarrow> protect_instruction" where
  "move_stop p s r rule =
     \<lparr>pi_action = MOVE_STOP, pi_instrument = p_instrument p, pi_new_stop = Some s, pi_close_lots = None,
      pi_r_at_trigger = r, pi_rule = rule\<rparr>"

definition close_all :: "position \<Rightarrow> dec \<Rightarrow> string \<Rightarrow> protect_instruction" where
  "close_all p r rule =
     \<lparr>pi_action = CLOSE, pi_instrument = p_instrument p, pi_new_stop = None, pi_close_lots = None,
      pi_r_at_trigger = r, pi_rule = rule\<rparr>"

text \<open>\<open>candidate >= ref\<close> for a buy, \<open>candidate <= ref\<close> for a sell.\<close>

definition beyond :: "side \<Rightarrow> dec \<Rightarrow> dec \<Rightarrow> bool" where
  "beyond s candidate ref = (if s = BUY then ref \<le> candidate else candidate \<le> ref)"

definition breakeven_buffer :: "instrument \<Rightarrow> position \<Rightarrow> dec \<Rightarrow> cost_model option \<Rightarrow> dec" where
  "breakeven_buffer i p q2a model =
     (case model of
        None \<Rightarrow> dmul (pip i) (15/10)
      | Some c \<Rightarrow>
          (case round_trip_pips c (p_lots p) (dmul (pip_value_quote i (p_lots p)) q2a) False of
             Inl _ \<Rightarrow> dmul (pip i) (15/10)
           | Inr cost_pips \<Rightarrow>
               if cost_pips \<le> 0 then dmul (pip i) (15/10)
               else dadd (dmul cost_pips (pip i)) (tick i)))"

text \<open>One R in price terms: from the recorded risk, else from the live stop.\<close>

definition risk_distance :: "position \<Rightarrow> instrument \<Rightarrow> dec \<Rightarrow> dec" where
  "risk_distance p i q2a =
     (let pip_val = dmul (pip_value_quote i (p_lots p)) q2a;
          d = (if 0 < p_initial_risk p \<and> 0 < pip_val
               then dmul (ddiv (p_initial_risk p) pip_val) (pip i) else 0)
      in case p_stop_loss p of
           None \<Rightarrow> d
         | Some sl \<Rightarrow> if d \<le> 0 \<and> sl \<noteq> 0 then dabs (dsub (p_entry_price p) sl) else d)"

definition breakeven_candidate :: "position \<Rightarrow> instrument \<Rightarrow> dec \<Rightarrow> cost_model option \<Rightarrow> dec" where
  "breakeven_candidate p i q2a model =
     (let entry = p_entry_price p; sign = side_sign (p_side p);
          candidate = round_price i (dadd entry (dmul (breakeven_buffer i p q2a model) sign))
      in if dmul (dsub candidate entry) sign \<le> 0 then round_price i (dadd entry (dmul (tick i) sign))
         else candidate)"

definition breakeven_rule ::
  "position \<Rightarrow> instrument \<Rightarrow> risk_config \<Rightarrow> dec \<Rightarrow> cost_model option \<Rightarrow> dec \<Rightarrow> protect_instruction list" where
  "breakeven_rule p i cfg q2a model r =
     (if 0 < breakeven_trigger_r cfg \<and> \<not> p_breakeven_moved p \<and> breakeven_trigger_r cfg \<le> r
         \<and> 0 < risk_distance p i q2a
      then let candidate = breakeven_candidate p i q2a model
           in if tighter (p_side p) (p_stop_loss p) candidate then [move_stop p candidate r ''breakeven''] else []
      else [])"

definition partial_rule :: "position \<Rightarrow> instrument \<Rightarrow> risk_config \<Rightarrow> dec \<Rightarrow> protect_instruction list" where
  "partial_rule p i cfg r =
     (if 0 < partial_take_fraction cfg \<and> \<not> p_partial_taken p \<and> 0 < partial_take_r cfg \<and> partial_take_r cfg \<le> r
      then let lots = round_lots_down i (dmul (p_lots p) (partial_take_fraction cfg));
               remaining = dsub (p_lots p) lots
           in if min_lot i \<le> lots \<and> min_lot i \<le> remaining
              then [\<lparr>pi_action = PARTIAL_CLOSE, pi_instrument = p_instrument p, pi_new_stop = None,
                     pi_close_lots = Some lots, pi_r_at_trigger = r, pi_rule = ''partial_take''\<rparr>]
              else []
      else [])"

definition trail_rule ::
  "position \<Rightarrow> quote \<Rightarrow> instrument \<Rightarrow> risk_config \<Rightarrow> dec option \<Rightarrow> dec \<Rightarrow> protect_instruction list" where
  "trail_rule p q i cfg atr r =
     (case atr of
        None \<Rightarrow> []
      | Some a \<Rightarrow>
          if 0 < trail_atr_multiple cfg \<and> 0 < a \<and> trail_activate_r cfg \<le> r
          then let ref = price_for q (side_opposite (p_side p));
                   candidate = round_price i (dsub ref (dmul (dmul a (trail_atr_multiple cfg)) (side_sign (p_side p))))
               in if tighter (p_side p) (p_stop_loss p) candidate \<and> \<not> beyond (p_side p) candidate ref
                  then [move_stop p candidate r ''atr_trail''] else []
          else [])"

definition giveback_rule ::
  "position \<Rightarrow> quote \<Rightarrow> instrument \<Rightarrow> risk_config \<Rightarrow> dec \<Rightarrow> dec \<Rightarrow> protect_instruction list" where
  "giveback_rule p q i cfg q2a r =
     (let peak = p_max_favourable p in
      if 0 < giveback_arm_r cfg \<and> 0 < risk_distance p i q2a \<and> giveback_arm_r cfg \<le> peak
      then case price_at_r p i (dmul peak (giveback_keep_fraction cfg)) (risk_distance p i q2a) of
             None \<Rightarrow> []
           | Some candidate \<Rightarrow>
               if tighter (p_side p) (p_stop_loss p) candidate
               then let ref = price_for q (side_opposite (p_side p))
                    in if beyond (p_side p) candidate ref then [close_all p r ''giveback'']
                       else [move_stop p candidate r ''giveback'']
               else []
      else [])"

definition protection_proposals ::
  "position \<Rightarrow> quote \<Rightarrow> instrument \<Rightarrow> risk_config \<Rightarrow> dec option \<Rightarrow> dec \<Rightarrow> cost_model option \<Rightarrow> protect_instruction list" where
  "protection_proposals p q i cfg atr q2a model =
     (case r_multiple p q i q2a of
        None \<Rightarrow> []
      | Some r \<Rightarrow> breakeven_rule p i cfg q2a model r @ partial_rule p i cfg r
                   @ trail_rule p q i cfg atr r @ giveback_rule p q i cfg q2a r)"

text \<open>\<open>max(xs, key=f)\<close> and \<open>min(xs, key=f)\<close>: the first element with the best key.\<close>

fun safest :: "side \<Rightarrow> protect_instruction \<Rightarrow> protect_instruction list \<Rightarrow> protect_instruction" where
  "safest s best [] = best"
| "safest s best (x # xs) =
     safest s (if tighter s (pi_new_stop best) (the (pi_new_stop x)) then x else best) xs"

definition is_action :: "protect_action \<Rightarrow> protect_instruction \<Rightarrow> bool" where
  "is_action a i \<longleftrightarrow> pi_action i = a"

definition collapse :: "side \<Rightarrow> protect_instruction list \<Rightarrow> protect_instruction list" where
  "collapse s out =
     (if list_ex (is_action CLOSE) out then take 1 (filter (is_action CLOSE) out)
      else case filter (is_action MOVE_STOP) out of
        m # n # ms \<Rightarrow> filter (\<lambda>i. \<not> is_action MOVE_STOP i) out @ [safest s m (n # ms)]
      | _ \<Rightarrow> out)"

definition evaluate_protection ::
  "position \<Rightarrow> quote \<Rightarrow> instrument \<Rightarrow> risk_config \<Rightarrow> dec option \<Rightarrow> dec \<Rightarrow> cost_model option \<Rightarrow> protect_instruction list" where
  "evaluate_protection p q i cfg atr q2a model =
     (if p_initial_risk p \<le> 0 then []
      else collapse (p_side p) (protection_proposals p q i cfg atr q2a model))"

definition time_stop :: "position \<Rightarrow> int \<Rightarrow> int \<Rightarrow> protect_instruction option" where
  "time_stop p now max_hold_sec' =
     (if max_hold_sec' \<le> 0 then None
      else if of_int max_hold_sec' \<le> fdiv (of_int (now - p_opened_ns p)) 1000000000
      then Some (close_all p 0 ''time_stop'') else None)"

definition ny_utc_offset_hours :: "int \<Rightarrow> int res" where
  "ny_utc_offset_hours dt = utc_offset_hours ''America/New_York'' dt"

definition weekend_flat :: "position \<Rightarrow> int \<Rightarrow> int option \<Rightarrow> int \<Rightarrow> protect_instruction option res" where
  "weekend_flat p now friday_close ny_close_hour =
     (let dt = from_timestamp_ns now in
      if weekday (dt_date dt) \<noteq> 4 then Inr None
      else res_bind (case friday_close of Some h \<Rightarrow> Inr h
                     | None \<Rightarrow> res_bind (ny_utc_offset_hours dt) (\<lambda>off. Inr (ny_close_hour - off)))
        (\<lambda>cutoff. Inr (if cutoff \<le> dt_hour dt then Some (close_all p 0 ''weekend_flat'') else None)))"

section \<open>Lemmas\<close>

lemmas rule_defs = breakeven_rule_def partial_rule_def trail_rule_def giveback_rule_def move_stop_def
  close_all_def is_action_def Let_def

lemma tighter_not_sym: "tighter s (Some a) b \<Longrightarrow> \<not> tighter s (Some b) a"
  by (auto simp: tighter_def split: if_splits)

lemma tighter_trans: "tighter s c a \<Longrightarrow> tighter s (Some a) b \<Longrightarrow> tighter s c b"
  by (auto simp: tighter_def split: option.splits if_splits)

text \<open>What every proposal satisfies, for the position it is made for.\<close>

definition sound_instruction :: "position \<Rightarrow> instrument \<Rightarrow> protect_instruction \<Rightarrow> bool" where
  "sound_instruction p i x =
     (case pi_action x of
        MOVE_STOP \<Rightarrow> (case pi_new_stop x of None \<Rightarrow> False | Some s \<Rightarrow> tighter (p_side p) (p_stop_loss p) s)
      | PARTIAL_CLOSE \<Rightarrow> (case pi_close_lots x of None \<Rightarrow> False
          | Some l \<Rightarrow> min_lot i \<le> l \<and> min_lot i \<le> dsub (p_lots p) l)
      | CLOSE \<Rightarrow> True)"

lemma rules_sound:
  "list_all (sound_instruction p i) (breakeven_rule p i cfg q2a model r)"
  "list_all (sound_instruction p i) (partial_rule p i cfg r)"
  "list_all (sound_instruction p i) (trail_rule p q i cfg atr r)"
  "list_all (sound_instruction p i) (giveback_rule p q i cfg q2a r)"
  by (simp_all add: sound_instruction_def rule_defs split: option.split)

lemma proposals_sound: "list_all (sound_instruction p i) (protection_proposals p q i cfg atr q2a model)"
  by (auto simp: protection_proposals_def rules_sound split: option.splits)

lemma rules_partial:
  "filter (is_action PARTIAL_CLOSE) (breakeven_rule p i cfg q2a model r) = []"
  "length (filter (is_action PARTIAL_CLOSE) (partial_rule p i cfg r)) \<le> 1"
  "filter (is_action PARTIAL_CLOSE) (trail_rule p q i cfg atr r) = []"
  by (simp_all add: rule_defs split: option.split)

lemma giveback_partial: "filter (is_action PARTIAL_CLOSE) (giveback_rule p q i cfg q2a r) = []"
  unfolding giveback_rule_def Let_def
  by (split if_split, intro conjI impI, split option.split, intro conjI impI allI)
    (simp_all add: is_action_def move_stop_def close_all_def)

lemma proposals_partial: "length (filter (is_action PARTIAL_CLOSE) (protection_proposals p q i cfg atr q2a model)) \<le> 1"
  by (simp add: protection_proposals_def rules_partial giveback_partial rules_partial(2) [simplified] split: option.split)

lemma safest_mem: "safest s best xs \<in> set (best # xs)"
  by (induction xs arbitrary: best) auto

text \<open>The chosen stop move: no other one is safer.\<close>

lemma safest_best:
  assumes "list_all (\<lambda>x. pi_new_stop x \<noteq> None) (best # xs)"
  shows "\<forall>x \<in> set (best # xs). \<not> tighter s (pi_new_stop (safest s best xs)) (the (pi_new_stop x))"
  using assms
proof (induction xs arbitrary: best)
  case Nil
  then show ?case by (auto simp: tighter_def)
next
  case (Cons x xs)
  let ?b = "if tighter s (pi_new_stop best) (the (pi_new_stop x)) then x else best"
  have all: "list_all (\<lambda>x. pi_new_stop x \<noteq> None) (?b # xs)" using Cons.prems by simp
  note IH = Cons.IH [OF all]
  obtain b y where st: "pi_new_stop best = Some b" "pi_new_stop x = Some y" using Cons.prems by auto
  show ?case
  proof (cases "tighter s (Some b) y")
    case True
    then have "\<not> tighter s (pi_new_stop (safest s x xs)) y" using IH by (simp add: st)
    moreover from this True have "\<not> tighter s (pi_new_stop (safest s x xs)) b"
      by (auto simp: tighter_def split: option.splits if_splits)
    ultimately show ?thesis using True IH by (simp add: st)
  next
    case False
    then have nb: "\<not> tighter s (pi_new_stop (safest s best xs)) b" using IH by (simp add: st)
    then have "\<not> tighter s (pi_new_stop (safest s best xs)) y"
      using False by (auto simp: tighter_def split: option.splits if_splits)
    then show ?thesis using False nb IH by (simp add: st)
  qed
qed

lemma safest_action: "list_all (is_action a) (best # xs) \<Longrightarrow> is_action a (safest s best xs)"
  using safest_mem [of s best xs] by (auto simp: list_all_iff)

lemma collapse_cases:
  obtains (close) x where "collapse s out = [x]" "x \<in> set out" "is_action CLOSE x"
  | (same) "collapse s out = out" "\<not> list_ex (is_action CLOSE) out" "length (filter (is_action MOVE_STOP) out) \<le> 1"
  | (best) m ms where "filter (is_action MOVE_STOP) out = m # ms" "\<not> list_ex (is_action CLOSE) out"
      "collapse s out = filter (\<lambda>i. \<not> is_action MOVE_STOP i) out @ [safest s m ms]"
proof (cases "list_ex (is_action CLOSE) out")
  case True
  then obtain x xs where "filter (is_action CLOSE) out = x # xs"
    by (cases "filter (is_action CLOSE) out") (auto simp: filter_empty_conv list_ex_iff)
  moreover from this have "x \<in> set out" "is_action CLOSE x" by (auto dest: filter_eq_ConsD)
  ultimately show ?thesis using close True by (simp add: collapse_def)
next
  case False
  show ?thesis
  proof (cases "filter (is_action MOVE_STOP) out")
    case Nil
    then show ?thesis using same False by (simp add: collapse_def)
  next
    case (Cons m ms)
    then show ?thesis using same best False by (cases ms) (simp_all add: collapse_def)
  qed
qed

text \<open>
  C37. Protection only ever moves toward safety: every returned stop move is strictly tighter
  than the stop in place, there is at most one of them, a scale-out leaves both parts at or above the
  minimum lot and happens at most once, and an instruction to close stands alone.
\<close>

theorem protection_only_tightens:
  "let out = evaluate_protection p q i cfg atr q2a model in
     list_all (sound_instruction p i) out
   \<and> length (filter (is_action MOVE_STOP) out) \<le> 1
   \<and> length (filter (is_action PARTIAL_CLOSE) out) \<le> 1
   \<and> (length out = 1 \<or> \<not> list_ex (is_action CLOSE) out)"
proof -
  define raw where "raw = protection_proposals p q i cfg atr q2a model"
  have raw: "list_all (sound_instruction p i) raw" "length (filter (is_action PARTIAL_CLOSE) raw) \<le> 1"
    unfolding raw_def by (rule proposals_sound, rule proposals_partial)
  show ?thesis
  proof (cases rule: collapse_cases [of "p_side p" raw])
    case (close x)
    then show ?thesis using raw unfolding Let_def evaluate_protection_def raw_def [symmetric]
      by (auto simp: list_all_iff)
  next
    case same
    then show ?thesis using raw unfolding Let_def evaluate_protection_def raw_def [symmetric]
      by (auto simp: list_all_iff list_ex_iff)
  next
    case (best m ms)
    have mv: "list_all (is_action MOVE_STOP) (m # ms)" unfolding best(1) [symmetric] by (simp add: list_all_iff)
    have sub: "set (m # ms) \<subseteq> set raw" using best(1) by (metis filter_is_subset)
    have s: "is_action MOVE_STOP (safest (p_side p) m ms)" by (rule safest_action [OF mv])
    have "safest (p_side p) m ms \<in> set raw" using safest_mem [of "p_side p" m ms] sub by blast
    then have "sound_instruction p i (safest (p_side p) m ms)" using raw(1) by (simp add: list_all_iff)
    moreover have "length (filter (is_action PARTIAL_CLOSE) (filter (\<lambda>i. \<not> is_action MOVE_STOP i) raw)) \<le> 1"
    proof -
      have "filter (is_action PARTIAL_CLOSE) (filter (\<lambda>i. \<not> is_action MOVE_STOP i) raw) = filter (is_action PARTIAL_CLOSE) raw"
        by (auto simp: is_action_def intro: filter_cong)
      then show ?thesis using raw(2) by simp
    qed
    ultimately show ?thesis
      using raw best s unfolding Let_def evaluate_protection_def raw_def [symmetric]
      by (auto simp: list_all_iff list_ex_iff is_action_def)
  qed
qed

text \<open>
  Competing stop moves collapse to the safest: no stop proposed by any rule on this tick
  is tighter than the one that is returned.
\<close>

theorem protection_keeps_safest_stop:
  "\<not> list_ex (\<lambda>x. is_action MOVE_STOP x
      \<and> list_ex (\<lambda>y. is_action MOVE_STOP y \<and> tighter (p_side p) (pi_new_stop y) (the (pi_new_stop x)))
          (evaluate_protection p q i cfg atr q2a model))
     (protection_proposals p q i cfg atr q2a model)"
proof -
  define raw where "raw = protection_proposals p q i cfg atr q2a model"
  have stops: "list_all (\<lambda>x. pi_new_stop x \<noteq> None) (filter (is_action MOVE_STOP) raw)"
    using proposals_sound [of p i q cfg atr q2a model]
    by (auto simp: raw_def list_all_iff sound_instruction_def is_action_def split: option.splits)
  show ?thesis
  proof (cases rule: collapse_cases [of "p_side p" raw])
    case (close x)
    then show ?thesis unfolding evaluate_protection_def raw_def [symmetric]
      by (auto simp: list_ex_iff is_action_def)
  next
    case same
    have "x = y" if "x \<in> set raw" "y \<in> set raw" "is_action MOVE_STOP x" "is_action MOVE_STOP y" for x y
    proof -
      have "{x, y} \<subseteq> set (filter (is_action MOVE_STOP) raw)" using that by simp
      then show ?thesis using same(3) by (cases "filter (is_action MOVE_STOP) raw") (auto simp: le_Suc_eq)
    qed
    moreover have "\<not> tighter (p_side p) (pi_new_stop x) (the (pi_new_stop x))"
      if "x \<in> set raw" "is_action MOVE_STOP x" for x
      using stops that by (auto simp: list_all_iff tighter_def split: option.splits)
    ultimately show ?thesis unfolding evaluate_protection_def raw_def [symmetric]
      using same by (auto simp: list_ex_iff)
  next
    case (best m ms)
    have "x \<in> set (m # ms)" if "x \<in> set raw" "is_action MOVE_STOP x" for x
      unfolding best(1) [symmetric] using that by simp
    moreover have "\<forall>x \<in> set (m # ms). \<not> tighter (p_side p) (pi_new_stop (safest (p_side p) m ms)) (the (pi_new_stop x))"
      using safest_best [of m ms] stops unfolding best(1) by blast
    ultimately show ?thesis unfolding evaluate_protection_def raw_def [symmetric]
      using best by (auto simp: list_ex_iff)
  qed
qed

lemma nudge_one_tick:
  assumes g: "grid_step (tick i) c k" and e: "entry = of_int n * tick i" and n: "(\<bar>n\<bar> + 1) * c \<le> 10 ^ 28"
    and m: "m = 1 \<or> m = - 1"
  shows "round_price i (dadd entry (dmul (tick i) (of_int m))) = entry + of_int m * tick i"
proof -
  have c: "0 < c" using g by (simp add: grid_step_def)
  have b: "\<bar>n + m\<bar> * c \<le> 10 ^ 28"
  proof -
    have "\<bar>n + m\<bar> * c \<le> (\<bar>n\<bar> + 1) * c" using m c by (intro mult_right_mono) auto
    then show ?thesis using n by simp
  qed
  have "\<bar>m\<bar> * c \<le> (\<bar>n\<bar> + 1) * c" using m c by (intro mult_right_mono) auto
  then have "dmul (tick i) (of_int m) = of_int m * tick i"
    using dround_grid [OF g, of m] n by (simp add: dmul_def mult.commute)
  moreover have "dround (of_int (n + m) * tick i) = of_int (n + m) * tick i" by (rule dround_grid [OF g b])
  ultimately have "dadd entry (dmul (tick i) (of_int m)) = of_int (n + m) * tick i"
    by (simp add: dadd_def e distrib_right)
  moreover have "\<bar>n + m\<bar> * c \<le> 10 ^ 34" using b by simp
  ultimately show ?thesis
    using quantize_grid_multiple [OF g, of "n + m"] by (simp add: round_price_def e distrib_right)
qed

text \<open>
  The break-even stop is in profit: for an entry price on the tick grid, whatever the cost
  model says, the stop that the rule proposes lies strictly on the profitable side of the entry.
\<close>

theorem breakeven_stop_in_profit:
  assumes "grid_step (tick i) c k" and "p_entry_price p = of_int n * tick i" and "(\<bar>n\<bar> + 1) * c \<le> 10 ^ 28"
  shows "0 < (breakeven_candidate p i q2a model - p_entry_price p) * side_sign (p_side p)"
proof -
  define cand where "cand = round_price i (dadd (p_entry_price p) (dmul (breakeven_buffer i p q2a model) (side_sign (p_side p))))"
  have t: "0 < tick i" by (rule grid_step_pos [OF assms(1)])
  have s: "side_sign (p_side p) = of_int (if p_side p = BUY then 1 else - 1)" by (cases "p_side p") simp_all
  have nudge: "round_price i (dadd (p_entry_price p) (dmul (tick i) (side_sign (p_side p))))
      = p_entry_price p + side_sign (p_side p) * tick i"
    unfolding s by (rule nudge_one_tick [OF assms]) simp
  have pos: "dmul (dsub cand (p_entry_price p)) (side_sign (p_side p)) \<le> 0
      \<longleftrightarrow> (cand - p_entry_price p) * side_sign (p_side p) \<le> 0"
    using D.rnd_nonneg_iff [of "cand - p_entry_price p"] D.rnd_pos_iff [of "cand - p_entry_price p"]
    by (cases "p_side p") (auto simp: dmul_def dsub_def D.rnd_minus D.rnd_idem)
  show ?thesis
  proof (cases "(cand - p_entry_price p) * side_sign (p_side p) \<le> 0")
    case True
    then have "breakeven_candidate p i q2a model = p_entry_price p + side_sign (p_side p) * tick i"
      using pos nudge by (simp add: breakeven_candidate_def Let_def cand_def)
    then show ?thesis using t by (cases "p_side p") simp_all
  next
    case False
    then have "breakeven_candidate p i q2a model = cand"
      using pos by (simp add: breakeven_candidate_def Let_def cand_def)
    then show ?thesis using False by simp
  qed
qed

definition demo_position :: position where
  "demo_position =
     \<lparr>p_instrument = ''EUR_USD'', p_side = BUY, p_lots = 1/4, p_entry_price = 108540/100000, p_opened_ns = 0,
      p_strategy = ''trend'', p_stop_loss = Some (108340/100000), p_take_profit = None,
      p_broker_stop_confirmed = True, p_client_order_id = Some ''c1'', p_realised_pnl = 0, p_financing_paid = 0,
      p_commission_paid = 0, p_initial_risk = 50, p_max_favourable = 0, p_max_adverse = 0,
      p_partial_taken = False, p_breakeven_moved = False\<rparr>"

theorem breakeven_stop_in_profit_witness:
  "0 < (breakeven_candidate demo_position eur_usd 1 None - p_entry_price demo_position) * side_sign (p_side demo_position)"
proof -
  have "grid_step (tick eur_usd) 1 (- 5)" by (simp add: grid_step_def eur_usd_def power_int_minus)
  moreover have "p_entry_price demo_position = of_int 108540 * tick eur_usd"
    by (simp add: demo_position_def eur_usd_def)
  ultimately show ?thesis by (rule breakeven_stop_in_profit) simp
qed

definition faded_position :: position where
  "faded_position = demo_position\<lparr>p_max_favourable := 8\<rparr>"

definition faded_quote :: quote where
  "faded_quote = \<lparr>q_instrument = ''EUR_USD'', q_bid = 108600/100000, q_ask = 108610/100000, q_ts_ns = 0, q_received_ns = 0\<rparr>"

lemma faded_position_closes:
  "list_ex (is_action CLOSE) (evaluate_protection faded_position faded_quote eur_usd default_risk_config None 1 None)"
  by (simp add: evaluate_protection_def protection_proposals_def r_multiple_def unrealised_def breakeven_rule_def
      partial_rule_def trail_rule_def giveback_rule_def risk_distance_def price_at_r_def close_all_def move_stop_def
      collapse_def is_action_def tighter_def beyond_def price_for_def side_opposite_def faded_position_def
      faded_quote_def demo_position_def eur_usd_def default_risk_config_def money_eval Let_def cong: eval_congs)

theorem protection_only_tightens_witness:
  "length (evaluate_protection faded_position faded_quote eur_usd default_risk_config None 1 None) = 1"
  using protection_only_tightens [of faded_position faded_quote eur_usd default_risk_config None 1 None]
    faded_position_closes by (simp add: Let_def)

end
