(* ===== verification/OMS.thy ===== *)
theory OMS
  imports Domain
begin

text \<open>
  \<open>src/sentinel/execution/oms.py\<close> with the result type of \<open>src/sentinel/brokers/base.py\<close>: the
  order state machine between a decision and a venue. The broker is an argument, a record of
  the calls the manager makes, each on a broker state that it may change and each able to raise.
  An action takes the manager's state (broker state included) and returns a result, or the
  exception that escapes, with the state at that moment. The trace records the journal entries
  and, between them, the broker calls, so that their order can be stated. Clock readings,
  latencies and texts are left out, and so is the lock: calls are sequential.
\<close>

section \<open>The broker boundary\<close>

record submit_result =
  sb_state :: order_state
  sb_venue_order_id :: "string option"
  sb_fills :: "fill list"
  sb_favourable_to_client :: "bool option"
  sb_stop_confirmed :: bool

record 'b broker_ops =
  br_supports_client_order_id :: bool
  br_instrument :: "'b \<Rightarrow> string \<Rightarrow> instrument res"
  br_submit :: "'b \<Rightarrow> order_intent \<Rightarrow> submit_result res \<times> 'b"
  br_query_order :: "'b \<Rightarrow> string \<Rightarrow> submit_result option res \<times> 'b"
  br_modify_stop :: "'b \<Rightarrow> string \<Rightarrow> dec option \<Rightarrow> bool res \<times> 'b"

section \<open>State\<close>

datatype event_type =
    ORDER_INTENT | ORDER_SENT | ORDER_ACK | ORDER_FILLED | ORDER_REJECTED | ORDER_UNKNOWN
  | ORDER_DUPLICATE_BLOCKED | LIMIT_BREACH | RECONCILE_MISMATCH | RECONCILE | HALT_EVENT

datatype oms_event =
    Journal event_type string
  | BrokerSubmit string
  | BrokerQuery string
  | BrokerModify string
  | OnFill string fill

record execution_quality =
  eq_decision_price :: dec
  eq_fill_price :: dec
  eq_slippage_pips :: dec
  eq_rejected :: bool
  eq_reject_favoured_client :: "bool option"

record oms_config =
  oc_max_retries :: int
  oc_max_slippage_pips :: "dec option"
  oc_on_fill :: bool

record 'b oms =
  om_orders :: "(string, order) dict"
  om_quarantine :: "string list"
  om_trace :: "oms_event list"
  om_quality :: "execution_quality list"
  om_breaches :: "(string \<times> dec) list"
  om_broker :: 'b

text \<open>Actions on a state that may raise, and their composition.\<close>

type_synonym ('s, 'a) action = "'s \<Rightarrow> 'a res \<times> 's"

definition act_bind :: "('s, 'a) action \<Rightarrow> ('a \<Rightarrow> ('s, 'c) action) \<Rightarrow> ('s, 'c) action" where
  "act_bind m f = (\<lambda>s. case m s of (Inl e, s') \<Rightarrow> (Inl e, s') | (Inr x, s') \<Rightarrow> f x s')"

definition emit :: "oms_event \<Rightarrow> 'b oms \<Rightarrow> 'b oms" where
  "emit e s = s\<lparr>om_trace := om_trace s @ [e]\<rparr>"

definition quarantine :: "string \<Rightarrow> 'b oms \<Rightarrow> 'b oms" where
  "quarantine i s = (if i \<in> set (om_quarantine s) then s else s\<lparr>om_quarantine := om_quarantine s @ [i]\<rparr>)"

definition unquarantine :: "string \<Rightarrow> 'b oms \<Rightarrow> 'b oms" where
  "unquarantine i s = s\<lparr>om_quarantine := filter (\<lambda>j. j \<noteq> i) (om_quarantine s)\<rparr>"

text \<open>\<open>Order(intent=intent, state=PENDING)\<close>; the order objects live in the dictionary.\<close>

definition new_order :: "order_intent \<Rightarrow> order" where
  "new_order intent =
     \<lparr>o_intent = intent, o_state = PENDING, o_stop_confirmed = True, o_venue_order_id = None,
      o_fills = [], o_attempts = 0\<rparr>"

definition get_order :: "string \<Rightarrow> 'b oms \<Rightarrow> order" where
  "get_order cid s = the (dget (om_orders s) cid)"

definition set_order :: "string \<Rightarrow> order \<Rightarrow> 'b oms \<Rightarrow> 'b oms" where
  "set_order cid ord s = s\<lparr>om_orders := dset (om_orders s) cid ord\<rparr>"

definition mk_order_manager :: "'b broker_ops \<Rightarrow> 'b \<Rightarrow> int \<Rightarrow> dec option \<Rightarrow> bool \<Rightarrow> oms_config \<times> 'b oms" where
  "mk_order_manager ops b max_retries max_slippage on_fill =
     (let degraded = \<not> br_supports_client_order_id ops \<and> 0 < max_retries
      in (\<lparr>oc_max_retries = (if degraded then 0 else max_retries), oc_max_slippage_pips = max_slippage,
           oc_on_fill = on_fill\<rparr>,
          \<lparr>om_orders = [], om_quarantine = [],
           om_trace = (if degraded then [Journal ORDER_INTENT ''''] else []),
           om_quality = [], om_breaches = [], om_broker = b\<rparr>))"

section \<open>The state machine\<close>

definition LEGAL :: "order_state \<Rightarrow> order_state list" where
  "LEGAL s =
     (case s of
        PENDING \<Rightarrow> [SENT, REJECTED, CANCELLED]
      | SENT \<Rightarrow> [ACKED, FILLED, PARTIAL, REJECTED, UNKNOWN, CANCELLED]
      | ACKED \<Rightarrow> [PARTIAL, FILLED, CANCELLED, REJECTED, UNKNOWN]
      | PARTIAL \<Rightarrow> [FILLED, CANCELLED, UNKNOWN]
      | UNKNOWN \<Rightarrow> [FILLED, PARTIAL, REJECTED, CANCELLED]
      | FILLED \<Rightarrow> [] | REJECTED \<Rightarrow> [] | CANCELLED \<Rightarrow> [])"

definition transition :: "string \<Rightarrow> order_state \<Rightarrow> ('b oms, unit) action" where
  "transition cid new s =
     (let ord = get_order cid s in
      if new = o_state ord then (Inr (), s)
      else if new \<notin> set (LEGAL (o_state ord)) then (Inl IllegalTransition, emit (Journal ORDER_UNKNOWN cid) s)
      else (Inr (), set_order cid (ord\<lparr>o_state := new\<rparr>) s))"

definition unresolved :: "'b oms \<Rightarrow> string list" where
  "unresolved s = map fst (filter (\<lambda>(cid, ord). o_state ord = UNKNOWN) (om_orders s))"

definition oms_pending_risk :: "'b oms \<Rightarrow> dec" where
  "oms_pending_risk s =
     dsum (map (\<lambda>ord. oi_risk_amount (o_intent ord))
       (filter (\<lambda>ord. o_state ord \<in> {SENT, ACKED, PARTIAL, UNKNOWN}) (dvalues (om_orders s))))"

section \<open>Applying a venue result\<close>

definition same_fill :: "fill \<Rightarrow> fill \<Rightarrow> bool" where
  "same_fill f g \<longleftrightarrow> f_venue_order_id f = f_venue_order_id g \<and> f_lots f = f_lots g \<and> f_price f = f_price g"

text \<open>The slippage of a fill: against the decision price when there is one.\<close>

definition fill_slippage :: "'b broker_ops \<Rightarrow> 'b \<Rightarrow> order_intent \<Rightarrow> dec option \<Rightarrow> fill \<Rightarrow> dec res" where
  "fill_slippage ops b intent decision_price f =
     (case decision_price of
        None \<Rightarrow> Inr (f_slippage_pips f)
      | Some dp \<Rightarrow> res_bind (br_instrument ops b (oi_instrument intent))
          (\<lambda>inst. Inr (dmul (ddiv (dsub (f_price f) dp) (pip inst)) (side_sign (oi_side intent)))))"

definition record_fill :: "oms_config \<Rightarrow> string \<Rightarrow> dec option \<Rightarrow> fill \<Rightarrow> dec \<Rightarrow> 'b oms \<Rightarrow> 'b oms" where
  "record_fill cfg cid decision_price f slip s =
     (let s1 = s\<lparr>om_quality := om_quality s @
            [\<lparr>eq_decision_price = dor (case decision_price of None \<Rightarrow> 0 | Some d \<Rightarrow> d) (f_price f),
              eq_fill_price = f_price f, eq_slippage_pips = slip, eq_rejected = False,
              eq_reject_favoured_client = None\<rparr>]\<rparr>;
          s2 = emit (Journal ORDER_FILLED cid) s1;
          s3 = (case oc_max_slippage_pips cfg of
                  None \<Rightarrow> s2
                | Some m \<Rightarrow> if m < slip
                    then emit (Journal LIMIT_BREACH cid) (s2\<lparr>om_breaches := om_breaches s2 @ [(cid, slip)]\<rparr>)
                    else s2)
      in if oc_on_fill cfg then emit (OnFill cid f) s3 else s3)"

fun apply_fills ::
  "'b broker_ops \<Rightarrow> oms_config \<Rightarrow> string \<Rightarrow> dec option \<Rightarrow> fill list \<Rightarrow> ('b oms, unit) action" where
  "apply_fills ops cfg cid dp [] s = (Inr (), s)"
| "apply_fills ops cfg cid dp (f # fs) s =
     (let ord = get_order cid s in
      if list_ex (\<lambda>g. same_fill g f) (o_fills ord) then apply_fills ops cfg cid dp fs s
      else
      let s1 = set_order cid (ord\<lparr>o_fills := o_fills ord @ [f]\<rparr>) s in
      case fill_slippage ops (om_broker s) (o_intent ord) dp f of
        Inl e \<Rightarrow> (Inl e, s1)
      | Inr slip \<Rightarrow> apply_fills ops cfg cid dp fs (record_fill cfg cid dp f slip s1))"

text \<open>The protective stop was refused with the fill: assert it again, or freeze the instrument.\<close>

definition reassert_stop :: "'b broker_ops \<Rightarrow> string \<Rightarrow> 'b oms \<Rightarrow> 'b oms" where
  "reassert_stop ops cid s =
     (let intent = o_intent (get_order cid s);
          s1 = emit (Journal RECONCILE_MISMATCH cid) s;
          s2 = emit (BrokerModify (oi_instrument intent)) s1;
          (r, b) = br_modify_stop ops (om_broker s2) (oi_instrument intent) (oi_stop_loss intent);
          s3 = s2\<lparr>om_broker := b\<rparr>;
          s4 = (case r of Inl _ \<Rightarrow> emit (Journal RECONCILE_MISMATCH cid) s3 | Inr _ \<Rightarrow> s3);
          reasserted = (case r of Inl _ \<Rightarrow> False | Inr ok \<Rightarrow> ok);
          s5 = set_order cid ((get_order cid s4)\<lparr>o_stop_confirmed := reasserted\<rparr>) s4
      in if reasserted then s5
         else emit (Journal HALT_EVENT cid) (quarantine (oi_instrument intent) s5))"

definition mark_unknown :: "string \<Rightarrow> ('b oms, unit) action" where
  "mark_unknown cid =
     act_bind (transition cid UNKNOWN)
       (\<lambda>_ s. (Inr (), emit (Journal ORDER_UNKNOWN cid)
                          (quarantine (oi_instrument (o_intent (get_order cid s))) s)))"

definition reject_order :: "string \<Rightarrow> dec option \<Rightarrow> submit_result \<Rightarrow> ('b oms, unit) action" where
  "reject_order cid decision_price result =
     act_bind (transition cid REJECTED)
       (\<lambda>_ s. (Inr (), emit (Journal ORDER_REJECTED cid)
          (s\<lparr>om_quality := om_quality s @
             [\<lparr>eq_decision_price = (case decision_price of None \<Rightarrow> 0 | Some d \<Rightarrow> d), eq_fill_price = 0,
               eq_slippage_pips = 0, eq_rejected = True,
               eq_reject_favoured_client = sb_favourable_to_client result\<rparr>]\<rparr>)))"

definition result_target :: "order_state \<Rightarrow> order_state" where
  "result_target st = (if st = FILLED then FILLED else if st = PARTIAL then PARTIAL else ACKED)"

text \<open>After the fills are in: the incoherent, the unprotected and the normal case.\<close>

definition settle :: "'b broker_ops \<Rightarrow> string \<Rightarrow> submit_result \<Rightarrow> ('b oms, unit) action" where
  "settle ops cid result s =
     (let ord = get_order cid s; target = result_target (sb_state result) in
      if target \<in> {FILLED, PARTIAL} \<and> o_fills ord = [] then mark_unknown cid s
      else
      let s1 = (if target \<in> {FILLED, PARTIAL} \<and> \<not> sb_stop_confirmed result \<and> oi_stop_loss (o_intent ord) \<noteq> None
                then reassert_stop ops cid s else s)
      in act_bind (transition cid target)
           (\<lambda>_ s2. (Inr (), if target \<noteq> ACKED then emit (Journal ORDER_ACK cid) s2 else s2)) s1)"

definition apply_result ::
  "'b broker_ops \<Rightarrow> oms_config \<Rightarrow> string \<Rightarrow> submit_result \<Rightarrow> dec option \<Rightarrow> ('b oms, unit) action" where
  "apply_result ops cfg cid result decision_price s =
     (let ord = get_order cid s;
          vid = (case sb_venue_order_id result of
                   Some v \<Rightarrow> if v = '''' then o_venue_order_id ord else Some v
                 | None \<Rightarrow> o_venue_order_id ord);
          s1 = set_order cid (ord\<lparr>o_venue_order_id := vid\<rparr>) s
      in if sb_state result = REJECTED then reject_order cid decision_price result s1
         else if sb_state result = UNKNOWN then mark_unknown cid s1
         else act_bind (apply_fills ops cfg cid decision_price (sb_fills result))
                (\<lambda>_. settle ops cid result) s1)"

section \<open>Resolution by query\<close>

definition resolve_unknown :: "'b broker_ops \<Rightarrow> oms_config \<Rightarrow> string \<Rightarrow> ('b oms, order option) action" where
  "resolve_unknown ops cfg cid s =
     (case dget (om_orders s) cid of
        None \<Rightarrow> (Inr None, s)
      | Some ord \<Rightarrow>
          if o_state ord \<noteq> UNKNOWN then (Inr (Some ord), s)
          else
          let s1 = emit (BrokerQuery cid) s;
              (r, b) = br_query_order ops (om_broker s1) cid;
              s2 = s1\<lparr>om_broker := b\<rparr>
          in case r of
               Inl BrokerError \<Rightarrow> (Inr (Some ord), emit (Journal ORDER_UNKNOWN cid) s2)
             | Inl e \<Rightarrow> (Inl e, s2)
             | Inr None \<Rightarrow> (Inr (Some ord), emit (Journal ORDER_UNKNOWN cid) s2)
             | Inr (Some result) \<Rightarrow>
                 act_bind (apply_result ops cfg cid result None)
                   (\<lambda>_ s3. let ord' = get_order cid s3;
                               s4 = (if terminal (o_state ord')
                                     then unquarantine (oi_instrument (o_intent ord')) s3 else s3)
                           in (Inr (Some ord'), emit (Journal RECONCILE cid) s4)) s2)"

fun resolve_each :: "'b broker_ops \<Rightarrow> oms_config \<Rightarrow> string list \<Rightarrow> ('b oms, (string \<times> order_state option) list) action" where
  "resolve_each ops cfg [] s = (Inr [], s)"
| "resolve_each ops cfg (cid # cids) s =
     act_bind (resolve_unknown ops cfg cid)
       (\<lambda>r. act_bind (resolve_each ops cfg cids)
         (\<lambda>rest s'. (Inr ((cid, map_option o_state r) # rest), s'))) s"

definition resolve_all_unknown ::
  "'b broker_ops \<Rightarrow> oms_config \<Rightarrow> ('b oms, (string \<times> order_state option) list) action" where
  "resolve_all_unknown ops cfg s = resolve_each ops cfg (unresolved s) s"

definition release_quarantine :: "string \<Rightarrow> 'b oms \<Rightarrow> 'b oms" where
  "release_quarantine instr s =
     (if instr \<in> set (om_quarantine s) then emit (Journal RECONCILE instr) (unquarantine instr s) else s)"

section \<open>Submission\<close>

text \<open>The retry loop: the argument counts the attempts that are left of \<open>max_retries + 1\<close>.\<close>

fun submit_attempts ::
  "'b broker_ops \<Rightarrow> oms_config \<Rightarrow> order_intent \<Rightarrow> dec option \<Rightarrow> nat \<Rightarrow> nat \<Rightarrow> ('b oms, order) action" where
  "submit_attempts ops cfg intent dp 0 attempt s =
     (let cid = oi_client_order_id intent in
      act_bind (mark_unknown cid) (\<lambda>_ s'. (Inr (get_order cid s'), s')) s)"
| "submit_attempts ops cfg intent dp (Suc left) attempt s =
     (let cid = oi_client_order_id intent;
          s0 = set_order cid ((get_order cid s)\<lparr>o_attempts := attempt + 1\<rparr>) s
      in act_bind (transition cid SENT) (\<lambda>_ s1.
         let s2 = emit (BrokerSubmit cid) (emit (Journal ORDER_SENT cid) s1);
             (r, b) = br_submit ops (om_broker s2) intent;
             s3 = s2\<lparr>om_broker := b\<rparr>
         in case r of
              Inr result \<Rightarrow>
                act_bind (apply_result ops cfg cid result dp) (\<lambda>_ s'. (Inr (get_order cid s'), s')) s3
            | Inl UnknownOutcomeError \<Rightarrow>
                act_bind (mark_unknown cid) (\<lambda>_.
                act_bind (resolve_unknown ops cfg cid) (\<lambda>_ s'. (Inr (get_order cid s'), s'))) s3
            | Inl TransientError \<Rightarrow> submit_attempts ops cfg intent dp left (attempt + 1) s3
            | Inl PermanentError \<Rightarrow>
                act_bind (transition cid REJECTED)
                  (\<lambda>_ s'. (Inr (get_order cid s'), emit (Journal ORDER_REJECTED cid) s')) s3
            | Inl BrokerError \<Rightarrow>
                act_bind (mark_unknown cid) (\<lambda>_ s'. (Inr (get_order cid s'), s')) s3
            | Inl e \<Rightarrow> (Inl e, s3)) s0)"

definition submit :: "'b broker_ops \<Rightarrow> oms_config \<Rightarrow> order_intent \<Rightarrow> dec option \<Rightarrow> ('b oms, order) action" where
  "submit ops cfg intent decision_price s =
     (let cid = oi_client_order_id intent in
      if oi_instrument intent \<in> set (om_quarantine s) then (Inl UnknownOutcomeError, s)
      else case dget (om_orders s) cid of
        Some existing \<Rightarrow> (Inr existing, emit (Journal ORDER_DUPLICATE_BLOCKED cid) s)
      | None \<Rightarrow>
          submit_attempts ops cfg intent decision_price (nat (oc_max_retries cfg + 1)) 0
            (emit (Journal ORDER_INTENT cid) (set_order cid (new_order intent) s)))"

section \<open>Selectors after the elementary updates\<close>

lemma om_emit [simp]:
  "om_orders (emit e s) = om_orders s" "om_quarantine (emit e s) = om_quarantine s"
  "om_trace (emit e s) = om_trace s @ [e]" "om_broker (emit e s) = om_broker s" "get_order c (emit e s) = get_order c s"
  by (simp_all add: emit_def get_order_def)

lemma om_quarantine_simps [simp]:
  "om_orders (quarantine i s) = om_orders s" "om_trace (quarantine i s) = om_trace s"
  "om_broker (quarantine i s) = om_broker s" "set (om_quarantine (quarantine i s)) = insert i (set (om_quarantine s))"
  "get_order c (quarantine i s) = get_order c s"
  by (auto simp: quarantine_def get_order_def)

lemma om_unquarantine_simps [simp]:
  "om_orders (unquarantine i s) = om_orders s" "om_trace (unquarantine i s) = om_trace s"
  "set (om_quarantine (unquarantine i s)) = set (om_quarantine s) - {i}"
  by (auto simp: unquarantine_def)

lemma om_set_order [simp]:
  "dget (om_orders (set_order c x s)) d = (if d = c then Some x else dget (om_orders s) d)"
  "om_quarantine (set_order c x s) = om_quarantine s" "om_trace (set_order c x s) = om_trace s"
  "om_broker (set_order c x s) = om_broker s" "get_order d (set_order c x s) = (if d = c then x else get_order d s)"
  by (auto simp: set_order_def get_order_def)

lemma om_other_updates [simp]:
  "om_orders (s\<lparr>om_broker := b\<rparr>) = om_orders s" "get_order c (s\<lparr>om_broker := b\<rparr>) = get_order c s"
  "get_order c (s\<lparr>om_quality := q\<rparr>) = get_order c s" "get_order c (s\<lparr>om_breaches := x\<rparr>) = get_order c s"
  by (simp_all add: get_order_def)

section \<open>Relations that every operation keeps\<close>

text \<open>
  The manager only ever touches its state by a few elementary updates, all on the order at
  hand. A relation between states that is reflexive and transitive and allows each of them
  relates the state before and after every operation, whether it returns or raises. The order
  at hand is \<open>cid\<close>, its instrument \<open>i\<close>.
\<close>

definition has_order :: "string \<Rightarrow> string \<Rightarrow> 'b oms \<Rightarrow> bool" where
  "has_order cid i s \<longleftrightarrow> (\<exists>x. dget (om_orders s) cid = Some x \<and> oi_instrument (o_intent x) = i)"

definition keeps :: "('b oms \<Rightarrow> 'b oms \<Rightarrow> bool) \<Rightarrow> string \<Rightarrow> string \<Rightarrow> ('b oms, 'a) action \<Rightarrow> bool" where
  "keeps R cid i m \<longleftrightarrow> (\<forall>s. has_order cid i s \<longrightarrow> has_order cid i (snd (m s)) \<and> R s (snd (m s)))"

text \<open>An order differs from its predecessor in bookkeeping only, with at most one new fill.\<close>

definition same_progress :: "order \<Rightarrow> order \<Rightarrow> bool" where
  "same_progress x y \<longleftrightarrow> o_state y = o_state x \<and> o_intent y = o_intent x \<and>
     (o_fills y = o_fills x \<or> (\<exists>f. o_fills y = o_fills x @ [f] \<and> \<not> list_ex (\<lambda>g. same_fill g f) (o_fills x)))"

lemma has_order_get: "has_order cid i s \<Longrightarrow> dget (om_orders s) cid = Some (get_order cid s) \<and> oi_instrument (o_intent (get_order cid s)) = i"
  by (auto simp: has_order_def get_order_def)

lemma has_order_simps [simp]:
  "has_order c i (emit e s) = has_order c i s" "has_order c i (quarantine j s) = has_order c i s"
  "has_order c i (unquarantine j s) = has_order c i s" "has_order c i (s\<lparr>om_broker := b\<rparr>) = has_order c i s"
  "has_order c i (s\<lparr>om_quality := q\<rparr>) = has_order c i s" "has_order c i (s\<lparr>om_breaches := x\<rparr>) = has_order c i s"
  "has_order c i (set_order c y s) = (oi_instrument (o_intent y) = i)"
  by (simp_all add: has_order_def)

locale oms_step_relation =
  fixes R :: "'b oms \<Rightarrow> 'b oms \<Rightarrow> bool" and cid i :: string
  assumes refl: "R s s"
    and trans: "R s t \<Longrightarrow> R t u \<Longrightarrow> R s u"
    and emit: "(\<And>c. e \<noteq> BrokerSubmit c) \<Longrightarrow> R s (emit e s)"
    and broker: "R s (s\<lparr>om_broker := b\<rparr>)"
    and quality: "R s (s\<lparr>om_quality := q\<rparr>)"
    and breaches: "R s (s\<lparr>om_breaches := x\<rparr>)"
    and freeze: "R s (quarantine i s)"
    and release: "dget (om_orders s) cid = Some y \<Longrightarrow> oi_instrument (o_intent y) = i \<Longrightarrow> terminal (o_state y)
      \<Longrightarrow> R s (unquarantine i s)"
    and update: "dget (om_orders s) cid = Some y \<Longrightarrow> oi_instrument (o_intent y) = i \<Longrightarrow> same_progress y z
      \<Longrightarrow> R s (set_order cid z s)"
    and move: "dget (om_orders s) cid = Some y \<Longrightarrow> oi_instrument (o_intent y) = i \<Longrightarrow> st \<in> set (LEGAL (o_state y))
      \<Longrightarrow> st \<noteq> UNKNOWN \<Longrightarrow> st \<in> {FILLED, PARTIAL} \<longrightarrow> o_fills y \<noteq> [] \<Longrightarrow> R s (set_order cid (y\<lparr>o_state := st\<rparr>) s)"
    and lose: "dget (om_orders s) cid = Some y \<Longrightarrow> oi_instrument (o_intent y) = i \<Longrightarrow> UNKNOWN \<in> set (LEGAL (o_state y))
      \<Longrightarrow> R s (quarantine i (set_order cid (y\<lparr>o_state := UNKNOWN\<rparr>) s))"
begin

lemma keeps_bind: "keeps R cid i m \<Longrightarrow> (\<And>x. keeps R cid i (f x)) \<Longrightarrow> keeps R cid i (act_bind m f)"
  unfolding keeps_def act_bind_def by (auto split: prod.splits sum.splits) (metis snd_conv trans)+

lemma keeps_emit: "(\<And>c. e \<noteq> BrokerSubmit c) \<Longrightarrow> keeps R cid i (\<lambda>s. (r s, emit e s))"
  by (simp add: keeps_def emit)

lemma keeps_return: "keeps R cid i (\<lambda>s. (r s, s))"
  by (simp add: keeps_def refl)

lemma keeps_transition: "st \<notin> {FILLED, PARTIAL, UNKNOWN} \<Longrightarrow> keeps R cid i (transition cid st)"
  unfolding keeps_def transition_def Let_def by (auto dest!: has_order_get intro: refl emit move)

lemma keeps_mark_unknown: "keeps R cid i (mark_unknown cid)"
  unfolding keeps_def
proof (intro allI impI conjI)
  fix s :: "'b oms"
  assume "has_order cid i s"
  then have o: "dget (om_orders s) cid = Some (get_order cid s)" "oi_instrument (o_intent (get_order cid s)) = i"
    by (simp_all add: has_order_get)
  then show "has_order cid i (snd (mark_unknown cid s))"
    by (auto simp: mark_unknown_def act_bind_def transition_def Let_def has_order_def)
  have e: "R t (emit (Journal ORDER_UNKNOWN cid) t)" for t :: "'b oms" by (rule emit) simp
  show "R s (snd (mark_unknown cid s))"
    using e trans [OF freeze e] trans [OF lose [OF o] e] o(2)
    by (auto simp: mark_unknown_def act_bind_def transition_def Let_def)
qed

lemma keeps_reject: "keeps R cid i (reject_order cid dp result)"
  unfolding reject_order_def
  by (rule keeps_bind [OF keeps_transition]) (auto simp: keeps_def intro: trans [OF quality emit])

lemma record_fill_keeps:
  assumes h: "has_order cid i s"
  shows "has_order cid i (record_fill cfg cid dp f slip s) \<and> R s (record_fill cfg cid dp f slip s)"
proof -
  define q where "q = om_quality s @
    [\<lparr>eq_decision_price = dor (case dp of None \<Rightarrow> 0 | Some d \<Rightarrow> d) (f_price f), eq_fill_price = f_price f,
      eq_slippage_pips = slip, eq_rejected = False, eq_reject_favoured_client = None\<rparr>]"
  define s2 where "s2 = emit (Journal ORDER_FILLED cid) (s\<lparr>om_quality := q\<rparr>)"
  define s3 where "s3 = (case oc_max_slippage_pips cfg of None \<Rightarrow> s2
      | Some m \<Rightarrow> if m < slip then emit (Journal LIMIT_BREACH cid) (s2\<lparr>om_breaches := om_breaches s2 @ [(cid, slip)]\<rparr>) else s2)"
  have e: "record_fill cfg cid dp f slip s = (if oc_on_fill cfg then emit (OnFill cid f) s3 else s3)"
    unfolding record_fill_def Let_def s3_def s2_def q_def by (rule HOL.refl)
  have 2: "R s s2" unfolding s2_def by (rule trans [OF quality emit]) simp
  have "R s2 (emit (Journal LIMIT_BREACH cid) (s2\<lparr>om_breaches := om_breaches s2 @ [(cid, slip)]\<rparr>))"
    by (rule trans [OF breaches emit]) simp
  then have 3: "R s s3" unfolding s3_def using 2 trans [OF 2] by (simp split: option.split)
  have "R s3 (emit (OnFill cid f) s3)" by (rule emit) simp
  moreover have "has_order cid i s3" using h by (simp add: s3_def s2_def split: option.split)
  ultimately show ?thesis unfolding e using 3 trans [OF 3] by simp
qed

lemma keeps_fills: "keeps R cid i (apply_fills ops cfg cid dp fs)"
  unfolding keeps_def
proof (intro allI impI)
  fix s :: "'b oms"
  assume "has_order cid i s"
  then show "has_order cid i (snd (apply_fills ops cfg cid dp fs s)) \<and> R s (snd (apply_fills ops cfg cid dp fs s))"
  proof (induction fs arbitrary: s)
    case Nil
    then show ?case by (simp add: refl)
  next
    case (Cons f fs)
    have o: "dget (om_orders s) cid = Some (get_order cid s)" "oi_instrument (o_intent (get_order cid s)) = i"
      using has_order_get [OF Cons.prems] by simp_all
    let ?y = "(get_order cid s)\<lparr>o_fills := o_fills (get_order cid s) @ [f]\<rparr>"
    show ?case
    proof (cases "list_ex (\<lambda>g. same_fill g f) (o_fills (get_order cid s))")
      case True
      then show ?thesis using Cons.IH [OF Cons.prems] by (simp add: Let_def)
    next
      case False
      have u: "R s (set_order cid ?y s)"
        by (rule update [OF o]) (use False in \<open>auto simp: same_progress_def\<close>)
      have h: "has_order cid i (set_order cid ?y s)" using o(2) by simp
      show ?thesis
      proof (cases "fill_slippage ops (om_broker s) (o_intent (get_order cid s)) dp f")
        case (Inl e)
        then show ?thesis using False u h by (simp add: Let_def)
      next
        case (Inr slip)
        note r = record_fill_keeps [OF h, of cfg dp f slip]
        show ?thesis
          using Cons.IH [OF conjunct1 [OF r]] trans [OF trans [OF u conjunct2 [OF r]]] False Inr
          by (simp add: Let_def)
      qed
    qed
  qed
qed

lemma reassert_keeps:
  assumes "has_order cid i s"
  shows "has_order cid i (reassert_stop ops cid s) \<and> R s (reassert_stop ops cid s)
    \<and> o_fills (get_order cid (reassert_stop ops cid s)) = o_fills (get_order cid s)"
proof -
  have o: "dget (om_orders s) cid = Some (get_order cid s)" "oi_instrument (o_intent (get_order cid s)) = i"
    using has_order_get [OF assms] by simp_all
  obtain r b where rb: "br_modify_stop ops (om_broker s) i (oi_stop_loss (o_intent (get_order cid s))) = (r, b)"
    by fastforce
  define s3 where "s3 = (emit (BrokerModify i) (emit (Journal RECONCILE_MISMATCH cid) s))\<lparr>om_broker := b\<rparr>"
  define s4 where "s4 = (case r of Inl _ \<Rightarrow> emit (Journal RECONCILE_MISMATCH cid) s3 | Inr _ \<Rightarrow> s3)"
  define ok where "ok = (case r of Inl _ \<Rightarrow> False | Inr ok \<Rightarrow> ok)"
  define s5 where "s5 = set_order cid ((get_order cid s4)\<lparr>o_stop_confirmed := ok\<rparr>) s4"
  have e: "reassert_stop ops cid s = (if ok then s5 else emit (Journal HALT_EVENT cid) (quarantine i s5))"
    unfolding s5_def s4_def s3_def ok_def reassert_stop_def Let_def
    by (simp add: o(2) rb split: sum.split)
  have "R s s3" unfolding s3_def by (intro trans [OF _ broker] trans [OF _ emit] emit) simp_all
  then have 4: "R s s4" unfolding s4_def by (auto intro: trans [OF _ emit] split: sum.splits)
  have g: "get_order cid s4 = get_order cid s" "dget (om_orders s4) cid = Some (get_order cid s)"
    using o by (auto simp: s4_def s3_def split: sum.splits)
  have "R s4 s5" unfolding s5_def
    by (rule update [OF g(2) o(2)]) (simp add: same_progress_def g(1))
  then have 5: "R s s5" by (rule trans [OF 4])
  then have "R s (emit (Journal HALT_EVENT cid) (quarantine i s5))"
    by (intro trans [OF _ emit] trans [OF _ freeze]) simp_all
  then show ?thesis unfolding e using 5 o by (auto simp: s5_def g)
qed

lemma keeps_settle: "keeps R cid i (settle ops cid result)"
  unfolding keeps_def
proof (intro allI impI)
  fix s :: "'b oms"
  assume h: "has_order cid i s"
  define tg where "tg = result_target (sb_state result)"
  define s1 where "s1 = (if tg \<in> {FILLED, PARTIAL} \<and> \<not> sb_stop_confirmed result \<and> oi_stop_loss (o_intent (get_order cid s)) \<noteq> None
      then reassert_stop ops cid s else s)"
  have tg: "tg \<in> {FILLED, PARTIAL, ACKED}" by (simp add: tg_def result_target_def)
  have 1: "has_order cid i s1" "R s s1" "o_fills (get_order cid s1) = o_fills (get_order cid s)"
    using reassert_keeps [OF h, of ops] h refl by (auto simp: s1_def)
  show "has_order cid i (snd (settle ops cid result s)) \<and> R s (snd (settle ops cid result s))"
  proof (cases "tg \<in> {FILLED, PARTIAL} \<and> o_fills (get_order cid s) = []")
    case True
    then show ?thesis using keeps_mark_unknown h by (auto simp: settle_def Let_def tg_def [symmetric] keeps_def)
  next
    case False
    have o: "dget (om_orders s1) cid = Some (get_order cid s1)" "oi_instrument (o_intent (get_order cid s1)) = i"
      using has_order_get [OF 1(1)] by simp_all
    have st: "settle ops cid result s =
        act_bind (transition cid tg) (\<lambda>_ s2. (Inr (), if tg \<noteq> ACKED then emit (Journal ORDER_ACK cid) s2 else s2)) s1"
      using False by (auto simp: settle_def Let_def tg_def [symmetric] s1_def)
    have mv: "R s1 (set_order cid ((get_order cid s1)\<lparr>o_state := tg\<rparr>) s1)" if "tg \<in> set (LEGAL (o_state (get_order cid s1)))"
      by (rule move [OF o that]) (use tg False 1(3) in auto)
    show ?thesis
      unfolding st act_bind_def transition_def Let_def using 1 o mv refl
      by (auto intro: trans [OF _ emit] trans [OF 1(2)] dest: trans [OF 1(2)])
  qed
qed

lemma keeps_apply_result: "keeps R cid i (apply_result ops cfg cid result dp)"
  unfolding keeps_def
proof (intro allI impI)
  fix s :: "'b oms"
  assume h: "has_order cid i s"
  have o: "dget (om_orders s) cid = Some (get_order cid s)" "oi_instrument (o_intent (get_order cid s)) = i"
    using has_order_get [OF h] by simp_all
  define s1 where "s1 = set_order cid ((get_order cid s)\<lparr>o_venue_order_id :=
      (case sb_venue_order_id result of Some v \<Rightarrow> if v = '''' then o_venue_order_id (get_order cid s) else Some v
       | None \<Rightarrow> o_venue_order_id (get_order cid s))\<rparr>) s"
  have 1: "has_order cid i s1" "R s s1"
    using o by (auto simp: s1_def same_progress_def intro: update)
  have "keeps R cid i (act_bind (apply_fills ops cfg cid dp (sb_fills result)) (\<lambda>_. settle ops cid result))"
    by (rule keeps_bind [OF keeps_fills keeps_settle])
  then show "has_order cid i (snd (apply_result ops cfg cid result dp s)) \<and> R s (snd (apply_result ops cfg cid result dp s))"
    using keeps_reject [of dp result] keeps_mark_unknown 1 trans [OF 1(2)]
    unfolding apply_result_def Let_def s1_def [symmetric] by (auto simp: keeps_def)
qed

end

context oms_step_relation
begin

lemma keeps_resolve: "keeps R cid i (resolve_unknown ops cfg cid)"
  unfolding keeps_def
proof (intro allI impI)
  fix s :: "'b oms"
  assume h: "has_order cid i s"
  have o: "dget (om_orders s) cid = Some (get_order cid s)" using has_order_get [OF h] by simp
  obtain r b where rb: "br_query_order ops (om_broker s) cid = (r, b)" by fastforce
  define s2 where "s2 = (emit (BrokerQuery cid) s)\<lparr>om_broker := b\<rparr>"
  have 2: "has_order cid i s2" "R s s2"
    using h by (auto simp: s2_def intro: trans [OF emit broker])
  have e: "R s (emit (Journal ORDER_UNKNOWN cid) s2)" by (rule trans [OF 2(2) emit]) simp
  show "has_order cid i (snd (resolve_unknown ops cfg cid s)) \<and> R s (snd (resolve_unknown ops cfg cid s))"
  proof (cases "o_state (get_order cid s) = UNKNOWN")
    case False
    then show ?thesis using h refl by (simp add: resolve_unknown_def o)
  next
    case True
    have body: "resolve_unknown ops cfg cid s = (case r of
               Inl BrokerError \<Rightarrow> (Inr (Some (get_order cid s)), emit (Journal ORDER_UNKNOWN cid) s2)
             | Inl e \<Rightarrow> (Inl e, s2)
             | Inr None \<Rightarrow> (Inr (Some (get_order cid s)), emit (Journal ORDER_UNKNOWN cid) s2)
             | Inr (Some result) \<Rightarrow>
                 act_bind (apply_result ops cfg cid result None)
                   (\<lambda>_ s3. let ord' = get_order cid s3;
                               s4 = (if terminal (o_state ord')
                                     then unquarantine (oi_instrument (o_intent ord')) s3 else s3)
                           in (Inr (Some ord'), emit (Journal RECONCILE cid) s4)) s2)"
      by (simp add: resolve_unknown_def o True rb s2_def Let_def split: sum.split exn.split option.split)
    have fin: "keeps R cid i (\<lambda>s3. let ord' = get_order cid s3;
                               s4 = (if terminal (o_state ord')
                                     then unquarantine (oi_instrument (o_intent ord')) s3 else s3)
                           in (Inr (Some ord'), emit (Journal RECONCILE cid) s4))"
      unfolding keeps_def Let_def
    proof (intro allI impI)
      fix t :: "'b oms"
      assume ht: "has_order cid i t"
      have "R t (unquarantine i t)" if "terminal (o_state (get_order cid t))"
        using release [of t "get_order cid t"] that has_order_get [OF ht] by blast
      then show "has_order cid i (snd (Inr (Some (get_order cid t)), emit (Journal RECONCILE cid)
             (if terminal (o_state (get_order cid t)) then unquarantine (oi_instrument (o_intent (get_order cid t))) t else t)))
         \<and> R t (snd (Inr (Some (get_order cid t)), emit (Journal RECONCILE cid)
             (if terminal (o_state (get_order cid t)) then unquarantine (oi_instrument (o_intent (get_order cid t))) t else t)))"
        using ht has_order_get [OF ht] trans [OF _ emit, of t _ "Journal RECONCILE cid"] refl by simp
    qed
    have "keeps R cid i (act_bind (apply_result ops cfg cid result None)
                   (\<lambda>_ s3. let ord' = get_order cid s3;
                               s4 = (if terminal (o_state ord')
                                     then unquarantine (oi_instrument (o_intent ord')) s3 else s3)
                           in (Inr (Some ord'), emit (Journal RECONCILE cid) s4)))" for result
      by (rule keeps_bind [OF keeps_apply_result fin])
    then show ?thesis
      unfolding body keeps_def using 2 e trans [OF 2(2)]
      by (cases r) (auto split: exn.splits option.splits)
  qed
qed

lemma keeps_get: "keeps R cid i (\<lambda>s. (Inr (get_order cid s), s))"
  by (rule keeps_return)

lemma resolve_related:
  assumes "\<And>y. dget (om_orders s) cid = Some y \<Longrightarrow> oi_instrument (o_intent y) = i"
  shows "R s (snd (resolve_unknown ops cfg cid s))"
proof (cases "dget (om_orders s) cid")
  case None
  then show ?thesis by (simp add: resolve_unknown_def refl)
next
  case (Some y)
  then have "has_order cid i s" using assms by (simp add: has_order_def)
  then show ?thesis using keeps_resolve [of ops cfg] by (auto simp: keeps_def)
qed

end

text \<open>With the creation of an order and its submission, the relation covers \<open>submit\<close> too.\<close>

locale oms_relation = oms_step_relation R cid i
  for R :: "'b oms \<Rightarrow> 'b oms \<Rightarrow> bool" and cid i :: string +
  assumes create: "dget (om_orders s) cid = None \<Longrightarrow> oi_client_order_id intent = cid \<Longrightarrow> oi_instrument intent = i
      \<Longrightarrow> R s (emit (Journal ORDER_INTENT cid) (set_order cid (new_order intent) s))"
    and send: "has_order cid i s \<Longrightarrow> R s (emit (BrokerSubmit cid) (emit (Journal ORDER_SENT cid) s))"
begin

lemma keeps_attempts:
  assumes "oi_client_order_id intent = cid"
  shows "keeps R cid i (submit_attempts ops cfg intent dp left attempt)"
proof (induction left arbitrary: attempt)
  case 0
  show ?case unfolding submit_attempts.simps Let_def assms
    using keeps_bind [OF keeps_mark_unknown keeps_get] by (simp add: keeps_def)
next
  case (Suc left)
  define after where "after = (\<lambda>(u :: unit) s1.
         let s2 = emit (BrokerSubmit cid) (emit (Journal ORDER_SENT cid) s1);
             (r, b) = br_submit ops (om_broker s2) intent;
             s3 = s2\<lparr>om_broker := b\<rparr>
         in case r of
              Inr result \<Rightarrow>
                act_bind (apply_result ops cfg cid result dp) (\<lambda>_ s'. (Inr (get_order cid s'), s')) s3
            | Inl UnknownOutcomeError \<Rightarrow>
                act_bind (mark_unknown cid) (\<lambda>_.
                act_bind (resolve_unknown ops cfg cid) (\<lambda>_ s'. (Inr (get_order cid s'), s'))) s3
            | Inl TransientError \<Rightarrow> submit_attempts ops cfg intent dp left (attempt + 1) s3
            | Inl PermanentError \<Rightarrow>
                act_bind (transition cid REJECTED)
                  (\<lambda>_ s'. (Inr (get_order cid s'), emit (Journal ORDER_REJECTED cid) s')) s3
            | Inl BrokerError \<Rightarrow>
                act_bind (mark_unknown cid) (\<lambda>_ s'. (Inr (get_order cid s'), s')) s3
            | Inl e \<Rightarrow> (Inl e, s3))"
  have "keeps R cid i (after u)" for u
    unfolding keeps_def
  proof (intro allI impI)
    fix s1 :: "'b oms"
    assume h: "has_order cid i s1"
    define s2 where "s2 = emit (BrokerSubmit cid) (emit (Journal ORDER_SENT cid) s1)"
    obtain r b where rb: "br_submit ops (om_broker s2) intent = (r, b)" by fastforce
    define s3 where "s3 = s2\<lparr>om_broker := b\<rparr>"
    have 3: "has_order cid i s3" "R s1 s3"
      using h trans [OF send [OF h] broker] by (auto simp: s3_def s2_def)
    have k1: "keeps R cid i (act_bind (apply_result ops cfg cid result dp) (\<lambda>_ s'. (Inr (get_order cid s'), s')))" for result
      by (rule keeps_bind [OF keeps_apply_result keeps_get])
    have k2: "keeps R cid i (act_bind (mark_unknown cid) (\<lambda>_.
                act_bind (resolve_unknown ops cfg cid) (\<lambda>_ s'. (Inr (get_order cid s'), s'))))"
      by (intro keeps_bind keeps_mark_unknown keeps_resolve keeps_get)
    have k3: "keeps R cid i (act_bind (transition cid REJECTED)
                  (\<lambda>_ s'. (Inr (get_order cid s'), emit (Journal ORDER_REJECTED cid) s')))"
      by (intro keeps_bind keeps_transition keeps_emit) simp_all
    have k4: "keeps R cid i (act_bind (mark_unknown cid) (\<lambda>_ s'. (Inr (get_order cid s'), s')))"
      by (rule keeps_bind [OF keeps_mark_unknown keeps_get])
    show "has_order cid i (snd (after u s1)) \<and> R s1 (snd (after u s1))"
      unfolding after_def Let_def s2_def [symmetric] rb using 3 trans [OF 3(2)] k1 k2 k3 k4 Suc.IH
      by (auto simp: s3_def [symmetric] keeps_def split: sum.splits exn.splits)
  qed
  then have k: "keeps R cid i (act_bind (transition cid SENT) after)"
    by (intro keeps_bind keeps_transition) simp_all
  show ?case
    unfolding keeps_def
  proof (intro allI impI)
    fix s :: "'b oms"
    assume h: "has_order cid i s"
    let ?s0 = "set_order cid ((get_order cid s)\<lparr>o_attempts := attempt + 1\<rparr>) s"
    have 0: "has_order cid i ?s0" "R s ?s0"
      using has_order_get [OF h] by (auto simp: same_progress_def intro: update)
    have "submit_attempts ops cfg intent dp (Suc left) attempt s = act_bind (transition cid SENT) after ?s0"
      unfolding submit_attempts.simps Let_def assms after_def by simp
    then show "has_order cid i (snd (submit_attempts ops cfg intent dp (Suc left) attempt s))
        \<and> R s (snd (submit_attempts ops cfg intent dp (Suc left) attempt s))"
      using k 0 trans [OF 0(2)] by (auto simp: keeps_def)
  qed
qed

lemma submit_related:
  assumes "oi_client_order_id intent = cid" "oi_instrument intent = i"
  shows "R s (snd (submit ops cfg intent dp s))"
proof (cases "oi_instrument intent \<in> set (om_quarantine s)")
  case True
  then show ?thesis by (simp add: submit_def Let_def refl)
next
  case False
  show ?thesis
  proof (cases "dget (om_orders s) cid")
    case None
    define s1 where "s1 = emit (Journal ORDER_INTENT cid) (set_order cid (new_order intent) s)"
    have "has_order cid i s1" "R s s1"
      using assms create [OF None assms] by (auto simp: s1_def new_order_def)
    then show ?thesis
      using keeps_attempts [OF assms(1), of ops cfg dp "nat (oc_max_retries cfg + 1)" 0] False None trans
      unfolding submit_def Let_def assms(1) s1_def [symmetric] by (auto simp: keeps_def)
  next
    case (Some y)
    then show ?thesis using False assms by (auto simp: submit_def Let_def intro: emit)
  qed
qed

end

section \<open>Legal evolution\<close>

definition legal_reach :: "(order_state \<times> order_state) set" where
  "legal_reach = {(a, b). b \<in> set (LEGAL a)}"

text \<open>Every known order is still known, with its intent, in a state reached by legal transitions only.\<close>

definition legal_evolution :: "'b oms \<Rightarrow> 'b oms \<Rightarrow> bool" where
  "legal_evolution s s' \<longleftrightarrow> (\<forall>c y. dget (om_orders s) c = Some y \<longrightarrow>
     (\<exists>z. dget (om_orders s') c = Some z \<and> o_intent z = o_intent y \<and> (o_state y, o_state z) \<in> legal_reach\<^sup>*))"

lemma legal_evolution_trans:
  assumes "legal_evolution s t" "legal_evolution t u"
  shows "legal_evolution s u"
  unfolding legal_evolution_def
proof (intro allI impI)
  fix c y
  assume "dget (om_orders s) c = Some y"
  with assms(1) obtain z where z: "dget (om_orders t) c = Some z" "o_intent z = o_intent y"
    "(o_state y, o_state z) \<in> legal_reach\<^sup>*" unfolding legal_evolution_def by blast
  from assms(2) z(1) obtain w where w: "dget (om_orders u) c = Some w" "o_intent w = o_intent z"
    "(o_state z, o_state w) \<in> legal_reach\<^sup>*" unfolding legal_evolution_def by blast
  show "\<exists>z. dget (om_orders u) c = Some z \<and> o_intent z = o_intent y \<and> (o_state y, o_state z) \<in> legal_reach\<^sup>*"
    using w(1,2) z(2) rtrancl_trans [OF z(3) w(3)] by (intro exI [of _ w]) simp
qed

lemma legal_evolution_same: "om_orders s' = om_orders s \<Longrightarrow> legal_evolution s s'"
  by (auto simp: legal_evolution_def)

lemma legal_evolution_set:
  assumes "dget (om_orders s) cid = Some y" "o_intent z = o_intent y" "(o_state y, o_state z) \<in> legal_reach\<^sup>*"
    and "om_orders s' = om_orders (set_order cid z s)"
  shows "legal_evolution s s'"
  using assms by (auto simp: legal_evolution_def)

lemma legal_evolution_move:
  assumes "dget (om_orders s) cid = Some y" "st \<in> set (LEGAL (o_state y))"
    and "om_orders s' = om_orders (set_order cid (y\<lparr>o_state := st\<rparr>) s)"
  shows "legal_evolution s s'"
proof -
  have "(o_state y, st) \<in> legal_reach\<^sup>*" using assms(2) by (intro r_into_rtrancl) (simp add: legal_reach_def)
  then show ?thesis by (intro legal_evolution_set [OF assms(1) _ _ assms(3)]) simp_all
qed

interpretation legal: oms_relation legal_evolution cid i for cid i :: string
proof (unfold_locales, goal_cases)
  case (2 s t u)
  then show ?case by (rule legal_evolution_trans)
next
  case (9 s y z)
  then show ?case by (intro legal_evolution_set [OF 9(1), of z]) (simp_all add: same_progress_def)
next
  case (10 s y st)
  show ?case by (rule legal_evolution_move [OF 10(1,3) HOL.refl])
next
  case (11 s y)
  show ?case by (rule legal_evolution_move [OF 11(1,3)]) simp
next
  case (12 s intent)
  then show ?case unfolding legal_evolution_def by (metis om_emit(1) om_set_order(1) option.distinct(1) rtrancl.rtrancl_refl)
qed (simp_all add: legal_evolution_same)

lemma terminal_final: "(a, b) \<in> legal_reach\<^sup>* \<Longrightarrow> terminal a \<Longrightarrow> b = a"
  by (induction rule: converse_rtrancl_induct) (auto simp: legal_reach_def LEGAL_def terminal_def)

text \<open>The calls a client makes; an exception that escapes a call is caught by the client.\<close>

datatype oms_call =
    CallSubmit order_intent "dec option"
  | CallResolve string
  | CallResolveAll
  | CallRelease string

fun oms_step :: "'b broker_ops \<Rightarrow> oms_config \<Rightarrow> oms_call \<Rightarrow> 'b oms \<Rightarrow> 'b oms" where
  "oms_step ops cfg (CallSubmit intent dp) s = snd (submit ops cfg intent dp s)"
| "oms_step ops cfg (CallResolve cid) s = snd (resolve_unknown ops cfg cid s)"
| "oms_step ops cfg CallResolveAll s = snd (resolve_all_unknown ops cfg s)"
| "oms_step ops cfg (CallRelease instr) s = release_quarantine instr s"

definition oms_run :: "'b broker_ops \<Rightarrow> oms_config \<Rightarrow> oms_call list \<Rightarrow> 'b oms \<Rightarrow> 'b oms" where
  "oms_run ops cfg calls s = foldl (\<lambda>s c. oms_step ops cfg c s) s calls"

text \<open>A property kept by \<open>submit\<close>, \<open>resolve_unknown\<close> and \<open>release_quarantine\<close> is kept by every run.\<close>

lemma resolve_each_keeps:
  assumes "\<And>cid s. P s \<Longrightarrow> P (snd (resolve_unknown ops cfg cid s))" "P s"
  shows "P (snd (resolve_each ops cfg cids s))"
  using assms(2)
proof (induction cids arbitrary: s)
  case (Cons cid cids)
  obtain r s' where r: "resolve_unknown ops cfg cid s = (r, s')" by fastforce
  then have "P s'" using assms(1) [OF Cons.prems, of cid] by simp
  then show ?case using Cons.IH [of s'] r by (auto simp: act_bind_def split: sum.splits prod.splits)
qed simp

lemma oms_run_keeps:
  assumes "\<And>intent dp s. P s \<Longrightarrow> P (snd (submit ops cfg intent dp s))"
    and "\<And>cid s. P s \<Longrightarrow> P (snd (resolve_unknown ops cfg cid s))"
    and "\<And>instr s. CallRelease instr \<in> set calls \<Longrightarrow> P s \<Longrightarrow> P (release_quarantine instr s)" and "P s"
  shows "P (oms_run ops cfg calls s)"
  using assms(3,4)
proof (induction calls arbitrary: s)
  case (Cons c calls)
  have "P (oms_step ops cfg c s)"
    using Cons.prems assms(1,2) resolve_each_keeps [of P ops cfg, OF assms(2)]
    by (cases c) (auto simp: resolve_all_unknown_def)
  then show ?case using Cons by (simp add: oms_run_def)
qed (simp add: oms_run_def)

lemma release_legal: "legal_evolution s (release_quarantine i s)"
  by (rule legal_evolution_same) (simp add: release_quarantine_def)

lemma run_legal: "legal_evolution s (oms_run ops cfg calls s)"
proof (rule oms_run_keeps [of "legal_evolution s"])
  show "legal_evolution s (snd (submit ops cfg intent dp t))" if "legal_evolution s t" for intent dp t
    by (rule legal_evolution_trans [OF that]) (rule legal.submit_related [OF HOL.refl HOL.refl])
  show "legal_evolution s (snd (resolve_unknown ops cfg cid t))" if "legal_evolution s t" for cid t
    by (rule legal_evolution_trans [OF that])
      (rule legal.resolve_related [of _ cid "oi_instrument (o_intent (the (dget (om_orders t) cid)))"], simp)
  show "legal_evolution s (release_quarantine instr t)" if "legal_evolution s t" for instr t
    by (rule legal_evolution_trans [OF that release_legal])
qed (simp add: legal_evolution_same)

text \<open>
  C4. Orders only ever make legal transitions: whatever sequence of submissions, resolutions
  and releases runs against whatever broker, exceptions included, an order that was known
  stays known with its intent, its state follows the transition table, and once terminal it
  never changes again.
\<close>

theorem orders_evolve_legally:
  "legal_evolution s (oms_run ops cfg calls s)
   \<and> (case dget (om_orders s) cid of None \<Rightarrow> True
      | Some y \<Rightarrow> \<not> terminal (o_state y)
          \<or> map_option o_state (dget (om_orders (oms_run ops cfg calls s)) cid) = Some (o_state y))"
proof -
  have l: "legal_evolution s (oms_run ops cfg calls s)" by (rule run_legal)
  have "map_option o_state (dget (om_orders (oms_run ops cfg calls s)) cid) = Some (o_state y)"
    if "dget (om_orders s) cid = Some y" "terminal (o_state y)" for y
  proof -
    from l that(1) obtain z where z: "dget (om_orders (oms_run ops cfg calls s)) cid = Some z"
      "(o_state y, o_state z) \<in> legal_reach\<^sup>*" unfolding legal_evolution_def by blast
    show ?thesis using terminal_final [OF z(2) that(2)] z(1) by simp
  qed
  then show ?thesis using l by (cases "dget (om_orders s) cid") auto
qed

section \<open>Fills\<close>

definition fill_key :: "fill \<Rightarrow> string \<times> dec \<times> dec" where
  "fill_key f = (f_venue_order_id f, f_lots f, f_price f)"

lemma same_fill_iff: "same_fill g f \<longleftrightarrow> fill_key f = fill_key g"
  by (auto simp: same_fill_def fill_key_def)

lemma same_fill_key: "list_ex (\<lambda>g. same_fill g f) xs \<longleftrightarrow> fill_key f \<in> fill_key ` set xs"
  by (auto simp: list_ex_iff same_fill_iff image_iff)

lemma same_progress_fills:
  assumes "same_progress y z"
  shows "distinct (map fill_key (o_fills y)) \<Longrightarrow> distinct (map fill_key (o_fills z))"
    and "o_fills y \<noteq> [] \<Longrightarrow> o_fills z \<noteq> []" and "o_state z = o_state y"
  using assms by (auto simp: same_progress_def same_fill_key)

definition fills_coherent :: "'b oms \<Rightarrow> bool" where
  "fills_coherent s \<longleftrightarrow> (\<forall>c y. dget (om_orders s) c = Some y \<longrightarrow>
     (o_state y \<in> {FILLED, PARTIAL} \<longrightarrow> o_fills y \<noteq> [])
     \<and> distinct (map fill_key (o_fills y)))"

lemma fills_coherent_same: "om_orders s' = om_orders s \<Longrightarrow> fills_coherent s \<longrightarrow> fills_coherent s'"
  by (auto simp: fills_coherent_def)

lemma fills_coherent_set:
  assumes "dget (om_orders s) cid = Some y" "om_orders s' = om_orders (set_order cid z s)"
    and "(o_state y \<in> {FILLED, PARTIAL} \<longrightarrow> o_fills y \<noteq> [])
      \<Longrightarrow> distinct (map fill_key (o_fills y))
      \<Longrightarrow> (o_state z \<in> {FILLED, PARTIAL} \<longrightarrow> o_fills z \<noteq> [])
        \<and> distinct (map fill_key (o_fills z))"
  shows "fills_coherent s \<longrightarrow> fills_coherent s'"
  using assms by (auto simp: fills_coherent_def)

interpretation fills: oms_relation "\<lambda>s s'. fills_coherent s \<longrightarrow> fills_coherent s'" cid i for cid i :: string
proof (unfold_locales, goal_cases)
  case (2 s t u)
  then show ?case by blast
next
  case (8 s y)
  then show ?case by (intro fills_coherent_same) simp
next
  case (9 s y z)
  then show ?case
    using same_progress_fills [OF 9(3)] by (intro fills_coherent_set [OF 9(1) HOL.refl]) simp
next
  case (10 s y st)
  then show ?case by (intro fills_coherent_set [OF 10(1) HOL.refl]) simp
next
  case (11 s y)
  then show ?case by (intro fills_coherent_set [OF 11(1), of _ "y\<lparr>o_state := UNKNOWN\<rparr>"]) simp_all
next
  case (12 s intent)
  then show ?case by (auto simp: fills_coherent_def new_order_def)
qed (simp_all add: fills_coherent_def)

text \<open>
  C12. No phantom and no double fills: starting from a fresh manager, after any sequence of calls
  against any broker, an order recorded as filled or partially filled has at least one fill,
  and no fill (venue id, lots, price) is counted twice, however often it is reported.
\<close>

theorem fills_never_phantom_or_double:
  "fills_coherent (oms_run ops cfg calls (snd (mk_order_manager ops b retries slip cb)))"
proof (rule oms_run_keeps [of fills_coherent])
  show "fills_coherent (snd (submit ops cfg intent dp t))" if "fills_coherent t" for intent dp t
    using fills.submit_related [OF HOL.refl HOL.refl, of t ops cfg intent dp] that by blast
  show "fills_coherent (snd (resolve_unknown ops cfg cid t))" if "fills_coherent t" for cid t
    using fills.resolve_related [of t cid "oi_instrument (o_intent (the (dget (om_orders t) cid)))" ops cfg] that by simp
  show "fills_coherent (release_quarantine instr t)" if "fills_coherent t" for instr t
    using that fills_coherent_same [of "release_quarantine instr t" t] by (simp add: release_quarantine_def)
  show "fills_coherent (snd (mk_order_manager ops b retries slip cb))"
    by (simp add: fills_coherent_def mk_order_manager_def Let_def)
qed

section \<open>The journal is written before the socket\<close>

text \<open>In a trace: every submission follows the intent's entry and directly the entry that it is sent.\<close>

fun journaled_from :: "oms_event list \<Rightarrow> oms_event list \<Rightarrow> bool" where
  "journaled_from before [] = True"
| "journaled_from before (e # es) =
     ((case e of BrokerSubmit c \<Rightarrow> before \<noteq> [] \<and> last before = Journal ORDER_SENT c
                   \<and> Journal ORDER_INTENT c \<in> set before
       | _ \<Rightarrow> True) \<and> journaled_from (before @ [e]) es)"

definition write_ahead :: "'b oms \<Rightarrow> bool" where
  "write_ahead s \<longleftrightarrow> journaled_from [] (om_trace s)
     \<and> (\<forall>c y. dget (om_orders s) c = Some y \<longrightarrow> Journal ORDER_INTENT c \<in> set (om_trace s))"

lemma journaled_append: "journaled_from b (xs @ ys) \<longleftrightarrow> journaled_from b xs \<and> journaled_from (b @ xs) ys"
  by (induction xs arbitrary: b) auto

lemma write_ahead_same:
  "dom (map_of (om_orders s')) = dom (map_of (om_orders s)) \<Longrightarrow> om_trace s' = om_trace s \<Longrightarrow> write_ahead s \<longrightarrow> write_ahead s'"
  unfolding write_ahead_def by (metis domIff not_None_eq)

lemma write_ahead_emit: "(\<And>c. e \<noteq> BrokerSubmit c) \<Longrightarrow> write_ahead s \<longrightarrow> write_ahead (emit e s)"
  by (cases e) (auto simp: write_ahead_def journaled_append)

interpretation journal: oms_relation "\<lambda>s s'. write_ahead s \<longrightarrow> write_ahead s'" cid i for cid i :: string
proof (unfold_locales, goal_cases)
  case (3 e s)
  then show ?case by (rule write_ahead_emit)
next
  case (9 s y z)
  then show ?case by (intro write_ahead_same) (auto simp: dom_def)
next
  case (10 s y st)
  then show ?case by (intro write_ahead_same) (auto simp: dom_def)
next
  case (11 s y)
  then show ?case by (intro write_ahead_same) (auto simp: dom_def)
next
  case (12 s intent)
  then show ?case by (auto simp: write_ahead_def journaled_append)
next
  case (13 s)
  then show ?case by (auto simp: write_ahead_def journaled_append has_order_def)
qed (simp_all add: write_ahead_def)

text \<open>
  C13. The journal is written before the socket: from a fresh manager, in every run, each call
  of the broker's \<open>submit\<close> comes directly after the journal entry that the order is sent, and
  after the entry of its intent; and every known order has its intent in the journal.
\<close>

theorem journal_before_socket:
  "write_ahead (oms_run ops cfg calls (snd (mk_order_manager ops b retries slip cb)))"
proof (rule oms_run_keeps [of write_ahead])
  show "write_ahead (snd (submit ops cfg intent dp t))" if "write_ahead t" for intent dp t
    using journal.submit_related [OF HOL.refl HOL.refl, of t ops cfg intent dp] that by blast
  show "write_ahead (snd (resolve_unknown ops cfg cid t))" if "write_ahead t" for cid t
    using journal.resolve_related [of t cid "oi_instrument (o_intent (the (dget (om_orders t) cid)))" ops cfg] that by simp
  show "write_ahead (release_quarantine instr t)" if "write_ahead t" for instr t
    using that write_ahead_emit [of "Journal RECONCILE instr" "unquarantine instr t"]
    by (simp add: release_quarantine_def write_ahead_def)
  show "write_ahead (snd (mk_order_manager ops b retries slip cb))"
    by (simp add: write_ahead_def mk_order_manager_def Let_def)
qed

section \<open>Quarantine\<close>

text \<open>An operation on one order leaves the others, and the quarantine of other instruments, alone.\<close>

definition frame :: "string \<Rightarrow> string \<Rightarrow> 'b oms \<Rightarrow> 'b oms \<Rightarrow> bool" where
  "frame cid i s s' \<longleftrightarrow> (\<forall>c. c \<noteq> cid \<longrightarrow> dget (om_orders s') c = dget (om_orders s) c)
     \<and> set (om_quarantine s') - {i} = set (om_quarantine s) - {i}"

interpretation frame: oms_relation "frame cid i" cid i for cid i :: string
  by unfold_locales (auto simp: frame_def)

text \<open>The order at hand is quarantined as long as its outcome is unknown.\<close>

definition locked :: "string \<Rightarrow> string \<Rightarrow> 'b oms \<Rightarrow> bool" where
  "locked cid i s \<longleftrightarrow> (\<forall>y. dget (om_orders s) cid = Some y \<longrightarrow>
     oi_instrument (o_intent y) = i \<and> (o_state y = UNKNOWN \<longrightarrow> i \<in> set (om_quarantine s)))"

lemma locked_set:
  "om_orders s' = om_orders (set_order cid z s) \<Longrightarrow> oi_instrument (o_intent z) = i
    \<Longrightarrow> o_state z = UNKNOWN \<longrightarrow> i \<in> set (om_quarantine s') \<Longrightarrow> locked cid i s'"
  by (simp add: locked_def)

lemma locked_same:
  "om_orders s' = om_orders s \<Longrightarrow> set (om_quarantine s) \<subseteq> set (om_quarantine s') \<Longrightarrow> locked cid i s \<longrightarrow> locked cid i s'"
  unfolding locked_def by auto

interpretation lock: oms_relation "\<lambda>s s'. locked cid i s \<longrightarrow> locked cid i s'" cid i for cid i :: string
proof (unfold_locales, goal_cases)
  case (2 s t u)
  then show ?case by blast
next
  case (8 s y)
  then have "o_state y \<noteq> UNKNOWN" by (auto simp: terminal_def)
  then show ?case using 8(1,2) by (simp add: locked_def)
next
  case (9 s y z)
  then show ?case
    by (intro impI locked_set [OF HOL.refl]) (simp_all add: locked_def same_progress_def)
next
  case (10 s y st)
  then show ?case by (intro impI locked_set [OF HOL.refl]) simp_all
next
  case (11 s y)
  then show ?case by (intro impI locked_set [of _ cid "y\<lparr>o_state := UNKNOWN\<rparr>" s]) simp_all
next
  case (12 s intent)
  then show ?case by (intro impI locked_set [of _ cid "new_order intent" s]) (simp_all add: new_order_def)
next
  case (13 s)
  then show ?case by (intro locked_same) auto
qed (rule HOL.impI, assumption | rule locked_same, simp, force)+

definition unknown_quarantined :: "'b oms \<Rightarrow> bool" where
  "unknown_quarantined s \<longleftrightarrow>
     (\<forall>c y. dget (om_orders s) c = Some y \<and> o_state y = UNKNOWN \<longrightarrow> oi_instrument (o_intent y) \<in> set (om_quarantine s))
     \<and> (\<forall>c d y z. dget (om_orders s) c = Some y \<and> o_state y = UNKNOWN \<and> dget (om_orders s) d = Some z
          \<and> o_state z = UNKNOWN \<and> oi_instrument (o_intent y) = oi_instrument (o_intent z) \<longrightarrow> c = d)"

text \<open>If no other order of the instrument is open to question, the operation keeps the property.\<close>

lemma unknown_quarantinedD:
  assumes "unknown_quarantined s" "dget (om_orders s) c = Some y" "o_state y = UNKNOWN"
  shows "oi_instrument (o_intent y) \<in> set (om_quarantine s)"
    and "dget (om_orders s) d = Some z \<Longrightarrow> o_state z = UNKNOWN
      \<Longrightarrow> oi_instrument (o_intent y) = oi_instrument (o_intent z) \<Longrightarrow> c = d"
  using assms unfolding unknown_quarantined_def by blast+

lemma unknown_quarantined_frame:
  assumes "unknown_quarantined s" "frame cid i s s'" "locked cid i s'"
    and other: "\<And>c y. c \<noteq> cid \<Longrightarrow> dget (om_orders s) c = Some y \<Longrightarrow> o_state y = UNKNOWN \<Longrightarrow> oi_instrument (o_intent y) \<noteq> i"
  shows "unknown_quarantined s'"
proof -
  have same: "dget (om_orders s') c = dget (om_orders s) c" if "c \<noteq> cid" for c
    using assms(2) that by (simp add: frame_def)
  have q: "j \<in> set (om_quarantine s') \<longleftrightarrow> j \<in> set (om_quarantine s)" if "j \<noteq> i" for j
    using assms(2) that unfolding frame_def by blast
  have own: "oi_instrument (o_intent y) = i" if "dget (om_orders s') cid = Some y" for y
    using assms(3) that by (simp add: locked_def)
  have 1: "oi_instrument (o_intent y) \<in> set (om_quarantine s')"
    if "dget (om_orders s') c = Some y" "o_state y = UNKNOWN" for c y
  proof (cases "c = cid")
    case True
    then show ?thesis using assms(3) that by (simp add: locked_def)
  next
    case False
    then have d: "dget (om_orders s) c = Some y" using that(1) same by simp
    show ?thesis using q other [OF False d that(2)] unknown_quarantinedD(1) [OF assms(1) d that(2)] by blast
  qed
  have 2: "c = d" if "dget (om_orders s') c = Some y" "o_state y = UNKNOWN" "dget (om_orders s') d = Some z"
      "o_state z = UNKNOWN" "oi_instrument (o_intent y) = oi_instrument (o_intent z)" for c d y z
  proof (rule ccontr)
    assume "c \<noteq> d"
    then consider "c = cid" "d \<noteq> cid" | "c \<noteq> cid" "d = cid" | "c \<noteq> cid" "d \<noteq> cid" by blast
    then show False
    proof cases
      case 1
      then show ?thesis using own [of y] other [of d z] same [of d] that by simp
    next
      case 2
      then show ?thesis using own [of z] other [of c y] same [of c] that by simp
    next
      case 3
      then show ?thesis using unknown_quarantinedD(2) [OF assms(1), of c y d z] same that \<open>c \<noteq> d\<close> by simp
    qed
  qed
  show ?thesis unfolding unknown_quarantined_def using 1 2 by blast
qed

lemma unknown_quarantined_same:
  assumes "om_orders s' = om_orders s \<and> om_quarantine s' = om_quarantine s" "unknown_quarantined s"
  shows "unknown_quarantined s'"
  using assms unfolding unknown_quarantined_def by (simp only:)

lemma submit_unknown_quarantined:
  assumes "unknown_quarantined s"
  shows "unknown_quarantined (snd (submit ops cfg intent dp s))"
proof (cases "oi_instrument intent \<in> set (om_quarantine s) \<or> dget (om_orders s) (oi_client_order_id intent) \<noteq> None")
  case True
  then have "om_orders (snd (submit ops cfg intent dp s)) = om_orders s
      \<and> om_quarantine (snd (submit ops cfg intent dp s)) = om_quarantine s"
    by (auto simp: submit_def Let_def split: option.splits)
  then show ?thesis using assms by (rule unknown_quarantined_same)
next
  case False
  let ?cid = "oi_client_order_id intent" and ?i = "oi_instrument intent"
  show ?thesis
  proof (rule unknown_quarantined_frame [OF assms, of ?cid ?i])
    show "frame ?cid ?i s (snd (submit ops cfg intent dp s))" by (rule frame.submit_related [OF HOL.refl HOL.refl])
    have "locked ?cid ?i s" using False by (simp add: locked_def)
    then show "locked ?cid ?i (snd (submit ops cfg intent dp s))"
      using lock.submit_related [OF HOL.refl HOL.refl, of intent s ops cfg dp] by blast
    show "oi_instrument (o_intent y) \<noteq> ?i" if "dget (om_orders s) c = Some y" "o_state y = UNKNOWN" for c y
      using unknown_quarantinedD(1) [OF assms that] False by auto
  qed
qed

lemma resolve_unknown_quarantined:
  assumes "unknown_quarantined s"
  shows "unknown_quarantined (snd (resolve_unknown ops cfg cid s))"
proof (cases "\<exists>y. dget (om_orders s) cid = Some y \<and> o_state y = UNKNOWN")
  case False
  then have "snd (resolve_unknown ops cfg cid s) = s" by (auto simp: resolve_unknown_def split: option.splits)
  then show ?thesis using assms by simp
next
  case True
  then obtain y where y: "dget (om_orders s) cid = Some y" "o_state y = UNKNOWN" by blast
  let ?i = "oi_instrument (o_intent y)"
  show ?thesis
  proof (rule unknown_quarantined_frame [OF assms, of cid ?i])
    show "frame cid ?i s (snd (resolve_unknown ops cfg cid s))" using y(1) by (intro frame.resolve_related) simp
    have "locked cid ?i s" using y assms by (auto simp: locked_def unknown_quarantined_def)
    then show "locked cid ?i (snd (resolve_unknown ops cfg cid s))"
      using lock.resolve_related [of s cid ?i ops cfg] y(1) by simp
    show "oi_instrument (o_intent z) \<noteq> ?i" if "c \<noteq> cid" "dget (om_orders s) c = Some z" "o_state z = UNKNOWN" for c z
      using unknown_quarantinedD(2) [OF assms y, of c z] that by auto
  qed
qed

definition is_release :: "oms_call \<Rightarrow> bool" where
  "is_release c = (case c of CallRelease _ \<Rightarrow> True | _ \<Rightarrow> False)"

text \<open>
  C14. Unknown outcomes stay locked: from a fresh manager, in every run without a manual release,
  the instrument of every order in state UNKNOWN is quarantined, so no new order for it is
  sent, and no two unknown orders share an instrument.
\<close>

theorem unknown_orders_are_quarantined:
  "unknown_quarantined (oms_run ops cfg (filter (\<lambda>c. \<not> is_release c) calls) (snd (mk_order_manager ops b retries slip cb)))"
proof (rule oms_run_keeps [of unknown_quarantined])
  show "unknown_quarantined (snd (mk_order_manager ops b retries slip cb))"
    by (simp add: unknown_quarantined_def mk_order_manager_def Let_def)
qed (auto simp: is_release_def intro: submit_unknown_quarantined resolve_unknown_quarantined)

section \<open>How often the broker is asked to open a position\<close>

definition is_submit :: "oms_event \<Rightarrow> bool" where
  "is_submit e = (case e of BrokerSubmit _ \<Rightarrow> True | _ \<Rightarrow> False)"

definition submits :: "'b oms \<Rightarrow> nat" where
  "submits s = length (filter is_submit (om_trace s))"

lemma submits_emit: "submits (emit e s) = submits s + (if is_submit e then 1 else 0)"
  by (simp add: submits_def)

lemma submits_same [simp]:
  "submits (set_order c y s) = submits s" "submits (quarantine j s) = submits s" "submits (unquarantine j s) = submits s"
  "submits (s\<lparr>om_broker := b\<rparr>) = submits s" "submits (s\<lparr>om_quality := q\<rparr>) = submits s"
  "submits (s\<lparr>om_breaches := x\<rparr>) = submits s"
  by (simp_all add: submits_def)

interpretation quiet: oms_step_relation "\<lambda>s s'. submits s' = submits s" cid i for cid i :: string
proof (unfold_locales, goal_cases)
  case (3 e s)
  then show ?case by (cases e) (auto simp: submits_emit is_submit_def)
qed simp_all

lemma quiet_after:
  "keeps (\<lambda>s s'. submits s' = submits s) cid i m \<Longrightarrow> has_order cid i s \<Longrightarrow> submits (snd (m s)) = submits s"
  by (simp add: keeps_def)

lemma attempts_submits:
  assumes "oi_client_order_id intent = cid" "has_order cid i s"
  shows "submits (snd (submit_attempts ops cfg intent dp left attempt s)) \<le> submits s + left"
  using assms(2)
proof (induction left arbitrary: attempt s)
  case 0
  have "keeps (\<lambda>s s'. submits s' = submits s) cid i (act_bind (mark_unknown cid) (\<lambda>_ s'. (Inr (get_order cid s'), s')))"
    by (rule quiet.keeps_bind [OF quiet.keeps_mark_unknown quiet.keeps_get])
  from quiet_after [OF this 0] show ?case by (simp add: assms(1) Let_def)
next
  case (Suc left)
  let ?R = "\<lambda>s s'. submits s' = submits s" and ?get = "\<lambda>(u :: unit) s'. (Inr (get_order cid s'), s')"
  define s0 where "s0 = set_order cid ((get_order cid s)\<lparr>o_attempts := attempt + 1\<rparr>) s"
  have h0: "has_order cid i s0" using has_order_get [OF Suc.prems] by (simp add: s0_def)
  have kt: "keeps ?R cid i (transition cid SENT)" by (rule quiet.keeps_transition) simp
  obtain t s1 where t: "transition cid SENT s0 = (t, s1)" by fastforce
  have h1: "has_order cid i s1" "submits s1 = submits s"
    using kt h0 t unfolding keeps_def by (fastforce simp: s0_def)+
  define s2 where "s2 = emit (BrokerSubmit cid) (emit (Journal ORDER_SENT cid) s1)"
  obtain r b where rb: "br_submit ops (om_broker s2) intent = (r, b)" by fastforce
  define s3 where "s3 = s2\<lparr>om_broker := b\<rparr>"
  have h3: "has_order cid i s3" "submits s3 = submits s + 1"
    using h1 by (simp_all add: s3_def s2_def submits_emit is_submit_def)
  have "submits (snd (act_bind (apply_result ops cfg cid result dp) ?get s3)) = submits s3" for result
    by (rule quiet_after [OF quiet.keeps_bind [OF quiet.keeps_apply_result quiet.keeps_get] h3(1)])
  moreover have "submits (snd (act_bind (mark_unknown cid) (\<lambda>_.
      act_bind (resolve_unknown ops cfg cid) (\<lambda>_ s'. (Inr (get_order cid s'), s'))) s3)) = submits s3"
    by (rule quiet_after [OF _ h3(1)])
      (intro quiet.keeps_bind quiet.keeps_mark_unknown quiet.keeps_resolve quiet.keeps_get)
  moreover have "submits (snd (act_bind (transition cid REJECTED)
      (\<lambda>_ s'. (Inr (get_order cid s'), emit (Journal ORDER_REJECTED cid) s')) s3)) = submits s3"
    by (rule quiet_after [OF _ h3(1)])
      (intro quiet.keeps_bind quiet.keeps_transition quiet.keeps_emit, simp_all)
  moreover have "submits (snd (act_bind (mark_unknown cid) ?get s3)) = submits s3"
    by (rule quiet_after [OF quiet.keeps_bind [OF quiet.keeps_mark_unknown quiet.keeps_get] h3(1)])
  ultimately show ?case
    using h1 h3 Suc.IH [OF h3(1), of "attempt + 1"]
    unfolding submit_attempts.simps Let_def assms(1) s0_def [symmetric] act_bind_def [of "transition cid SENT"] t
      s2_def [symmetric]
    by (auto simp: s2_def [symmetric] rb s3_def [symmetric] split: sum.splits exn.splits)
qed

text \<open>
  C6. One intent, at most one budget of attempts: a call of \<open>submit\<close> on a manager made for a venue
  asks the broker to open a position at most \<open>max_retries + 1\<close> times, at most once where the venue
  cannot reject a duplicate, and not at all when the id is already known or the instrument is quarantined.
\<close>

theorem submissions_bounded:
  "let cfg = fst (mk_order_manager ops b retries slip cb); s' = snd (submit ops cfg intent dp s) in
   if oi_instrument intent \<in> set (om_quarantine s) \<or> dget (om_orders s) (oi_client_order_id intent) \<noteq> None
   then submits s' = submits s
   else submits s' \<le> submits s + (if br_supports_client_order_id ops then nat (retries + 1) else 1)"
proof (cases "oi_instrument intent \<in> set (om_quarantine s) \<or> dget (om_orders s) (oi_client_order_id intent) \<noteq> None")
  case True
  then show ?thesis by (auto simp: submit_def Let_def submits_emit is_submit_def split: option.splits)
next
  case False
  define cfg where "cfg = fst (mk_order_manager ops b retries slip cb)"
  define s1 where "s1 = emit (Journal ORDER_INTENT (oi_client_order_id intent)) (set_order (oi_client_order_id intent) (new_order intent) s)"
  have h: "has_order (oi_client_order_id intent) (oi_instrument intent) s1" by (simp add: s1_def new_order_def)
  have "snd (submit ops cfg intent dp s) = snd (submit_attempts ops cfg intent dp (nat (oc_max_retries cfg + 1)) 0 s1)"
    using False by (simp add: submit_def Let_def s1_def)
  moreover have "nat (oc_max_retries cfg + 1) \<le> (if br_supports_client_order_id ops then nat (retries + 1) else 1)"
    by (auto simp: cfg_def mk_order_manager_def Let_def)
  moreover have "submits s1 = submits s" by (simp add: s1_def submits_emit is_submit_def)
  ultimately show ?thesis
    using False attempts_submits [OF HOL.refl h, of ops cfg dp "nat (oc_max_retries cfg + 1)" 0]
    unfolding cfg_def [symmetric] Let_def by simp
qed

section \<open>Answers that resolution does not handle\<close>

text \<open>A venue whose submissions time out, with fixed answers to the query and the stop request.\<close>

definition timeout_broker :: "submit_result option res \<Rightarrow> bool res \<Rightarrow> unit broker_ops" where
  "timeout_broker query modify =
     \<lparr>br_supports_client_order_id = True, br_instrument = (\<lambda>_ _. Inr eur_usd),
      br_submit = (\<lambda>b _. (Inl UnknownOutcomeError, b)), br_query_order = (\<lambda>b _. (query, b)),
      br_modify_stop = (\<lambda>b _ _. (modify, b))\<rparr>"

definition plain_result :: "order_state \<Rightarrow> submit_result" where
  "plain_result st = \<lparr>sb_state = st, sb_venue_order_id = None, sb_fills = [], sb_favourable_to_client = None,
     sb_stop_confirmed = True\<rparr>"

text \<open>
  A cancelled order is never resolved: when the venue answers the query for an unknown order
  with anything but filled, partially filled, rejected or unknown (cancelled, or accepted and
  resting), \<open>resolve_unknown\<close> raises \<open>IllegalTransition\<close> and the order stays unknown, although the
  transition table lets UNKNOWN go to CANCELLED.
\<close>

theorem cancelled_answer_is_not_resolved:
  assumes "dget (om_orders s) cid = Some y" and "o_state y = UNKNOWN"
    and "br_query_order ops (om_broker s) cid = (Inr (Some result), b)"
    and "sb_state result \<in> {CANCELLED, ACKED, SENT, PENDING}" and "sb_fills result = []"
  shows "fst (resolve_unknown ops cfg cid s) = Inl IllegalTransition
    \<and> map_option o_state (dget (om_orders (snd (resolve_unknown ops cfg cid s))) cid) = Some UNKNOWN
    \<and> CANCELLED \<in> set (LEGAL UNKNOWN)"
proof -
  have g: "get_order cid s = y" using assms(1) by (simp add: get_order_def)
  have st: "sb_state result \<noteq> REJECTED" "sb_state result \<noteq> UNKNOWN" "result_target (sb_state result) = ACKED"
    using assms(4) by (auto simp: result_target_def)
  have "fst (apply_result ops cfg cid result None t) = Inl IllegalTransition
      \<and> map_option o_state (dget (om_orders (snd (apply_result ops cfg cid result None t))) cid) = Some UNKNOWN"
    if "get_order cid t = y" "dget (om_orders t) cid = Some y" for t
    using that assms(2,5) st by (simp add: apply_result_def Let_def act_bind_def settle_def transition_def LEGAL_def)
  note ar = this
  define t where "t = (emit (BrokerQuery cid) s)\<lparr>om_broker := b\<rparr>"
  obtain r t' where t': "apply_result ops cfg cid result None t = (r, t')" by fastforce
  have "r = Inl IllegalTransition" "map_option o_state (dget (om_orders t') cid) = Some UNKNOWN"
    using ar [of t] assms(1) g t' by (simp_all add: t_def)
  then show ?thesis
    using assms(1-3) t' by (simp add: resolve_unknown_def Let_def act_bind_def LEGAL_def t_def)
qed

definition timeout_intent :: order_intent where
  "timeout_intent = \<lparr>oi_client_order_id = ''c1'', oi_strategy = ''trend'', oi_instrument = ''EUR_USD'',
     oi_side = BUY, oi_lots = 1, oi_order_type = MARKET, oi_limit_price = None, oi_stop_loss = Some 1,
     oi_take_profit = None, oi_decision_ns = 0, oi_risk_amount = 50, oi_risk_pct = 0, oi_expected_cost_pips = 0\<rparr>"

theorem cancelled_answer_is_not_resolved_witness:
  "fst (resolve_unknown (timeout_broker (Inr (Some (plain_result CANCELLED))) (Inr True))
      \<lparr>oc_max_retries = 2, oc_max_slippage_pips = None, oc_on_fill = False\<rparr> ''c1''
      \<lparr>om_orders = [(''c1'', (new_order timeout_intent)\<lparr>o_state := UNKNOWN\<rparr>)],
       om_quarantine = [''EUR_USD''], om_trace = [], om_quality = [], om_breaches = [], om_broker = ()\<rparr>)
     = Inl IllegalTransition"
proof -
  let ?ops = "timeout_broker (Inr (Some (plain_result CANCELLED))) (Inr True)"
    and ?s = "\<lparr>om_orders = [(''c1'', (new_order timeout_intent)\<lparr>o_state := UNKNOWN\<rparr>)],
       om_quarantine = [''EUR_USD''], om_trace = [], om_quality = [], om_breaches = [], om_broker = ()\<rparr>"
  have "br_query_order ?ops (om_broker ?s) ''c1'' = (Inr (Some (plain_result CANCELLED)), ())"
    by (simp add: timeout_broker_def)
  moreover have "sb_state (plain_result CANCELLED) \<in> {CANCELLED, ACKED, SENT, PENDING}"
    "sb_fills (plain_result CANCELLED) = []" by (simp_all add: plain_result_def)
  ultimately show ?thesis
    using cancelled_answer_is_not_resolved [of ?s "''c1''" "(new_order timeout_intent)\<lparr>o_state := UNKNOWN\<rparr>" ?ops
        "plain_result CANCELLED" "()"] by simp
qed

text \<open>
  Resolution forgets an unprotected position: a submission times out, the query reports the
  fill without its stop, and the stop cannot be asserted again. The instrument is quarantined
  for the naked position and, because the order is now terminal, released in the same call:
  the order ends filled, without a confirmed stop, and new orders for the instrument are accepted.
\<close>

theorem unprotected_fill_is_released:
  "let f = \<lparr>f_client_order_id = ''c1'', f_venue_order_id = ''v1'', f_instrument = ''EUR_USD'', f_side = BUY, f_lots = 1,
         f_price = 11/10, f_ts_ns = 0, f_commission = 0, f_slippage_pips = 0\<rparr>;
       filled = \<lparr>sb_state = FILLED, sb_venue_order_id = Some ''v1'', sb_fills = [f], sb_favourable_to_client = None,
         sb_stop_confirmed = False\<rparr>;
       ops = timeout_broker (Inr (Some filled)) (Inr False);
       (cfg, s0) = mk_order_manager ops () 2 None False;
       s = snd (submit ops cfg timeout_intent None s0);
       y = get_order ''c1'' s
   in o_state y = FILLED \<and> \<not> o_stop_confirmed y \<and> om_quarantine s = [] \<and> Journal HALT_EVENT ''c1'' \<in> set (om_trace s)"
  by code_simp

text \<open>
  A transient failure of the query escapes: \<open>resolve_unknown\<close> catches broker errors only, and a
  transient error is not one, so the error reaches the caller of \<open>submit\<close> instead of an order; the
  instrument stays quarantined.
\<close>

theorem transient_query_error_escapes:
  "let ops = timeout_broker (Inl TransientError) (Inr True);
       (cfg, s0) = mk_order_manager ops () 2 None False;
       (r, s) = submit ops cfg timeout_intent None s0
   in r = Inl TransientError \<and> om_quarantine s = [''EUR_USD'']"
  by code_simp

definition settled_oms :: "unit oms" where
  "settled_oms = (let ops = timeout_broker (Inr (Some \<lparr>sb_state = REJECTED, sb_venue_order_id = None, sb_fills = [],
       sb_favourable_to_client = None, sb_stop_confirmed = False\<rparr>)) (Inr True);
     (cfg, s0) = mk_order_manager ops () 2 None False
   in snd (submit ops cfg timeout_intent None s0))"

lemma settled_state: "map_option o_state (dget (om_orders settled_oms) ''c1'') = Some REJECTED"
  by code_simp

theorem orders_evolve_legally_witness:
  "let ops = timeout_broker (Inl TransientError) (Inr True); cfg = fst (mk_order_manager ops () 2 None False) in
   map_option o_state (dget (om_orders (oms_run ops cfg [CallSubmit timeout_intent None, CallResolve ''c1'', CallResolveAll]
     settled_oms)) ''c1'') = Some REJECTED"
proof -
  obtain y where y: "dget (om_orders settled_oms) ''c1'' = Some y" "o_state y = REJECTED"
    using settled_state by (cases "dget (om_orders settled_oms) ''c1''") auto
  show ?thesis
    using orders_evolve_legally [of settled_oms "timeout_broker (Inl TransientError) (Inr True)"
        "fst (mk_order_manager (timeout_broker (Inl TransientError) (Inr True)) () 2 None False)"
        "[CallSubmit timeout_intent None, CallResolve ''c1'', CallResolveAll]" "''c1''"] y
    by (simp add: terminal_def Let_def)
qed

theorem submissions_bounded_witness:
  "let ops = timeout_broker (Inl BrokerError) (Inr True); (cfg, s0) = mk_order_manager ops () 2 None False;
       s1 = snd (submit ops cfg timeout_intent None s0)
   in submits s1 \<le> 3 \<and> om_quarantine s1 = [''EUR_USD''] \<and> submits (snd (submit ops cfg timeout_intent None s1)) = submits s1"
proof -
  define ops where "ops = timeout_broker (Inl BrokerError) (Inr True)"
  define cfg where "cfg = fst (mk_order_manager ops () 2 None False)"
  define s0 where "s0 = snd (mk_order_manager ops () 2 None False)"
  define s1 where "s1 = snd (submit ops cfg timeout_intent None s0)"
  have fresh: "om_quarantine s0 = []" "om_orders s0 = []" "submits s0 = 0" "br_supports_client_order_id ops"
    unfolding s0_def ops_def by code_simp+
  have q: "om_quarantine s1 = [''EUR_USD'']" unfolding s1_def cfg_def s0_def ops_def by code_simp
  have i: "oi_instrument timeout_intent = ''EUR_USD''" by code_simp
  have "submits s1 \<le> 3"
    using submissions_bounded [of ops "()" 2 None False timeout_intent None s0] fresh
    by (simp add: Let_def cfg_def [symmetric] s1_def [symmetric])
  moreover have "submits (snd (submit ops cfg timeout_intent None s1)) = submits s1"
    using submissions_bounded [of ops "()" 2 None False timeout_intent None s1] q i
    by (simp add: Let_def cfg_def [symmetric])
  ultimately show ?thesis
    using q by (simp add: Let_def split_beta s1_def cfg_def s0_def ops_def)
qed

end
