(* ===== verification/Json.thy ===== *)
theory Json
  imports Prelude "HOL-Library.List_Lexorder" "HOL-Library.Char_ord"
begin

text \<open>
  The texts the program writes: decimal numerals, joined fields and the JSON of Python's \<open>json\<close>
  module as \<open>src/sentinel/core/audit.py\<close>, \<open>src/sentinel/core/ids.py\<close> and
  \<open>src/sentinel/ops/killswitch.py\<close> use it (\<open>separators=(",", ":")\<close>, \<open>ensure_ascii=False\<close>). A string
  is its UTF-8 byte sequence: the escapes of the printer concern ASCII characters only, and byte
  order is code point order, so sorting keys is the same. A float is the token \<open>repr\<close> gives it.

  The printer is shown to be injective: a printed value determines the value and where its text
  ends (\<open>dumps_prefix_free\<close>).
\<close>

section \<open>Numerals\<close>

definition digit_char :: "nat \<Rightarrow> char" where
  "digit_char d = char_of (48 + d)"

definition digit_val :: "char \<Rightarrow> nat" where
  "digit_val c = of_char c - 48"

definition is_digit :: "char \<Rightarrow> bool" where
  "is_digit c \<longleftrightarrow> (48::nat) \<le> of_char c \<and> (of_char c :: nat) \<le> 57"

fun show_nat :: "nat \<Rightarrow> string" where
  "show_nat n = (if n < 10 then [digit_char n] else show_nat (n div 10) @ [digit_char (n mod 10)])"

declare show_nat.simps [simp del]

definition read_nat :: "string \<Rightarrow> nat" where
  "read_nat s = foldl (\<lambda>a c. 10 * a + digit_val c) 0 s"

definition show_int :: "int \<Rightarrow> string" where
  "show_int i = (if i < 0 then CHR ''-'' # show_nat (nat (- i)) else show_nat (nat i))"

definition read_int :: "string \<Rightarrow> int" where
  "read_int s = (case s of [] \<Rightarrow> 0
     | c # cs \<Rightarrow> if c = CHR ''-'' then - int (read_nat cs) else int (read_nat s))"

lemma digit_val_char: "d < 10 \<Longrightarrow> digit_val (digit_char d) = d"
  by (simp add: digit_val_def digit_char_def)

lemma is_digit_char: "d < 10 \<Longrightarrow> is_digit (digit_char d)"
  by (simp add: is_digit_def digit_char_def)

lemma read_nat_snoc: "read_nat (s @ [c]) = 10 * read_nat s + digit_val c"
  by (simp add: read_nat_def)

lemma read_show_nat [simp]: "read_nat (show_nat n) = n"
proof (induction n rule: show_nat.induct)
  case (1 n)
  show ?case
  proof (cases "n < 10")
    case True
    then show ?thesis by (simp add: show_nat.simps [of n] read_nat_def digit_val_char)
  next
    case False
    then show ?thesis using 1 by (simp add: show_nat.simps [of n] read_nat_snoc digit_val_char)
  qed
qed

lemma show_nat_digits: "list_all is_digit (show_nat n)"
proof (induction n rule: show_nat.induct)
  case (1 n)
  then show ?case by (cases "n < 10") (simp_all add: show_nat.simps [of n] is_digit_char)
qed

lemma show_nat_nonempty [simp]: "show_nat n \<noteq> []"
  by (subst show_nat.simps) simp

lemma not_digits: "\<not> is_digit (CHR ''-'')" "\<not> is_digit (CHR '','')" "\<not> is_digit (CHR ''|'')"
  by (simp_all add: is_digit_def)

lemma read_show_int [simp]: "read_int (show_int i) = i"
proof (cases "i < 0")
  case True
  then show ?thesis by (simp add: show_int_def read_int_def)
next
  case False
  obtain c cs where c: "show_nat (nat i) = c # cs" by (cases "show_nat (nat i)") auto
  then have "is_digit c" using show_nat_digits [of "nat i"] by simp
  then have "c \<noteq> CHR ''-''" using not_digits(1) by auto
  then have "read_int (show_nat (nat i)) = int (read_nat (show_nat (nat i)))" by (simp only: read_int_def c list.case if_False)
  then show ?thesis using False by (simp add: show_int_def)
qed

lemma show_int_inj: "show_int i = show_int j \<longleftrightarrow> i = j"
  by (metis read_show_int)

section \<open>Joining\<close>

text \<open>\<open>sep.join(parts)\<close> with a separator of one character.\<close>

fun join :: "char \<Rightarrow> string list \<Rightarrow> string" where
  "join c [] = []"
| "join c [p] = p"
| "join c (p # q # ps) = p @ c # join c (q # ps)"

text \<open>Two texts that do not contain the separator end at the same place.\<close>

lemma split_at_separator:
  assumes "x @ c # r = y @ c # s" "c \<notin> set x" "c \<notin> set y"
  shows "x = y \<and> r = s"
proof -
  have "takeWhile (\<lambda>a. a \<noteq> c) (x @ c # r) = x" "takeWhile (\<lambda>a. a \<noteq> c) (y @ c # s) = y"
    using assms(2,3) by (auto simp: takeWhile_append)
  then show ?thesis using assms(1) by simp
qed

lemma join_Cons: "ps \<noteq> [] \<Longrightarrow> join c (p # ps) = p @ c # join c ps"
  by (cases ps) auto

lemma join_inj:
  assumes "join c ps = join c qs" "\<forall>p \<in> set ps. c \<notin> set p" "\<forall>q \<in> set qs. c \<notin> set q" "length ps = length qs"
  shows "ps = qs"
  using assms(4,1-3)
proof (induction ps qs rule: list_induct2)
  case (Cons p ps q qs)
  show ?case
  proof (cases "ps = []")
    case True
    then show ?thesis using Cons by simp
  next
    case False
    then have "qs \<noteq> []" using Cons.hyps by auto
    then have "p @ c # join c ps = q @ c # join c qs" using Cons.prems(1) False by (simp add: join_Cons)
    then have "p = q \<and> join c ps = join c qs" using Cons.prems by (intro split_at_separator) auto
    then show ?thesis using Cons by auto
  qed
qed simp

section \<open>JSON\<close>

datatype json =
    JNull
  | JBool bool
  | JInt int
  | JReal string
  | JStr string
  | JArr "json list"
  | JObj "(string \<times> json) list"

abbreviation (input) dquote :: char where "dquote \<equiv> CHR 0x22"
abbreviation (input) backslash :: char where "backslash \<equiv> CHR 0x5C"

definition hex_char :: "nat \<Rightarrow> char" where
  "hex_char d = (if d < 10 then char_of (48 + d) else char_of (87 + d))"

definition hex_val :: "char \<Rightarrow> nat" where
  "hex_val c = (if is_digit c then of_char c - 48 else of_char c - 87)"

text \<open>The escapes of the C encoder: quotes, backslash, the short ones and \<open>\u00xx\<close> for the other
  control characters.\<close>

definition esc :: "char \<Rightarrow> string" where
  "esc c =
     (if c = dquote then [backslash, dquote]
      else if c = backslash then [backslash, backslash]
      else if c = CHR 0x0A then [backslash, CHR ''n'']
      else if c = CHR 0x0D then [backslash, CHR ''r'']
      else if c = CHR 0x09 then [backslash, CHR ''t'']
      else if c = CHR 0x08 then [backslash, CHR ''b'']
      else if c = CHR 0x0C then [backslash, CHR ''f'']
      else if (of_char c :: nat) < 32
      then [backslash, CHR ''u'', CHR ''0'', CHR ''0'', hex_char (of_char c div 16), hex_char (of_char c mod 16)]
      else [c])"

definition json_str :: "string \<Rightarrow> string" where
  "json_str s = dquote # concat (map esc s) @ [dquote]"

fun dumps :: "json \<Rightarrow> string" where
  "dumps JNull = ''null''"
| "dumps (JBool b) = (if b then ''true'' else ''false'')"
| "dumps (JInt i) = show_int i"
| "dumps (JReal t) = t"
| "dumps (JStr s) = json_str s"
| "dumps (JArr vs) = CHR ''['' # join (CHR '','') (map dumps vs) @ '']''"
| "dumps (JObj kvs) = CHR ''{'' # join (CHR '','') (map (\<lambda>(k, v). json_str k @ CHR '':'' # dumps v) kvs) @ ''}''"

text \<open>\<open>sort_keys=True\<close>.\<close>

fun canon :: "json \<Rightarrow> json" where
  "canon (JArr vs) = JArr (map canon vs)"
| "canon (JObj kvs) = JObj (sort_key fst (map (\<lambda>(k, v). (k, canon v)) kvs))"
| "canon v = v"

text \<open>The token of a float: number characters, and not the text of an integer.\<close>

definition num_char :: "char \<Rightarrow> bool" where
  "num_char c \<longleftrightarrow> is_digit c \<or> c \<in> set ''+-.eE''"

fun json_ok :: "json \<Rightarrow> bool" where
  "json_ok (JReal t) \<longleftrightarrow> t \<noteq> [] \<and> list_all num_char t \<and> (is_digit (hd t) \<or> hd t = CHR ''-'')
      \<and> list_ex (\<lambda>c. c \<in> set ''.eE'') t"
| "json_ok (JArr vs) \<longleftrightarrow> list_all json_ok vs"
| "json_ok (JObj kvs) \<longleftrightarrow> list_all (\<lambda>(k, v). json_ok v) kvs"
| "json_ok v \<longleftrightarrow> True"

section \<open>The printer is injective\<close>

text \<open>Reading one escaped character back.\<close>

definition unesc :: "string \<Rightarrow> char \<times> string" where
  "unesc s =
     (case s of
        c # d # r \<Rightarrow>
          if c \<noteq> backslash then (c, d # r)
          else if d = CHR ''n'' then (CHR 0x0A, r)
          else if d = CHR ''r'' then (CHR 0x0D, r)
          else if d = CHR ''t'' then (CHR 0x09, r)
          else if d = CHR ''b'' then (CHR 0x08, r)
          else if d = CHR ''f'' then (CHR 0x0C, r)
          else if d = CHR ''u'' then (char_of (16 * hex_val (r ! 2) + hex_val (r ! 3)), drop 4 r)
          else (d, r)
      | _ \<Rightarrow> (hd s, tl s))"

lemma hex_val_char: "d < 16 \<Longrightarrow> hex_val (hex_char d) = d"
  by (simp add: hex_val_def hex_char_def is_digit_def)

lemma esc_plain:
  assumes "32 \<le> (of_char c :: nat)" "c \<noteq> dquote" "c \<noteq> backslash"
  shows "esc c = [c]"
proof -
  have "c \<noteq> CHR 0x0A" "c \<noteq> CHR 0x0D" "c \<noteq> CHR 0x09" "c \<noteq> CHR 0x08" "c \<noteq> CHR 0x0C" using assms(1) by auto
  then show ?thesis using assms by (simp only: esc_def if_False not_less [symmetric])
qed

lemma esc_control:
  assumes "(of_char c :: nat) < 32" "c \<notin> {CHR 0x0A, CHR 0x0D, CHR 0x09, CHR 0x08, CHR 0x0C}"
  shows "esc c = [backslash, CHR ''u'', CHR ''0'', CHR ''0'', hex_char (of_char c div 16), hex_char (of_char c mod 16)]"
proof -
  have "c \<noteq> dquote" "c \<noteq> backslash" using assms(1) by auto
  then show ?thesis using assms by (simp only: esc_def if_False if_True insert_iff empty_iff simp_thms de_Morgan_disj)
qed

lemma unesc_esc: "unesc (esc c @ r) = (c, r)"
proof -
  consider (short) "c \<in> {CHR 0x0A, CHR 0x0D, CHR 0x09, CHR 0x08, CHR 0x0C, dquote, backslash}"
    | (control) "(of_char c :: nat) < 32" "c \<notin> {CHR 0x0A, CHR 0x0D, CHR 0x09, CHR 0x08, CHR 0x0C}"
    | (plain) "32 \<le> (of_char c :: nat)" "c \<noteq> dquote" "c \<noteq> backslash"
    by fastforce
  then show ?thesis
  proof cases
    case short
    then show ?thesis by (elim insertE emptyE) (simp_all add: esc_def unesc_def)
  next
    case control
    have "16 * hex_val (hex_char (of_char c div 16)) + hex_val (hex_char (of_char c mod 16)) = (of_char c :: nat)"
      using control(1) by (subst (1 2) hex_val_char) simp_all
    then show ?thesis by (simp add: esc_control [OF control] unesc_def)
  next
    case plain
    then show ?thesis by (cases r) (simp_all add: esc_plain unesc_def)
  qed
qed

lemma esc_inj: "esc c @ r = esc d @ s \<longleftrightarrow> c = d \<and> r = s"
  using unesc_esc by (metis prod.inject)

lemma esc_not_quote: "esc c @ r \<noteq> dquote # s"
  by (simp add: esc_def)

lemma escaped_inj: "concat (map esc s) @ dquote # r = concat (map esc t) @ dquote # q \<Longrightarrow> s = t \<and> r = q"
proof (induction s arbitrary: t)
  case Nil
  then show ?case by (cases t) (auto simp: esc_not_quote [symmetric])
next
  case (Cons c s)
  then show ?case by (cases t) (auto simp: esc_not_quote esc_inj)
qed

lemma json_str_inj: "json_str s @ r = json_str t @ q \<longleftrightarrow> s = t \<and> r = q"
  by (auto simp: json_str_def dest: escaped_inj)

text \<open>What may follow a printed value.\<close>

definition ends :: "string \<Rightarrow> bool" where
  "ends r \<longleftrightarrow> r = [] \<or> hd r \<in> {CHR '','', CHR '']'', CHR ''}''}"

lemma ends_simps [simp]: "ends []" "ends (CHR '','' # r)" "ends (CHR '']'' # r)" "ends (CHR ''}'' # r)"
  by (simp_all add: ends_def)

lemma number_end:
  assumes "x @ r = y @ q" "list_all num_char x" "list_all num_char y" "ends r" "ends q"
  shows "x = y \<and> r = q"
proof -
  have stop: "takeWhile num_char s = []" if "ends s" for s
    using that by (cases s) (auto simp: ends_def num_char_def is_digit_def)
  have "takeWhile num_char (x @ r) = x" "takeWhile num_char (y @ q) = y"
    using assms(2-5) stop by (simp_all add: list_all_iff)
  then show ?thesis using assms(1) by simp
qed

lemma show_int_chars: "list_all num_char (show_int i)" "\<not> list_ex (\<lambda>c. c \<in> set ''.eE'') (show_int i)"
  "is_digit (hd (show_int i)) \<or> hd (show_int i) = CHR ''-''" "show_int i \<noteq> []"
proof -
  have d: "list_all is_digit (show_nat n)" "is_digit (hd (show_nat n))" for n
    using show_nat_digits [of n] by (auto simp: list_all_iff)
  have p: "is_digit c \<Longrightarrow> num_char c \<and> c \<notin> set ''.eE''" for c by (auto simp: num_char_def is_digit_def)
  then have n: "list_all num_char (show_nat n)" "\<not> list_ex (\<lambda>c. c \<in> set ''.eE'') (show_nat n)" for n
    using d(1) [of n] by (fastforce simp: list_all_iff list_ex_iff)+
  show "list_all num_char (show_int i)" using n by (simp add: show_int_def num_char_def)
  show "\<not> list_ex (\<lambda>c. c \<in> set ''.eE'') (show_int i)" using n by (simp add: show_int_def)
  show "is_digit (hd (show_int i)) \<or> hd (show_int i) = CHR ''-''" "show_int i \<noteq> []"
    using d by (simp_all add: show_int_def)
qed

text \<open>The first character tells the kind of a value.\<close>

fun json_kind :: "json \<Rightarrow> nat" where
  "json_kind JNull = 0"
| "json_kind (JBool b) = (if b then 1 else 2)"
| "json_kind (JInt i) = 3"
| "json_kind (JReal t) = 3"
| "json_kind (JStr s) = 4"
| "json_kind (JArr vs) = 5"
| "json_kind (JObj kvs) = 6"

definition char_kind :: "char \<Rightarrow> nat" where
  "char_kind c = (if c = CHR ''n'' then 0 else if c = CHR ''t'' then 1 else if c = CHR ''f'' then 2
     else if c = dquote then 4 else if c = CHR ''['' then 5 else if c = CHR ''{'' then 6 else 3)"

lemma no_digit: "c \<in> set ''ntf[]{}'' \<or> c = dquote \<Longrightarrow> \<not> is_digit c"
  by (auto simp: is_digit_def)

lemma number_kind:
  assumes "is_digit c \<or> c = CHR ''-''"
  shows "char_kind c = 3 \<and> c \<notin> {CHR '']'', CHR ''}''}"
proof (cases "c = CHR ''-''")
  case False
  then have "c \<notin> set ''ntf[]{}''" "c \<noteq> dquote" using assms no_digit [of c] by blast+
  then show ?thesis by (simp add: char_kind_def)
qed (simp add: char_kind_def)

lemma dumps_kind:
  assumes "json_ok v"
  shows "dumps v \<noteq> [] \<and> char_kind (hd (dumps v)) = json_kind v \<and> hd (dumps v) \<notin> {CHR '']'', CHR ''}''}"
proof (cases v)
  case (JInt i)
  then show ?thesis using number_kind [OF show_int_chars(3) [of i]] show_int_chars(4) [of i] by simp
next
  case (JReal t)
  then show ?thesis using number_kind [of "hd t"] assms by simp
qed (simp_all add: char_kind_def json_str_def)

lemma dumps_same_kind:
  assumes "json_ok v" "json_ok w" "dumps v @ r = dumps w @ q"
  shows "json_kind v = json_kind w"
  using dumps_kind [OF assms(1)] dumps_kind [OF assms(2)] assms(3) by (metis hd_append2)

definition follow :: "char \<Rightarrow> ('a \<Rightarrow> string) \<Rightarrow> 'a list \<Rightarrow> string \<Rightarrow> string" where
  "follow z f xs r = (if xs = [] then z # r else CHR '','' # join (CHR '','') (map f xs) @ z # r)"

lemma join_follow: "join (CHR '','') (map f (x # xs)) @ z # r = f x @ follow z f xs r"
  by (cases xs) (simp_all add: follow_def)

lemma join_start:
  assumes "f x \<noteq> []" "hd (f x) \<notin> {CHR '']'', CHR ''}''}" "z \<in> {CHR '']'', CHR ''}''}"
  shows "join (CHR '','') (map f (x # xs)) @ z # q \<noteq> z # r"
  unfolding join_follow using assms by (cases "f x") auto

lemma follow_inj:
  assumes "z \<in> {CHR '']'', CHR ''}''}" "follow z f xs r = follow z f ys q"
  shows "join (CHR '','') (map f xs) @ z # r = join (CHR '','') (map f ys) @ z # q \<and> (xs = [] \<longleftrightarrow> ys = [])"
  using assms by (cases xs; cases ys) (auto simp: follow_def)

lemma join_prefix_free:
  assumes z: "z \<in> {CHR '']'', CHR ''}''}"
    and step: "\<And>x y r q. x \<in> set xs \<Longrightarrow> P x \<Longrightarrow> P y \<Longrightarrow> ends r \<Longrightarrow> ends q \<Longrightarrow> f x @ r = f y @ q \<Longrightarrow> x = y \<and> r = q"
    and start: "\<And>x. P x \<Longrightarrow> f x \<noteq> [] \<and> hd (f x) \<notin> {CHR '']'', CHR ''}''}"
    and eq: "join (CHR '','') (map f xs) @ z # r = join (CHR '','') (map f ys) @ z # q"
    and ok: "list_all P xs" "list_all P ys"
  shows "xs = ys \<and> r = q"
  using step eq ok
proof (induction xs arbitrary: ys)
  case Nil
  show ?case
  proof (cases ys)
    case (Cons y ys')
    then have "P y" using Nil by simp
    from join_start [of f y z ys' q r] start [OF this] z Nil(2) Cons show ?thesis by simp
  qed (use Nil in simp)
next
  case (Cons x xs)
  have x: "P x" "list_all P xs" using Cons.prems(3) by simp_all
  show ?case
  proof (cases ys)
    case Nil
    from join_start [of f x z xs r q] start [OF x(1)] z Cons.prems(2) Nil show ?thesis by simp
  next
    case ys: (Cons y ys')
    have y: "P y" "list_all P ys'" using Cons.prems(4) ys by simp_all
    have e: "ends (follow z f us t)" for us t using z by (auto simp: follow_def)
    have "f x @ follow z f xs r = f y @ follow z f ys' q" using Cons.prems(2) ys by (simp only: join_follow)
    from Cons.prems(1) [OF _ x(1) y(1) e e this] have xy: "x = y" "follow z f xs r = follow z f ys' q" by auto
    have "xs = ys' \<and> r = q"
      using Cons.prems(1) follow_inj [OF z xy(2)] x(2) y(2) by (intro Cons.IH) auto
    then show ?thesis using xy ys by simp
  qed
qed

text \<open>A printed value determines the value and the rest of the text.\<close>

lemma kind_cases:
  "json_kind w = 3 \<Longrightarrow> (\<exists>i. w = JInt i) \<or> (\<exists>t. w = JReal t)"
  "json_kind w = 4 \<Longrightarrow> \<exists>s. w = JStr s" "json_kind w = 5 \<Longrightarrow> \<exists>vs. w = JArr vs"
  "json_kind w = 6 \<Longrightarrow> \<exists>kvs. w = JObj kvs" "json_kind w = 0 \<Longrightarrow> w = JNull"
  "json_kind w = 1 \<Longrightarrow> w = JBool True" "json_kind w = 2 \<Longrightarrow> w = JBool False"
  by (cases w; simp split: if_splits)+

lemma numbers_prefix_free:
  assumes "dumps v @ r = dumps w @ q" "json_ok v" "json_ok w" "ends r" "ends q" "json_kind v = 3" "json_kind w = 3"
  shows "v = w \<and> r = q"
proof -
  have c: "list_all num_char (dumps u)" if "json_ok u" "json_kind u = 3" for u
    using kind_cases(1) [OF that(2)] that(1) show_int_chars(1) by auto
  have t: "dumps v = dumps w \<and> r = q" by (rule number_end) (use assms c in auto)
  have d: "json_ok (JReal u) \<Longrightarrow> show_int i \<noteq> u" for i u using show_int_chars(2) [of i] by auto
  have "v = w"
    using kind_cases(1) [OF assms(6)] kind_cases(1) [OF assms(7)]
  proof (elim disjE exE)
    fix i j assume "v = JInt i" "w = JInt j"
    then show ?thesis using t by (simp add: show_int_inj)
  next
    fix i u assume "v = JInt i" "w = JReal u"
    then show ?thesis using t assms(3) d [of u i] by simp
  next
    fix i u assume "v = JReal u" "w = JInt i"
    then show ?thesis using t assms(2) d [of u i] by simp
  qed (use t in simp)
  then show ?thesis using t by simp
qed

theorem dumps_prefix_free:
  assumes "dumps v @ r = dumps w @ q" "json_ok v" "json_ok w" "ends r" "ends q"
  shows "v = w \<and> r = q"
  using assms
proof (induction v arbitrary: w r q)
  case JNull
  then show ?case using dumps_same_kind [OF JNull(2,3,1)] kind_cases(5) [of w] by simp
next
  case (JBool b)
  have k: "json_kind w = (if b then 1 else 2)" using dumps_same_kind [OF JBool(2,3,1)] by simp
  have "w = JBool b"
  proof (cases b)
    case True
    then have "json_kind w = 1" using k by simp
    then show ?thesis using True by (simp add: kind_cases(6))
  next
    case False
    then have "json_kind w = 2" using k by simp
    then show ?thesis using False by (simp add: kind_cases(7))
  qed
  then show ?case using JBool(1) by simp
next
  case (JInt i)
  then show ?case using dumps_same_kind [OF JInt(2,3,1)] by (intro numbers_prefix_free) simp_all
next
  case (JReal t)
  then show ?case using dumps_same_kind [OF JReal(2,3,1)] by (intro numbers_prefix_free) simp_all
next
  case (JStr s)
  then obtain t where "w = JStr t" using dumps_same_kind [OF JStr(2,3,1)] kind_cases(2) [of w] by auto
  then show ?case using JStr by (simp add: json_str_inj)
next
  case (JArr vs)
  obtain ws where w: "w = JArr ws" using dumps_same_kind [OF JArr(3,4,2)] kind_cases(3) [of w] by auto
  have "vs = ws \<and> r = q"
  proof (rule join_prefix_free [of "CHR '']''" vs json_ok dumps r ws q])
    show "join (CHR '','') (map dumps vs) @ CHR '']'' # r = join (CHR '','') (map dumps ws) @ CHR '']'' # q"
      using JArr(2) w by simp
    show "dumps x \<noteq> [] \<and> hd (dumps x) \<notin> {CHR '']'', CHR ''}''}" if "json_ok x" for x
      using dumps_kind [OF that] by blast
    show "x = y \<and> r' = q'" if "x \<in> set vs" "json_ok x" "json_ok y" "ends r'" "ends q'" "dumps x @ r' = dumps y @ q'"
      for x y r' q' by (rule JArr(1) [OF that(1,6,2-5)])
    show "list_all json_ok vs" using JArr(3) by simp
    show "list_all json_ok ws" using JArr(4) w by simp
  qed simp
  then show ?case using w by simp
next
  case (JObj kvs)
  let ?f = "\<lambda>(k, v). json_str k @ CHR '':'' # dumps v"
  obtain lws where w: "w = JObj lws" using dumps_same_kind [OF JObj(3,4,2)] kind_cases(4) [of w] by auto
  have "kvs = lws \<and> r = q"
  proof (rule join_prefix_free [of "CHR ''}''" kvs "\<lambda>(k, v). json_ok v" ?f r lws q])
    show "join (CHR '','') (map ?f kvs) @ CHR ''}'' # r = join (CHR '','') (map ?f lws) @ CHR ''}'' # q"
      using JObj(2) w by simp
    show "?f x \<noteq> [] \<and> hd (?f x) \<notin> {CHR '']'', CHR ''}''}" for x by (cases x) (simp add: json_str_def)
    show "x = y \<and> r' = q'" if "x \<in> set kvs" "case x of (k, v) \<Rightarrow> json_ok v" "case y of (k, v) \<Rightarrow> json_ok v"
      "ends r'" "ends q'" "?f x @ r' = ?f y @ q'" for x y r' q'
    proof -
      obtain k v l u where xy: "x = (k, v)" "y = (l, u)" by (cases x; cases y)
      then have "k = l" "dumps v @ r' = dumps u @ q'" using that(6) by (simp_all add: json_str_inj)
      moreover have "v \<in> Basic_BNFs.snds x" using xy by simp
      ultimately have "v = u \<and> r' = q'" using that xy by (intro JObj(1) [of x]) simp_all
      then show ?thesis using xy \<open>k = l\<close> by simp
    qed
    show "list_all (\<lambda>(k, v). json_ok v) kvs" using JObj(3) by simp
    show "list_all (\<lambda>(k, v). json_ok v) lws" using JObj(4) w by simp
  qed simp
  then show ?case using w by simp
qed

lemma dumps_inj: "dumps v = dumps w \<Longrightarrow> json_ok v \<Longrightarrow> json_ok w \<Longrightarrow> v = w"
  using dumps_prefix_free [of v "[]" w "[]"] by simp

end
