(* ===== verification/AuditChain.thy ===== *)
theory AuditChain
  imports Json
begin

text \<open>
  \<open>src/sentinel/core/audit.py\<close>: the hash-chained journal. The file is the list of its lines, each
  given by what reading it yields, and whether the last line ends in a newline. SHA-256 and the
  \<open>str\<close> of a JSON value that is no string are arguments (\<open>audit_env\<close>), and no property of them is
  assumed; the text that is hashed is printed by \<open>dumps\<close>. Payloads are JSON values. The wall clock is an argument of the operations. Locks,
  listeners, file modes and \<open>fsync\<close> are left out.

  The abstract view of a journal is the list of its entries; \<open>log_of\<close> gives the state the code
  keeps for it. Runs of appends, restarts and restarts after a torn write refine the list.
\<close>

section \<open>Records\<close>

record audit_env =
  ae_sha256 :: "string \<Rightarrow> string"
  ae_run_id :: string
  ae_str :: "json \<Rightarrow> string"

definition GENESIS :: string where
  "GENESIS = replicate 64 (CHR ''0'')"

text \<open>\<open>_digest\<close>; the arguments are JSON values because \<open>verify\<close> passes what it has parsed.\<close>

definition digest_body :: "json \<Rightarrow> json \<Rightarrow> json \<Rightarrow> json \<Rightarrow> json \<Rightarrow> json \<Rightarrow> json \<Rightarrow> json" where
  "digest_body seq ts_ns run_id event actor payload prev_hash =
     JObj [(''seq'', seq), (''ts_ns'', ts_ns), (''run_id'', run_id), (''event'', event),
           (''actor'', actor), (''payload'', payload), (''prev_hash'', prev_hash)]"

definition digest :: "audit_env \<Rightarrow> json \<Rightarrow> json \<Rightarrow> json \<Rightarrow> json \<Rightarrow> json \<Rightarrow> json \<Rightarrow> json \<Rightarrow> string" where
  "digest env seq ts_ns run_id event actor payload prev_hash =
     ae_sha256 env (dumps (canon (digest_body seq ts_ns run_id event actor payload prev_hash)))"

record audit_record =
  ar_seq :: int
  ar_ts_ns :: int
  ar_run_id :: string
  ar_event :: string
  ar_actor :: string
  ar_payload :: json
  ar_prev_hash :: string
  ar_hash :: string

definition record_to_dict :: "audit_record \<Rightarrow> json" where
  "record_to_dict r =
     JObj [(''seq'', JInt (ar_seq r)), (''ts_ns'', JInt (ar_ts_ns r)), (''run_id'', JStr (ar_run_id r)),
           (''event'', JStr (ar_event r)), (''actor'', JStr (ar_actor r)), (''payload'', ar_payload r),
           (''prev_hash'', JStr (ar_prev_hash r)), (''hash'', JStr (ar_hash r))]"

section \<open>The file\<close>

text \<open>
  A line of the file: blank; text that is not JSON; a JSON value; or bytes that are not UTF-8, with
  what they parse to once the bad bytes are replaced.
\<close>

datatype line =
    Blank
  | Junk
  | Parsed json
  | Garbled "json option"

fun is_garbled :: "line \<Rightarrow> bool" where
  "is_garbled (Garbled _) = True"
| "is_garbled _ = False"

record journal_file =
  jf_lines :: "line list"
  jf_terminated :: bool

text \<open>Writing one line at the end: on an unterminated file it continues the last line, and two JSON
  values on one line are not JSON.\<close>

definition write_line :: "json \<Rightarrow> journal_file \<Rightarrow> journal_file" where
  "write_line j f =
     (if jf_terminated f \<or> jf_lines f = [] then \<lparr>jf_lines = jf_lines f @ [Parsed j], jf_terminated = True\<rparr>
      else \<lparr>jf_lines = butlast (jf_lines f) @
              [case last (jf_lines f) of Blank \<Rightarrow> Parsed j | Garbled _ \<Rightarrow> Garbled None | _ \<Rightarrow> Junk],
            jf_terminated = True\<rparr>)"

record audit_log =
  al_file :: journal_file
  al_seq :: int
  al_last_hash :: string

section \<open>Reading JSON values the way Python does\<close>

definition jindex :: "json \<Rightarrow> string \<Rightarrow> json res" where
  "jindex v k =
     (case v of JObj kvs \<Rightarrow> (case dget kvs k of None \<Rightarrow> Inl KeyError | Some x \<Rightarrow> Inr x)
      | _ \<Rightarrow> Inl TypeError)"

definition py_truthy :: "json \<Rightarrow> bool" where
  "py_truthy v =
     (case v of JNull \<Rightarrow> False | JBool b \<Rightarrow> b | JInt i \<Rightarrow> i \<noteq> 0
      | JReal t \<Rightarrow> list_ex (\<lambda>c. is_digit c \<and> c \<noteq> CHR ''0'') (takeWhile (\<lambda>c. c \<notin> set ''eE'') t)
      | JStr s \<Rightarrow> s \<noteq> [] | JArr vs \<Rightarrow> vs \<noteq> [] | JObj kvs \<Rightarrow> kvs \<noteq> [])"

text \<open>\<open>int(v)\<close>: floats in positional notation are truncated, texts are an optional sign and digits.\<close>

definition py_int :: "json \<Rightarrow> int res" where
  "py_int v =
     (case v of JInt i \<Rightarrow> Inr i | JBool b \<Rightarrow> Inr (if b then 1 else 0)
      | JReal t \<Rightarrow> Inr (read_int (takeWhile (\<lambda>c. c \<noteq> CHR ''.'') t))
      | JStr s \<Rightarrow> (let d = (if s \<noteq> [] \<and> hd s \<in> set ''+-'' then tl s else s) in
          if d \<noteq> [] \<and> list_all is_digit d
          then Inr (if hd s = CHR ''-'' then - int (read_nat d) else int (read_nat d)) else Inl ValueError)
      | _ \<Rightarrow> Inl TypeError)"

definition py_str :: "audit_env \<Rightarrow> json \<Rightarrow> string" where
  "py_str env v = (case v of JStr s \<Rightarrow> s | _ \<Rightarrow> ae_str env v)"

text \<open>\<open>v == n\<close> for an integer \<open>n\<close>.\<close>

definition equals_int :: "json \<Rightarrow> int \<Rightarrow> bool" where
  "equals_int v n =
     (case v of JInt i \<Rightarrow> i = n | JBool b \<Rightarrow> n = (if b then 1 else 0) | JReal t \<Rightarrow> t = show_int n @ ''.0'' | _ \<Rightarrow> False)"

section \<open>Recovery\<close>

text \<open>Sequence number and hash of a line, with the exceptions of \<open>json.loads\<close>, the subscripts and \<open>int\<close>.\<close>

definition tail_of :: "audit_env \<Rightarrow> line \<Rightarrow> (int \<times> string) res" where
  "tail_of env l =
     (case l of
        Parsed j \<Rightarrow> res_bind (jindex j ''seq'') (\<lambda>s. res_bind (py_int s)
          (\<lambda>n. res_bind (jindex j ''hash'') (\<lambda>h. Inr (n, py_str env h))))
      | Garbled _ \<Rightarrow> Inl UnicodeDecodeError
      | _ \<Rightarrow> Inl ValueError)"

definition torn_error :: "exn \<Rightarrow> bool" where
  "torn_error e \<longleftrightarrow> e \<in> {ValueError, KeyError, UnicodeDecodeError}"

text \<open>
  Drop the last line and resume from the one before it; the result carries the sequence number of
  \<open>_repaired_from\<close>.
\<close>

definition truncate_torn_tail ::
  "audit_env \<Rightarrow> journal_file \<Rightarrow> (journal_file \<times> int \<times> string \<times> int option) res" where
  "truncate_torn_tail env f =
     (let ls = rev (dropWhile (\<lambda>l. l = Blank) (rev (jf_lines f))) in
      if ls = [] then Inr (f, 0, GENESIS, None)
      else
      let good = butlast ls in
      if good = [] then Inr (\<lparr>jf_lines = [], jf_terminated = True\<rparr>, 0, GENESIS, Some 0)
      else case tail_of env (last good) of
        Inl e \<Rightarrow> Inl (if torn_error e then AuditChainDamaged else e)
      | Inr (n, h) \<Rightarrow> Inr (\<lparr>jf_lines = good, jf_terminated = True\<rparr>, n, h, Some n))"

definition recover_tail ::
  "audit_env \<Rightarrow> journal_file \<Rightarrow> (journal_file \<times> int \<times> string \<times> int option) res" where
  "recover_tail env f =
     (if list_ex is_garbled (jf_lines f) then Inl UnicodeDecodeError
      else case filter (\<lambda>l. l \<noteq> Blank) (jf_lines f) of
        [] \<Rightarrow> Inr (f, 0, GENESIS, None)
      | l # ls \<Rightarrow>
          (case tail_of env (last (l # ls)) of
             Inl e \<Rightarrow> if torn_error e then truncate_torn_tail env f else Inl e
           | Inr (n, h) \<Rightarrow> Inr (f, n, h, None)))"

section \<open>Appending\<close>

definition audit_append :: "audit_env \<Rightarrow> string \<Rightarrow> json \<Rightarrow> string \<Rightarrow> int \<Rightarrow> audit_log \<Rightarrow> audit_record \<times> audit_log" where
  "audit_append env ev payload actor ts st =
     (let seq = al_seq st + 1; prev = al_last_hash st;
          h = digest env (JInt seq) (JInt ts) (JStr (ae_run_id env)) (JStr ev) (JStr actor) payload (JStr prev);
          rec = \<lparr>ar_seq = seq, ar_ts_ns = ts, ar_run_id = ae_run_id env, ar_event = ev, ar_actor = actor,
                 ar_payload = payload, ar_prev_hash = prev, ar_hash = h\<rparr>
      in (rec, \<lparr>al_file = write_line (record_to_dict rec) (al_file st), al_seq = seq, al_last_hash = h\<rparr>))"

definition repair_payload :: "int \<Rightarrow> string \<Rightarrow> string \<Rightarrow> json" where
  "repair_payload seq h sidecar =
     JObj [(''chain_repaired'', JBool True), (''resumed_from_seq'', JInt seq), (''resumed_from_hash'', JStr h),
           (''torn_bytes_saved_to'', JStr sidecar),
           (''note'', JStr (''a torn final line was dropped after an unclean shutdown; '' @
              ''the chain before it is intact and continues here''))]"

definition mk_audit_log :: "audit_env \<Rightarrow> int \<Rightarrow> string \<Rightarrow> journal_file \<Rightarrow> audit_log res" where
  "mk_audit_log env ts sidecar f =
     res_bind (recover_tail env f) (\<lambda>(f', n, h, repaired).
       let st = \<lparr>al_file = f', al_seq = n, al_last_hash = h\<rparr>
       in case repaired of
            None \<Rightarrow> Inr st
          | Some m \<Rightarrow> Inr (snd (audit_append env ''system.start'' (repair_payload m h sidecar) ''audit'' ts st)))"

section \<open>Reading and verifying\<close>

definition unparseable :: "nat \<Rightarrow> json" where
  "unparseable n = JObj [(''__unparseable__'', JBool True), (''__line__'', JInt (int n))]"

fun iter_from :: "nat \<Rightarrow> line list \<Rightarrow> json list" where
  "iter_from n [] = []"
| "iter_from n (Blank # ls) = iter_from (Suc n) ls"
| "iter_from n (Parsed j # ls) = j # iter_from (Suc n) ls"
| "iter_from n (Garbled (Some j) # ls) = j # iter_from (Suc n) ls"
| "iter_from n (_ # ls) = unparseable n # iter_from (Suc n) ls"

definition iter_records :: "journal_file \<Rightarrow> json list" where
  "iter_records f = iter_from 1 (jf_lines f)"

text \<open>\<open>v <= n\<close> for an integer \<open>n\<close>; it raises on what is no number.\<close>

definition at_most_int :: "json \<Rightarrow> int \<Rightarrow> bool res" where
  "at_most_int v n =
     (case v of JInt i \<Rightarrow> Inr (i \<le> n) | JBool b \<Rightarrow> Inr ((if b then 1 else 0) \<le> n)
      | JReal t \<Rightarrow> (let i = read_int (takeWhile (\<lambda>c. c \<noteq> CHR ''.'') t) in
          Inr (if hd t = CHR ''-'' then i \<le> n
               else i < n \<or> i = n \<and> list_all (\<lambda>c. c = CHR ''0'') (tl (dropWhile (\<lambda>c. c \<noteq> CHR ''.'') t))))
      | _ \<Rightarrow> Inl TypeError)"

text \<open>\<open>read\<close>: the filter and the limit; a record without the keys raises.\<close>

fun read_from :: "int \<Rightarrow> string option \<Rightarrow> int option \<Rightarrow> json list \<Rightarrow> json list \<Rightarrow> json list res" where
  "read_from since ev limit out [] = Inr out"
| "read_from since ev limit out (j # js) =
     res_bind (jindex j ''seq'') (\<lambda>s. res_bind (at_most_int s since) (\<lambda>old.
       if old then read_from since ev limit out js
       else res_bind (case ev of None \<Rightarrow> Inr True | Some e \<Rightarrow>
                if e = [] then Inr True else res_bind (jindex j ''event'') (\<lambda>x. Inr (x = JStr e)))
         (\<lambda>keep. if \<not> keep then read_from since ev limit out js
           else let out' = out @ [j] in
             case limit of
               Some m \<Rightarrow> if m \<noteq> 0 \<and> m \<le> int (length out') then Inr out' else read_from since ev limit out' js
             | None \<Rightarrow> read_from since ev limit out' js)))"

definition audit_read :: "int \<Rightarrow> string option \<Rightarrow> int option \<Rightarrow> journal_file \<Rightarrow> json list res" where
  "audit_read since ev limit f = read_from since ev limit [] (iter_records f)"

datatype verdict =
    BadLine json
  | MissingKeys
  | SequenceGap
  | PreviousHashMismatch
  | RecordHashMismatch
  | ChainIntact nat

fun verify_from :: "audit_env \<Rightarrow> string \<Rightarrow> nat \<Rightarrow> json list \<Rightarrow> (bool \<times> json option \<times> verdict) res" where
  "verify_from env prev expected [] = Inr (True, None, ChainIntact (expected - 1))"
| "verify_from env prev expected (j # js) =
     (case j of
        JObj kvs \<Rightarrow>
          if (case dget kvs ''__unparseable__'' of None \<Rightarrow> False | Some x \<Rightarrow> py_truthy x)
          then res_bind (jindex j ''__line__'') (\<lambda>l. Inr (False, None, BadLine l))
          else (case (dget kvs ''seq'', dget kvs ''hash'') of
            (Some seq, Some h) \<Rightarrow>
              if \<not> equals_int seq (int expected) then Inr (False, Some seq, SequenceGap)
              else res_bind (jindex j ''prev_hash'') (\<lambda>p.
                if p \<noteq> JStr prev then Inr (False, Some seq, PreviousHashMismatch)
                else res_bind (jindex j ''ts_ns'') (\<lambda>ts. res_bind (jindex j ''run_id'') (\<lambda>run.
                     res_bind (jindex j ''event'') (\<lambda>ev. res_bind (jindex j ''actor'') (\<lambda>actor.
                     res_bind (jindex j ''payload'') (\<lambda>payload.
                       let recomputed = digest env seq ts run ev actor payload p in
                       if JStr recomputed \<noteq> h then Inr (False, Some seq, RecordHashMismatch)
                       else verify_from env recomputed (Suc expected) js))))))
          | _ \<Rightarrow> Inr (False, None, MissingKeys))
      | _ \<Rightarrow> Inl AttributeError)"

definition verify :: "audit_env \<Rightarrow> journal_file \<Rightarrow> (bool \<times> json option \<times> verdict) res" where
  "verify env f = verify_from env GENESIS 1 (iter_records f)"

section \<open>The abstract journal\<close>

text \<open>An entry: time, event, actor and payload.\<close>

type_synonym entry = "int \<times> string \<times> string \<times> json"

definition entry_record :: "audit_env \<Rightarrow> nat \<Rightarrow> string \<Rightarrow> entry \<Rightarrow> audit_record" where
  "entry_record env n prev e =
     (case e of (ts, ev, actor, payload) \<Rightarrow>
        \<lparr>ar_seq = int n, ar_ts_ns = ts, ar_run_id = ae_run_id env, ar_event = ev, ar_actor = actor,
         ar_payload = payload, ar_prev_hash = prev,
         ar_hash = digest env (JInt (int n)) (JInt ts) (JStr (ae_run_id env)) (JStr ev) (JStr actor) payload (JStr prev)\<rparr>)"

fun chain :: "audit_env \<Rightarrow> nat \<Rightarrow> string \<Rightarrow> entry list \<Rightarrow> audit_record list" where
  "chain env n prev [] = []"
| "chain env n prev (e # es) =
     (let r = entry_record env n prev e in r # chain env (Suc n) (ar_hash r) es)"

definition chain_head :: "string \<Rightarrow> audit_record list \<Rightarrow> string" where
  "chain_head prev rs = (if rs = [] then prev else ar_hash (last rs))"

text \<open>The state the code keeps for a list of entries.\<close>

definition log_of :: "audit_env \<Rightarrow> entry list \<Rightarrow> audit_log" where
  "log_of env es =
     (let rs = chain env 1 GENESIS es in
      \<lparr>al_file = \<lparr>jf_lines = map (Parsed \<circ> record_to_dict) rs, jf_terminated = True\<rparr>, al_seq = int (length es),
       al_last_hash = chain_head GENESIS rs\<rparr>)"

text \<open>
  What can happen to a journal: an append, a restart, and a restart after a write was torn. A torn
  write leaves a prefix of a record, which is not JSON, behind the complete lines.
\<close>

datatype journal_act =
    AppendStep int string string json
  | RestartStep int string
  | TornStep int string

definition torn :: "journal_file \<Rightarrow> journal_file" where
  "torn f = \<lparr>jf_lines = jf_lines f @ [Junk], jf_terminated = False\<rparr>"


fun entry_step :: "audit_env \<Rightarrow> journal_act \<Rightarrow> entry list \<Rightarrow> entry list" where
  "entry_step env (AppendStep ts ev actor payload) es = es @ [(ts, ev, actor, payload)]"
| "entry_step env (RestartStep ts sidecar) es = es"
| "entry_step env (TornStep ts sidecar) es =
     es @ [(ts, ''system.start'', ''audit'',
            repair_payload (int (length es)) (chain_head GENESIS (chain env 1 GENESIS es)) sidecar)]"


section \<open>Lemmas on the chain\<close>

lemma chain_length [simp]: "length (chain env n prev es) = length es"
  by (induction es arbitrary: n prev) (simp_all add: Let_def)

lemma chain_snoc:
  "chain env n prev (es @ [e]) =
     chain env n prev es @ [entry_record env (n + length es) (chain_head prev (chain env n prev es)) e]"
  by (induction es arbitrary: n prev) (simp_all add: Let_def chain_head_def)

lemma chain_head_snoc [simp]: "chain_head prev (rs @ [r]) = ar_hash r"
  by (simp add: chain_head_def)

lemma chain_eq_Nil [simp]: "chain env n prev es = [] \<longleftrightarrow> es = []"
  by (cases es) (simp_all add: Let_def)

lemma append_log_of:
  "snd (audit_append env ev payload actor ts (log_of env es)) = log_of env (es @ [(ts, ev, actor, payload)])"
  by (simp add: audit_append_def log_of_def Let_def chain_snoc entry_record_def write_line_def add.commute)

lemma jindex_record:
  "jindex (record_to_dict r) ''seq'' = Inr (JInt (ar_seq r))"
  "jindex (record_to_dict r) ''hash'' = Inr (JStr (ar_hash r))"
  by (simp_all add: jindex_def record_to_dict_def)

lemma tail_of_record: "tail_of env (Parsed (record_to_dict r)) = Inr (ar_seq r, ar_hash r)"
  by (simp add: tail_of_def jindex_record py_int_def py_str_def)

text \<open>The last record of a chain carries its length.\<close>

lemma last_chain:
  assumes "es \<noteq> []"
  shows "ar_seq (last (chain env 1 GENESIS es)) = int (length es)"
    "ar_hash (last (chain env 1 GENESIS es)) = chain_head GENESIS (chain env 1 GENESIS es)"
proof -
  obtain ds e where "es = ds @ [e]" using assms by (cases es rule: rev_cases) auto
  then show "ar_seq (last (chain env 1 GENESIS es)) = int (length es)"
    by (simp add: chain_snoc entry_record_def split: prod.splits)
qed (use assms in \<open>simp add: chain_head_def\<close>)

lemma recover_tail_lines:
  assumes "ls \<noteq> []" "\<forall>l \<in> set ls. l \<noteq> Blank \<and> \<not> is_garbled l"
  shows "recover_tail env \<lparr>jf_lines = ls, jf_terminated = t\<rparr> =
    (case tail_of env (last ls) of
       Inl e \<Rightarrow> if torn_error e then truncate_torn_tail env \<lparr>jf_lines = ls, jf_terminated = t\<rparr> else Inl e
     | Inr (n, h) \<Rightarrow> Inr (\<lparr>jf_lines = ls, jf_terminated = t\<rparr>, n, h, None))"
proof -
  have "filter (\<lambda>l. l \<noteq> Blank) ls = ls" "\<not> list_ex is_garbled ls"
    using assms(2) by (auto simp: filter_id_conv list_ex_iff)
  moreover obtain k ks where "ls = k # ks" using assms(1) by (cases ls) auto
  ultimately show ?thesis unfolding recover_tail_def by (auto split: if_splits sum.splits)
qed

text \<open>The lines and the counters of the state of a list of entries.\<close>

lemma log_of_lines:
  obtains ls h where
    "log_of env es = \<lparr>al_file = \<lparr>jf_lines = ls, jf_terminated = True\<rparr>, al_seq = int (length es), al_last_hash = h\<rparr>"
    "h = chain_head GENESIS (chain env 1 GENESIS es)" "\<forall>l \<in> set ls. l \<noteq> Blank \<and> \<not> is_garbled l"
    "es = [] \<longleftrightarrow> ls = []" "es = [] \<longrightarrow> h = GENESIS" "es \<noteq> [] \<longrightarrow> tail_of env (last ls) = Inr (int (length es), h)"
proof -
  define rs where "rs = chain env 1 GENESIS es"
  define ls where "ls = map (Parsed \<circ> record_to_dict) rs"
  have t: "es \<noteq> [] \<longrightarrow> tail_of env (last ls) = Inr (int (length es), chain_head GENESIS rs)"
  proof
    assume ne: "es \<noteq> []"
    then have "last ls = Parsed (record_to_dict (last rs))" by (simp add: ls_def rs_def last_map)
    then show "tail_of env (last ls) = Inr (int (length es), chain_head GENESIS rs)"
      using last_chain [OF ne, of env] by (simp only: tail_of_record rs_def)
  qed
  have lo: "log_of env es = \<lparr>al_file = \<lparr>jf_lines = ls, jf_terminated = True\<rparr>, al_seq = int (length es),
      al_last_hash = chain_head GENESIS rs\<rparr>"
    unfolding log_of_def Let_def rs_def ls_def ..
  have "\<forall>l \<in> set ls. l \<noteq> Blank \<and> \<not> is_garbled l" "es = [] \<longleftrightarrow> ls = []" "es = [] \<longrightarrow> chain_head GENESIS rs = GENESIS"
    by (simp_all add: ls_def rs_def chain_head_def)
  from that [OF lo _ this t] show ?thesis by (simp only: rs_def)
qed

lemma restart_log_of: "mk_audit_log env ts sidecar (al_file (log_of env es)) = Inr (log_of env es)"
proof -
  obtain ls h where lo: "log_of env es = \<lparr>al_file = \<lparr>jf_lines = ls, jf_terminated = True\<rparr>, al_seq = int (length es), al_last_hash = h\<rparr>"
    and h: "h = chain_head GENESIS (chain env 1 GENESIS es)"
    and ls: "\<forall>l \<in> set ls. l \<noteq> Blank \<and> \<not> is_garbled l" "es = [] \<longleftrightarrow> ls = []" "es = [] \<longrightarrow> h = GENESIS"
      "es \<noteq> [] \<longrightarrow> tail_of env (last ls) = Inr (int (length es), h)" by (rule log_of_lines)
  show ?thesis
  proof (cases "es = []")
    case True
    then show ?thesis using ls lo by (simp add: mk_audit_log_def recover_tail_def)
  next
    case False
    then show ?thesis using ls lo by (simp add: mk_audit_log_def recover_tail_lines)
  qed
qed

lemma torn_log_of:
  "mk_audit_log env ts sidecar (torn (al_file (log_of env es))) = Inr (log_of env (entry_step env (TornStep ts sidecar) es))"
proof -
  obtain ls h where lo: "log_of env es = \<lparr>al_file = \<lparr>jf_lines = ls, jf_terminated = True\<rparr>, al_seq = int (length es), al_last_hash = h\<rparr>"
    and h: "h = chain_head GENESIS (chain env 1 GENESIS es)"
    and ls: "\<forall>l \<in> set ls. l \<noteq> Blank \<and> \<not> is_garbled l" "es = [] \<longleftrightarrow> ls = []" "es = [] \<longrightarrow> h = GENESIS"
      "es \<noteq> [] \<longrightarrow> tail_of env (last ls) = Inr (int (length es), h)" by (rule log_of_lines)
  have "truncate_torn_tail env \<lparr>jf_lines = ls @ [Junk], jf_terminated = False\<rparr> =
      Inr (\<lparr>jf_lines = ls, jf_terminated = True\<rparr>, int (length es), h, Some (int (length es)))"
    using ls by (cases "es = []") (simp_all add: truncate_torn_tail_def)
  then have "recover_tail env \<lparr>jf_lines = ls @ [Junk], jf_terminated = False\<rparr> =
      Inr (\<lparr>jf_lines = ls, jf_terminated = True\<rparr>, int (length es), h, Some (int (length es)))"
    using ls by (subst recover_tail_lines) (auto simp: tail_of_def torn_error_def)
  then have "mk_audit_log env ts sidecar (torn (al_file (log_of env es))) =
      Inr (snd (audit_append env ''system.start'' (repair_payload (int (length es)) h sidecar) ''audit'' ts (log_of env es)))"
    by (simp add: mk_audit_log_def torn_def lo)
  then show ?thesis by (simp only: append_log_of h entry_step.simps)
qed

section \<open>Runs refine the list of entries\<close>


lemma iter_from_parsed: "iter_from n (map (Parsed \<circ> f) rs) = map f rs"
  by (induction rs arbitrary: n) simp_all

lemma iter_from_append: "iter_from n (map (Parsed \<circ> f) rs @ ls) = map f rs @ iter_from (n + length rs) ls"
  by (induction rs arbitrary: n) simp_all

lemma verify_chain_append:
  "verify_from env prev (Suc n) (map record_to_dict (chain env (Suc n) prev es) @ js) =
     verify_from env (chain_head prev (chain env (Suc n) prev es)) (Suc n + length es) js"
proof (induction es arbitrary: n prev)
  case (Cons e es)
  show ?case
    using Cons [of "ar_hash (entry_record env (Suc n) prev e)" "Suc n"]
    by (simp add: Let_def record_to_dict_def entry_record_def equals_int_def jindex_def chain_head_def split: prod.splits)
qed (simp add: chain_head_def)

lemma verify_chain:
  "verify_from env prev (Suc n) (map record_to_dict (chain env (Suc n) prev es)) = Inr (True, None, ChainIntact (n + length es))"
  using verify_chain_append [of env prev n es "[]"] by simp

lemma verify_log_of: "verify env (al_file (log_of env es)) = Inr (True, None, ChainIntact (length es))"
  using verify_chain [of env GENESIS 0 es]
  by (simp add: verify_def iter_records_def log_of_def Let_def iter_from_parsed)


section \<open>Tampering\<close>

definition field :: "json \<Rightarrow> string \<Rightarrow> json" where
  "field j k = (case jindex j k of Inr v \<Rightarrow> v | Inl _ \<Rightarrow> JNull)"

text \<open>The part of a record that is hashed, its text, and the hash.\<close>

definition signed_part :: "json \<Rightarrow> json" where
  "signed_part j = digest_body (field j ''seq'') (field j ''ts_ns'') (field j ''run_id'') (field j ''event'')
     (field j ''actor'') (field j ''payload'') (field j ''prev_hash'')"

definition signed_text :: "json \<Rightarrow> string" where
  "signed_text j = dumps (canon (signed_part j))"

definition last_hash :: "audit_env \<Rightarrow> string \<Rightarrow> json list \<Rightarrow> string" where
  "last_hash env prev js = (if js = [] then prev else ae_sha256 env (signed_text (last js)))"

fun linked :: "audit_env \<Rightarrow> string \<Rightarrow> json list \<Rightarrow> bool" where
  "linked env prev [] \<longleftrightarrow> True"
| "linked env prev (j # js) \<longleftrightarrow> field j ''prev_hash'' = JStr prev
     \<and> field j ''hash'' = JStr (ae_sha256 env (signed_text j)) \<and> linked env (ae_sha256 env (signed_text j)) js"

lemma linked_snoc:
  "linked env prev (js @ [j]) \<longleftrightarrow> linked env prev js \<and> field j ''prev_hash'' = JStr (last_hash env prev js)
     \<and> field j ''hash'' = JStr (ae_sha256 env (signed_text j))"
  by (induction js arbitrary: prev) (auto simp: last_hash_def)

lemma verify_linked:
  "verify_from env prev n js = Inr (True, b, v) \<Longrightarrow> linked env prev js \<and> v = ChainIntact (n + length js - 1)"
proof (induction js arbitrary: n prev)
  case (Cons j js)
  obtain kvs where j: "j = JObj kvs" using Cons.prems by (cases j) auto
  note prem = Cons.prems [unfolded j, simplified]
  obtain seq h where sh: "dget kvs ''seq'' = Some seq" "dget kvs ''hash'' = Some h"
    using prem by (cases "dget kvs ''seq''"; cases "dget kvs ''hash''") (auto simp: res_bind_Inr_iff split: if_splits)
  obtain p ts run ev actor payload where f: "jindex j ''prev_hash'' = Inr p" "p = JStr prev" "jindex j ''ts_ns'' = Inr ts"
      "jindex j ''run_id'' = Inr run" "jindex j ''event'' = Inr ev" "jindex j ''actor'' = Inr actor"
      "jindex j ''payload'' = Inr payload" "h = JStr (digest env seq ts run ev actor payload p)"
    and rest: "verify_from env (digest env seq ts run ev actor payload p) (Suc n) js = Inr (True, b, v)"
    using prem sh unfolding j by (auto simp: res_bind_Inr_iff Let_def split: if_splits)
  have "signed_part j = digest_body seq ts run ev actor payload p"
    using f sh unfolding signed_part_def field_def by (simp add: j jindex_def)
  then have t: "digest env seq ts run ev actor payload p = ae_sha256 env (signed_text j)"
    by (simp add: digest_def signed_text_def)
  have "field j ''prev_hash'' = JStr prev" "field j ''hash'' = JStr (ae_sha256 env (signed_text j))"
    using f sh t by (simp_all add: field_def j jindex_def)
  then show ?case using Cons.IH [OF rest] t by simp
qed simp

lemma canon_digest_body:
  "canon (digest_body seq ts run ev actor payload prev) =
     JObj [(''actor'', canon actor), (''event'', canon ev), (''payload'', canon payload), (''prev_hash'', canon prev),
           (''run_id'', canon run), (''seq'', canon seq), (''ts_ns'', canon ts)]"
  by (simp add: digest_body_def sort_key_def less_eq_char_def list_le_def less_char_def)

lemma canon_ok: "json_ok v \<Longrightarrow> json_ok (canon v)"
  by (induction v) (fastforce simp: list_all_iff)+

lemma field_ok: "json_ok j \<Longrightarrow> json_ok (field j k)"
  by (cases j) (auto simp: field_def jindex_def list_all_iff dest: map_of_SomeD split: option.splits)

lemma signed_text_inj:
  assumes "signed_text j = signed_text k" "json_ok j" "json_ok k"
  shows "canon (signed_part j) = canon (signed_part k)"
proof -
  have "json_ok (canon (signed_part i))" if "json_ok i" for i
    using that by (intro canon_ok) (simp add: signed_part_def digest_body_def field_ok)
  then show ?thesis using assms by (intro dumps_inj) (simp_all add: signed_text_def)
qed

definition clash :: "audit_env \<Rightarrow> json list \<Rightarrow> json list \<Rightarrow> bool" where
  "clash env js ks \<longleftrightarrow> list_ex (\<lambda>j. list_ex (\<lambda>k. signed_text j \<noteq> signed_text k
     \<and> ae_sha256 env (signed_text j) = ae_sha256 env (signed_text k)) ks) js"

text \<open>Two chains of one length with one head agree record by record, from the last to the first.\<close>

lemma linked_agree:
  assumes "length js = length ks" "linked env p js" "linked env q ks" "last_hash env p js = last_hash env q ks"
    "list_all json_ok js" "list_all json_ok ks" "\<not> clash env js ks"
  shows "map (canon \<circ> signed_part) js = map (canon \<circ> signed_part) ks"
  using assms
proof (induction js arbitrary: ks rule: rev_induct)
  case (snoc j js)
  obtain k ks' where ks: "ks = ks' @ [k]" using snoc.prems(1) by (cases ks rule: rev_cases) auto
  have "ae_sha256 env (signed_text j) = ae_sha256 env (signed_text k)" using snoc.prems(4) by (simp add: last_hash_def ks)
  then have "signed_text j = signed_text k" using snoc.prems(7) by (auto simp: clash_def ks list_ex_iff)
  then have c: "canon (signed_part j) = canon (signed_part k)" using snoc.prems by (intro signed_text_inj) (simp_all add: ks)
  then have "canon (field j ''prev_hash'') = canon (field k ''prev_hash'')"
    by (simp add: signed_part_def canon_digest_body)
  then have "last_hash env p js = last_hash env q ks'"
    using snoc.prems(2,3) by (simp add: linked_snoc ks)
  moreover have "\<not> clash env js ks'" using snoc.prems(7) by (auto simp: clash_def ks list_ex_iff)
  ultimately have "map (canon \<circ> signed_part) js = map (canon \<circ> signed_part) ks'"
    using snoc.prems by (intro snoc.IH) (simp_all add: ks linked_snoc)
  then show ?case using c ks by (simp add: comp_def)
qed simp

definition journal_head :: "journal_file \<Rightarrow> json" where
  "journal_head f = (let js = iter_records f in if js = [] then JStr GENESIS else field (last js) ''hash'')"

lemma linked_head: "linked env prev js \<Longrightarrow> js \<noteq> [] \<Longrightarrow> field (last js) ''hash'' = JStr (last_hash env prev js)"
  by (cases js rule: rev_cases) (simp_all add: linked_snoc last_hash_def)

text \<open>
  C31. The chain is tamper evident. If two files verify with the same number of records and the same
  head hash, then they agree on every record in all hashed fields (up to the order of keys), or two
  of their records are different texts with the same SHA-256 value.
\<close>

theorem journal_tamper_evident:
  assumes "verify env f = Inr (True, None, ChainIntact n)" "verify env g = Inr (True, None, ChainIntact n)"
    and "journal_head f = journal_head g"
    and "list_all json_ok (iter_records f)" "list_all json_ok (iter_records g)"
  shows "map (canon \<circ> signed_part) (iter_records f) = map (canon \<circ> signed_part) (iter_records g)
    \<or> clash env (iter_records f) (iter_records g)"
proof -
  have f: "linked env GENESIS (iter_records f)" "n = length (iter_records f)"
    using verify_linked [OF assms(1) [unfolded verify_def]] by simp_all
  have g: "linked env GENESIS (iter_records g)" "n = length (iter_records g)"
    using verify_linked [OF assms(2) [unfolded verify_def]] by simp_all
  have "last_hash env GENESIS (iter_records f) = last_hash env GENESIS (iter_records g)"
  proof (cases "n = 0")
    case True
    then show ?thesis using f g by simp
  next
    case False
    then have ne: "iter_records f \<noteq> []" "iter_records g \<noteq> []" using f g by auto
    then show ?thesis
      using linked_head [OF f(1) ne(1)] linked_head [OF g(1) ne(2)] assms(3) by (simp add: journal_head_def Let_def)
  qed
  then show ?thesis using linked_agree [OF _ f(1) g(1) _ assms(4,5)] f(2) g(2) by auto
qed

definition demo_env :: audit_env where
  "demo_env = \<lparr>ae_sha256 = id, ae_run_id = ''r1'', ae_str = (\<lambda>_. '''')\<rparr>"

definition demo_entry :: "json \<Rightarrow> entry" where
  "demo_entry p = (1, ''order.sent'', ''system'', p)"

theorem journal_tamper_evident_witness:
  "let f = al_file (log_of demo_env [demo_entry (JObj [(''a'', JInt 1), (''b'', JReal ''1.5'')])]);
       g = al_file (log_of demo_env [demo_entry (JObj [(''b'', JReal ''1.5''), (''a'', JInt 1)])])
   in f \<noteq> g \<and> (map (canon \<circ> signed_part) (iter_records f) = map (canon \<circ> signed_part) (iter_records g)
      \<or> clash demo_env (iter_records f) (iter_records g))"
proof -
  let ?e = "demo_entry (JObj [(''a'', JInt 1), (''b'', JReal ''1.5'')])"
  let ?d = "demo_entry (JObj [(''b'', JReal ''1.5''), (''a'', JInt 1)])"
  let ?f = "al_file (log_of demo_env [?e])" and ?g = "al_file (log_of demo_env [?d])"
  have v: "verify demo_env ?f = Inr (True, None, ChainIntact 1)" "verify demo_env ?g = Inr (True, None, ChainIntact 1)"
    using verify_log_of [of demo_env "[?e]"] verify_log_of [of demo_env "[?d]"] by simp_all
  have h: "journal_head ?f = journal_head ?g" by code_simp
  have o: "list_all json_ok (iter_records ?f)" "list_all json_ok (iter_records ?g)" by code_simp+
  have "?f \<noteq> ?g" by code_simp
  then show ?thesis using journal_tamper_evident [OF v h o] unfolding Let_def by blast
qed

text \<open>
  What the chain does not show: a journal cut off after any number of its records verifies, and
  a restart continues it as if the records had never been written. The module documentation says
  that deleting a line breaks the chain.
\<close>

theorem truncated_journal_verifies:
  "let f = \<lparr>jf_lines = take k (jf_lines (al_file (log_of env es))), jf_terminated = True\<rparr>
   in verify env f = Inr (True, None, ChainIntact (min k (length es)))
      \<and> mk_audit_log env ts sidecar f = Inr (log_of env (take k es))"
proof -
  have c: "take k (chain env n prev es) = chain env n prev (take k es)" for n prev
    by (induction es arbitrary: k n prev) (simp_all add: take_Cons' Let_def)
  have f: "\<lparr>jf_lines = take k (jf_lines (al_file (log_of env es))), jf_terminated = True\<rparr> = al_file (log_of env (take k es))"
    by (simp add: log_of_def Let_def take_map c)
  show ?thesis
    unfolding f Let_def using verify_log_of [of env "take k es"] restart_log_of [of env ts sidecar "take k es"]
    by (simp add: min.commute)
qed

text \<open>
  A write that is torn between the record and its newline goes unnoticed: the restart reports no
  repair, the next append is written onto the same line, the journal no longer verifies, and the
  restart after that drops both records, among them one that was complete before the crash.
\<close>

theorem torn_newline_loses_records:
  "let f = (al_file (log_of env (es @ [d])))\<lparr>jf_terminated := False\<rparr> in
   case mk_audit_log env ts sidecar f of
     Inl _ \<Rightarrow> False
   | Inr st \<Rightarrow> al_file st = f
       \<and> (let st' = snd (audit_append env ev payload actor ts' st) in
          al_seq st' = int (length es) + 2
          \<and> verify env (al_file st') = Inr (False, None, BadLine (JInt (int (length es) + 1)))
          \<and> mk_audit_log env ts sidecar (al_file st') = Inr (log_of env (entry_step env (TornStep ts sidecar) es)))"
proof -
  obtain ls h where lo: "log_of env es = \<lparr>al_file = \<lparr>jf_lines = ls, jf_terminated = True\<rparr>, al_seq = int (length es), al_last_hash = h\<rparr>"
    and h: "h = chain_head GENESIS (chain env 1 GENESIS es)"
    and ls: "\<forall>l \<in> set ls. l \<noteq> Blank \<and> \<not> is_garbled l" "es = [] \<longleftrightarrow> ls = []" "es = [] \<longrightarrow> h = GENESIS"
      "es \<noteq> [] \<longrightarrow> tail_of env (last ls) = Inr (int (length es), h)" by (rule log_of_lines)
  define r where "r = entry_record env (1 + length es) h d"
  have seq: "ar_seq r = int (length es) + 1" by (simp add: r_def entry_record_def split: prod.splits)
  have ld: "log_of env (es @ [d]) = \<lparr>al_file = \<lparr>jf_lines = ls @ [Parsed (record_to_dict r)], jf_terminated = True\<rparr>,
      al_seq = int (length es) + 1, al_last_hash = ar_hash r\<rparr>"
    using lo unfolding log_of_def Let_def chain_snoc h r_def by (simp add: h [symmetric])
  let ?f = "\<lparr>jf_lines = ls @ [Parsed (record_to_dict r)], jf_terminated = False\<rparr>"
  have m: "mk_audit_log env ts sidecar ?f = Inr \<lparr>al_file = ?f, al_seq = int (length es) + 1, al_last_hash = ar_hash r\<rparr>"
    using ls by (simp add: mk_audit_log_def recover_tail_lines tail_of_record seq)
  let ?st' = "snd (audit_append env ev payload actor ts' \<lparr>al_file = ?f, al_seq = int (length es) + 1, al_last_hash = ar_hash r\<rparr>)"
  have st': "al_file ?st' = (torn \<lparr>jf_lines = ls, jf_terminated = True\<rparr>)\<lparr>jf_terminated := True\<rparr>" "al_seq ?st' = int (length es) + 2"
    by (simp_all add: audit_append_def Let_def write_line_def torn_def)
  have l: "ls = map (Parsed \<circ> record_to_dict) (chain env (Suc 0) GENESIS es)" using lo by (simp add: log_of_def Let_def)
  have v: "verify env (al_file ?st') = Inr (False, None, BadLine (JInt (int (length es) + 1)))"
    unfolding st'(1) using verify_chain_append [of env GENESIS 0 es "[unparseable (Suc (length es))]"]
    by (simp add: add.commute torn_def verify_def iter_records_def l iter_from_append unparseable_def jindex_def py_truthy_def)
  have "mk_audit_log env ts sidecar (al_file ?st') = mk_audit_log env ts sidecar (torn \<lparr>jf_lines = ls, jf_terminated = True\<rparr>)"
    using ls unfolding st' by (simp add: torn_def mk_audit_log_def recover_tail_lines tail_of_def torn_error_def truncate_torn_tail_def)
  then show ?thesis using m v st'(2) torn_log_of [of env ts sidecar es] by (simp add: Let_def ld lo)
qed

text \<open>
  Lines the code means to report make it raise: a complete JSON value that is no object stops
  \<open>verify\<close> with an \<open>AttributeError\<close> and a restart with a \<open>TypeError\<close>; a torn line that ends inside a
  multi-byte character stops the restart with a \<open>UnicodeDecodeError\<close>; and \<open>read\<close> raises a \<open>KeyError\<close>
  on a journal with an unparseable line, which \<open>iter_records\<close> hands it as data.
\<close>

theorem damaged_lines_raise:
  "let ls = jf_lines (al_file (log_of env es)) in
     verify env \<lparr>jf_lines = ls @ [Parsed (JInt i)], jf_terminated = t\<rparr> = Inl AttributeError
   \<and> mk_audit_log env ts sidecar \<lparr>jf_lines = ls @ [Parsed (JInt i)], jf_terminated = t\<rparr> = Inl TypeError
   \<and> mk_audit_log env ts sidecar \<lparr>jf_lines = ls @ [Garbled x], jf_terminated = False\<rparr> = Inl UnicodeDecodeError
   \<and> audit_read since ev None \<lparr>jf_lines = ls @ [Junk], jf_terminated = t\<rparr> = Inl KeyError"
proof -
  define rs where "rs = chain env (Suc 0) GENESIS es"
  have l: "jf_lines (al_file (log_of env es)) = map (Parsed \<circ> record_to_dict) rs"
    by (simp add: log_of_def Let_def rs_def)
  have ok: "\<forall>l \<in> set (map (Parsed \<circ> record_to_dict) rs). l \<noteq> Blank \<and> \<not> is_garbled l" by simp
  have "verify_from env GENESIS 1 (map record_to_dict rs @ [JInt i]) = Inl AttributeError"
    using verify_chain_append [of env GENESIS 0 es "[JInt i]"] by (simp add: rs_def)
  moreover have "tail_of env (Parsed (JInt i)) = Inl TypeError" by (simp add: tail_of_def jindex_def)
  moreover have "read_from since ev None out (map record_to_dict rs @ [unparseable n]) = Inl KeyError" for n out
  proof (induction rs arbitrary: out)
    case Nil
    then show ?case by (simp add: unparseable_def jindex_def)
  next
    case (Cons r rs)
    then show ?case by (auto simp: jindex_def record_to_dict_def at_most_int_def Let_def split: option.splits)
  qed
  ultimately show ?thesis
    using ok by (simp add: l Let_def verify_def iter_records_def iter_from_append audit_read_def
      mk_audit_log_def recover_tail_lines torn_error_def recover_tail_def [of env "\<lparr>jf_lines = _ @ [Garbled x], jf_terminated = _\<rparr>"])
qed

end
