(* ===== verification/PaperBroker.thy ===== *)
theory PaperBroker
  imports OMS Civil AuditChain
begin

text \<open>
  \<open>src/sentinel/brokers/paper.py\<close>: the simulated venue, behind the interface of
  \<open>src/sentinel/brokers/base.py\<close>. The state is one record; the operations that may raise are actions
  on it that also return the state at the moment of the exception. The random generator and the
  floating-point square root are arguments (\<open>rng\<close>): each draw takes and returns the generator's
  state. A transaction keeps its number, kind, client id and time; its further fields, the texts of
  rejections and the open-orders listing of the dashboard are left out.
\<close>

section \<open>Parameters and state\<close>

record 'r rng =
  rng_random :: "'r \<Rightarrow> pyfloat \<times> 'r"
  rng_uniform :: "pyfloat \<Rightarrow> pyfloat \<Rightarrow> 'r \<Rightarrow> pyfloat \<times> 'r"
  rng_gauss :: "pyfloat \<Rightarrow> pyfloat \<Rightarrow> 'r \<Rightarrow> pyfloat \<times> 'r"
  float_sqrt :: "pyfloat \<Rightarrow> pyfloat"

record sim_profile =
  base_spread_pips :: "(string, dec) dict"
  default_spread_pips :: dec
  commission_per_lot_round_turn :: dec
  asia_spread_multiple :: dec
  london_spread_multiple :: dec
  rollover_spread_multiple :: dec
  news_spread_multiple :: dec
  latency_ms_median :: pyfloat
  latency_ms_tail :: pyfloat
  latency_tail_prob :: pyfloat
  slippage_pips_mean :: dec
  slippage_pips_sigma :: dec
  adverse_slippage_prob :: pyfloat
  last_look_reject_prob :: pyfloat
  last_look_favourable_bias :: pyfloat
  partial_fill_threshold_lots :: dec
  partial_fill_ratio :: dec
  swap_long_pips_per_day :: "(string, dec) dict"
  swap_short_pips_per_day :: "(string, dec) dict"
  triple_swap_weekday :: int
  stop_out_margin_level_pct :: dec
  margin_call_level_pct :: dec
  negative_balance_protection :: bool
  cost_multiplier :: dec
  latency_multiplier :: pyfloat

definition default_sim_profile :: sim_profile where
  "default_sim_profile =
     \<lparr>base_spread_pips = [], default_spread_pips = 6/10, commission_per_lot_round_turn = 7,
      asia_spread_multiple = 26/10, london_spread_multiple = 1, rollover_spread_multiple = 6,
      news_spread_multiple = 5, latency_ms_median = 85, latency_ms_tail = 420, latency_tail_prob = 7/100,
      slippage_pips_mean = 15/100, slippage_pips_sigma = 35/100, adverse_slippage_prob = 68/100,
      last_look_reject_prob = 15/1000, last_look_favourable_bias = 35/10, partial_fill_threshold_lots = 2,
      partial_fill_ratio = 6/10, swap_long_pips_per_day = [], swap_short_pips_per_day = [],
      triple_swap_weekday = 2, stop_out_margin_level_pct = 50, margin_call_level_pct = 100,
      negative_balance_protection = True, cost_multiplier = 1, latency_multiplier = 1\<rparr>"

definition fmul :: "pyfloat \<Rightarrow> pyfloat \<Rightarrow> pyfloat" where
  "fmul x y = fround (fround x * fround y)"

definition stressed :: "dec \<Rightarrow> pyfloat \<Rightarrow> sim_profile \<Rightarrow> sim_profile" where
  "stressed cost_x latency_x p = p\<lparr>cost_multiplier := dmul (cost_multiplier p) cost_x,
     latency_multiplier := fmul (latency_multiplier p) latency_x\<rparr>"

record 'r paper_config =
  pc_instruments :: "(string, instrument) dict"
  pc_profile :: sim_profile
  pc_ccy :: string
  pc_account_id :: string
  pc_timeout_ms :: pyfloat
  pc_rng :: "'r rng"

record txn =
  tx_id :: nat
  tx_kind :: string
  tx_client_order_id :: string
  tx_ts_ns :: int

record 'r paper =
  pb_balance :: dec
  pb_quotes :: "(string, quote) dict"
  pb_conversions :: "(string, dec) dict"
  pb_positions :: "(string, position) dict"
  pb_orders :: "(string, order) dict"
  pb_closed :: "closed_trade list"
  pb_transactions :: "txn list"
  pb_txn_seq :: nat
  pb_now_ns :: int
  pb_news_window :: bool
  pb_last_rollover_day :: "int option"
  pb_peak_equity :: dec
  pb_trade_seq :: nat
  pb_unvalued :: "string list"
  pb_rng :: 'r

definition mk_paper :: "'r paper_config \<Rightarrow> dec \<Rightarrow> int \<Rightarrow> 'r \<Rightarrow> 'r paper" where
  "mk_paper cfg balance start_ns seed =
     \<lparr>pb_balance = balance, pb_quotes = [], pb_conversions = [(pc_ccy cfg @ ''_'' @ pc_ccy cfg, 1)],
      pb_positions = [], pb_orders = [], pb_closed = [], pb_transactions = [], pb_txn_seq = 0,
      pb_now_ns = start_ns, pb_news_window = False, pb_last_rollover_day = None, pb_peak_equity = balance,
      pb_trade_seq = 0, pb_unvalued = [], pb_rng = seed\<rparr>"

type_synonym ('r, 'a) paper_action = "('r paper, 'a) action"

text \<open>\<open>D[k]\<close> on a dictionary.\<close>

definition lookup :: "('k, 'v) dict \<Rightarrow> 'k \<Rightarrow> 'v res" where
  "lookup d k = (case dget d k of None \<Rightarrow> Inl KeyError | Some v \<Rightarrow> Inr v)"

definition record_txn :: "string \<Rightarrow> string \<Rightarrow> 'r paper \<Rightarrow> 'r paper" where
  "record_txn kind cid s =
     (let n = pb_txn_seq s + 1 in
      s\<lparr>pb_txn_seq := n,
        pb_transactions := pb_transactions s @
          [\<lparr>tx_id = n, tx_kind = kind, tx_client_order_id = cid, tx_ts_ns = pb_now_ns s\<rparr>]\<rparr>)"

section \<open>Simulation control\<close>

definition set_time :: "int \<Rightarrow> ('r, unit) paper_action" where
  "set_time ns s = (if ns < pb_now_ns s then (Inl ValueError, s) else (Inr (), s\<lparr>pb_now_ns := ns\<rparr>))"

definition set_news_window :: "bool \<Rightarrow> 'r paper \<Rightarrow> 'r paper" where
  "set_news_window active s = s\<lparr>pb_news_window := active\<rparr>"

definition set_conversion :: "'r paper_config \<Rightarrow> string \<Rightarrow> dec \<Rightarrow> 'r paper \<Rightarrow> 'r paper" where
  "set_conversion cfg quote rate s =
     s\<lparr>pb_conversions := dset (pb_conversions s) (quote @ ''_'' @ pc_ccy cfg) rate\<rparr>"

section \<open>Friction\<close>

definition session_multiple :: "sim_profile \<Rightarrow> int \<Rightarrow> dec" where
  "session_multiple p ts_ns =
     (let dt = from_timestamp_ns ts_ns; hm = dt_hour dt * 60 + dt_minute dt in
      if 20 * 60 + 45 \<le> hm \<and> hm \<le> 21 * 60 + 15 then rollover_spread_multiple p
      else if 7 * 60 \<le> hm \<and> hm < 16 * 60 then london_spread_multiple p
      else if 21 * 60 \<le> hm \<or> hm < 6 * 60 then asia_spread_multiple p
      else 14/10)"

definition spread_pips :: "'r paper_config \<Rightarrow> instrument \<Rightarrow> int \<Rightarrow> 'r paper \<Rightarrow> dec" where
  "spread_pips cfg inst ts_ns s =
     (let p = pc_profile cfg;
          base = dget_default (base_spread_pips p) (symbol inst) (default_spread_pips p);
          mult = dmul (session_multiple p ts_ns) (cost_multiplier p);
          mult' = (if pb_news_window s then dmul mult (news_spread_multiple p) else mult)
      in dmul base mult')"

definition spread_price :: "'r paper_config \<Rightarrow> instrument \<Rightarrow> int \<Rightarrow> 'r paper \<Rightarrow> dec" where
  "spread_price cfg inst ts_ns s = dmul (spread_pips cfg inst ts_ns s) (pip inst)"

text \<open>A draw: the generator's state is part of the broker's.\<close>

definition draw :: "('r \<Rightarrow> pyfloat \<times> 'r) \<Rightarrow> 'r paper \<Rightarrow> pyfloat \<times> 'r paper" where
  "draw f s = (let (x, r) = f (pb_rng s) in (x, s\<lparr>pb_rng := r\<rparr>))"

definition latency_ms :: "'r paper_config \<Rightarrow> 'r paper \<Rightarrow> pyfloat \<times> 'r paper" where
  "latency_ms cfg s =
     (let p = pc_profile cfg; g = pc_rng cfg;
          (x, s1) = draw (rng_random g) s
      in if x < latency_tail_prob p then (fmul (latency_ms_tail p) (latency_multiplier p), s1)
         else let (u, s2) = draw (rng_uniform g (6/10) (16/10)) s1
              in (fmul (fmul (latency_ms_median p) u) (latency_multiplier p), s2))"

text \<open>\<open>dec(round(x, 5))\<close> on a double.\<close>

definition round5 :: "pyfloat \<Rightarrow> dec" where
  "round5 x = of_int (round_half_even (x * 100000)) / 100000"

definition slippage_pips :: "'r paper_config \<Rightarrow> pyfloat option \<Rightarrow> 'r paper \<Rightarrow> dec \<times> 'r paper" where
  "slippage_pips cfg latency s =
     (let p = pc_profile cfg; g = pc_rng cfg;
          (z, s1) = draw (rng_gauss g (fround (slippage_pips_mean p)) (fround (slippage_pips_sigma p))) s;
          m = \<bar>z\<bar>;
          m' = (case latency of
                  Some l \<Rightarrow> if 0 < latency_ms_median p then fmul m (float_sqrt g (max 1 (fdiv l (latency_ms_median p)))) else m
                | None \<Rightarrow> m);
          (x, s2) = draw (rng_random g) s1
      in (round5 (if x < adverse_slippage_prob p then m' else - m'), s2))"

definition last_look_rejects :: "'r paper_config \<Rightarrow> bool \<Rightarrow> 'r paper \<Rightarrow> bool \<times> 'r paper" where
  "last_look_rejects cfg favourable s =
     (let p = last_look_reject_prob (pc_profile cfg);
          q = (if favourable then min (95/100) (fmul p (last_look_favourable_bias (pc_profile cfg))) else p);
          (x, s1) = draw (rng_random (pc_rng cfg)) s
      in (x < q, s1))"

section \<open>Prices and the account\<close>

definition paper_quote :: "string \<Rightarrow> 'r paper \<Rightarrow> quote res" where
  "paper_quote name s = (case dget (pb_quotes s) name of None \<Rightarrow> Inl BrokerError | Some q \<Rightarrow> Inr q)"

definition conversion_to :: "string \<Rightarrow> string \<Rightarrow> 'r paper \<Rightarrow> dec res" where
  "conversion_to quote acct s =
     (if quote = acct then Inr 1
      else case dget (pb_conversions s) (quote @ ''_'' @ acct) of
        Some r \<Rightarrow> Inr r
      | None \<Rightarrow>
          (case dget (pb_conversions s) (acct @ ''_'' @ quote) of
             Some r \<Rightarrow> if r \<noteq> 0 then Inr (ddiv 1 r) else Inl ConversionMissingError
           | None \<Rightarrow> Inl ConversionMissingError))"

definition conv_of :: "'r paper_config \<Rightarrow> instrument \<Rightarrow> 'r paper \<Rightarrow> dec res" where
  "conv_of cfg inst s = conversion_to (quote_ccy inst) (pc_ccy cfg) s"

text \<open>The loop of \<open>account\<close>: unrealised profit, margin and the positions without a rate.\<close>

fun mark_positions ::
  "'r paper_config \<Rightarrow> 'r paper \<Rightarrow> position list \<Rightarrow> dec \<times> dec \<times> string list \<Rightarrow> (dec \<times> dec \<times> string list) res" where
  "mark_positions cfg s [] acc = Inr acc"
| "mark_positions cfg s (pos # ps) (unreal, margin, unvalued) =
     (case dget (pc_instruments cfg) (p_instrument pos) of
        None \<Rightarrow> Inl KeyError
      | Some inst \<Rightarrow>
          (case dget (pb_quotes s) (p_instrument pos) of
             None \<Rightarrow> mark_positions cfg s ps (unreal, margin, unvalued)
           | Some q \<Rightarrow>
               (case conv_of cfg inst s of
                  Inl ConversionMissingError \<Rightarrow> mark_positions cfg s ps (unreal, margin, unvalued @ [p_instrument pos])
                | Inl e \<Rightarrow> Inl e
                | Inr conv \<Rightarrow> mark_positions cfg s ps
                    (dadd unreal (unrealised pos q inst conv),
                     dadd margin (dmul (dmul (dmul (units inst (p_lots pos)) (quote_mid q)) (margin_rate inst)) conv),
                     unvalued))))"

definition paper_account :: "'r paper_config \<Rightarrow> ('r, account_state) paper_action" where
  "paper_account cfg s =
     (case mark_positions cfg s (dvalues (pb_positions s)) (0, 0, []) of
        Inl e \<Rightarrow> (Inl e, s)
      | Inr (unreal, margin, unvalued) \<Rightarrow>
          let equity = dadd (pb_balance s) unreal
          in (Inr \<lparr>ac_account_id = pc_account_id cfg, ac_currency = pc_ccy cfg, ac_balance = pb_balance s,
                ac_equity = equity, ac_margin_used = margin, ac_margin_available = dsub equity margin,
                ac_unrealised_pnl = unreal, ac_open_positions = length (pb_positions s), ac_account_type = ''demo''\<rparr>,
              s\<lparr>pb_unvalued := unvalued, pb_peak_equity := max (pb_peak_equity s) equity\<rparr>))"

definition last_transaction_id :: "'r paper \<Rightarrow> string" where
  "last_transaction_id s = show_int (int (pb_txn_seq s))"

definition open_orders :: "'r paper \<Rightarrow> order list" where
  "open_orders s = filter (\<lambda>y. \<not> terminal (o_state y)) (dvalues (pb_orders s))"

section \<open>Closing\<close>

text \<open>
  \<open>_realise\<close>: closes \<open>lots\<close> of the position, which the code holds by reference; the updated position
  replaces it in the dictionary or leaves it.
\<close>

definition closing_trade ::
  "nat \<Rightarrow> position \<Rightarrow> instrument \<Rightarrow> dec \<Rightarrow> dec \<Rightarrow> int \<Rightarrow> string \<Rightarrow> dec \<Rightarrow> dec \<Rightarrow> dec \<Rightarrow> dec \<Rightarrow> dec \<Rightarrow> closed_trade" where
  "closing_trade seq pos inst exit_price lots ts_ns reason delta net_pnl commission_share financing_share risk_share =
     \<lparr>ct_trade_seq = seq, ct_strategy = p_strategy pos, ct_instrument = p_instrument pos, ct_side = p_side pos,
      ct_lots = lots, ct_entry_price = p_entry_price pos, ct_exit_price = exit_price, ct_opened_ns = p_opened_ns pos,
      ct_closed_ns = ts_ns, ct_pnl = net_pnl, ct_pnl_pips = ddiv delta (pip inst), ct_commission = commission_share,
      ct_financing = financing_share, ct_initial_risk = risk_share,
      ct_r_multiple = (if 0 < risk_share then ddiv net_pnl risk_share else 0), ct_exit_reason = reason,
      ct_max_favourable_r = p_max_favourable pos, ct_max_adverse_r = p_max_adverse pos\<rparr>"

definition consume_position :: "dec \<Rightarrow> dec \<Rightarrow> dec \<Rightarrow> dec \<Rightarrow> dec \<Rightarrow> dec \<Rightarrow> position \<Rightarrow> position" where
  "consume_position lots commission_share extra financing_share risk_share net_pnl pos =
     pos\<lparr>p_commission_paid := dsub (p_commission_paid pos) (dsub commission_share extra),
         p_financing_paid := dsub (p_financing_paid pos) financing_share,
         p_initial_risk := dsub (p_initial_risk pos) risk_share,
         p_lots := dsub (p_lots pos) lots,
         p_realised_pnl := dadd (p_realised_pnl pos) net_pnl\<rparr>"

definition close_lots ::
  "position \<Rightarrow> instrument \<Rightarrow> dec \<Rightarrow> dec \<Rightarrow> int \<Rightarrow> string \<Rightarrow> dec \<Rightarrow> dec \<Rightarrow> 'r paper \<Rightarrow> 'r paper" where
  "close_lots pos inst exit_price lots ts_ns reason extra conv s =
     (let delta = dmul (dsub exit_price (p_entry_price pos)) (side_sign (p_side pos));
          price_pnl = dmul (dmul delta (units inst lots)) conv;
          fraction = (if 0 < p_lots pos then ddiv lots (p_lots pos) else 1);
          risk_share = dmul (p_initial_risk pos) fraction;
          commission_share = dadd (dmul (p_commission_paid pos) fraction) extra;
          financing_share = dmul (p_financing_paid pos) fraction;
          net_pnl = dadd (dsub price_pnl commission_share) financing_share;
          seq = pb_trade_seq s + 1;
          trade = closing_trade seq pos inst exit_price lots ts_ns reason delta net_pnl commission_share
                    financing_share risk_share;
          pos' = consume_position lots commission_share extra financing_share risk_share net_pnl pos
      in s\<lparr>pb_balance := dadd (pb_balance s) price_pnl, pb_trade_seq := seq,
           pb_closed := pb_closed s @ [trade],
           pb_positions := (if p_lots pos' \<le> 0 then dpop (pb_positions s) (p_instrument pos)
                            else dset (pb_positions s) (p_instrument pos) pos')\<rparr>)"

definition reset_negative :: "'r paper_config \<Rightarrow> 'r paper \<Rightarrow> 'r paper" where
  "reset_negative cfg s =
     (if negative_balance_protection (pc_profile cfg) \<and> pb_balance s < 0
      then (record_txn ''NEGATIVE_BALANCE_RESET'' '''' s)\<lparr>pb_balance := 0\<rparr> else s)"

definition txn_owner :: "position \<Rightarrow> string" where
  "txn_owner pos = (case p_client_order_id pos of None \<Rightarrow> '''' | Some c \<Rightarrow> c)"

definition realise ::
  "'r paper_config \<Rightarrow> position \<Rightarrow> instrument \<Rightarrow> dec \<Rightarrow> dec \<Rightarrow> int \<Rightarrow> string \<Rightarrow> dec \<Rightarrow> ('r, unit) paper_action" where
  "realise cfg pos inst exit_price lots ts_ns reason extra s =
     (case conv_of cfg inst s of
        Inl e \<Rightarrow> (Inl e, s)
      | Inr conv \<Rightarrow>
          (Inr (), record_txn ''POSITION_CLOSE'' (txn_owner pos)
             (reset_negative cfg (close_lots pos inst exit_price lots ts_ns reason extra conv s))))"

section \<open>Fills\<close>

definition open_position :: "fill \<Rightarrow> order_intent \<Rightarrow> dec \<Rightarrow> dec \<Rightarrow> dec \<Rightarrow> position" where
  "open_position f intent lots risk commission =
     \<lparr>p_instrument = f_instrument f, p_side = f_side f, p_lots = lots, p_entry_price = f_price f,
      p_opened_ns = f_ts_ns f, p_strategy = oi_strategy intent, p_stop_loss = oi_stop_loss intent,
      p_take_profit = oi_take_profit intent, p_broker_stop_confirmed = (oi_stop_loss intent \<noteq> None),
      p_client_order_id = Some (f_client_order_id f), p_realised_pnl = 0, p_financing_paid = 0,
      p_commission_paid = commission, p_initial_risk = risk, p_max_favourable = 0, p_max_adverse = 0,
      p_partial_taken = False, p_breakeven_moved = False\<rparr>"

definition add_to_position :: "fill \<Rightarrow> order_intent \<Rightarrow> dec \<Rightarrow> position \<Rightarrow> position" where
  "add_to_position f intent risk pos =
     (let total = dadd (p_lots pos) (f_lots f) in
      pos\<lparr>p_entry_price := ddiv (dadd (dmul (p_entry_price pos) (p_lots pos)) (dmul (f_price f) (f_lots f))) total,
          p_lots := total,
          p_commission_paid := dadd (p_commission_paid pos) (f_commission f),
          p_initial_risk := dadd (p_initial_risk pos) risk,
          p_stop_loss := (case oi_stop_loss intent of None \<Rightarrow> p_stop_loss pos | Some x \<Rightarrow> Some x),
          p_take_profit := (case oi_take_profit intent of None \<Rightarrow> p_take_profit pos | Some x \<Rightarrow> Some x)\<rparr>)"

definition lots_fraction :: "dec \<Rightarrow> order_intent \<Rightarrow> dec" where
  "lots_fraction lots intent = (if 0 < oi_lots intent then ddiv lots (oi_lots intent) else 1)"

definition apply_fill :: "'r paper_config \<Rightarrow> fill \<Rightarrow> instrument \<Rightarrow> order_intent \<Rightarrow> ('r, unit) paper_action" where
  "apply_fill cfg f inst intent s =
     (let risk_for_fill = dmul (oi_risk_amount intent) (lots_fraction (f_lots f) intent) in
      case dget (pb_positions s) (f_instrument f) of
        None \<Rightarrow> (Inr (), s\<lparr>pb_positions := dset (pb_positions s) (f_instrument f)
                            (open_position f intent (f_lots f) risk_for_fill (f_commission f))\<rparr>)
      | Some pos \<Rightarrow>
          if p_side pos = f_side f
          then (Inr (), s\<lparr>pb_positions := dset (pb_positions s) (f_instrument f) (add_to_position f intent risk_for_fill pos)\<rparr>)
          else
          let closing = min (p_lots pos) (f_lots f);
              remaining = dsub (f_lots f) closing;
              closing_share = (if 0 < f_lots f then ddiv (dmul (f_commission f) closing) (f_lots f) else 0);
              carried = dsub (f_commission f) closing_share
          in act_bind (realise cfg pos inst (f_price f) closing (f_ts_ns f) ''opposite_fill'' closing_share)
               (\<lambda>_ s'. (Inr (),
                  if 0 < remaining
                  then s'\<lparr>pb_positions := dset (pb_positions s') (f_instrument f)
                         (open_position f intent remaining
                            (dmul (oi_risk_amount intent) (lots_fraction remaining intent)) carried)\<rparr>
                  else s')) s)"

definition venue_id :: "nat \<Rightarrow> string" where
  "venue_id n = CHR ''V'' # replicate (8 - length (show_nat n)) (CHR ''0'') @ show_nat n"

definition fill_state :: "'r paper_config \<Rightarrow> instrument \<Rightarrow> dec \<Rightarrow> dec \<times> order_state" where
  "fill_state cfg inst lots =
     (if partial_fill_threshold_lots (pc_profile cfg) < lots
      then let fl = round_lots_down inst (dmul lots (partial_fill_ratio (pc_profile cfg)))
           in (fl, if fl < lots then PARTIAL else FILLED)
      else (lots, FILLED))"

definition complete ::
  "'r paper_config \<Rightarrow> string \<Rightarrow> instrument \<Rightarrow> quote \<Rightarrow> dec \<Rightarrow> bool \<Rightarrow> pyfloat \<Rightarrow> ('r, unit) paper_action" where
  "complete cfg cid inst q lots hidden latency s =
     (let ord = the (dget (pb_orders s) cid);
          intent = o_intent ord;
          (slip, s1) = slippage_pips cfg (Some latency) s;
          price = round_price inst (dadd (price_for q (oi_side intent))
                     (dmul (dmul slip (pip inst)) (side_sign (oi_side intent))));
          (fill_lots, state) = fill_state cfg inst lots;
          commission = dmul (dmul (commission_per_lot_round_turn (pc_profile cfg)) fill_lots)
                         (cost_multiplier (pc_profile cfg));
          n = pb_txn_seq s1 + 1;
          f = \<lparr>f_client_order_id = oi_client_order_id intent, f_venue_order_id = venue_id n,
               f_instrument = oi_instrument intent, f_side = oi_side intent, f_lots = fill_lots, f_price = price,
               f_ts_ns = pb_now_ns s1, f_commission = commission, f_slippage_pips = slip\<rparr>;
          ord' = ord\<lparr>o_venue_order_id := Some (f_venue_order_id f), o_fills := o_fills ord @ [f],
                     o_state := (if hidden then UNKNOWN else state)\<rparr>;
          s2 = s1\<lparr>pb_txn_seq := n, pb_orders := dset (pb_orders s1) cid ord',
                  pb_balance := dsub (pb_balance s1) commission\<rparr>
      in act_bind (apply_fill cfg f inst intent)
           (\<lambda>_ s'. (Inr (), record_txn ''ORDER_FILL'' (oi_client_order_id intent) s')) s2)"

section \<open>Submission\<close>

definition submit_answer :: "order_state \<Rightarrow> submit_result" where
  "submit_answer st = \<lparr>sb_state = st, sb_venue_order_id = None, sb_fills = [], sb_favourable_to_client = None,
     sb_stop_confirmed = True\<rparr>"

definition order_answer :: "order \<Rightarrow> submit_result" where
  "order_answer y = (submit_answer (o_state y))\<lparr>sb_venue_order_id := o_venue_order_id y, sb_fills := o_fills y\<rparr>"

text \<open>The margin check of an order that opens or adds.\<close>

definition margin_refuses :: "'r paper_config \<Rightarrow> order_intent \<Rightarrow> instrument \<Rightarrow> quote \<Rightarrow> dec \<Rightarrow> ('r, bool) paper_action" where
  "margin_refuses cfg intent inst q lots s =
     (let opening = (case dget (pb_positions s) (oi_instrument intent) of
                       None \<Rightarrow> True | Some pos \<Rightarrow> p_side pos = oi_side intent)
      in if \<not> opening then (Inr False, s)
         else case conv_of cfg inst s of
           Inl ConversionMissingError \<Rightarrow> (Inr False, s)
         | Inl e \<Rightarrow> (Inl e, s)
         | Inr conv \<Rightarrow>
             act_bind (paper_account cfg)
               (\<lambda>acct s'. (Inr (ac_margin_available acct
                   < dmul (dmul (dmul (units inst lots) (quote_mid q)) (margin_rate inst)) conv), s')) s)"

text \<open>After the checks: latency, the timeout that hides a fill, last look, the fill.\<close>

definition place_order :: "'r paper_config \<Rightarrow> order_intent \<Rightarrow> instrument \<Rightarrow> quote \<Rightarrow> dec \<Rightarrow> ('r, submit_result) paper_action" where
  "place_order cfg intent inst q lots s =
     (let cid = oi_client_order_id intent;
          ord = (new_order intent)\<lparr>o_state := SENT, o_attempts := 1\<rparr>;
          (latency, s1) = latency_ms cfg (s\<lparr>pb_orders := dset (pb_orders s) cid ord\<rparr>)
      in if pc_timeout_ms cfg < latency
         then act_bind (complete cfg cid inst q lots True latency)
                (\<lambda>_ s'. (Inr (submit_answer UNKNOWN), s'))
                (record_txn ''ORDER_TIMEOUT'' cid (s1\<lparr>pb_orders := dset (pb_orders s1) cid (ord\<lparr>o_state := UNKNOWN\<rparr>)\<rparr>))
         else
         let (x, s2) = draw (rng_random (pc_rng cfg)) s1;
             (rejects, s3) = last_look_rejects cfg (x < 1/2) s2
         in if rejects
            then (Inr ((submit_answer REJECTED)\<lparr>sb_favourable_to_client := Some (x < 1/2)\<rparr>),
                  record_txn ''ORDER_REJECT'' cid
                    (s3\<lparr>pb_orders := dset (pb_orders s3) cid (ord\<lparr>o_state := REJECTED\<rparr>)\<rparr>))
            else act_bind (complete cfg cid inst q lots False latency)
                   (\<lambda>_ s'. (Inr (order_answer (the (dget (pb_orders s') cid))), s')) s3)"

definition paper_submit :: "'r paper_config \<Rightarrow> order_intent \<Rightarrow> ('r, submit_result) paper_action" where
  "paper_submit cfg intent s =
     (let cid = oi_client_order_id intent in
      case dget (pb_orders s) cid of
        Some existing \<Rightarrow> (Inr (order_answer existing), s)
      | None \<Rightarrow>
          (case (dget (pc_instruments cfg) (oi_instrument intent), dget (pb_quotes s) (oi_instrument intent)) of
             (Some inst, Some q) \<Rightarrow>
               let lots = round_lots_down inst (oi_lots intent) in
               if lots < min_lot inst \<or> max_lot inst < lots then (Inr (submit_answer REJECTED), s)
               else act_bind (margin_refuses cfg intent inst q lots)
                      (\<lambda>refused s1.
                         if refused then (Inr (submit_answer REJECTED), record_txn ''ORDER_REJECT'' cid s1)
                         else place_order cfg intent inst q lots s1) s
           | _ \<Rightarrow> (Inr (submit_answer REJECTED), s)))"

definition paper_query_order :: "string \<Rightarrow> ('r, submit_result option) paper_action" where
  "paper_query_order cid s =
     (case dget (pb_orders s) cid of
        None \<Rightarrow> (Inr None, s)
      | Some y \<Rightarrow>
          let state = (if o_fills y \<noteq> [] then FILLED else o_state y);
              y' = (if o_state y = UNKNOWN \<and> o_fills y \<noteq> [] then y\<lparr>o_state := FILLED\<rparr> else y)
          in (Inr (Some ((order_answer y')\<lparr>sb_state := state\<rparr>)), s\<lparr>pb_orders := dset (pb_orders s) cid y'\<rparr>))"

definition paper_cancel :: "string \<Rightarrow> 'r paper \<Rightarrow> bool \<times> 'r paper" where
  "paper_cancel cid s =
     (case dget (pb_orders s) cid of
        None \<Rightarrow> (False, s)
      | Some y \<Rightarrow> if terminal (o_state y) then (False, s)
          else (True, record_txn ''ORDER_CANCEL'' cid (s\<lparr>pb_orders := dset (pb_orders s) cid (y\<lparr>o_state := CANCELLED\<rparr>)\<rparr>)))"

section \<open>Exits, margin and rollover\<close>

text \<open>The excursions in R are recorded first; then the stop is looked at, then the target.\<close>

definition mark_excursion :: "'r paper_config \<Rightarrow> instrument \<Rightarrow> quote \<Rightarrow> position \<Rightarrow> 'r paper \<Rightarrow> position res" where
  "mark_excursion cfg inst q pos s =
     (if 0 < p_initial_risk pos
      then res_bind (conv_of cfg inst s) (\<lambda>conv.
             let r = ddiv (unrealised pos q inst conv) (p_initial_risk pos)
             in Inr (pos\<lparr>p_max_favourable := max (p_max_favourable pos) r, p_max_adverse := min (p_max_adverse pos) r\<rparr>))
      else Inr pos)"

definition hit_stop :: "position \<Rightarrow> dec \<Rightarrow> bool" where
  "hit_stop pos exit_price \<longleftrightarrow> (case p_stop_loss pos of None \<Rightarrow> False
     | Some sl \<Rightarrow> if p_side pos = BUY then exit_price \<le> sl else sl \<le> exit_price)"

definition hit_target :: "position \<Rightarrow> dec \<Rightarrow> bool" where
  "hit_target pos exit_price \<longleftrightarrow> (case p_take_profit pos of None \<Rightarrow> False
     | Some tp \<Rightarrow> if p_side pos = BUY then tp \<le> exit_price else exit_price \<le> tp)"

definition exit_position :: "'r paper_config \<Rightarrow> instrument \<Rightarrow> quote \<Rightarrow> position \<Rightarrow> ('r, unit) paper_action" where
  "exit_position cfg inst q pos s =
     (let out = side_opposite (p_side pos); exit_price = price_for q out in
      if hit_stop pos exit_price
      then let sl = the (p_stop_loss pos);
               px = (if p_side pos = BUY then min exit_price sl else max exit_price sl);
               (slip, s2) = slippage_pips cfg None s;
               px' = dadd px (dmul (dmul slip (pip inst)) (side_sign out))
           in realise cfg pos inst (round_price inst px') (p_lots pos) (q_ts_ns q) ''stop_loss'' 0 s2
      else if hit_target pos exit_price
      then realise cfg pos inst (round_price inst (the (p_take_profit pos))) (p_lots pos) (q_ts_ns q) ''take_profit'' 0 s
      else (Inr (), s))"

definition check_exits :: "'r paper_config \<Rightarrow> quote \<Rightarrow> ('r, unit) paper_action" where
  "check_exits cfg q s =
     (case dget (pb_positions s) (q_instrument q) of
        None \<Rightarrow> (Inr (), s)
      | Some pos0 \<Rightarrow>
          (case lookup (pc_instruments cfg) (q_instrument q) of
             Inl e \<Rightarrow> (Inl e, s)
           | Inr inst \<Rightarrow>
               (case mark_excursion cfg inst q pos0 s of
                  Inl e \<Rightarrow> (Inl e, s)
                | Inr pos \<Rightarrow> exit_position cfg inst q pos
                    (s\<lparr>pb_positions := dset (pb_positions s) (q_instrument q) pos\<rparr>))))"

text \<open>The open position with the largest loss, the first of equals; positions without a quote are skipped.\<close>

fun worst_position ::
  "'r paper_config \<Rightarrow> 'r paper \<Rightarrow> position list \<Rightarrow> (position \<times> dec) option \<Rightarrow> position option res" where
  "worst_position cfg s [] best = Inr (map_option fst best)"
| "worst_position cfg s (pos # ps) best =
     (case dget (pb_quotes s) (p_instrument pos) of
        None \<Rightarrow> worst_position cfg s ps best
      | Some q \<Rightarrow>
          res_bind (lookup (pc_instruments cfg) (p_instrument pos)) (\<lambda>inst. res_bind (conv_of cfg inst s) (\<lambda>conv.
            let pnl = unrealised pos q inst conv
            in worst_position cfg s ps
                 (case best of None \<Rightarrow> Some (pos, pnl) | Some (_, b) \<Rightarrow> if pnl < b then Some (pos, pnl) else best))))"

text \<open>Closing one position at the market, and the account after it.\<close>

definition stop_out :: "'r paper_config \<Rightarrow> position \<Rightarrow> ('r, account_state) paper_action" where
  "stop_out cfg worst s =
     (case res_bind (paper_quote (p_instrument worst) s) (\<lambda>q.
             res_bind (lookup (pc_instruments cfg) (p_instrument worst)) (\<lambda>inst. Inr (q, inst))) of
        Inl e \<Rightarrow> (Inl e, s)
      | Inr (q, inst) \<Rightarrow>
          act_bind
            (realise cfg worst inst (price_for q (side_opposite (p_side worst))) (p_lots worst) (pb_now_ns s)
               ''margin_stop_out'' 0)
            (\<lambda>_. paper_account cfg) s)"

definition margin_restored :: "'r paper_config \<Rightarrow> account_state \<Rightarrow> bool" where
  "margin_restored cfg acct \<longleftrightarrow> (case margin_level_pct acct of None \<Rightarrow> True
     | Some l \<Rightarrow> margin_call_level_pct (pc_profile cfg) < l)"

text \<open>The close-out loop; that it ends is proved below.\<close>

partial_function (option) margin_loop :: "'r paper_config \<Rightarrow> 'r paper \<Rightarrow> (unit res \<times> 'r paper) option" where
  "margin_loop cfg s =
     (if pb_positions s = [] then Some (Inr (), s)
      else case worst_position cfg s (dvalues (pb_positions s)) None of
        Inl e \<Rightarrow> Some (Inl e, s)
      | Inr None \<Rightarrow> Some (Inr (), s)
      | Inr (Some worst) \<Rightarrow>
          (case stop_out cfg worst s of
             (Inl e, s') \<Rightarrow> Some (Inl e, s')
           | (Inr acct, s') \<Rightarrow> if margin_restored cfg acct then Some (Inr (), s') else margin_loop cfg s'))"

definition check_margin :: "'r paper_config \<Rightarrow> 'r paper \<Rightarrow> (unit res \<times> 'r paper) option" where
  "check_margin cfg s =
     (case paper_account cfg s of
        (Inl e, s') \<Rightarrow> Some (Inl e, s')
      | (Inr acct, s') \<Rightarrow>
          if (case margin_level_pct acct of None \<Rightarrow> True | Some l \<Rightarrow> stop_out_margin_level_pct (pc_profile cfg) < l)
          then Some (Inr (), s') else margin_loop cfg s')"

text \<open>The carry of one position on one value date.\<close>

definition charge_position :: "'r paper_config \<Rightarrow> dec \<Rightarrow> string \<Rightarrow> ('r, unit) paper_action" where
  "charge_position cfg multiplier key s =
     (case dget (pb_positions s) key of
        None \<Rightarrow> (Inr (), s)
      | Some pos \<Rightarrow>
          (case res_bind (lookup (pc_instruments cfg) (p_instrument pos)) (\<lambda>inst.
                  res_bind (conv_of cfg inst s) (\<lambda>conv. Inr (inst, conv))) of
             Inl e \<Rightarrow> (Inl e, s)
           | Inr (inst, conv) \<Rightarrow>
               let table = (if p_side pos = BUY then swap_long_pips_per_day (pc_profile cfg)
                            else swap_short_pips_per_day (pc_profile cfg));
                   pips = dget_default table (p_instrument pos) (-15/100);
                   charge = dmul (dmul (dmul (dmul pips (pip inst)) (units inst (p_lots pos))) conv) multiplier
               in (Inr (), s\<lparr>pb_balance := dadd (pb_balance s) charge,
                     pb_positions := dset (pb_positions s) key
                       (pos\<lparr>p_financing_paid := dadd (p_financing_paid pos) charge\<rparr>)\<rparr>)))"

text \<open>\<open>for x in xs\<close> with a body that may raise.\<close>

fun act_each :: "('x \<Rightarrow> ('s, unit) action) \<Rightarrow> 'x list \<Rightarrow> ('s, unit) action" where
  "act_each f [] s = (Inr (), s)"
| "act_each f (x # xs) s = act_bind (f x) (\<lambda>_. act_each f xs) s"

definition rollover_day :: "'r paper_config \<Rightarrow> int \<Rightarrow> ('r, unit) paper_action" where
  "rollover_day cfg ordinal s =
     (if 5 \<le> weekday ordinal then (Inr (), s)
      else let multiplier = (if weekday ordinal = triple_swap_weekday (pc_profile cfg) then 3 else 1)
           in act_bind (act_each (charge_position cfg multiplier) (map fst (pb_positions s)))
                (\<lambda>_ s'. (Inr (), record_txn ''ROLLOVER'' '''' s')) s)"

definition value_date :: "int \<Rightarrow> int res" where
  "value_date now_ns =
     (let dt = from_timestamp_ns now_ns in
      res_bind (utc_offset_hours ''America/New_York'' dt) (\<lambda>off. Inr (dt_date (dt - (17 - off) * hour_us))))"

definition apply_rollover :: "'r paper_config \<Rightarrow> ('r, unit) paper_action" where
  "apply_rollover cfg s =
     (case value_date (pb_now_ns s) of
        Inl e \<Rightarrow> (Inl e, s)
      | Inr day \<Rightarrow>
          (case pb_last_rollover_day s of
             None \<Rightarrow> (Inr (), s\<lparr>pb_last_rollover_day := Some day\<rparr>)
           | Some last_day \<Rightarrow>
               if day \<le> last_day then (Inr (), s)
               else let s1 = s\<lparr>pb_last_rollover_day := Some day\<rparr>
                    in if pb_positions s1 = [] then (Inr (), s1)
                       else act_each (rollover_day cfg) [last_day + 1..day] s1))"

section \<open>Quotes and bars\<close>

definition accept_quote :: "'r paper_config \<Rightarrow> quote \<Rightarrow> 'r paper \<Rightarrow> 'r paper" where
  "accept_quote cfg q s =
     (let s1 = s\<lparr>pb_quotes := dset (pb_quotes s) (q_instrument q) q,
                 pb_now_ns := max (pb_now_ns s) (q_ts_ns q)\<rparr>
      in case dget (pc_instruments cfg) (q_instrument q) of
           None \<Rightarrow> s1
         | Some inst \<Rightarrow>
             if quote_ccy inst = pc_ccy cfg
             then s1\<lparr>pb_conversions := dset (pb_conversions s1) (quote_ccy inst @ ''_'' @ pc_ccy cfg) 1\<rparr> else s1)"

definition on_quote :: "'r paper_config \<Rightarrow> quote \<Rightarrow> 'r paper \<Rightarrow> (unit res \<times> 'r paper) option" where
  "on_quote cfg q s =
     (case act_bind (apply_rollover cfg) (\<lambda>_. check_exits cfg q) (accept_quote cfg q s) of
        (Inl e, s') \<Rightarrow> Some (Inl e, s')
      | (Inr _, s') \<Rightarrow> check_margin cfg s')"

definition sim_quote :: "'r paper_config \<Rightarrow> string \<Rightarrow> instrument \<Rightarrow> dec \<Rightarrow> int \<Rightarrow> 'r paper \<Rightarrow> quote res" where
  "sim_quote cfg name inst mid ts s =
     (let half = ddiv (spread_price cfg inst ts s) 2 in
      mk_quote \<lparr>q_instrument = name, q_bid = round_price inst (dsub mid half), q_ask = round_price inst (dadd mid half),
        q_ts_ns = ts, q_received_ns = ts\<rparr>)"

definition mark_mid :: "'r paper_config \<Rightarrow> string \<Rightarrow> dec \<Rightarrow> int \<Rightarrow> 'r paper \<Rightarrow> (quote res \<times> 'r paper) option" where
  "mark_mid cfg name mid ts s =
     (case res_bind (lookup (pc_instruments cfg) name) (\<lambda>inst. sim_quote cfg name inst mid ts s) of
        Inl e \<Rightarrow> Some (Inl e, s)
      | Inr q \<Rightarrow> map_option (\<lambda>(r, s'). (res_bind r (\<lambda>_. Inr q), s')) (on_quote cfg q s))"

fun feed_prices ::
  "'r paper_config \<Rightarrow> string \<Rightarrow> instrument \<Rightarrow> (dec \<times> int) list \<Rightarrow> 'r paper \<Rightarrow> (unit res \<times> 'r paper) option" where
  "feed_prices cfg name inst [] s = Some (Inr (), s)"
| "feed_prices cfg name inst ((price, ts) # path) s =
     (case sim_quote cfg name inst price ts s of
        Inl e \<Rightarrow> Some (Inl e, s)
      | Inr q \<Rightarrow>
          (case on_quote cfg q s of
             None \<Rightarrow> None
           | Some (Inl e, s') \<Rightarrow> Some (Inl e, s')
           | Some (Inr _, s') \<Rightarrow> feed_prices cfg name inst path s'))"

text \<open>The order of the extremes of a bar: the adverse one first.\<close>

definition bar_path :: "position option \<Rightarrow> dec \<Rightarrow> dec \<Rightarrow> dec \<Rightarrow> dec \<Rightarrow> int \<Rightarrow> int \<Rightarrow> (dec \<times> int) list" where
  "bar_path pos o' h l c start_ns end_ns =
     (let low_first = (case pos of None \<Rightarrow> True | Some p \<Rightarrow> p_side p = BUY);
          first = (if low_first then l else h); second = (if low_first then h else l)
      in [(o', start_ns), (first, start_ns + (end_ns - start_ns) div 3),
          (second, start_ns + 2 * (end_ns - start_ns) div 3), (c, end_ns)])"

definition on_bar_prices ::
  "'r paper_config \<Rightarrow> string \<Rightarrow> dec \<Rightarrow> dec \<Rightarrow> dec \<Rightarrow> dec \<Rightarrow> int \<Rightarrow> int \<Rightarrow> 'r paper \<Rightarrow> (unit res \<times> 'r paper) option" where
  "on_bar_prices cfg name o' h l c start_ns end_ns s =
     (case lookup (pc_instruments cfg) name of
        Inl e \<Rightarrow> Some (Inl e, s)
      | Inr inst \<Rightarrow> feed_prices cfg name inst (bar_path (dget (pb_positions s) name) o' h l c start_ns end_ns) s)"

section \<open>Closing, modifying and the transaction stream\<close>

definition paper_close :: "'r paper_config \<Rightarrow> string \<Rightarrow> dec option \<Rightarrow> string \<Rightarrow> ('r, submit_result) paper_action" where
  "paper_close cfg name lots reason s =
     (case (dget (pb_positions s) name, dget (pb_quotes s) name) of
        (Some pos, Some q) \<Rightarrow>
          (case lookup (pc_instruments cfg) name of
             Inl e \<Rightarrow> (Inl e, s)
           | Inr inst \<Rightarrow>
               let close_lots = (case lots of None \<Rightarrow> p_lots pos | Some l \<Rightarrow> round_lots_down inst (min l (p_lots pos))) in
               if close_lots \<le> 0 then (Inr (submit_answer REJECTED), s)
               else
               let out = side_opposite (p_side pos);
                   (slip, s1) = slippage_pips cfg None s;
                   px = round_price inst (dadd (price_for q out) (dmul (dmul slip (pip inst)) (side_sign out)))
               in act_bind (realise cfg pos inst px close_lots (pb_now_ns s) reason 0)
                    (\<lambda>_ s'. let n = pb_txn_seq s' + 1
                            in (Inr ((submit_answer FILLED)\<lparr>sb_venue_order_id := Some (venue_id n)\<rparr>),
                                s'\<lparr>pb_txn_seq := n\<rparr>)) s1)
      | _ \<Rightarrow> (Inr (submit_answer REJECTED), s))"

definition widens :: "position \<Rightarrow> dec \<Rightarrow> bool" where
  "widens pos new_stop \<longleftrightarrow> (case p_stop_loss pos of None \<Rightarrow> False
     | Some sl \<Rightarrow> if p_side pos = BUY then new_stop < sl else sl < new_stop)"

definition paper_modify :: "'r paper_config \<Rightarrow> string \<Rightarrow> dec option \<Rightarrow> dec option \<Rightarrow> ('r, bool) paper_action" where
  "paper_modify cfg name stop_loss take_profit s =
     (case dget (pb_positions s) name of
        None \<Rightarrow> (Inr False, s)
      | Some pos \<Rightarrow>
          (case lookup (pc_instruments cfg) name of
             Inl e \<Rightarrow> (Inl e, s)
           | Inr inst \<Rightarrow>
               (case stop_loss of
                  Some sl \<Rightarrow>
                    if widens pos (round_price inst sl) then (Inl PermanentError, s)
                    else
                    let pos1 = pos\<lparr>p_stop_loss := Some (round_price inst sl), p_broker_stop_confirmed := True\<rparr>;
                        pos2 = (case take_profit of None \<Rightarrow> pos1 | Some tp \<Rightarrow> pos1\<lparr>p_take_profit := Some (round_price inst tp)\<rparr>)
                    in (Inr True, record_txn ''POSITION_MODIFY'' (txn_owner pos)
                          (s\<lparr>pb_positions := dset (pb_positions s) name pos2\<rparr>))
                | None \<Rightarrow>
                    let pos2 = (case take_profit of None \<Rightarrow> pos | Some tp \<Rightarrow> pos\<lparr>p_take_profit := Some (round_price inst tp)\<rparr>)
                    in (Inr True, record_txn ''POSITION_MODIFY'' (txn_owner pos)
                          (s\<lparr>pb_positions := dset (pb_positions s) name pos2\<rparr>)))))"

definition transactions_since :: "string \<Rightarrow> 'r paper \<Rightarrow> txn list" where
  "transactions_since last_id s =
     (let start = (case py_int (JStr last_id) of Inl _ \<Rightarrow> 0 | Inr n \<Rightarrow> n)
      in filter (\<lambda>t. start < int (tx_id t)) (pb_transactions s))"

text \<open>The venue as the order manager sees it.\<close>

definition paper_ops :: "'r paper_config \<Rightarrow> 'r paper broker_ops" where
  "paper_ops cfg =
     \<lparr>br_supports_client_order_id = True,
      br_instrument = (\<lambda>_ name. lookup (pc_instruments cfg) name),
      br_submit = (\<lambda>s intent. paper_submit cfg intent s),
      br_query_order = (\<lambda>s cid. paper_query_order cid s),
      br_modify_stop = (\<lambda>s name sl. paper_modify cfg name sl None s)\<rparr>"

section \<open>Runs\<close>

datatype paper_call =
    SetTime int
  | NewsWindow bool
  | SetConversion string dec
  | OnQuote quote
  | MarkMid string dec int
  | BarPrices string dec dec dec dec int int
  | AccountRead
  | SubmitOrder order_intent
  | QueryOrder string
  | CancelOrder string
  | ClosePosition string "dec option" string
  | ModifyPosition string "dec option" "dec option"

text \<open>One call; an exception leaves the state of that moment. None is a call that does not return.\<close>

fun paper_step :: "'r paper_config \<Rightarrow> paper_call \<Rightarrow> 'r paper \<Rightarrow> 'r paper option" where
  "paper_step cfg (SetTime ns) s = Some (snd (set_time ns s))"
| "paper_step cfg (NewsWindow b) s = Some (set_news_window b s)"
| "paper_step cfg (SetConversion c r) s = Some (set_conversion cfg c r s)"
| "paper_step cfg (OnQuote q) s = map_option snd (on_quote cfg q s)"
| "paper_step cfg (MarkMid name mid ts) s = map_option snd (mark_mid cfg name mid ts s)"
| "paper_step cfg (BarPrices name o' h l c t0 t1) s = map_option snd (on_bar_prices cfg name o' h l c t0 t1 s)"
| "paper_step cfg AccountRead s = Some (snd (paper_account cfg s))"
| "paper_step cfg (SubmitOrder intent) s = Some (snd (paper_submit cfg intent s))"
| "paper_step cfg (QueryOrder cid) s = Some (snd (paper_query_order cid s))"
| "paper_step cfg (CancelOrder cid) s = Some (snd (paper_cancel cid s))"
| "paper_step cfg (ClosePosition name lots reason) s = Some (snd (paper_close cfg name lots reason s))"
| "paper_step cfg (ModifyPosition name sl tp) s = Some (snd (paper_modify cfg name sl tp s))"

fun paper_run :: "'r paper_config \<Rightarrow> paper_call list \<Rightarrow> 'r paper \<Rightarrow> 'r paper option" where
  "paper_run cfg [] s = Some s"
| "paper_run cfg (c # cs) s = (case paper_step cfg c s of None \<Rightarrow> None | Some s' \<Rightarrow> paper_run cfg cs s')"

section \<open>What every operation keeps\<close>

text \<open>The book: one position per instrument, filed under its own name, on a known instrument.\<close>

definition book_ok :: "'r paper_config \<Rightarrow> 'r paper \<Rightarrow> bool" where
  "book_ok cfg s \<longleftrightarrow> distinct (map fst (pb_positions s))
     \<and> (\<forall>k p. dget (pb_positions s) k = Some p \<longrightarrow> p_instrument p = k \<and> dget (pc_instruments cfg) k \<noteq> None)"

lemma book_okD: "book_ok cfg s \<Longrightarrow> dget (pb_positions s) k = Some p \<Longrightarrow> p_instrument p = k \<and> dget (pc_instruments cfg) k \<noteq> None"
  by (simp add: book_ok_def)

lemma worst_position_mem:
  "worst_position cfg s ps best = Inr (Some w) \<Longrightarrow> w \<in> set ps \<or> map_option fst best = Some w"
proof (induction ps arbitrary: best)
  case (Cons pos ps)
  show ?case
  proof (cases "dget (pb_quotes s) (p_instrument pos)")
    case None
    then show ?thesis using Cons by auto
  next
    case (Some q)
    then obtain best' where b: "worst_position cfg s ps best' = Inr (Some w)"
      "map_option fst best' = Some pos \<or> best' = best"
      using Cons.prems by (auto simp: res_bind_Inr_iff Let_def split: option.splits if_splits prod.splits)
    then show ?thesis using Cons.IH [OF b(1)] by auto
  qed
qed simp

lemma book_ok_values:
  assumes "book_ok cfg s" "p \<in> set (dvalues (pb_positions s))"
  shows "dget (pb_positions s) (p_instrument p) = Some p"
proof -
  obtain k where "(k, p) \<in> set (pb_positions s)" using assms(2) by auto
  then have "dget (pb_positions s) k = Some p" using assms(1) by (simp add: book_ok_def)
  then show ?thesis using book_okD [OF assms(1)] by metis
qed

lemma draws_keep:
  "draw f s = (x, s') \<Longrightarrow> pb_orders s' = pb_orders s \<and> pb_positions s' = pb_positions s \<and> pb_quotes s' = pb_quotes s"
  "latency_ms cfg s = (l, s') \<Longrightarrow> pb_orders s' = pb_orders s \<and> pb_positions s' = pb_positions s \<and> pb_quotes s' = pb_quotes s"
  "slippage_pips cfg lat s = (z, s') \<Longrightarrow> pb_orders s' = pb_orders s \<and> pb_positions s' = pb_positions s \<and> pb_quotes s' = pb_quotes s"
  "last_look_rejects cfg b s = (rj, s') \<Longrightarrow> pb_orders s' = pb_orders s \<and> pb_positions s' = pb_positions s \<and> pb_quotes s' = pb_quotes s"
  by (auto simp: draw_def latency_ms_def slippage_pips_def last_look_rejects_def Let_def split: prod.splits if_splits)

lemma record_txn_keeps [simp]:
  "pb_orders (record_txn k c s) = pb_orders s" "pb_positions (record_txn k c s) = pb_positions s"
  "pb_quotes (record_txn k c s) = pb_quotes s" "pb_now_ns (record_txn k c s) = pb_now_ns s"
  "pb_txn_seq (record_txn k c s) = pb_txn_seq s + 1" "pb_balance (record_txn k c s) = pb_balance s"
  by (simp_all add: record_txn_def Let_def)

text \<open>The client ids a call may touch: a query or a cancel its own, a submission one not yet known.\<close>

definition touches :: "paper_call \<Rightarrow> 'r paper \<Rightarrow> string \<Rightarrow> bool" where
  "touches call s cid \<longleftrightarrow> (case call of
     SubmitOrder intent \<Rightarrow> cid = oi_client_order_id intent \<and> dget (pb_orders s) cid = None
   | QueryOrder c \<Rightarrow> cid = c | CancelOrder c \<Rightarrow> cid = c | _ \<Rightarrow> False)"

text \<open>
  The interface of the proofs: a reflexive and transitive relation between the state before and
  after, with one law for each elementary update. \<open>free\<close> tells the client ids whose orders may
  change. Every operation of the broker then relates its states.
\<close>

locale paper_relation =
  fixes cfg :: "'r paper_config" and R :: "'r paper \<Rightarrow> 'r paper \<Rightarrow> bool" and free :: "string \<Rightarrow> bool"
  assumes refl: "R s s"
    and trans: "R s t \<Longrightarrow> R t u \<Longrightarrow> R s u"
    and frame: "pb_orders s' = pb_orders s \<Longrightarrow> pb_now_ns s' = pb_now_ns s \<Longrightarrow> pb_transactions s' = pb_transactions s
      \<Longrightarrow> pb_txn_seq s' = pb_txn_seq s \<Longrightarrow> pb_positions s' = pb_positions s \<Longrightarrow> R s s'"
    and clock: "pb_now_ns s \<le> n \<Longrightarrow> R s (s\<lparr>pb_now_ns := n\<rparr>)"
    and txn: "(kind = ''ORDER_FILL'' \<Longrightarrow> free c) \<Longrightarrow> R s (record_txn kind c s)"
    and seq: "R s (s\<lparr>pb_txn_seq := Suc (pb_txn_seq s)\<rparr>)"
    and hold: "(book_ok cfg s \<Longrightarrow> p_instrument p = k \<and> dget (pc_instruments cfg) k \<noteq> None)
      \<Longrightarrow> R s (s\<lparr>pb_positions := dset (pb_positions s) k p\<rparr>)"
    and drop: "R s (s\<lparr>pb_positions := dpop (pb_positions s) k\<rparr>)"
    and order: "free c \<Longrightarrow> R s (s\<lparr>pb_orders := dset (pb_orders s) c y\<rparr>)"
begin

lemma bind:
  assumes "R s (snd (m s))" "\<And>x t. m s = (Inr x, t) \<Longrightarrow> R t (snd (f x t))"
  shows "R s (snd (act_bind m f s))"
proof (cases "m s")
  case (Pair r t)
  then show ?thesis using assms trans by (cases r) (auto simp: act_bind_def)
qed

lemma each: "(\<And>x t. R t (snd (f x t))) \<Longrightarrow> R s (snd (act_each f xs s))"
  by (induction xs arbitrary: s) (auto simp: refl intro: bind)

lemma draws: "R s (snd (draw f s))" "R s (snd (slippage_pips cfg l s))" "R s (snd (latency_ms cfg s))"
    "R s (snd (last_look_rejects cfg b s))"
  by (rule frame; simp add: draw_def slippage_pips_def latency_ms_def last_look_rejects_def Let_def split: prod.splits)+

lemma closes:
  assumes "book_ok cfg s \<Longrightarrow> dget (pc_instruments cfg) (p_instrument pos) \<noteq> None"
  shows "R s (close_lots pos inst px lots ts reason extra conv s)"
proof -
  have h: "R s (s\<lparr>pb_positions := if b then dpop (pb_positions s) (p_instrument pos)
      else dset (pb_positions s) (p_instrument pos) (consume_position a1 a2 a3 a4 a5 a6 pos)\<rparr>)" for b a1 a2 a3 a4 a5 a6
    using assms by (auto intro: drop hold simp: consume_position_def)
  show ?thesis unfolding close_lots_def Let_def by (rule trans [OF h frame]) simp_all
qed

lemma resets: "R s (reset_negative cfg s)"
proof -
  have "R s ((record_txn ''NEGATIVE_BALANCE_RESET'' '''' s)\<lparr>pb_balance := 0\<rparr>)"
    by (rule trans [OF txn frame]) simp_all
  then show ?thesis by (simp add: reset_negative_def refl)
qed

lemma realised:
  assumes "book_ok cfg s \<Longrightarrow> dget (pc_instruments cfg) (p_instrument pos) \<noteq> None"
  shows "R s (snd (realise cfg pos inst px lots ts reason extra s))"
proof (cases "conv_of cfg inst s")
  case (Inr conv)
  have "R s (record_txn ''POSITION_CLOSE'' (txn_owner pos)
      (reset_negative cfg (close_lots pos inst px lots ts reason extra conv s)))"
    by (rule trans [OF trans [OF closes [OF assms] resets] txn]) simp_all
  then show ?thesis by (simp add: realise_def Inr)
qed (simp add: realise_def refl)

lemma account: "R s (snd (paper_account cfg s))"
  by (rule frame) (simp_all add: paper_account_def Let_def split: sum.splits prod.splits)

lemma filled:
  assumes "dget (pc_instruments cfg) (f_instrument f) \<noteq> None"
  shows "R s (snd (apply_fill cfg f inst intent s))"
proof (cases "dget (pb_positions s) (f_instrument f)")
  case None
  then show ?thesis using assms by (auto simp: apply_fill_def Let_def open_position_def intro: hold)
next
  case (Some pos)
  have k: "book_ok cfg s \<Longrightarrow> p_instrument pos = f_instrument f" using Some by (simp add: book_ok_def)
  show ?thesis
  proof (cases "p_side pos = f_side f")
    case True
    then show ?thesis
      using assms k Some by (auto simp: apply_fill_def Let_def add_to_position_def intro!: hold)
  next
    case False
    show ?thesis
      unfolding apply_fill_def Let_def Some option.case if_not_P [OF False]
      using assms k by (intro bind) (auto intro!: realised hold refl simp: open_position_def)
  qed
qed

lemma excursion_instrument: "mark_excursion cfg inst q pos s = Inr pos' \<Longrightarrow> p_instrument pos' = p_instrument pos"
  by (auto simp: mark_excursion_def res_bind_Inr_iff Let_def split: if_splits)

lemma exited:
  assumes "book_ok cfg s \<Longrightarrow> dget (pc_instruments cfg) (p_instrument pos) \<noteq> None"
  shows "R s (snd (exit_position cfg inst q pos s))"
proof -
  obtain slip s2 where sl: "slippage_pips cfg None s = (slip, s2)" by (cases "slippage_pips cfg None s")
  have r2: "R s s2" using draws(2) [of s None] sl by simp
  have "pb_positions s2 = pb_positions s"
    using sl by (auto simp: slippage_pips_def draw_def Let_def split: prod.splits)
  then have b: "book_ok cfg s2 = book_ok cfg s" by (simp add: book_ok_def)
  have "R s (snd (realise cfg pos inst px (p_lots pos) ts reason 0 s2))" for px ts reason
    using assms b by (intro trans [OF r2 realised]) simp
  moreover have "R s (snd (realise cfg pos inst px (p_lots pos) ts reason 0 s))" for px ts reason
    using assms by (rule realised)
  ultimately show ?thesis
    by (simp add: exit_position_def Let_def sl refl)
qed

lemma exits: "R s (snd (check_exits cfg q s))"
proof (cases "dget (pb_positions s) (q_instrument q)")
  case (Some pos0)
  have k: "book_ok cfg s \<Longrightarrow> p_instrument pos0 = q_instrument q \<and> dget (pc_instruments cfg) (q_instrument q) \<noteq> None"
    using Some by (simp add: book_ok_def)
  have "R s (snd (exit_position cfg inst q pos (s\<lparr>pb_positions := dset (pb_positions s) (q_instrument q) pos\<rparr>)))"
    if "mark_excursion cfg inst q pos0 s = Inr pos" "dget (pc_instruments cfg) (q_instrument q) \<noteq> None" for inst pos
  proof (rule trans [OF hold exited])
    show "p_instrument pos = q_instrument q \<and> dget (pc_instruments cfg) (q_instrument q) \<noteq> None" if "book_ok cfg s"
      using k [OF that] excursion_instrument [OF \<open>mark_excursion cfg inst q pos0 s = Inr pos\<close>] by simp
    show "dget (pc_instruments cfg) (p_instrument pos) \<noteq> None"
      if "book_ok cfg (s\<lparr>pb_positions := dset (pb_positions s) (q_instrument q) pos\<rparr>)"
      using book_okD [OF that, of "q_instrument q" pos] by simp
  qed
  then have e: "R s (snd (exit_position cfg inst q pos (s\<lparr>pb_positions := dset (pb_positions s) (q_instrument q) pos\<rparr>)))"
    if "mark_excursion cfg inst q pos0 s = Inr pos" "lookup (pc_instruments cfg) (q_instrument q) = Inr inst" for inst pos
    using that by (simp add: lookup_def split: option.splits)
  show ?thesis
  proof (cases "lookup (pc_instruments cfg) (q_instrument q)")
    case (Inr inst)
    then show ?thesis using e [OF _ Inr]
      by (cases "mark_excursion cfg inst q pos0 s") (simp_all add: check_exits_def Some refl)
  qed (simp add: check_exits_def Some refl)
qed (simp add: check_exits_def refl)

lemma charged: "R s (snd (charge_position cfg m k s))"
proof (cases "dget (pb_positions s) k")
  case (Some pos)
  have h: "R s (s\<lparr>pb_balance := b, pb_positions := dset (pb_positions s) k (pos\<lparr>p_financing_paid := c\<rparr>)\<rparr>)" for b c
    by (rule trans [OF hold [of s "pos\<lparr>p_financing_paid := c\<rparr>" k] frame]) (use Some in \<open>auto simp: book_ok_def\<close>)
  show ?thesis
    unfolding charge_position_def Some Let_def by (auto simp: refl h split: sum.splits)
qed (simp add: charge_position_def refl)

lemma rolled: "R s (snd (apply_rollover cfg s))"
proof -
  have d: "R t (snd (rollover_day cfg n t))" for n t
    unfolding rollover_day_def Let_def
    by (auto simp: refl intro!: bind each charged) (auto intro: txn)
  have f: "R t (t\<lparr>pb_last_rollover_day := x\<rparr>)" for t x by (rule frame) simp_all
  show ?thesis
    unfolding apply_rollover_def Let_def
    by (auto simp: refl f split: sum.splits option.splits intro!: trans [OF f each] d)
qed

lemma worst_known:
  assumes "worst_position cfg s (dvalues (pb_positions s)) None = Inr (Some w)" "book_ok cfg s"
  shows "dget (pc_instruments cfg) (p_instrument w) \<noteq> None"
proof -
  have "w \<in> set (dvalues (pb_positions s))" using worst_position_mem [OF assms(1)] by simp
  then show ?thesis using book_okD [OF assms(2) book_ok_values [OF assms(2)]] by blast
qed

lemma stopped_out:
  assumes "book_ok cfg s \<Longrightarrow> dget (pc_instruments cfg) (p_instrument w) \<noteq> None"
  shows "R s (snd (stop_out cfg w s))"
proof -
  have "R s (snd (act_bind (realise cfg w inst px (p_lots w) ts reason 0) (\<lambda>_. paper_account cfg) s))" for inst px ts reason
    using assms by (intro bind realised account)
  then show ?thesis by (auto simp: stop_out_def refl split: sum.splits)
qed

lemma margin_looped:
  assumes "margin_loop cfg s = Some r"
  shows "R s (snd r)"
proof -
  have "cfg = cfg \<longrightarrow> R s (snd r)"
  proof (rule margin_loop.raw_induct [where P = "\<lambda>c s r. c = cfg \<longrightarrow> R s (snd r)", OF _ assms], goal_cases)
    case (1 loop c s r)
    show ?case
    proof
      assume c: "c = cfg"
      have IH: "loop cfg s' = Some r \<Longrightarrow> R s' (snd r)" for s' using 1(1) [of cfg s' r] by simp
      note body = 1(2) [unfolded c]
      have "snd r = s \<or> (\<exists>w res s'. worst_position cfg s (dvalues (pb_positions s)) None = Inr (Some w)
          \<and> stop_out cfg w s = (res, s') \<and> (snd r = s' \<or> loop cfg s' = Some r))"
      proof (cases "pb_positions s = []")
        case True
        then show ?thesis using body by auto
      next
        case False
        note body = body [unfolded if_not_P [OF False]]
        show ?thesis
        proof (cases "worst_position cfg s (dvalues (pb_positions s)) None")
          case (Inl e)
          then show ?thesis using body by auto
        next
          case (Inr w')
          note body = body [unfolded Inr sum.case]
          show ?thesis
          proof (cases w')
            case None
            then show ?thesis using body by auto
          next
            case (Some w)
            obtain res s' where so: "stop_out cfg w s = (res, s')" by (cases "stop_out cfg w s")
            have "snd r = s' \<or> loop cfg s' = Some r"
              using body [unfolded Some option.case so prod.case] by (cases res) (auto split: if_splits)
            then show ?thesis using Inr Some so by blast
          qed
        qed
      qed
      then consider (stay) "snd r = s"
        | (step) w res s' where "worst_position cfg s (dvalues (pb_positions s)) None = Inr (Some w)"
            "stop_out cfg w s = (res, s')" "snd r = s' \<or> loop cfg s' = Some r"
        by blast
      then show "R s (snd r)"
      proof cases
        case step
        have "R s (snd (stop_out cfg w s))" using worst_known [OF step(1)] by (rule stopped_out)
        then have s': "R s s'" by (simp add: step(2))
        from step(3) show ?thesis
        proof
          assume "loop cfg s' = Some r"
          from trans [OF s' IH [OF this]] show ?thesis .
        qed (use s' in simp)
      qed (simp add: refl)
    qed
  qed
  then show ?thesis by simp
qed

lemma margin_checked:
  assumes "check_margin cfg s = Some r"
  shows "R s (snd r)"
proof -
  obtain res s' where a: "paper_account cfg s = (res, s')" by (cases "paper_account cfg s")
  then have s': "R s s'" using account [of s] by simp
  have "snd r = s' \<or> margin_loop cfg s' = Some r"
    using assms a by (auto simp: check_margin_def split: sum.splits if_splits)
  then show ?thesis
  proof
    assume "margin_loop cfg s' = Some r"
    from trans [OF s' margin_looped [OF this]] show ?thesis .
  qed (use s' in simp)
qed

lemma quote_accepted: "R s (accept_quote cfg q s)"
proof -
  have 1: "R s (s\<lparr>pb_quotes := qs, pb_now_ns := max (pb_now_ns s) n\<rparr>)" for qs n
    by (rule trans [OF clock [of s "max (pb_now_ns s) n"] frame]) simp_all
  have 2: "R t (t\<lparr>pb_conversions := c\<rparr>)" for t c by (rule frame) simp_all
  show ?thesis
    unfolding accept_quote_def Let_def using 1 trans [OF 1 2] by (simp split: option.splits)
qed

lemma quoted:
  assumes "on_quote cfg q s = Some r"
  shows "R s (snd r)"
proof -
  let ?m = "act_bind (apply_rollover cfg) (\<lambda>_. check_exits cfg q) (accept_quote cfg q s)"
  obtain res s' where m: "?m = (res, s')" by (cases ?m)
  have "R s (snd ?m)" by (rule trans [OF quote_accepted bind]) (rule rolled, rule exits)
  then have s': "R s s'" by (simp add: m)
  have "snd r = s' \<or> check_margin cfg s' = Some r"
    using assms unfolding on_quote_def m by (cases res) auto
  then show ?thesis
  proof
    assume "check_margin cfg s' = Some r"
    from trans [OF s' margin_checked [OF this]] show ?thesis .
  qed (use s' in simp)
qed

lemma marked: "mark_mid cfg name mid ts s = Some r \<Longrightarrow> R s (snd r)"
  using quoted by (fastforce simp: mark_mid_def refl split: sum.splits)

lemma fed: "feed_prices cfg name inst path s = Some r \<Longrightarrow> R s (snd r)"
proof (induction path arbitrary: s)
  case Nil
  then show ?case by (auto simp: refl)
next
  case (Cons x path)
  obtain price ts where x: "x = (price, ts)" by (cases x)
  show ?case
  proof (cases "sim_quote cfg name inst price ts s")
    case (Inl e)
    then show ?thesis using Cons.prems x by (auto simp: refl)
  next
    case (Inr q)
    obtain r' s' where q: "on_quote cfg q s = Some (r', s')" "R s s'"
      using Cons.prems x Inr quoted by (cases "on_quote cfg q s") auto
    show ?thesis using Cons x Inr q by (cases r') (auto intro: trans)
  qed
qed

lemma barred: "on_bar_prices cfg name o' h l c t0 t1 s = Some r \<Longrightarrow> R s (snd r)"
  by (auto simp: on_bar_prices_def refl dest: fed split: sum.splits)

lemma closed: "R s (snd (paper_close cfg name lots reason s))"
proof (cases "dget (pb_positions s) name")
  case None
  then show ?thesis by (simp add: paper_close_def refl)
next
  case (Some pos)
  show ?thesis
  proof (cases "dget (pb_quotes s) name")
    case None
    then show ?thesis using Some by (simp add: paper_close_def refl)
  next
    case q: (Some q)
    show ?thesis
    proof (cases "lookup (pc_instruments cfg) name")
      case (Inl e)
      then show ?thesis using Some q by (simp add: paper_close_def refl)
    next
      case (Inr inst)
      obtain slip s1 where sl: "slippage_pips cfg None s = (slip, s1)" by (cases "slippage_pips cfg None s")
      have r1: "R s s1" using draws(2) [of s None] sl by simp
      have "dget (pc_instruments cfg) (p_instrument pos) \<noteq> None" if "book_ok cfg s1"
      proof -
        have "dget (pb_positions s1) name = Some pos" using draws_keep(3) [OF sl] Some by simp
        from book_okD [OF that this] show ?thesis by auto
      qed
      then have "R s1 (snd (act_bind (realise cfg pos inst px n ts reason 0)
          (\<lambda>_ s'. (Inr (a s'), s'\<lparr>pb_txn_seq := Suc (pb_txn_seq s')\<rparr>)) s1))" for px n ts and a :: "'r paper \<Rightarrow> submit_result"
        by (intro bind realised) (simp_all add: seq)
      from trans [OF r1 this] show ?thesis
        unfolding paper_close_def Some q Inr by (simp add: Let_def sl refl)
    qed
  qed
qed

lemma modified: "R s (snd (paper_modify cfg name sl tp s))"
proof (cases "dget (pb_positions s) name")
  case (Some pos)
  have h: "R s (record_txn ''POSITION_MODIFY'' (txn_owner pos) (s\<lparr>pb_positions := dset (pb_positions s) name p\<rparr>))"
    if "p_instrument p = p_instrument pos" for p
    using that book_okD [OF _ Some] by (intro trans [OF hold txn]) auto
  show ?thesis
    by (cases "lookup (pc_instruments cfg) name"; cases sl; cases tp)
      (simp_all add: paper_modify_def Some refl h Let_def)
qed (simp add: paper_modify_def refl)

lemma completed:
  assumes "dget (pb_orders s) cid = Some y" "dget (pc_instruments cfg) (oi_instrument (o_intent y)) \<noteq> None"
    and "free cid" "oi_client_order_id (o_intent y) = cid"
  shows "R s (snd (complete cfg cid inst q lots hidden latency s))"
proof -
  obtain slip s1 where sl: "slippage_pips cfg (Some latency) s = (slip, s1)" by (cases "slippage_pips cfg (Some latency) s")
  obtain fl st where fs: "fill_state cfg inst lots = (fl, st)" by (cases "fill_state cfg inst lots")
  have r1: "R s s1" using draws(2) [of s "Some latency"] sl by simp
  have r2: "R s1 (s1\<lparr>pb_txn_seq := pb_txn_seq s1 + 1, pb_orders := dset (pb_orders s1) cid y', pb_balance := b\<rparr>)" for y' b
    by (rule trans [OF seq [of s1, unfolded Suc_eq_plus1] trans [OF order [OF assms(3), of _ y'] frame]]) simp_all
  have r3: "R t (snd (act_bind (apply_fill cfg f inst (o_intent y)) (\<lambda>_ s'. (Inr (), record_txn ''ORDER_FILL'' cid s')) t))"
    if "f_instrument f = oi_instrument (o_intent y)" for t f
    using assms(2,3) that by (intro bind filled) (simp_all add: txn)
  show ?thesis
    unfolding complete_def Let_def sl fs prod.case assms(1,4) option.sel
    by (rule trans [OF r1 trans [OF r2 r3]]) simp
qed

lemma placed:
  assumes "free (oi_client_order_id intent)" "dget (pc_instruments cfg) (oi_instrument intent) \<noteq> None"
  shows "R s (snd (place_order cfg intent inst q lots s))"
proof -
  let ?cid = "oi_client_order_id intent"
  let ?ord = "(new_order intent)\<lparr>o_state := SENT, o_attempts := 1\<rparr>"
  have ord: "o_intent ?ord = intent" "o_intent (?ord\<lparr>o_state := st\<rparr>) = intent" for st by (simp_all add: new_order_def)
  have place: "R t (t\<lparr>pb_orders := dset (pb_orders t) ?cid y\<rparr>)" for t y by (rule order [OF assms(1)])
  have comp: "R t (snd (act_bind (complete cfg ?cid inst q lots hidden l) (\<lambda>_ s'. (Inr (a s'), s')) t))"
    if "dget (pb_orders t) ?cid = Some y" "o_intent y = intent" for t y hidden l and a :: "'r paper \<Rightarrow> submit_result"
    using that assms by (intro bind completed [of t ?cid y]) (simp_all add: refl)
  have rej: "R t (record_txn k ?cid t)" for t k by (rule txn) (rule assms(1))
  define s0 where "s0 = s\<lparr>pb_orders := dset (pb_orders s) ?cid ?ord\<rparr>"
  obtain latency s1 where l: "latency_ms cfg s0 = (latency, s1)" by (cases "latency_ms cfg s0")
  obtain x s2 where x: "draw (rng_random (pc_rng cfg)) s1 = (x, s2)" by (cases "draw (rng_random (pc_rng cfg)) s1")
  obtain rejects s3 where ll: "last_look_rejects cfg (x < 1/2) s2 = (rejects, s3)" by (cases "last_look_rejects cfg (x < 1/2) s2")
  have "R s s0" unfolding s0_def by (rule place)
  moreover have "R s0 s1" using draws(3) [of s0] l by simp
  ultimately have r1: "R s s1" by (rule trans)
  have "R s1 s2" using draws(1) [of s1 "rng_random (pc_rng cfg)"] x by simp
  moreover have "R s2 s3" using draws(4) [of s2 "x < 1/2"] ll by simp
  ultimately have "R s1 s3" by (rule trans)
  with r1 have r3: "R s s3" by (rule trans)
  have o3: "dget (pb_orders s3) ?cid = Some ?ord"
    using draws_keep(2) [OF l] draws_keep(1) [OF x] draws_keep(4) [OF ll] by (simp add: s0_def)
  let ?t = "record_txn ''ORDER_TIMEOUT'' ?cid (s1\<lparr>pb_orders := dset (pb_orders s1) ?cid (?ord\<lparr>o_state := UNKNOWN\<rparr>)\<rparr>)"
  have t: "R s ?t" by (rule trans [OF r1 trans [OF place rej]])
  have c1: "R s (snd (act_bind (complete cfg ?cid inst q lots True latency) (\<lambda>_ s'. (Inr (submit_answer UNKNOWN), s')) ?t))"
    by (rule trans [OF t comp [where y = "?ord\<lparr>o_state := UNKNOWN\<rparr>"]]) (simp_all add: ord new_order_def)
  have c3: "R s (snd (act_bind (complete cfg ?cid inst q lots False latency)
      (\<lambda>_ s'. (Inr (order_answer (the (dget (pb_orders s') ?cid))), s')) s3))"
    by (rule trans [OF r3 comp [OF o3 ord(1)]])
  have j3: "R s (record_txn ''ORDER_REJECT'' ?cid (s3\<lparr>pb_orders := dset (pb_orders s3) ?cid (?ord\<lparr>o_state := REJECTED\<rparr>)\<rparr>))"
    by (rule trans [OF r3 trans [OF place rej]])
  show ?thesis
    unfolding place_order_def Let_def s0_def [symmetric] l prod.case x ll using c1 c3 j3 by (simp only: snd_conv split: if_split) simp
qed

lemma submitted:
  assumes "dget (pb_orders s) (oi_client_order_id intent) = None \<Longrightarrow> free (oi_client_order_id intent)"
  shows "R s (snd (paper_submit cfg intent s))"
proof (cases "dget (pb_orders s) (oi_client_order_id intent)")
  case None
  note f = assms [OF None]
  have mr: "R t (snd (margin_refuses cfg intent inst q lots t))" for t inst q lots
    unfolding margin_refuses_def Let_def
    by (auto simp: refl account intro!: bind split: sum.splits exn.splits)
  have "R s (snd (act_bind (margin_refuses cfg intent inst q lots)
      (\<lambda>refused s1. if refused then (Inr (submit_answer REJECTED), record_txn ''ORDER_REJECT'' (oi_client_order_id intent) s1)
                    else place_order cfg intent inst q lots s1) s))"
    if "dget (pc_instruments cfg) (oi_instrument intent) \<noteq> None" for inst q lots
    using that f by (intro bind mr) (simp add: placed txn)
  then show ?thesis
    by (auto simp: paper_submit_def None Let_def refl split: option.splits)
qed (simp add: paper_submit_def refl)

lemma queried: "free cid \<Longrightarrow> R s (snd (paper_query_order cid s))"
  by (auto simp: paper_query_order_def Let_def refl order split: option.splits)

lemma cancelled: "free cid \<Longrightarrow> R s (snd (paper_cancel cid s))"
  by (auto simp: paper_cancel_def Let_def refl intro: trans [OF order txn] split: option.splits)

lemma timed: "R s (snd (set_time ns s))"
  by (auto simp: set_time_def refl clock)

lemma configured: "R s (set_news_window b s)" "R s (set_conversion cfg c r s)"
  by (rule frame; simp add: set_news_window_def set_conversion_def)+

lemma stepped:
  assumes "paper_step cfg call s = Some s'" "\<And>c. touches call s c \<Longrightarrow> free c"
  shows "R s s'"
proof -
  show ?thesis
  proof (cases call)
    case (OnQuote q)
    then show ?thesis using assms(1) quoted by auto
  next
    case (MarkMid name mid ts)
    then show ?thesis using assms(1) marked by auto
  next
    case (BarPrices name o' h l c t0 t1)
    then show ?thesis using assms(1) barred by auto
  next
    case (SubmitOrder intent)
    then show ?thesis using assms submitted [of s intent] by (auto simp: touches_def)
  qed (use assms timed configured account queried cancelled closed modified in \<open>auto simp: touches_def\<close>)
qed

end

section \<open>The book, the clock and the transaction stream\<close>

lemma book_ok_hold:
  assumes "book_ok cfg s" "p_instrument p = k" "dget (pc_instruments cfg) k \<noteq> None"
  shows "book_ok cfg (s\<lparr>pb_positions := dset (pb_positions s) k p\<rparr>)"
  using assms by (auto simp: book_ok_def distinct_update)

lemma book_ok_same: "pb_positions s' = pb_positions s \<Longrightarrow> book_ok cfg s' = book_ok cfg s"
  by (simp add: book_ok_def)

lemma book_ok_drop:
  assumes "book_ok cfg s"
  shows "book_ok cfg (s\<lparr>pb_positions := dpop (pb_positions s) k\<rparr>)"
proof -
  have "distinct (map fst (dpop (pb_positions s) k))" using assms by (simp add: book_ok_def distinct_delete)
  moreover have "p_instrument p = l \<and> dget (pc_instruments cfg) l \<noteq> None" if "dget (dpop (pb_positions s) k) l = Some p" for l p
    using that book_okD [OF assms, of l p] by (simp split: if_splits)
  ultimately show ?thesis by (simp add: book_ok_def)
qed

interpretation book: paper_relation cfg "\<lambda>s s'. book_ok cfg s \<longrightarrow> book_ok cfg s'" "\<lambda>_. True" for cfg :: "'r paper_config"
proof (rule paper_relation.intro, goal_cases)
  case (2 s t u)
  then show ?case by blast
next
  case (7 s p k)
  then show ?case using book_ok_hold by blast
next
  case (8 s k)
  then show ?case using book_ok_drop by blast
qed (simp_all add: book_ok_def)

definition appended :: "'r paper \<Rightarrow> 'r paper \<Rightarrow> txn list \<Rightarrow> bool" where
  "appended s s' ext \<longleftrightarrow> pb_transactions s' = pb_transactions s @ ext \<and> sorted_wrt (<) (map tx_id ext)
     \<and> (\<forall>t \<in> set ext. pb_txn_seq s < tx_id t \<and> tx_id t \<le> pb_txn_seq s')"

definition extends :: "'r paper \<Rightarrow> 'r paper \<Rightarrow> bool" where
  "extends s s' \<longleftrightarrow> pb_now_ns s \<le> pb_now_ns s' \<and> pb_txn_seq s \<le> pb_txn_seq s' \<and> (\<exists>ext. appended s s' ext)"

lemma extends_same:
  assumes "pb_now_ns s \<le> pb_now_ns s'" "pb_txn_seq s \<le> pb_txn_seq s'" "pb_transactions s' = pb_transactions s"
  shows "extends s s'"
proof -
  have "appended s s' []" using assms(3) by (simp add: appended_def)
  then show ?thesis using assms(1,2) by (auto simp: extends_def)
qed

lemma appended_trans:
  assumes "appended s t e" "appended t u d" "pb_txn_seq s \<le> pb_txn_seq t" "pb_txn_seq t \<le> pb_txn_seq u"
  shows "appended s u (e @ d)"
proof -
  have e: "pb_txn_seq s < tx_id x \<and> tx_id x \<le> pb_txn_seq t" if "x \<in> set e" for x
    using assms(1) that by (simp add: appended_def)
  have d: "pb_txn_seq t < tx_id x \<and> tx_id x \<le> pb_txn_seq u" if "x \<in> set d" for x
    using assms(2) that by (simp add: appended_def)
  have "tx_id x < tx_id y" if "x \<in> set e" "y \<in> set d" for x y using e [OF that(1)] d [OF that(2)] by linarith
  then have "sorted_wrt (<) (map tx_id (e @ d))"
    using assms(1,2) by (simp add: appended_def sorted_wrt_append)
  moreover have "pb_txn_seq s < tx_id x \<and> tx_id x \<le> pb_txn_seq u" if "x \<in> set (e @ d)" for x
    using that e [of x] d [of x] assms(3,4) by (simp only: set_append Un_iff) linarith
  ultimately show ?thesis using assms(1,2) by (simp add: appended_def)
qed

lemma extends_trans: "extends s t \<Longrightarrow> extends t u \<Longrightarrow> extends s u"
proof -
  assume a: "extends s t" "extends t u"
  obtain e where e: "appended s t e" using a(1) unfolding extends_def by blast
  obtain d where d: "appended t u d" using a(2) unfolding extends_def by blast
  have le: "pb_now_ns s \<le> pb_now_ns t" "pb_txn_seq s \<le> pb_txn_seq t" "pb_now_ns t \<le> pb_now_ns u" "pb_txn_seq t \<le> pb_txn_seq u"
    using a unfolding extends_def by blast+
  from appended_trans [OF e d le(2,4)] show "extends s u" using le unfolding extends_def by (intro conjI exI) linarith+
qed

interpretation history: paper_relation cfg extends "\<lambda>_. True" for cfg :: "'r paper_config"
proof (unfold_locales, goal_cases)
  case (2 s t u)
  then show ?case by (rule extends_trans)
next
  case (5 kind c s)
  have "appended s (record_txn kind c s) [\<lparr>tx_id = pb_txn_seq s + 1, tx_kind = kind, tx_client_order_id = c, tx_ts_ns = pb_now_ns s\<rparr>]"
    by (simp add: appended_def record_txn_def Let_def)
  then show ?case by (auto simp: extends_def)
qed (auto intro!: extends_same)

text \<open>The orders and the booked fills of one client id.\<close>

definition fills_booked :: "string \<Rightarrow> 'r paper \<Rightarrow> nat" where
  "fills_booked cid s = length (filter (\<lambda>t. tx_kind t = ''ORDER_FILL'' \<and> tx_client_order_id t = cid) (pb_transactions s))"

definition order_untouched :: "string \<Rightarrow> 'r paper \<Rightarrow> 'r paper \<Rightarrow> bool" where
  "order_untouched cid s s' \<longleftrightarrow> dget (pb_orders s') cid = dget (pb_orders s) cid \<and> fills_booked cid s' = fills_booked cid s"

interpretation untouched: paper_relation cfg "order_untouched cid" "\<lambda>c. c \<noteq> cid" for cfg :: "'r paper_config" and cid :: string
proof (unfold_locales, goal_cases)
  case (5 kind c s)
  then show ?case by (auto simp: order_untouched_def fills_booked_def record_txn_def Let_def)
qed (auto simp: order_untouched_def fills_booked_def)

section \<open>The margin close-out ends\<close>

lemma conv_keeps: "fst (realise cfg pos inst px lots ts reason extra s) = Inr () \<Longrightarrow>
    pb_positions (snd (realise cfg pos inst px lots ts reason extra s)) =
    pb_positions (close_lots pos inst px lots ts reason extra (case conv_of cfg inst s of Inr c \<Rightarrow> c) s)"
  by (auto simp: realise_def reset_negative_def split: sum.splits)

lemma close_all_lots:
  "pb_positions (close_lots pos inst px (p_lots pos) ts reason extra conv s) = dpop (pb_positions s) (p_instrument pos)"
  by (simp add: close_lots_def Let_def consume_position_def dsub_zero_iff [THEN iffD2])

lemma dpop_shorter: "dget d k = Some v \<Longrightarrow> length (dpop d k) < length d"
  by (induction d) (auto simp: less_Suc_eq_le AList.length_delete_le split: if_splits)

lemma stop_out_shrinks:
  assumes "stop_out cfg w s = (Inr acct, s')" "dget (pb_positions s) (p_instrument w) = Some w"
  shows "length (pb_positions s') < length (pb_positions s)"
proof -
  obtain inst px where b: "act_bind (realise cfg w inst px (p_lots w) (pb_now_ns s) ''margin_stop_out'' 0)
      (\<lambda>_. paper_account cfg) s = (Inr acct, s')"
    using assms(1) by (auto simp: stop_out_def split: sum.splits prod.splits)
  obtain t where t: "realise cfg w inst px (p_lots w) (pb_now_ns s) ''margin_stop_out'' 0 s = (Inr (), t)"
    "paper_account cfg t = (Inr acct, s')"
    using b by (auto simp: act_bind_def split: prod.splits sum.splits)
  have "pb_positions t = dpop (pb_positions s) (p_instrument w)"
    using conv_keeps [of cfg w inst px "p_lots w" "pb_now_ns s" "''margin_stop_out''" 0 s] t(1) by (simp add: close_all_lots)
  moreover have "pb_positions s' = pb_positions t"
    using t(2) by (auto simp: paper_account_def Let_def split: sum.splits)
  ultimately show ?thesis using dpop_shorter [OF assms(2)] by simp
qed

lemma margin_loop_returns: "book_ok cfg s \<Longrightarrow> \<exists>r. margin_loop cfg s = Some r"
proof (induction "length (pb_positions s)" arbitrary: s rule: less_induct)
  case less
  show ?case
  proof (cases "\<exists>w acct s'. worst_position cfg s (dvalues (pb_positions s)) None = Inr (Some w)
      \<and> stop_out cfg w s = (Inr acct, s') \<and> \<not> margin_restored cfg acct")
    case False
    then show ?thesis
      by (subst margin_loop.simps) (auto split: sum.splits option.splits prod.splits)
  next
    case True
    then obtain w acct s' where w: "worst_position cfg s (dvalues (pb_positions s)) None = Inr (Some w)"
      "stop_out cfg w s = (Inr acct, s')" "\<not> margin_restored cfg acct" by blast
    have m: "w \<in> set (dvalues (pb_positions s))" using worst_position_mem [OF w(1)] by simp
    then have ne: "pb_positions s \<noteq> []" by auto
    have b: "book_ok cfg s'"
      using book.stopped_out [of cfg s w] book.worst_known [OF w(1)] less.prems w(2) by auto
    have "length (pb_positions s') < length (pb_positions s)"
      by (rule stop_out_shrinks [OF w(2) book_ok_values [OF less.prems m]])
    from less.hyps [OF this b] show ?thesis by (subst margin_loop.simps) (simp add: ne w)
  qed
qed

lemma check_margin_returns: "book_ok cfg s \<Longrightarrow> \<exists>r. check_margin cfg s = Some r"
proof -
  assume b: "book_ok cfg s"
  obtain r t where a: "paper_account cfg s = (r, t)" by (cases "paper_account cfg s")
  then have "book_ok cfg t" using book.account [of cfg s] b by simp
  from margin_loop_returns [OF this] show ?thesis
    by (cases r) (auto simp: check_margin_def a)
qed

lemma on_quote_returns: "book_ok cfg s \<Longrightarrow> \<exists>r. on_quote cfg q s = Some r"
proof -
  assume b: "book_ok cfg s"
  let ?m = "act_bind (apply_rollover cfg) (\<lambda>_. check_exits cfg q) (accept_quote cfg q s)"
  obtain r t where m: "?m = (r, t)" by (cases ?m)
  have "book_ok cfg (accept_quote cfg q s)" using book.quote_accepted b by blast
  moreover have "book_ok cfg u \<longrightarrow> book_ok cfg (snd (act_bind (apply_rollover cfg) (\<lambda>_. check_exits cfg q) u))" for u
    by (rule book.bind [OF book.rolled]) (rule book.exits)
  ultimately have "book_ok cfg (snd ?m)" by blast
  then have "book_ok cfg t" by (simp add: m)
  from check_margin_returns [OF this] show ?thesis by (cases r) (auto simp: on_quote_def m)
qed

lemma feed_prices_returns: "book_ok cfg s \<Longrightarrow> \<exists>r. feed_prices cfg name inst path s = Some r"
proof (induction path arbitrary: s)
  case (Cons x path)
  obtain price ts where x: "x = (price, ts)" by (cases x)
  show ?case
  proof (cases "sim_quote cfg name inst price ts s")
    case (Inl e)
    then show ?thesis by (simp add: x)
  next
    case (Inr q)
    obtain r t where q: "on_quote cfg q s = Some (r, t)" using on_quote_returns [OF Cons.prems, of q] by auto
    then have "book_ok cfg t" using book.quoted [OF q] Cons.prems by simp
    from Cons.IH [OF this] show ?thesis by (cases r) (simp_all add: x Inr q)
  qed
qed simp

lemma step_returns:
  assumes "book_ok cfg s"
  shows "\<exists>s'. paper_step cfg call s = Some s' \<and> book_ok cfg s'"
proof -
  have "\<exists>s'. paper_step cfg call s = Some s'"
  proof (cases call)
    case (OnQuote q)
    then show ?thesis using on_quote_returns [OF assms, of q] by auto
  next
    case (MarkMid name mid ts)
    show ?thesis
    proof (cases "res_bind (lookup (pc_instruments cfg) name) (\<lambda>inst. sim_quote cfg name inst mid ts s)")
      case (Inr q)
      then show ?thesis using MarkMid on_quote_returns [OF assms, of q] by (auto simp: mark_mid_def)
    qed (simp add: MarkMid mark_mid_def)
  next
    case (BarPrices name o' h l c t0 t1)
    show ?thesis
    proof (cases "lookup (pc_instruments cfg) name")
      case (Inr inst)
      then show ?thesis
        using BarPrices feed_prices_returns [OF assms, of name inst "bar_path (dget (pb_positions s) name) o' h l c t0 t1"]
        by (auto simp: on_bar_prices_def)
    qed (simp add: BarPrices on_bar_prices_def)
  qed simp_all
  then obtain s' where s': "paper_step cfg call s = Some s'" by blast
  have "book_ok cfg s \<longrightarrow> book_ok cfg s'" by (rule book.stepped [OF s']) simp
  then show ?thesis using s' assms by blast
qed

lemma run_returns: "book_ok cfg s \<Longrightarrow> \<exists>s'. paper_run cfg calls s = Some s' \<and> book_ok cfg s' \<and> extends s s'"
proof (induction calls arbitrary: s)
  case Nil
  then show ?case by (simp add: history.refl)
next
  case (Cons c calls)
  obtain t where t: "paper_step cfg c s = Some t" "book_ok cfg t" using step_returns [OF Cons.prems] by blast
  have e: "extends s t" by (rule history.stepped [OF t(1)]) simp
  from Cons.IH [OF t(2)] obtain u where "paper_run cfg calls t = Some u" "book_ok cfg u" "extends t u" by blast
  then show ?case using t history.trans [OF e] by auto
qed

lemma book_ok_start: "book_ok cfg (mk_paper cfg b t seed)"
  by (simp add: book_ok_def mk_paper_def)

text \<open>
  C32. Every sequence of calls to the simulator returns, the margin close-out loop included: for any
  generator, profile, prices and orders. The book it leaves holds one position per instrument,
  filed under its own name and on a known instrument, and simulated time has not moved backwards.
\<close>

theorem simulator_always_returns:
  "\<exists>s. paper_run cfg calls (mk_paper cfg balance start seed) = Some s \<and> book_ok cfg s \<and> start \<le> pb_now_ns s"
proof -
  obtain s where "paper_run cfg calls (mk_paper cfg balance start seed) = Some s" "book_ok cfg s"
    "extends (mk_paper cfg balance start seed) s"
    using run_returns [OF book_ok_start [of cfg balance start seed], of calls] by blast
  then show ?thesis by (auto simp: extends_def mk_paper_def)
qed

section \<open>The transaction stream\<close>

lemma py_int_show: "py_int (JStr (show_int i)) = Inr i"
proof -
  have d: "show_nat n \<noteq> []" "list_all is_digit (show_nat n)" for n using show_nat_digits by simp_all
  have h: "hd (show_nat n) \<notin> set ''+-''" for n
  proof -
    have "is_digit (hd (show_nat n))" using d [of n] by (auto simp: list_all_iff)
    then show ?thesis by (auto simp: is_digit_def)
  qed
  show ?thesis
  proof (cases "i < 0")
    case True
    then show ?thesis using d by (simp add: py_int_def show_int_def)
  next
    case False
    have "hd (show_nat (nat i)) \<noteq> CHR ''-''" using h [of "nat i"] by auto
    then show ?thesis using False d h by (simp add: py_int_def show_int_def)
  qed
qed

text \<open>
  C33. The transaction stream resumes exactly: after any further calls, the events since the cursor
  an account reading gave are the ones recorded since, all of them and in order, and the numbers of
  the whole stream increase strictly.
\<close>

theorem stream_resumes_exactly:
  "\<exists>s s'. paper_run cfg before (mk_paper cfg balance start seed) = Some s \<and> paper_run cfg after s = Some s'
     \<and> transactions_since (last_transaction_id s) s' = drop (length (pb_transactions s)) (pb_transactions s')
     \<and> take (length (pb_transactions s)) (pb_transactions s') = pb_transactions s
     \<and> sorted_wrt (<) (map tx_id (pb_transactions s'))"
proof -
  let ?s0 = "mk_paper cfg balance start seed"
  obtain s where s: "paper_run cfg before ?s0 = Some s" "book_ok cfg s" "extends ?s0 s"
    using run_returns [OF book_ok_start [of cfg balance start seed], of before] by blast
  obtain s' where s': "paper_run cfg after s = Some s'" "extends s s'" using run_returns [OF s(2), of after] by blast
  obtain e where e: "appended ?s0 s e" using s(3) unfolding extends_def by blast
  obtain d where d: "appended s s' d" using s'(2) unfolding extends_def by blast
  have "pb_transactions s = e" using e by (simp add: appended_def mk_paper_def)
  then have old: "\<forall>t \<in> set (pb_transactions s). tx_id t \<le> pb_txn_seq s" using e by (simp add: appended_def)
  have new: "\<forall>t \<in> set d. pb_txn_seq s < tx_id t" "pb_transactions s' = pb_transactions s @ d"
    using d by (simp_all add: appended_def)
  have "filter (\<lambda>t. int (pb_txn_seq s) < int (tx_id t)) (pb_transactions s) = []"
    "filter (\<lambda>t. int (pb_txn_seq s) < int (tx_id t)) d = d"
    using old new(1) by (auto simp: filter_empty_conv filter_id_conv not_less)
  then have "transactions_since (last_transaction_id s) s' = d"
    by (simp add: transactions_since_def last_transaction_id_def py_int_show new(2))
  moreover have "sorted_wrt (<) (map tx_id (pb_transactions s'))"
    using history.trans [OF s(3) s'(2)] by (auto simp: extends_def appended_def mk_paper_def)
  ultimately show ?thesis using s(1) s'(1) new(2) by auto
qed

section \<open>Idempotent submission\<close>

lemma known_order_kept:
  assumes "paper_step cfg call s = Some s'" "dget (pb_orders s) cid = Some y"
  shows "\<exists>y'. dget (pb_orders s') cid = Some y' \<and> o_fills y' = o_fills y \<and> fills_booked cid s' = fills_booked cid s"
proof (cases "touches call s cid")
  case False
  have "order_untouched cid s s'"
    by (rule untouched.stepped [OF assms(1)]) (use False in auto)
  then show ?thesis using assms(2) by (simp add: order_untouched_def)
next
  case True
  then consider "call = QueryOrder cid" | "call = CancelOrder cid"
    using assms(2) by (auto simp: touches_def split: paper_call.splits)
  then show ?thesis
  proof cases
    case 1
    then show ?thesis using assms by (auto simp: paper_query_order_def Let_def fills_booked_def)
  next
    case 2
    then show ?thesis using assms
      by (auto simp: paper_cancel_def Let_def fills_booked_def record_txn_def)
  qed
qed

lemma known_order_run:
  "paper_run cfg calls s = Some s' \<Longrightarrow> dget (pb_orders s) cid = Some y \<Longrightarrow>
    \<exists>y'. dget (pb_orders s') cid = Some y' \<and> o_fills y' = o_fills y \<and> fills_booked cid s' = fills_booked cid s"
proof (induction calls arbitrary: s y)
  case (Cons c calls)
  obtain t where t: "paper_step cfg c s = Some t" "paper_run cfg calls t = Some s'"
    using Cons.prems(1) by (auto split: option.splits)
  obtain z where z: "dget (pb_orders t) cid = Some z" "o_fills z = o_fills y" "fills_booked cid t = fills_booked cid s"
    using known_order_kept [OF t(1) Cons.prems(2)] by blast
  from Cons.IH [OF t(2) z(1)] z show ?case by auto
qed simp

text \<open>
  C34. The client order id makes submission idempotent. Once the venue has seen an id, submitting
  the intent again changes nothing and returns the recorded order; and whatever calls follow,
  further submissions of the same id among them, its fills stay the same and no second fill is booked.
\<close>

theorem submission_is_idempotent:
  assumes "dget (pb_orders s) (oi_client_order_id intent) = Some y" "paper_run cfg calls s = Some s'"
  shows "paper_submit cfg intent s = (Inr (order_answer y), s)
    \<and> (case dget (pb_orders s') (oi_client_order_id intent) of None \<Rightarrow> False | Some y' \<Rightarrow> o_fills y' = o_fills y)
    \<and> fills_booked (oi_client_order_id intent) s' = fills_booked (oi_client_order_id intent) s"
  using known_order_run [OF assms(2,1)] assms(1) by (auto simp: paper_submit_def)

definition demo_rng :: "unit rng" where
  "demo_rng = \<lparr>rng_random = (\<lambda>_. (0, ())), rng_uniform = (\<lambda>a b _. (a, ())), rng_gauss = (\<lambda>m d _. (0, ())), float_sqrt = (\<lambda>x. x)\<rparr>"

text \<open>A venue that is always slower than the caller waits.\<close>

definition demo_paper_config :: "unit paper_config" where
  "demo_paper_config = \<lparr>pc_instruments = [(''EUR_USD'', eur_usd)], pc_profile = default_sim_profile, pc_ccy = ''USD'',
     pc_account_id = ''PAPER-001'', pc_timeout_ms = 100, pc_rng = demo_rng\<rparr>"

definition demo_paper_quote :: quote where
  "demo_paper_quote = \<lparr>q_instrument = ''EUR_USD'', q_bid = 108530/100000, q_ask = 108540/100000, q_ts_ns = 0, q_received_ns = 0\<rparr>"

definition demo_paper :: "unit paper" where
  "demo_paper = (mk_paper demo_paper_config 10000 0 ())\<lparr>pb_quotes := [(''EUR_USD'',
     demo_paper_quote)]\<rparr>"

definition demo_paper_intent :: order_intent where
  "demo_paper_intent = \<lparr>oi_client_order_id = ''c1'', oi_strategy = ''trend'', oi_instrument = ''EUR_USD'',
     oi_side = BUY, oi_lots = 1/4, oi_order_type = MARKET, oi_limit_price = None, oi_stop_loss = Some (108340/100000),
     oi_take_profit = None, oi_decision_ns = 0, oi_risk_amount = 50, oi_risk_pct = 0, oi_expected_cost_pips = 0\<rparr>"

lemma demo_conv: "conv_of demo_paper_config eur_usd s = Inr 1"
  by (simp add: conv_of_def conversion_to_def eur_usd_def demo_paper_config_def)

lemma demo_margin:
  "margin_refuses demo_paper_config demo_paper_intent eur_usd
     demo_paper_quote (1/4) demo_paper
   = (Inr False, demo_paper)"
proof -
  have p: "pb_positions demo_paper = []" "pb_balance demo_paper = 10000" "pb_peak_equity demo_paper = 10000" "pb_unvalued demo_paper = []"
    by (simp_all add: demo_paper_def mk_paper_def)
  have m: "dmul (dmul (dmul (units eur_usd (1/4)) (quote_mid
       demo_paper_quote)) (margin_rate eur_usd)) 1 \<le> 10000"
    by (simp add: eur_usd_def quote_mid_def demo_paper_quote_def money_eval)
  have d: "dadd 10000 0 = 10000" "dsub 10000 0 = 10000" by (simp_all add: money_eval)
  show ?thesis
    using m by (simp add: margin_refuses_def Let_def demo_conv act_bind_def paper_account_def p d)
qed

lemma demo_lots: "round_lots_down eur_usd (oi_lots demo_paper_intent) = 1/4"
  by (simp add: demo_paper_intent_def eur_usd_def money_eval cong: eval_congs)

section \<open>A timeout and its resolution\<close>

interpretation frozen: paper_relation cfg "\<lambda>s s'. pb_orders s' = pb_orders s" "\<lambda>_. False" for cfg :: "'r paper_config"
  by (rule paper_relation.intro) simp_all

lemma apply_fill_orders:
  assumes "dget (pc_instruments cfg) (f_instrument f) \<noteq> None"
  shows "pb_orders (snd (apply_fill cfg f inst intent s)) = pb_orders s"
  by (rule frozen.filled [OF assms])

lemma complete_order:
  assumes "dget (pb_orders s) cid = Some y" "dget (pc_instruments cfg) (oi_instrument (o_intent y)) \<noteq> None"
    and "complete cfg cid inst q lots hidden latency s = (Inr u, s')"
  shows "\<exists>f v st. st \<in> {FILLED, PARTIAL} \<and> dget (pb_orders s') cid =
    Some (y\<lparr>o_venue_order_id := v, o_fills := o_fills y @ [f], o_state := if hidden then UNKNOWN else st\<rparr>)"
proof -
  obtain slip s1 where sl: "slippage_pips cfg (Some latency) s = (slip, s1)" by (cases "slippage_pips cfg (Some latency) s")
  obtain fl st where fs: "fill_state cfg inst lots = (fl, st)" by (cases "fill_state cfg inst lots")
  have st: "st \<in> {FILLED, PARTIAL}" using fs by (auto simp: fill_state_def Let_def split: if_splits)
  obtain f v t where f: "f_instrument f = oi_instrument (o_intent y)"
      "dget (pb_orders t) cid = Some (y\<lparr>o_venue_order_id := v, o_fills := o_fills y @ [f], o_state := if hidden then UNKNOWN else st\<rparr>)"
    and r: "act_bind (apply_fill cfg f inst (o_intent y))
        (\<lambda>_ s'. (Inr (), record_txn ''ORDER_FILL'' (oi_client_order_id (o_intent y)) s')) t = (Inr u, s')"
    using assms(3) [unfolded complete_def Let_def sl fs prod.case assms(1) option.sel]
    by (rule that [rotated 2]) simp_all
  have "pb_orders s' = pb_orders t"
    using r apply_fill_orders [of cfg f inst "o_intent y" t] assms(2) f(1)
    by (auto simp: act_bind_def split: prod.splits sum.splits)
  then show ?thesis using f(2) st by auto
qed

lemma timeout_hides_fill:
  assumes "paper_submit cfg intent s = (Inr res, s')" "sb_state res = UNKNOWN"
    and "dget (pb_orders s) (oi_client_order_id intent) = None"
  shows "\<exists>z f. dget (pb_orders s') (oi_client_order_id intent) = Some z \<and> o_state z = UNKNOWN \<and> o_fills z = [f]"
proof -
  let ?cid = "oi_client_order_id intent"
  let ?ord = "(new_order intent)\<lparr>o_state := SENT, o_attempts := 1\<rparr>"
  obtain inst q where i: "dget (pc_instruments cfg) (oi_instrument intent) = Some inst"
      "dget (pb_quotes s) (oi_instrument intent) = Some q"
    using assms by (auto simp: paper_submit_def Let_def submit_answer_def split: option.splits)
  let ?lots = "round_lots_down inst (oi_lots intent)"
  obtain t where p: "place_order cfg intent inst q ?lots t = (Inr res, s')"
    using assms i unfolding paper_submit_def Let_def
    by (auto simp: act_bind_def submit_answer_def split: if_splits prod.splits sum.splits)
  define s0 where "s0 = t\<lparr>pb_orders := dset (pb_orders t) ?cid ?ord\<rparr>"
  obtain latency s1 where l: "latency_ms cfg s0 = (latency, s1)" by (cases "latency_ms cfg s0")
  obtain x s2 where x: "draw (rng_random (pc_rng cfg)) s1 = (x, s2)" by (cases "draw (rng_random (pc_rng cfg)) s1")
  obtain rejects s3 where ll: "last_look_rejects cfg (x < 1/2) s2 = (rejects, s3)" by (cases "last_look_rejects cfg (x < 1/2) s2")
  have o3: "dget (pb_orders s3) ?cid = Some ?ord"
    using draws_keep(2) [OF l] draws_keep(1) [OF x] draws_keep(4) [OF ll] by (simp add: s0_def)
  have ins: "dget (pc_instruments cfg) (oi_instrument (o_intent ?ord)) \<noteq> None"
    "dget (pc_instruments cfg) (oi_instrument (o_intent (?ord\<lparr>o_state := UNKNOWN\<rparr>))) \<noteq> None"
    using i by (simp_all add: new_order_def)
  note p' = p [unfolded place_order_def Let_def s0_def [symmetric] l prod.case x ll]
  show ?thesis
  proof (cases "pc_timeout_ms cfg < latency")
    case True
    let ?t = "record_txn ''ORDER_TIMEOUT'' ?cid (s1\<lparr>pb_orders := dset (pb_orders s1) ?cid (?ord\<lparr>o_state := UNKNOWN\<rparr>)\<rparr>)"
    obtain u where "complete cfg ?cid inst q ?lots True latency ?t = (Inr u, s')"
      using p' True by (auto simp: act_bind_def split: prod.splits sum.splits)
    from complete_order [OF _ ins(2) this] show ?thesis by (auto simp: new_order_def)
  next
    case False
    show ?thesis
    proof (cases rejects)
      case True
      then show ?thesis using p' False assms(2) by (auto simp: submit_answer_def)
    next
      case nr: False
      obtain u where c: "complete cfg ?cid inst q ?lots False latency s3 = (Inr u, s')"
        and r: "res = order_answer (the (dget (pb_orders s') ?cid))"
        using p' False nr by (auto simp: act_bind_def split: prod.splits sum.splits)
      from complete_order [OF o3 ins(1) c] show ?thesis
        using r assms(2) by (auto simp: order_answer_def submit_answer_def)
    qed
  qed
qed

lemma record_fill_frame:
  "om_orders (record_fill cfg cid dp f slip s) = om_orders s" "om_quarantine (record_fill cfg cid dp f slip s) = om_quarantine s"
  by (simp_all add: record_fill_def Let_def split: option.splits)

lemma get_order_record_fill: "get_order c (record_fill cfg cid dp f slip s) = get_order c s"
  by (simp add: get_order_def record_fill_frame)

text \<open>A transition that is allowed, on the current state of the order.\<close>

lemma transition_to:
  assumes "dget (om_orders s) cid = Some y" "new \<in> set (LEGAL (o_state y))" "new \<noteq> o_state y"
  shows "transition cid new s = (Inr (), set_order cid (y\<lparr>o_state := new\<rparr>) s)"
  using assms by (simp add: transition_def get_order_def Let_def)

text \<open>An answer that the order is filled, with one fill not yet seen.\<close>

lemma filled_answer:
  assumes y: "dget (om_orders s) cid = Some y" "o_state y = UNKNOWN" "o_fills y = []"
    and res: "sb_state res = FILLED" "sb_fills res = [f]" "sb_stop_confirmed res"
  shows "\<exists>s'. apply_result ops ocfg cid res None s = (Inr (), s') \<and> o_state (get_order cid s') = FILLED
    \<and> o_fills (get_order cid s') = [f] \<and> o_intent (get_order cid s') = o_intent y \<and> om_quarantine s' = om_quarantine s"
proof -
  obtain v where v: "apply_result ops ocfg cid res None s =
      act_bind (apply_fills ops ocfg cid None [f]) (\<lambda>_. settle ops cid res) (set_order cid (y\<lparr>o_venue_order_id := v\<rparr>) s)"
    using y res by (simp add: apply_result_def Let_def get_order_def)
  let ?s1 = "set_order cid (y\<lparr>o_venue_order_id := v\<rparr>) s"
  let ?y2 = "y\<lparr>o_venue_order_id := v, o_fills := [f]\<rparr>"
  define s2 where "s2 = record_fill ocfg cid None f (f_slippage_pips f) (set_order cid ?y2 ?s1)"
  have s2: "dget (om_orders s2) cid = Some ?y2" "om_quarantine s2 = om_quarantine s"
    by (simp_all add: s2_def record_fill_frame)
  have a: "apply_fills ops ocfg cid None [f] ?s1 = (Inr (), s2)"
    using y(3) by (simp add: fill_slippage_def s2_def Let_def)
  have t: "transition cid FILLED s2 = (Inr (), set_order cid (?y2\<lparr>o_state := FILLED\<rparr>) s2)"
    by (rule transition_to [OF s2(1)]) (simp_all add: y(2) LEGAL_def)
  have g: "get_order cid s2 = ?y2" using s2(1) by (simp add: get_order_def)
  have "settle ops cid res s2 = (Inr (), emit (Journal ORDER_ACK cid) (set_order cid (?y2\<lparr>o_state := FILLED\<rparr>) s2))"
    using t g res by (simp add: settle_def Let_def result_target_def act_bind_def)
  then show ?thesis using s2(2) by (simp add: v act_bind_def a del: apply_fills.simps)
qed

text \<open>A first submission that the venue answers with an unknown outcome.\<close>

lemma unknown_answer:
  assumes "oi_instrument intent \<notin> set (om_quarantine s)" "dget (om_orders s) (oi_client_order_id intent) = None"
    and "0 \<le> oc_max_retries ocfg" "br_submit ops (om_broker s) intent = (Inr res, b')" "sb_state res = UNKNOWN"
  shows "\<exists>y s1. snd (submit ops ocfg intent dp s) = s1 \<and> dget (om_orders s1) (oi_client_order_id intent) = Some y
    \<and> o_state y = UNKNOWN \<and> o_fills y = [] \<and> o_intent y = intent
    \<and> oi_instrument intent \<in> set (om_quarantine s1) \<and> om_broker s1 = b' \<and> submits s1 = submits s + 1"
proof -
  let ?cid = "oi_client_order_id intent"
  let ?y0 = "(new_order intent)\<lparr>o_attempts := 1\<rparr>"
  obtain n where n: "nat (oc_max_retries ocfg + 1) = Suc n"
    using assms(3) by (metis nat_add_distrib nat_1 zero_le_one Suc_eq_plus1 One_nat_def)
  define s0 where "s0 = set_order ?cid ?y0 (emit (Journal ORDER_INTENT ?cid) (set_order ?cid (new_order intent) s))"
  have t: "transition ?cid SENT s0 = (Inr (), set_order ?cid (?y0\<lparr>o_state := SENT\<rparr>) s0)"
    by (rule transition_to) (simp_all add: s0_def new_order_def LEGAL_def)
  define s2 where "s2 = emit (BrokerSubmit ?cid) (emit (Journal ORDER_SENT ?cid) (set_order ?cid (?y0\<lparr>o_state := SENT\<rparr>) s0))"
  have s2: "om_broker s2 = om_broker s" "dget (om_orders s2) ?cid = Some (?y0\<lparr>o_state := SENT\<rparr>)"
      "submits s2 = submits s + 1"
    by (simp_all add: s2_def s0_def submits_def is_submit_def)
  have sub: "submit ops ocfg intent dp s =
      act_bind (apply_result ops ocfg ?cid res dp) (\<lambda>_ s'. (Inr (get_order ?cid s'), s')) (s2\<lparr>om_broker := b'\<rparr>)"
    using assms(1,2,4) t [unfolded s0_def]
    by (simp add: submit_def Let_def n act_bind_def s2_def s0_def)
  obtain v where v: "apply_result ops ocfg ?cid res dp (s2\<lparr>om_broker := b'\<rparr>) =
      mark_unknown ?cid (set_order ?cid (?y0\<lparr>o_state := SENT, o_venue_order_id := v\<rparr>) (s2\<lparr>om_broker := b'\<rparr>))"
    using s2(2) assms(5) by (simp add: apply_result_def Let_def get_order_def)
  let ?y3 = "?y0\<lparr>o_state := SENT, o_venue_order_id := v\<rparr>"
  let ?s3 = "set_order ?cid ?y3 (s2\<lparr>om_broker := b'\<rparr>)"
  have t3: "transition ?cid UNKNOWN ?s3 = (Inr (), set_order ?cid (?y3\<lparr>o_state := UNKNOWN\<rparr>) ?s3)"
    by (rule transition_to) (simp_all add: LEGAL_def)
  have "submits ?s3 = submits s + 1" using s2(3) by (simp add: submits_def)
  then show ?thesis
    unfolding sub using t3 by (simp add: act_bind_def v mark_unknown_def submits_def is_submit_def new_order_def)
qed

text \<open>
  C16. A submission that times out at the simulated venue is unknown and its instrument frozen after
  exactly one message to the venue; the next resolution by query finds the fill the timeout hid:
  the order is filled with the venue's fill, and the instrument is released.
\<close>

theorem timeout_is_resolved:
  assumes "oi_instrument intent \<notin> set (om_quarantine s)" "dget (om_orders s) (oi_client_order_id intent) = None"
    and "dget (pb_orders (om_broker s)) (oi_client_order_id intent) = None" "0 \<le> oc_max_retries ocfg"
    and "paper_submit cfg intent (om_broker s) = (Inr res, b')" "sb_state res = UNKNOWN"
  shows "let cid = oi_client_order_id intent; s1 = snd (submit (paper_ops cfg) ocfg intent dp s);
             (r, s2) = resolve_unknown (paper_ops cfg) ocfg cid s1
         in o_state (get_order cid s1) = UNKNOWN \<and> oi_instrument intent \<in> set (om_quarantine s1)
            \<and> submits s1 = submits s + 1
            \<and> isl r = False \<and> o_state (get_order cid s2) = FILLED \<and> oi_instrument intent \<notin> set (om_quarantine s2)
            \<and> o_fills (get_order cid s2) = o_fills (the (dget (pb_orders b') cid))"
proof -
  let ?cid = "oi_client_order_id intent" and ?ops = "paper_ops cfg"
  obtain z f where z: "dget (pb_orders b') ?cid = Some z" "o_state z = UNKNOWN" "o_fills z = [f]"
    using timeout_hides_fill [OF assms(5,6,3)] by blast
  have b: "br_submit ?ops (om_broker s) intent = (Inr res, b')" using assms(5) by (simp add: paper_ops_def)
  obtain y s1 where s1: "snd (submit ?ops ocfg intent dp s) = s1" "dget (om_orders s1) ?cid = Some y"
      "o_state y = UNKNOWN" "o_fills y = []" "o_intent y = intent"
      "oi_instrument intent \<in> set (om_quarantine s1)" "om_broker s1 = b'" "submits s1 = submits s + 1"
    using unknown_answer [OF assms(1,2,4) b assms(6)] by metis
  define ans where "ans = (order_answer (z\<lparr>o_state := FILLED\<rparr>))\<lparr>sb_state := FILLED\<rparr>"
  have ans: "sb_state ans = FILLED" "sb_fills ans = [f]" "sb_stop_confirmed ans"
    using z by (simp_all add: ans_def order_answer_def submit_answer_def)
  obtain b'' where q: "br_query_order ?ops b' ?cid = (Inr (Some ans), b'')"
    using z by (simp add: paper_ops_def paper_query_order_def ans_def Let_def)
  let ?s2 = "(emit (BrokerQuery ?cid) s1)\<lparr>om_broker := b''\<rparr>"
  obtain s3 where s3: "apply_result ?ops ocfg ?cid ans None ?s2 = (Inr (), s3)" "o_state (get_order ?cid s3) = FILLED"
      "o_fills (get_order ?cid s3) = [f]" "o_intent (get_order ?cid s3) = intent"
    using filled_answer [of ?s2 ?cid y ans f ?ops ocfg] s1 ans by auto
  have "resolve_unknown ?ops ocfg ?cid s1 = (Inr (Some (get_order ?cid s3)),
      emit (Journal RECONCILE ?cid) (unquarantine (oi_instrument intent) s3))"
    using s1 q s3 by (simp add: resolve_unknown_def Let_def act_bind_def terminal_def)
  moreover have "get_order ?cid (unquarantine i s3) = get_order ?cid s3" for i by (simp add: get_order_def)
  ultimately show ?thesis using s1 s3 z by (simp add: Let_def get_order_def)
qed

lemma complete_opens:
  assumes "dget (pb_orders s) cid = Some y" "dget (pb_positions s) (oi_instrument (o_intent y)) = None"
  shows "\<exists>s'. complete cfg cid inst q lots hidden latency s = (Inr (), s')"
proof -
  obtain slip s1 where sl: "slippage_pips cfg (Some latency) s = (slip, s1)" by (cases "slippage_pips cfg (Some latency) s")
  obtain fl st where fs: "fill_state cfg inst lots = (fl, st)" by (cases "fill_state cfg inst lots")
  have "dget (pb_positions s1) (oi_instrument (o_intent y)) = None" using assms(2) draws_keep(3) [OF sl] by simp
  then show ?thesis
    unfolding complete_def Let_def sl fs prod.case assms(1) option.sel
    by (simp add: act_bind_def apply_fill_def Let_def)
qed

lemma demo_timeout:
  "\<exists>res b'. paper_submit demo_paper_config demo_paper_intent demo_paper = (Inr res, b') \<and> sb_state res = UNKNOWN"
proof -
  let ?q = demo_paper_quote
  have l: "latency_ms demo_paper_config s = (420, s)" for s
    by (simp add: latency_ms_def draw_def demo_paper_config_def demo_rng_def default_sim_profile_def Let_def) (code_simp)
  let ?ord = "(new_order demo_paper_intent)\<lparr>o_state := SENT, o_attempts := 1\<rparr>"
  let ?s1 = "demo_paper\<lparr>pb_orders := dset (pb_orders demo_paper) ''c1'' ?ord\<rparr>"
  let ?t = "record_txn ''ORDER_TIMEOUT'' ''c1'' (?s1\<lparr>pb_orders := dset (pb_orders ?s1) ''c1'' (?ord\<lparr>o_state := UNKNOWN\<rparr>)\<rparr>)"
  have i: "oi_client_order_id demo_paper_intent = ''c1''" "oi_instrument demo_paper_intent = ''EUR_USD''"
    by (simp_all add: demo_paper_intent_def)
  obtain s' where c: "complete demo_paper_config ''c1'' eur_usd ?q (1/4) True 420 ?t = (Inr (), s')"
    using complete_opens [of ?t "''c1''" "?ord\<lparr>o_state := UNKNOWN\<rparr>" demo_paper_config eur_usd ?q "1/4" True 420]
    by (auto simp: new_order_def demo_paper_def mk_paper_def)
  have "place_order demo_paper_config demo_paper_intent eur_usd ?q (1/4) demo_paper = (Inr (submit_answer UNKNOWN), s')"
    unfolding place_order_def Let_def l prod.case i using c
    by (simp add: act_bind_def demo_paper_config_def [THEN arg_cong, of pc_timeout_ms])
  then have "paper_submit demo_paper_config demo_paper_intent demo_paper = (Inr (submit_answer UNKNOWN), s')"
    by (simp add: demo_margin demo_lots paper_submit_def Let_def i act_bind_def demo_paper_config_def [THEN arg_cong, of pc_instruments]
        eur_usd_def [THEN arg_cong, of min_lot] eur_usd_def [THEN arg_cong, of max_lot]
        demo_paper_def [THEN arg_cong, of pb_quotes] demo_paper_def [THEN arg_cong, of pb_orders] mk_paper_def)
  then show ?thesis by (simp add: submit_answer_def)
qed

theorem timeout_is_resolved_witness:
  "let (ocfg, s) = mk_order_manager (paper_ops demo_paper_config) demo_paper 2 None False;
       s1 = snd (submit (paper_ops demo_paper_config) ocfg demo_paper_intent None s);
       (r, s2) = resolve_unknown (paper_ops demo_paper_config) ocfg ''c1'' s1
   in o_state (get_order ''c1'' s1) = UNKNOWN \<and> ''EUR_USD'' \<in> set (om_quarantine s1)
      \<and> o_state (get_order ''c1'' s2) = FILLED \<and> om_broker s = demo_paper"
proof -
  obtain res b' where v: "paper_submit demo_paper_config demo_paper_intent demo_paper = (Inr res, b')" "sb_state res = UNKNOWN"
    using demo_timeout by blast
  define ocfg where "ocfg = fst (mk_order_manager (paper_ops demo_paper_config) demo_paper 2 None False)"
  define s where "s = snd (mk_order_manager (paper_ops demo_paper_config) demo_paper 2 None False)"
  have s: "om_quarantine s = []" "om_orders s = []" "om_broker s = demo_paper" "oc_max_retries ocfg = 2"
    by (simp_all add: s_def ocfg_def mk_order_manager_def paper_ops_def Let_def)
  have i: "oi_client_order_id demo_paper_intent = ''c1''" "oi_instrument demo_paper_intent = ''EUR_USD''"
    by (simp_all add: demo_paper_intent_def)
  have "dget (pb_orders demo_paper) ''c1'' = None" by (simp add: demo_paper_def mk_paper_def)
  then show ?thesis
    using timeout_is_resolved [of demo_paper_intent s ocfg demo_paper_config res b' None] v s
    by (simp add: i Let_def split_beta ocfg_def [symmetric] s_def [symmetric])
qed

definition seen_order :: order where
  "seen_order = (new_order demo_paper_intent)\<lparr>o_state := FILLED, o_venue_order_id := Some ''V00000001'',
     o_fills := [\<lparr>f_client_order_id = ''c1'', f_venue_order_id = ''V00000001'', f_instrument = ''EUR_USD'', f_side = BUY,
       f_lots = 1/4, f_price = 108540/100000, f_ts_ns = 0, f_commission = 175/100, f_slippage_pips = 0\<rparr>]\<rparr>"

theorem submission_is_idempotent_witness:
  "let s = demo_paper\<lparr>pb_orders := [(''c1'', seen_order)]\<rparr> in
   paper_submit demo_paper_config demo_paper_intent s = (Inr (order_answer seen_order), s)
   \<and> (\<exists>s'. paper_run demo_paper_config [OnQuote demo_paper_quote, SubmitOrder demo_paper_intent, QueryOrder ''c1'',
         CancelOrder ''c1'', SubmitOrder demo_paper_intent] s = Some s'
       \<and> (case dget (pb_orders s') ''c1'' of None \<Rightarrow> False | Some y' \<Rightarrow> o_fills y' = o_fills seen_order)
       \<and> fills_booked ''c1'' s' = fills_booked ''c1'' s)"
proof -
  let ?s = "demo_paper\<lparr>pb_orders := [(''c1'', seen_order)]\<rparr>"
  let ?calls = "[OnQuote demo_paper_quote, SubmitOrder demo_paper_intent, QueryOrder ''c1'', CancelOrder ''c1'',
    SubmitOrder demo_paper_intent]"
  have "book_ok demo_paper_config ?s" by (simp add: book_ok_def demo_paper_def mk_paper_def)
  then obtain s' where r: "paper_run demo_paper_config ?calls ?s = Some s'" using run_returns by blast
  have i: "oi_client_order_id demo_paper_intent = ''c1''" by (simp add: demo_paper_intent_def)
  have "dget (pb_orders ?s) (oi_client_order_id demo_paper_intent) = Some seen_order" by (simp add: i)
  from submission_is_idempotent [OF this r] r show ?thesis unfolding i Let_def by blast
qed

section \<open>The stop at the venue\<close>

text \<open>
  \<open>modify_position\<close> never moves the stop of an open position away from the market side it
  protects: whether it returns or raises, the position is still there, on the same side, with its
  stop in place and not wider than before. A fill that adds to the position has no such guard: it
  replaces the stop by the one of the new intent, even when that is wider.
\<close>

theorem only_modify_guards_the_stop:
  "(case dget (pb_positions s) name of None \<Rightarrow> True
    | Some p \<Rightarrow> (case dget (pb_positions (snd (paper_modify cfg name sl tp s))) name of None \<Rightarrow> False
      | Some p' \<Rightarrow> p_side p' = p_side p \<and> p_lots p' = p_lots p
          \<and> (case (p_stop_loss p, p_stop_loss p') of
               (None, _) \<Rightarrow> True | (Some old, None) \<Rightarrow> False | (Some old, Some new) \<Rightarrow> \<not> widens p new)))
   \<and> (let wide = demo_paper_intent\<lparr>oi_stop_loss := Some 1\<rparr>;
          f = hd (o_fills seen_order);
          held = open_position f demo_paper_intent (1/4) 50 0;
          (r, t) = apply_fill demo_paper_config f eur_usd wide (demo_paper\<lparr>pb_positions := [(''EUR_USD'', held)]\<rparr>)
      in isl r = False \<and> widens held 1
         \<and> map_option p_stop_loss (dget (pb_positions t) ''EUR_USD'') = Some (Some 1))"
proof (rule conjI, goal_cases)
  case 1
  show ?case
  proof (cases "dget (pb_positions s) name")
    case (Some p)
    have w: "\<not> widens p old" if "p_stop_loss p = Some old" for old using that by (simp add: widens_def)
    show ?thesis
    proof (cases "lookup (pc_instruments cfg) name")
      case (Inl e)
      then show ?thesis using Some w by (auto simp: paper_modify_def split: option.splits)
    next
      case (Inr inst)
      then show ?thesis using Some w
        by (auto simp: paper_modify_def Let_def split: option.splits)
    qed
  qed simp
next
  case 2
  then show ?case
    by (simp add: seen_order_def demo_paper_intent_def new_order_def open_position_def apply_fill_def add_to_position_def
        widens_def Let_def)
qed

end
