(* ===== verification/Reconcile.thy ===== *)
theory Reconcile
  imports Domain
begin

text \<open>
  \<open>src/sentinel/execution/reconcile.py\<close>: the comparison of the local book with the venue's after a
  restart, a disconnection or an unknown outcome, and the emergency stop of an unprotected position.
  The broker is an argument, the record of the calls made; any of them may raise. The venue's
  position objects, which the code updates in place, are the dictionary \<open>rs_venue\<close>. The texts of
  notes are left out; a note is kept as its kind.
\<close>

section \<open>State\<close>

datatype mismatch_kind = PHANTOM | ORPHAN | DIRECTION | SIZE_DRIFT

record mismatch =
  mm_kind :: mismatch_kind
  mm_instrument :: string
  mm_critical :: bool

datatype recon_note =
    VenueUnreadable
  | UnresolvedOrders nat
  | NoPrice string
  | ModifyFailed string
  | StopAttached string dec bool
  | RemainsUnprotected string

record reconcile_report =
  rr_ok :: bool
  rr_mismatches :: "mismatch list"
  rr_venue_positions :: nat
  rr_local_positions :: nat
  rr_unprotected :: "string list"
  rr_unresolved_orders :: "string list"
  rr_equity :: "dec option"
  rr_halt_required :: bool
  rr_notes :: "recon_note list"

datatype reconcile_event =
    MismatchJournaled
  | CleanJournaled
  | StopJournaled string
  | ReplayJournaled nat
  | ReplayFailed

record 'b venue_ops =
  vo_account :: "'b \<Rightarrow> account_state res \<times> 'b"
  vo_positions :: "'b \<Rightarrow> position list res \<times> 'b"
  vo_instrument :: "'b \<Rightarrow> string \<Rightarrow> instrument res"
  vo_quote :: "'b \<Rightarrow> string \<Rightarrow> quote res \<times> 'b"
  vo_modify_stop :: "'b \<Rightarrow> string \<Rightarrow> dec \<Rightarrow> bool res \<times> 'b"
  vo_transactions_since :: "'b \<Rightarrow> string \<Rightarrow> string list res \<times> 'b"

record 'b reconciler =
  rs_broker :: 'b
  rs_report :: reconcile_report
  rs_venue :: "(string, position) dict"
  rs_journal :: "reconcile_event list"

definition empty_report :: reconcile_report where
  "empty_report = \<lparr>rr_ok = True, rr_mismatches = [], rr_venue_positions = 0, rr_local_positions = 0, rr_unprotected = [],
     rr_unresolved_orders = [], rr_equity = None, rr_halt_required = False, rr_notes = []\<rparr>"

definition halting_note :: "recon_note \<Rightarrow> 'b reconciler \<Rightarrow> 'b reconciler" where
  "halting_note n s = s\<lparr>rs_report := (rs_report s)\<lparr>rr_halt_required := True, rr_notes := rr_notes (rs_report s) @ [n]\<rparr>\<rparr>"

definition plain_note :: "recon_note \<Rightarrow> 'b reconciler \<Rightarrow> 'b reconciler" where
  "plain_note n s = s\<lparr>rs_report := (rs_report s)\<lparr>rr_notes := rr_notes (rs_report s) @ [n]\<rparr>\<rparr>"

definition journal_event :: "reconcile_event \<Rightarrow> 'b reconciler \<Rightarrow> 'b reconciler" where
  "journal_event e s = s\<lparr>rs_journal := rs_journal s @ [e]\<rparr>"

section \<open>The emergency stop\<close>

text \<open>The distance: derived from the recorded risk where it is known, never wider than the fallback.\<close>

definition stop_distance :: "position \<Rightarrow> instrument \<Rightarrow> dec \<Rightarrow> dec option \<Rightarrow> dec \<times> bool" where
  "stop_distance pos inst stop_pips conv =
     (case conv of
        None \<Rightarrow> (stop_pips, False)
      | Some c \<Rightarrow>
          let pip_val = dmul (pip_value_quote inst (p_lots pos)) c; want = ddiv (p_initial_risk pos) pip_val in
          if 0 < p_initial_risk pos \<and> 0 < c \<and> 0 < pip_val \<and> 0 < want then (min want stop_pips, True)
          else (stop_pips, False))"

definition protected :: "position \<Rightarrow> bool" where
  "protected pos \<longleftrightarrow> p_stop_loss pos \<noteq> None \<and> p_broker_stop_confirmed pos"

definition with_stop :: "instrument \<Rightarrow> dec \<Rightarrow> dec \<Rightarrow> dec option \<Rightarrow> position \<Rightarrow> position" where
  "with_stop inst stop distance conv pos =
     (let pos' = pos\<lparr>p_stop_loss := Some stop, p_broker_stop_confirmed := True\<rparr> in
      case conv of
        None \<Rightarrow> pos'
      | Some c \<Rightarrow>
          let pip_val = dmul (pip_value_quote inst (p_lots pos)) c in
          if 0 < c \<and> 0 < pip_val then pos'\<lparr>p_initial_risk := dmul distance pip_val\<rparr> else pos')"

definition attach_emergency_stop ::
  "'b venue_ops \<Rightarrow> string \<Rightarrow> position \<Rightarrow> dec \<Rightarrow> dec option \<Rightarrow> 'b reconciler \<Rightarrow> 'b reconciler" where
  "attach_emergency_stop ops key pos stop_pips conv s =
     (let name = p_instrument pos in
      case vo_instrument ops (rs_broker s) name of
        Inl _ \<Rightarrow> halting_note (NoPrice name) s
      | Inr inst \<Rightarrow>
          (case vo_quote ops (rs_broker s) name of
             (Inl _, b) \<Rightarrow> halting_note (NoPrice name) (s\<lparr>rs_broker := b\<rparr>)
           | (Inr q, b) \<Rightarrow>
               let ref = price_for q (side_opposite (p_side pos));
                   (distance, derived) = stop_distance pos inst stop_pips conv;
                   stop = round_price inst (dsub ref (dmul (dmul (pip inst) distance) (side_sign (p_side pos))));
                   (r, b') = vo_modify_stop ops b name stop;
                   s1 = s\<lparr>rs_broker := b'\<rparr>
               in case r of
                    Inr True \<Rightarrow>
                      journal_event (StopJournaled name) (plain_note (StopAttached name distance derived)
                        (s1\<lparr>rs_venue := dset (rs_venue s1) key (with_stop inst stop distance conv pos)\<rparr>))
                  | Inr False \<Rightarrow> halting_note (RemainsUnprotected name) s1
                  | Inl _ \<Rightarrow> halting_note (RemainsUnprotected name) (plain_note (ModifyFailed name) s1)))"

section \<open>Comparing the books\<close>

definition by_instrument :: "position list \<Rightarrow> (string, position) dict" where
  "by_instrument ps = foldl (\<lambda>d p. dset d (p_instrument p) p) [] ps"

definition size_tolerance :: dec where
  "size_tolerance = 1/10000"

text \<open>What one instrument of the venue shows against the local position, and whether it halts.\<close>

definition classify :: "position option \<Rightarrow> position \<Rightarrow> mismatch_kind option" where
  "classify local vpos =
     (case local of
        None \<Rightarrow> Some ORPHAN
      | Some l \<Rightarrow>
          if p_side l \<noteq> p_side vpos then Some DIRECTION
          else if size_tolerance < dabs (dsub (p_lots l) (p_lots vpos)) then Some SIZE_DRIFT
          else None)"

definition critical :: "mismatch_kind \<Rightarrow> bool" where
  "critical k \<longleftrightarrow> k \<in> {ORPHAN, DIRECTION}"

definition add_mismatch :: "string \<Rightarrow> mismatch_kind \<Rightarrow> reconcile_report \<Rightarrow> reconcile_report" where
  "add_mismatch name k r =
     r\<lparr>rr_ok := False, rr_halt_required := (rr_halt_required r \<or> critical k),
       rr_mismatches := rr_mismatches r @ [\<lparr>mm_kind = k, mm_instrument = name, mm_critical = critical k\<rparr>]\<rparr>"

definition note_phantoms :: "(string, position) dict \<Rightarrow> (string, position) dict \<Rightarrow> reconcile_report \<Rightarrow> reconcile_report" where
  "note_phantoms local_map venue_map r =
     foldl (\<lambda>r k. if dget venue_map k = None then add_mismatch k PHANTOM r else r) r (map fst local_map)"

record reconcile_args =
  ra_auto_protect :: bool
  ra_stop_pips :: dec
  ra_conversions :: "(string, dec) dict"

text \<open>The body of the loop over the venue's positions.\<close>

definition reconcile_position ::
  "'b venue_ops \<Rightarrow> reconcile_args \<Rightarrow> (string, position) dict \<Rightarrow> string \<Rightarrow> position \<Rightarrow> 'b reconciler \<Rightarrow> unit res \<times> 'b reconciler" where
  "reconcile_position ops args local_map key vpos s =
     (let s1 = (case classify (dget local_map key) vpos of
                  None \<Rightarrow> s | Some k \<Rightarrow> s\<lparr>rs_report := add_mismatch key k (rs_report s)\<rparr>)
      in if protected vpos then (Inr (), s1)
         else
         let s2 = s1\<lparr>rs_report := (rs_report s1)\<lparr>rr_ok := False, rr_unprotected := rr_unprotected (rs_report s1) @ [key]\<rparr>\<rparr>
         in if \<not> ra_auto_protect args then (Inr (), s2)
            else if ra_conversions args = []
            then (Inr (), attach_emergency_stop ops key vpos (ra_stop_pips args) None s2)
            else case vo_instrument ops (rs_broker s2) key of
                   Inl e \<Rightarrow> (Inl e, s2)
                 | Inr inst \<Rightarrow> (Inr (), attach_emergency_stop ops key vpos (ra_stop_pips args)
                                  (dget (ra_conversions args) (quote_ccy inst)) s2))"

fun reconcile_positions ::
  "'b venue_ops \<Rightarrow> reconcile_args \<Rightarrow> (string, position) dict \<Rightarrow> (string \<times> position) list \<Rightarrow> 'b reconciler
    \<Rightarrow> unit res \<times> 'b reconciler" where
  "reconcile_positions ops args local_map [] s = (Inr (), s)"
| "reconcile_positions ops args local_map ((k, p) # rest) s =
     (case reconcile_position ops args local_map k p s of
        (Inl e, s') \<Rightarrow> (Inl e, s')
      | (Inr _, s') \<Rightarrow> reconcile_positions ops args local_map rest s')"

definition reconcile ::
  "'b venue_ops \<Rightarrow> reconcile_args \<Rightarrow> position list \<Rightarrow> string list \<Rightarrow> 'b \<Rightarrow> reconcile_event list \<Rightarrow> unit res \<times> 'b reconciler" where
  "reconcile ops args local unresolved b journal =
     (let failed = (\<lambda>b. (Inr (), journal_event MismatchJournaled (halting_note VenueUnreadable
            \<lparr>rs_broker = b, rs_report = empty_report\<lparr>rr_ok := False\<rparr>, rs_venue = [], rs_journal = journal\<rparr>))) in
      case vo_account ops b of
        (Inl _, b1) \<Rightarrow> failed b1
      | (Inr acct, b1) \<Rightarrow>
          (case vo_positions ops b1 of
             (Inl _, b2) \<Rightarrow> failed b2
           | (Inr vpos, b2) \<Rightarrow>
               let r0 = empty_report\<lparr>rr_equity := Some (ac_equity acct), rr_venue_positions := length vpos,
                     rr_local_positions := length local, rr_unresolved_orders := unresolved,
                     rr_ok := (unresolved = []), rr_halt_required := (unresolved \<noteq> []),
                     rr_notes := (if unresolved = [] then [] else [UnresolvedOrders (length unresolved)])\<rparr>;
                   local_map = by_instrument local; venue_map = by_instrument vpos;
                   s0 = \<lparr>rs_broker = b2, rs_report = note_phantoms local_map venue_map r0, rs_venue = venue_map,
                         rs_journal = journal\<rparr>
               in case reconcile_positions ops args local_map venue_map s0 of
                    (Inl e, s) \<Rightarrow> (Inl e, s)
                  | (Inr _, s) \<Rightarrow>
                      (Inr (), journal_event
                         (if rr_mismatches (rs_report s) \<noteq> [] \<or> rr_unprotected (rs_report s) \<noteq> []
                          then MismatchJournaled else CleanJournaled) s)))"

definition replay_transactions :: "'b venue_ops \<Rightarrow> string \<Rightarrow> 'b reconciler \<Rightarrow> string list \<times> 'b reconciler" where
  "replay_transactions ops last_id s =
     (case vo_transactions_since ops (rs_broker s) last_id of
        (Inl _, b) \<Rightarrow> ([], journal_event ReplayFailed (s\<lparr>rs_broker := b\<rparr>))
      | (Inr es, b) \<Rightarrow> (es, (if es = [] then (\<lambda>s. s) else journal_event (ReplayJournaled (length es))) (s\<lparr>rs_broker := b\<rparr>)))"

section \<open>What one position contributes\<close>

abbreviation halts :: "'b reconciler \<Rightarrow> bool" where
  "halts s \<equiv> rr_halt_required (rs_report s)"

text \<open>The part of the report that the emergency stop never touches.\<close>

definition findings :: "'b reconciler \<Rightarrow> bool \<times> mismatch list \<times> string list \<times> string list" where
  "findings s = (rr_ok (rs_report s), rr_mismatches (rs_report s), rr_unprotected (rs_report s),
     rr_unresolved_orders (rs_report s))"

lemma notes_only [simp]:
  "findings (halting_note n s) = findings s" "findings (plain_note n s) = findings s"
  "findings (journal_event e s) = findings s"
  "rs_venue (halting_note n s) = rs_venue s" "rs_venue (plain_note n s) = rs_venue s"
  "rs_venue (journal_event e s) = rs_venue s"
  "halts (halting_note n s)" "halts (plain_note n s) = halts s" "halts (journal_event e s) = halts s"
  "rs_journal (halting_note n s) = rs_journal s" "rs_journal (plain_note n s) = rs_journal s"
  "rs_report (journal_event e s) = rs_report s"
  by (simp_all add: findings_def halting_note_def plain_note_def journal_event_def)

lemma protected_with_stop [simp]: "protected (with_stop inst stop distance conv pos)"
  by (simp add: protected_def with_stop_def Let_def split: option.splits)

text \<open>Either the agent halts, or the position of the venue now carries a confirmed stop.\<close>

lemma attach_cases:
  fixes s :: "'b reconciler"
  obtains (halted) "halts (attach_emergency_stop ops key pos pips conv s)"
      "rs_venue (attach_emergency_stop ops key pos pips conv s) = rs_venue s"
  | (attached) p where "protected p" "rs_venue (attach_emergency_stop ops key pos pips conv s) = dset (rs_venue s) key p"
      "halts (attach_emergency_stop ops key pos pips conv s) = halts s"
proof (cases "vo_instrument ops (rs_broker s) (p_instrument pos)")
  case (Inl e)
  then show thesis by (intro halted) (simp_all add: attach_emergency_stop_def)
next
  case (Inr inst)
  note inst = this
  obtain q b where q: "vo_quote ops (rs_broker s) (p_instrument pos) = (q, b)" by fastforce
  show thesis
  proof (cases q)
    case (Inl e)
    then show thesis using inst q by (intro halted) (simp_all add: attach_emergency_stop_def)
  next
    case (Inr qu)
    obtain d dv where dd: "stop_distance pos inst pips conv = (d, dv)" by fastforce
    let ?stop = "round_price inst (dsub (price_for qu (side_opposite (p_side pos)))
      (dmul (dmul (pip inst) d) (side_sign (p_side pos))))"
    obtain r b' where r: "vo_modify_stop ops b (p_instrument pos) ?stop = (r, b')" by fastforce
    note eval = attach_emergency_stop_def Let_def inst q Inr dd r
    show thesis
    proof (cases r)
      case (Inl e)
      then show thesis by (intro halted) (simp_all add: eval)
    next
      case (Inr answer)
      then show thesis by (cases answer) (auto simp: eval intro: halted attached [OF protected_with_stop])
    qed
  qed
qed

lemma attach_findings [simp]: "findings (attach_emergency_stop ops key pos pips conv s) = findings s"
proof -
  have upd: "findings (s\<lparr>rs_broker := b\<rparr>) = findings s" "findings (s\<lparr>rs_broker := b, rs_venue := v\<rparr>) = findings s" for b v
    by (simp_all add: findings_def)
  show ?thesis
    by (simp add: attach_emergency_stop_def Let_def upd split: sum.split prod.split bool.split)
qed

text \<open>What the books say about one instrument and about a list of them.\<close>

definition mismatch_on :: "string \<Rightarrow> mismatch_kind \<Rightarrow> mismatch" where
  "mismatch_on name k = \<lparr>mm_kind = k, mm_instrument = name, mm_critical = critical k\<rparr>"

definition differences :: "(string, position) dict \<Rightarrow> (string, position) dict \<Rightarrow> mismatch list" where
  "differences local_map venue_map =
     concat (map (\<lambda>(k, p). case classify (dget local_map k) p of None \<Rightarrow> [] | Some c \<Rightarrow> [mismatch_on k c]) venue_map)"

definition phantoms :: "(string, position) dict \<Rightarrow> (string, position) dict \<Rightarrow> mismatch list" where
  "phantoms local_map venue_map = map (\<lambda>k. mismatch_on k PHANTOM) (filter (\<lambda>k. dget venue_map k = None) (map fst local_map))"

definition naked :: "(string, position) dict \<Rightarrow> string list" where
  "naked venue_map = map fst (filter (\<lambda>(k, p). \<not> protected p) venue_map)"

lemma add_mismatch_fields [simp]:
  "rr_ok (add_mismatch k c r) = False" "rr_mismatches (add_mismatch k c r) = rr_mismatches r @ [mismatch_on k c]"
  "rr_unprotected (add_mismatch k c r) = rr_unprotected r" "rr_unresolved_orders (add_mismatch k c r) = rr_unresolved_orders r"
  "rr_halt_required (add_mismatch k c r) = (rr_halt_required r \<or> critical c)"
  by (simp_all add: add_mismatch_def mismatch_on_def)

lemma note_phantoms_fields:
  "rr_mismatches (note_phantoms lm vm r) = rr_mismatches r @ phantoms lm vm"
  "rr_ok (note_phantoms lm vm r) = (rr_ok r \<and> phantoms lm vm = [])"
  "rr_unprotected (note_phantoms lm vm r) = rr_unprotected r"
  "rr_unresolved_orders (note_phantoms lm vm r) = rr_unresolved_orders r"
  "rr_halt_required (note_phantoms lm vm r) = rr_halt_required r"
proof -
  let ?f = "\<lambda>r k. if dget vm k = None then add_mismatch k PHANTOM r else r"
  let ?ph = "\<lambda>ks. map (\<lambda>k. mismatch_on k PHANTOM) (filter (\<lambda>k. dget vm k = None) ks)"
  have "rr_mismatches (foldl ?f r ks) = rr_mismatches r @ ?ph ks \<and> rr_ok (foldl ?f r ks) = (rr_ok r \<and> ?ph ks = [])
    \<and> rr_unprotected (foldl ?f r ks) = rr_unprotected r \<and> rr_unresolved_orders (foldl ?f r ks) = rr_unresolved_orders r
    \<and> rr_halt_required (foldl ?f r ks) = rr_halt_required r" for ks
    by (induction ks arbitrary: r) (simp_all add: critical_def)
  then show "rr_mismatches (note_phantoms lm vm r) = rr_mismatches r @ phantoms lm vm"
    "rr_ok (note_phantoms lm vm r) = (rr_ok r \<and> phantoms lm vm = [])"
    "rr_unprotected (note_phantoms lm vm r) = rr_unprotected r"
    "rr_unresolved_orders (note_phantoms lm vm r) = rr_unresolved_orders r"
    "rr_halt_required (note_phantoms lm vm r) = rr_halt_required r"
    by (simp_all add: note_phantoms_def phantoms_def)
qed

text \<open>The venue's position is left alone, or it is handed to the emergency stop, or an exception escapes.\<close>

definition entered :: "(string, position) dict \<Rightarrow> string \<Rightarrow> position \<Rightarrow> 'b reconciler \<Rightarrow> 'b reconciler" where
  "entered lm k p s =
     (let s1 = (case classify (dget lm k) p of None \<Rightarrow> s | Some c \<Rightarrow> s\<lparr>rs_report := add_mismatch k c (rs_report s)\<rparr>)
      in if protected p then s1
         else s1\<lparr>rs_report := (rs_report s1)\<lparr>rr_ok := False, rr_unprotected := rr_unprotected (rs_report s1) @ [k]\<rparr>\<rparr>)"

lemma reconcile_position_cases:
  assumes "reconcile_position ops args lm k p s = (Inr (), s')"
  obtains "protected p \<or> \<not> ra_auto_protect args" "s' = entered lm k p s"
  | conv where "\<not> protected p" "ra_auto_protect args"
      "s' = attach_emergency_stop ops k p (ra_stop_pips args) conv (entered lm k p s)"
proof -
  have "if protected p \<or> \<not> ra_auto_protect args then s' = entered lm k p s
    else \<exists>conv. s' = attach_emergency_stop ops k p (ra_stop_pips args) conv (entered lm k p s)"
    using assms by (auto simp: reconcile_position_def entered_def Let_def split: if_splits sum.splits)
  then show thesis using that by (auto split: if_splits)
qed

lemma entered_fields:
  "findings (entered lm k p s) =
     (rr_ok (rs_report s) \<and> differences lm [(k, p)] = [] \<and> protected p,
      rr_mismatches (rs_report s) @ differences lm [(k, p)], rr_unprotected (rs_report s) @ naked [(k, p)],
      rr_unresolved_orders (rs_report s))"
  "rs_venue (entered lm k p s) = rs_venue s" "rs_broker (entered lm k p s) = rs_broker s"
  "halts (entered lm k p s) = (halts s \<or> (\<exists>m\<in>set (differences lm [(k, p)]). mm_critical m))"
  by (auto simp: entered_def findings_def differences_def naked_def Let_def mismatch_on_def split: option.splits)

lemma reconcile_position_findings:
  assumes "reconcile_position ops args lm k p s = (Inr (), s')"
  shows "findings s' = findings (entered lm k p s)"
  by (rule reconcile_position_cases [OF assms]) simp_all

lemma differences_Cons: "differences lm (kp # xs) = differences lm [kp] @ differences lm xs"
  by (simp add: differences_def)

lemma naked_Cons: "naked (kp # xs) = naked [kp] @ naked xs"
  by (simp add: naked_def)

lemma reconcile_positions_findings:
  assumes "reconcile_positions ops args lm xs s = (Inr (), s')"
  shows "findings s' = (rr_ok (rs_report s) \<and> differences lm xs = [] \<and> naked xs = [],
     rr_mismatches (rs_report s) @ differences lm xs, rr_unprotected (rs_report s) @ naked xs,
     rr_unresolved_orders (rs_report s))"
  using assms
proof (induction xs arbitrary: s)
  case Nil
  then show ?case by (simp add: findings_def differences_def naked_def)
next
  case (Cons kp xs)
  obtain k p where kp: "kp = (k, p)" by fastforce
  obtain r s1 where step: "reconcile_position ops args lm k p s = (r, s1)" by fastforce
  with Cons.prems kp have r: "r = Inr ()" and rest: "reconcile_positions ops args lm xs s1 = (Inr (), s')"
    by (auto split: sum.splits)
  have "findings s1 = findings (entered lm k p s)" using reconcile_position_findings step r by blast
  then have s1: "rr_ok (rs_report s1) = (rr_ok (rs_report s) \<and> differences lm [(k, p)] = [] \<and> protected p)"
    "rr_mismatches (rs_report s1) = rr_mismatches (rs_report s) @ differences lm [(k, p)]"
    "rr_unprotected (rs_report s1) = rr_unprotected (rs_report s) @ naked [(k, p)]"
    "rr_unresolved_orders (rs_report s1) = rr_unresolved_orders (rs_report s)"
    by (simp_all add: entered_fields) (simp_all add: findings_def)
  have np: "naked [(k, p)] = [] \<longleftrightarrow> protected p" by (simp add: naked_def)
  show ?case
    unfolding Cons.IH [OF rest] s1 kp differences_Cons [of lm "(k, p)" xs] naked_Cons [of "(k, p)" xs]
    using np by auto
qed

text \<open>Progress of protection along the loop: once the loop is past an instrument, its position is protected or the
  agent halts; halting is never taken back.\<close>

lemma reconcile_position_protects:
  assumes step: "reconcile_position ops args lm k p s = (Inr (), s1)" and auto: "ra_auto_protect args"
    and here: "dget (rs_venue s) k = Some p"
  shows "k' \<noteq> k \<Longrightarrow> dget (rs_venue s1) k' = dget (rs_venue s) k'"
    and "\<not> halts s1 \<Longrightarrow> \<not> halts s \<and> (\<forall>m\<in>set (differences lm [(k, p)]). \<not> mm_critical m)
      \<and> (\<exists>p'. protected p' \<and> dget (rs_venue s1) k = Some p')"
proof -
  let ?e = "entered lm k p s"
  have "(k' \<noteq> k \<longrightarrow> dget (rs_venue s1) k' = dget (rs_venue s) k') \<and> (\<not> halts s1 \<longrightarrow> \<not> halts ?e
      \<and> (\<exists>p'. protected p' \<and> dget (rs_venue s1) k = Some p'))"
  proof (rule reconcile_position_cases [OF step], goal_cases)
    case 1
    then show ?case using here auto by (simp add: entered_fields(2))
  next
    case (2 conv)
    show ?case
    proof (rule attach_cases [of ops k p "ra_stop_pips args" conv ?e], goal_cases)
      case 1
      then show ?case using 2 by (simp add: entered_fields(2))
    next
      case (2 p')
      then show ?case using \<open>s1 = _\<close> by (simp add: entered_fields(2))
    qed
  qed
  then show "k' \<noteq> k \<Longrightarrow> dget (rs_venue s1) k' = dget (rs_venue s) k'"
    "\<not> halts s1 \<Longrightarrow> \<not> halts s \<and> (\<forall>m\<in>set (differences lm [(k, p)]). \<not> mm_critical m)
      \<and> (\<exists>p'. protected p' \<and> dget (rs_venue s1) k = Some p')"
    unfolding entered_fields(4) by blast+
qed

lemma reconcile_positions_protects:
  assumes "reconcile_positions ops args lm xs s = (Inr (), s')" "ra_auto_protect args" "distinct (map fst xs)"
    "\<forall>(k, p)\<in>set xs. dget (rs_venue s) k = Some p"
    "\<not> halts s \<Longrightarrow> (\<forall>k p. dget (rs_venue s) k = Some p \<longrightarrow> k \<in> fst ` set xs \<or> protected p)"
    "\<not> halts s'"
  shows "\<not> halts s \<and> (\<forall>k p. dget (rs_venue s') k = Some p \<longrightarrow> protected p)
      \<and> (\<forall>m\<in>set (differences lm xs). \<not> mm_critical m)
      \<and> (\<forall>k. dget (rs_venue s') k = None \<longleftrightarrow> dget (rs_venue s) k = None)"
  using assms
proof (induction xs arbitrary: s)
  case Nil
  then show ?case by (simp add: differences_def)
next
  case (Cons kp xs)
  obtain k p where kp: "kp = (k, p)" by fastforce
  obtain r s1 where step: "reconcile_position ops args lm k p s = (r, s1)" by fastforce
  with Cons.prems kp have r: "r = Inr ()" and rest: "reconcile_positions ops args lm xs s1 = (Inr (), s')"
    by (auto split: sum.splits)
  have here: "dget (rs_venue s) k = Some p" using Cons.prems(4) kp by simp
  note others = reconcile_position_protects(1) [OF step [unfolded r] Cons.prems(2) here]
  note mine = reconcile_position_protects(2) [OF step [unfolded r] Cons.prems(2) here]
  have dist: "distinct (map fst xs)" "k \<notin> fst ` set xs" using Cons.prems(3) kp by auto
  have agree: "\<forall>(k', p')\<in>set xs. dget (rs_venue s1) k' = Some p'"
  proof (intro ballI, clarify)
    fix k' p' assume in_xs: "(k', p') \<in> set xs"
    then have "k' \<noteq> k" using dist(2) by (metis fst_conv image_eqI)
    moreover have "dget (rs_venue s) k' = Some p'" using Cons.prems(4) in_xs by auto
    ultimately show "dget (rs_venue s1) k' = Some p'" using others by simp
  qed
  have past: "\<forall>k' p'. dget (rs_venue s1) k' = Some p' \<longrightarrow> k' \<in> fst ` set xs \<or> protected p'" if nh: "\<not> halts s1"
  proof (intro allI impI)
    fix k' p' assume got: "dget (rs_venue s1) k' = Some p'"
    show "k' \<in> fst ` set xs \<or> protected p'"
    proof (cases "k' = k")
      case True
      then show ?thesis using mine [OF nh] got by auto
    next
      case False
      moreover have "dget (rs_venue s) k' = Some p'" using others [OF False] got by simp
      then have "k' \<in> fst ` set (kp # xs) \<or> protected p'" using Cons.prems(5) mine [OF nh] by simp
      ultimately show ?thesis using kp by simp
    qed
  qed
  note ih = Cons.IH [OF rest Cons.prems(2) dist(1) agree past Cons.prems(6)]
  have nh: "\<not> halts s1" using ih by simp
  have "dget (rs_venue s1) k' = None \<longleftrightarrow> dget (rs_venue s) k' = None" for k'
    by (cases "k' = k") (use others here mine [OF nh] in auto)
  moreover have "\<forall>m\<in>set (differences lm (kp # xs)). \<not> mm_critical m"
    unfolding kp differences_Cons [of lm "(k, p)" xs] using mine [OF nh] ih by auto
  ultimately show ?case using ih mine [OF nh] by simp
qed

section \<open>The whole reconciliation\<close>

lemma distinct_by_instrument: "distinct (map fst (by_instrument ps))"
proof -
  have "distinct (map fst d) \<Longrightarrow> distinct (map fst (foldl (\<lambda>d p. dset d (p_instrument p) p) d ps))" for d
    by (induction ps arbitrary: d) (simp_all add: distinct_update)
  then show ?thesis by (simp add: by_instrument_def)
qed

lemma by_instrument_covers: "p \<in> set ps \<Longrightarrow> dget (by_instrument ps) (p_instrument p) \<noteq> None"
proof -
  have "dget d k \<noteq> None \<or> (\<exists>p\<in>set ps. p_instrument p = k) \<Longrightarrow> dget (foldl (\<lambda>d p. dset d (p_instrument p) p) d ps) k \<noteq> None" for d k
    by (induction ps arbitrary: d) auto
  then show "p \<in> set ps \<Longrightarrow> dget (by_instrument ps) (p_instrument p) \<noteq> None"
    unfolding by_instrument_def by blast
qed

text \<open>The state the loop over the venue's positions starts from.\<close>

definition loop_start :: "position list \<Rightarrow> string list \<Rightarrow> position list \<Rightarrow> account_state \<Rightarrow> 'b \<Rightarrow> reconcile_event list \<Rightarrow> 'b reconciler" where
  "loop_start local unresolved venue_list acct b journal =
     \<lparr>rs_broker = b,
      rs_report = note_phantoms (by_instrument local) (by_instrument venue_list)
        (empty_report\<lparr>rr_equity := Some (ac_equity acct), rr_venue_positions := length venue_list,
           rr_local_positions := length local, rr_unresolved_orders := unresolved,
           rr_ok := (unresolved = []), rr_halt_required := (unresolved \<noteq> []),
           rr_notes := (if unresolved = [] then [] else [UnresolvedOrders (length unresolved)])\<rparr>),
      rs_venue = by_instrument venue_list, rs_journal = journal\<rparr>"

lemma reconcile_readable:
  assumes "vo_account ops b = (Inr acct, b1)" "vo_positions ops b1 = (Inr venue_list, b2)"
  shows "reconcile ops args local unresolved b journal =
    (case reconcile_positions ops args (by_instrument local) (by_instrument venue_list)
            (loop_start local unresolved venue_list acct b2 journal) of
       (Inl e, s) \<Rightarrow> (Inl e, s)
     | (Inr _, s) \<Rightarrow> (Inr (), journal_event
         (if rr_mismatches (rs_report s) \<noteq> [] \<or> rr_unprotected (rs_report s) \<noteq> []
          then MismatchJournaled else CleanJournaled) s))"
  by (simp add: reconcile_def loop_start_def assms Let_def)

lemma reconcile_unreadable:
  assumes "reconcile ops args local unresolved b journal = (Inr (), s)" "\<not> halts s"
  obtains acct b1 venue_list b2 where "vo_account ops b = (Inr acct, b1)" "vo_positions ops b1 = (Inr venue_list, b2)"
proof -
  obtain r b1 where acc: "vo_account ops b = (r, b1)" by fastforce
  obtain v b2 where pos: "vo_positions ops b1 = (v, b2)" by fastforce
  have halts_failed: "halts s" if "reconcile ops args local unresolved b journal = (Inr (), journal_event e (halting_note n t))" for e n t
  proof -
    have "s = journal_event e (halting_note n t)" using assms(1) that by simp
    then show ?thesis by (simp only: notes_only)
  qed
  have "halts s" if "r = Inl e" for e
    by (rule halts_failed) (simp add: reconcile_def acc that)
  moreover have "halts s" if "r = Inr a" "v = Inl e" for a e
    by (rule halts_failed) (simp add: reconcile_def acc pos that)
  ultimately obtain acct vl where "r = Inr acct" "v = Inr vl"
    using assms(2) by (cases r; cases v) auto
  then show thesis using that acc pos by simp
qed

lemma reconcile_returned:
  assumes read: "vo_account ops b = (Inr acct, b1)" "vo_positions ops b1 = (Inr venue_list, b2)"
    and ret: "reconcile ops args local unresolved b journal = (Inr (), s)"
  obtains s1 where "reconcile_positions ops args (by_instrument local) (by_instrument venue_list)
      (loop_start local unresolved venue_list acct b2 journal) = (Inr (), s1)"
    "rs_report s = rs_report s1" "rs_venue s = rs_venue s1"
proof -
  obtain r s1 where loop: "reconcile_positions ops args (by_instrument local) (by_instrument venue_list)
      (loop_start local unresolved venue_list acct b2 journal) = (r, s1)" by fastforce
  show thesis
  proof (cases r)
    case (Inl e)
    then show thesis using ret unfolding reconcile_readable [OF read] loop by simp
  next
    case (Inr u)
    obtain e where "s = journal_event e s1" using ret unfolding reconcile_readable [OF read] loop Inr by force
    then have "rs_report s = rs_report s1" "rs_venue s = rs_venue s1" by (simp_all only: notes_only)
    then show thesis using that loop Inr by simp
  qed
qed

lemma loop_start_fields:
  "rs_venue (loop_start local unresolved venue_list acct b journal) = by_instrument venue_list"
  "rs_broker (loop_start local unresolved venue_list acct b journal) = b"
  "halts (loop_start local unresolved venue_list acct b journal) = (unresolved \<noteq> [])"
  "findings (loop_start local unresolved venue_list acct b journal) =
     (unresolved = [] \<and> phantoms (by_instrument local) (by_instrument venue_list) = [],
      phantoms (by_instrument local) (by_instrument venue_list), [], unresolved)"
  by (simp_all add: loop_start_def findings_def note_phantoms_fields empty_report_def)

lemma not_critical_iff:
  "(\<forall>m\<in>set (differences lm vm). \<not> mm_critical m) \<longleftrightarrow>
     (\<forall>(k, p)\<in>set vm. \<exists>l. dget lm k = Some l \<and> p_side l = p_side p)"
proof -
  have "(\<forall>m\<in>set (case classify (dget lm k) p of None \<Rightarrow> [] | Some c \<Rightarrow> [mismatch_on k c]). \<not> mm_critical m)
    \<longleftrightarrow> (\<exists>l. dget lm k = Some l \<and> p_side l = p_side p)" for k p
    by (auto simp: classify_def mismatch_on_def critical_def split: option.splits)
  then show ?thesis by (simp add: differences_def case_prod_beta)
qed

text \<open>
  C11. Reconciliation never leaves naked risk behind silently. Whatever the broker answers, and whichever of its calls
  raise, when \<open>reconcile\<close> with automatic protection returns without asking for a halt, then no order was
  unresolved, the account and the positions of the venue were read, every venue position is held locally in the same
  direction, and each of them now has a confirmed stop at the venue.
\<close>

theorem reconcile_protects_or_halts:
  assumes "ra_auto_protect args" "reconcile ops args local unresolved b journal = (Inr (), s)"
    "\<not> rr_halt_required (rs_report s)"
  shows "unresolved = [] \<and> (\<exists>acct b1 venue_list b2.
      vo_account ops b = (Inr acct, b1) \<and> vo_positions ops b1 = (Inr venue_list, b2)
      \<and> (\<forall>p\<in>set venue_list. dget (rs_venue s) (p_instrument p) \<noteq> None)
      \<and> (\<forall>k p. dget (rs_venue s) k = Some p \<longrightarrow> p_stop_loss p \<noteq> None \<and> p_broker_stop_confirmed p)
      \<and> (\<forall>k p. dget (by_instrument venue_list) k = Some p \<longrightarrow>
            (\<exists>l. dget (by_instrument local) k = Some l \<and> p_side l = p_side p)))"
proof -
  obtain acct b1 vl b2 where read: "vo_account ops b = (Inr acct, b1)" "vo_positions ops b1 = (Inr vl, b2)"
    by (rule reconcile_unreadable [OF assms(2,3)])
  let ?s0 = "loop_start local unresolved vl acct b2 journal"
  obtain s1 where loop: "reconcile_positions ops args (by_instrument local) (by_instrument vl) ?s0 = (Inr (), s1)"
    and s: "rs_report s = rs_report s1" "rs_venue s = rs_venue s1"
    by (rule reconcile_returned [OF read assms(2)])
  have nh: "\<not> halts s1" using assms(3) s(1) by simp
  have held: "\<forall>(k, p)\<in>set (by_instrument vl). dget (rs_venue ?s0) k = Some p"
    unfolding loop_start_fields(1) by (intro ballI, clarify) (rule map_of_is_SomeI [OF distinct_by_instrument])
  have covered: "\<forall>k p. dget (rs_venue ?s0) k = Some p \<longrightarrow> k \<in> fst ` set (by_instrument vl) \<or> protected p"
  proof (intro allI impI disjI1)
    fix k p assume "dget (rs_venue ?s0) k = Some p"
    then have "(k, p) \<in> set (by_instrument vl)" unfolding loop_start_fields(1) by (rule map_of_SomeD)
    then show "k \<in> fst ` set (by_instrument vl)" by force
  qed
  from reconcile_positions_protects [OF loop assms(1) distinct_by_instrument held covered nh]
  have start: "\<not> halts ?s0" and all_safe: "\<forall>k p. dget (rs_venue s1) k = Some p \<longrightarrow> protected p"
    and sides: "\<forall>m\<in>set (differences (by_instrument local) (by_instrument vl)). \<not> mm_critical m"
    and kept: "\<forall>k. dget (rs_venue s1) k = None \<longleftrightarrow> dget (rs_venue ?s0) k = None"
    by simp_all
  have same_side: "\<exists>l. dget (by_instrument local) k = Some l \<and> p_side l = p_side p"
    if "dget (by_instrument vl) k = Some p" for k p
    using bspec [OF sides [unfolded not_critical_iff] map_of_SomeD [OF that]] by simp
  have present: "dget (rs_venue s) (p_instrument p) \<noteq> None" if "p \<in> set vl" for p
    using kept by_instrument_covers [OF that] unfolding s(2) loop_start_fields(1) by simp
  have safe: "p_stop_loss p \<noteq> None" "p_broker_stop_confirmed p" if "dget (rs_venue s) k = Some p" for k p
    using all_safe that unfolding s(2) protected_def by simp_all
  have "unresolved = []" using start unfolding loop_start_fields(3) by simp
  then show ?thesis
  proof (intro conjI exI)
    show "vo_account ops b = (Inr acct, b1)" "vo_positions ops b1 = (Inr vl, b2)" by (rule read)+
  qed (use present safe same_side in \<open>simp_all\<close>)
qed

text \<open>
  Reconciliation reports every difference between the books and nothing else. When the venue can be read and
  \<open>reconcile\<close> returns, its mismatches are exactly the phantoms, in the order of the local book, followed by what
  comparing side and size says of each venue position; the unprotected list is exactly the venue positions that had no
  confirmed stop when they were read, repaired or not; and the report is ok exactly when there is no difference, no
  unprotected position and no unresolved order.
\<close>

theorem reconcile_reports_every_difference:
  assumes "vo_account ops b = (Inr acct, b1)" "vo_positions ops b1 = (Inr venue_list, b2)"
    "reconcile ops args local unresolved b journal = (Inr (), s)"
  shows "let lm = by_instrument local; vm = by_instrument venue_list; r = rs_report s in
    rr_mismatches r = map (\<lambda>k. mismatch_on k PHANTOM) (filter (\<lambda>k. dget vm k = None) (map fst lm)) @
      concat (map (\<lambda>(k, p). case classify (dget lm k) p of None \<Rightarrow> [] | Some c \<Rightarrow> [mismatch_on k c]) vm)
    \<and> rr_unprotected r = map fst (filter (\<lambda>(k, p). \<not> protected p) vm)
    \<and> rr_unresolved_orders r = unresolved
    \<and> rr_ok r = (rr_mismatches r = [] \<and> rr_unprotected r = [] \<and> unresolved = [])"
proof -
  let ?s0 = "loop_start local unresolved venue_list acct b2 journal"
  obtain s1 where loop: "reconcile_positions ops args (by_instrument local) (by_instrument venue_list) ?s0 = (Inr (), s1)"
    and s: "rs_report s = rs_report s1"
    by (rule reconcile_returned [OF assms])
  have "findings s = findings s1" using s by (simp add: findings_def)
  then have f: "findings s = (unresolved = [] \<and> phantoms (by_instrument local) (by_instrument venue_list) = []
      \<and> differences (by_instrument local) (by_instrument venue_list) = [] \<and> naked (by_instrument venue_list) = [],
      phantoms (by_instrument local) (by_instrument venue_list) @ differences (by_instrument local) (by_instrument venue_list),
      naked (by_instrument venue_list), unresolved)"
    using reconcile_positions_findings [OF loop] loop_start_fields(4) [of local unresolved venue_list acct b2 journal]
    by (simp add: findings_def)
  then show ?thesis
    by (auto simp add: findings_def Let_def phantoms_def differences_def naked_def)
qed

text \<open>The loop stops at the first naked position the broker has no contract for, when conversions are given.\<close>

lemma reconcile_positions_skips:
  assumes "\<forall>(k, p)\<in>set xs. protected p"
  shows "\<exists>s1. reconcile_positions ops args lm (xs @ ys) s = reconcile_positions ops args lm ys s1
    \<and> rs_venue s1 = rs_venue s \<and> rs_broker s1 = rs_broker s \<and> rs_journal s1 = rs_journal s"
  using assms
proof (induction xs arbitrary: s)
  case Nil
  then show ?case by (intro exI [of _ s]) simp
next
  case (Cons kp xs)
  obtain k p where kp: "kp = (k, p)" by fastforce
  let ?s = "entered lm k p s"
  have "reconcile_position ops args lm k p s = (Inr (), ?s)"
    using Cons.prems kp by (simp add: reconcile_position_def entered_def Let_def)
  moreover have "rs_journal ?s = rs_journal s" by (simp add: entered_def Let_def split: option.splits)
  moreover obtain s1 where "reconcile_positions ops args lm (xs @ ys) ?s = reconcile_positions ops args lm ys s1
    \<and> rs_venue s1 = rs_venue ?s \<and> rs_broker s1 = rs_broker ?s \<and> rs_journal s1 = rs_journal ?s"
    using Cons.IH [of ?s] Cons.prems by auto
  ultimately show ?case using kp by (intro exI [of _ s1]) (simp add: entered_fields)
qed

lemma reconcile_positions_without_conversions:
  "ra_conversions args = [] \<Longrightarrow> fst (reconcile_positions ops args lm xs s) = Inr ()"
proof (induction xs arbitrary: s)
  case (Cons kp xs)
  obtain k p where kp: "kp = (k, p)" by fastforce
  have "fst (reconcile_position ops args lm k p s) = Inr ()"
    using Cons.prems by (cases "protected p"; cases "ra_auto_protect args") (simp_all add: reconcile_position_def Let_def)
  then obtain s1 where "reconcile_position ops args lm k p s = (Inr (), s1)" by (metis prod.collapse)
  then show ?case using Cons kp by simp
qed simp

text \<open>
  The exception handling of the emergency stop does not cover the call that prepares it. The conversion rate is
  looked up in an argument, outside the handler, so with conversions given, as the agent gives them on every cycle, an
  unprotected position on an instrument the broker object does not list makes \<open>reconcile\<close> itself raise: no stop is
  placed on it or on any later position, and nothing is journaled. Without conversions the same venue makes
  \<open>reconcile\<close> return.
\<close>

theorem reconcile_raises_on_unlisted_instrument:
  assumes "vo_account ops b = (Inr acct, b1)" "vo_positions ops b1 = (Inr venue_list, b2)"
    "by_instrument venue_list = before @ (k, p) # after" "\<forall>(k, p)\<in>set before. protected p" "\<not> protected p"
    "ra_auto_protect args" "ra_conversions args \<noteq> []" "vo_instrument ops b2 k = Inl e"
  shows "(\<exists>s. reconcile ops args local unresolved b journal = (Inl e, s) \<and> rs_broker s = b2
      \<and> rs_venue s = by_instrument venue_list \<and> rs_journal s = journal)
    \<and> fst (reconcile ops (args\<lparr>ra_conversions := []\<rparr>) local unresolved b journal) = Inr ()"
proof -
  let ?lm = "by_instrument local"
  let ?s0 = "loop_start local unresolved venue_list acct b2 journal"
  obtain s1 where skip: "reconcile_positions ops args ?lm (before @ (k, p) # after) ?s0
        = reconcile_positions ops args ?lm ((k, p) # after) s1"
      "rs_venue s1 = rs_venue ?s0" "rs_broker s1 = rs_broker ?s0" "rs_journal s1 = rs_journal ?s0"
    using reconcile_positions_skips [OF assms(4)] by metis
  have b: "rs_broker s1 = b2" using skip(3) by (simp add: loop_start_fields)
  have "reconcile_position ops args ?lm k p s1 = (Inl e, entered ?lm k p s1)"
    using assms(5-8) b by (simp add: reconcile_position_def entered_def Let_def split: option.split)
  then have "reconcile_positions ops args ?lm (by_instrument venue_list) ?s0 = (Inl e, entered ?lm k p s1)"
    using skip(1) unfolding assms(3) by simp
  moreover have "rs_journal (entered ?lm k p s1) = journal"
    using skip(4) by (simp add: entered_def loop_start_def Let_def split: option.splits)
  ultimately have raised: "\<exists>s. reconcile ops args local unresolved b journal = (Inl e, s) \<and> rs_broker s = b2
      \<and> rs_venue s = by_instrument venue_list \<and> rs_journal s = journal"
    unfolding reconcile_readable [OF assms(1,2)] using b skip(2) by (simp add: entered_fields loop_start_fields)
  have "fst (reconcile_positions ops (args\<lparr>ra_conversions := []\<rparr>) ?lm (by_instrument venue_list) ?s0) = Inr ()"
    by (rule reconcile_positions_without_conversions) simp
  then have "fst (reconcile ops (args\<lparr>ra_conversions := []\<rparr>) local unresolved b journal) = Inr ()"
    unfolding reconcile_readable [OF assms(1,2)] by (auto split: prod.splits sum.splits)
  with raised show ?thesis by (rule conjI)
qed

section \<open>Witnesses\<close>

definition demo_venue :: "position list \<Rightarrow> instrument res \<Rightarrow> unit venue_ops" where
  "demo_venue ps i = \<lparr>
     vo_account = (\<lambda>b. (Inr \<lparr>ac_account_id = ''a'', ac_currency = ''USD'', ac_balance = 1000, ac_equity = 1000,
       ac_margin_used = 0, ac_margin_available = 1000, ac_unrealised_pnl = 0, ac_open_positions = 1,
       ac_account_type = ''demo''\<rparr>, b)),
     vo_positions = (\<lambda>b. (Inr ps, b)), vo_instrument = (\<lambda>_ _. i),
     vo_quote = (\<lambda>b n. (Inr \<lparr>q_instrument = n, q_bid = 11/10, q_ask = 11/10, q_ts_ns = 0, q_received_ns = 0\<rparr>, b)),
     vo_modify_stop = (\<lambda>b _ _. (Inr True, b)), vo_transactions_since = (\<lambda>b _. (Inr [], b))\<rparr>"

definition demo_naked :: position where
  "demo_naked = \<lparr>p_instrument = ''EUR_USD'', p_side = BUY, p_lots = 1, p_entry_price = 1, p_opened_ns = 0,
     p_strategy = ''s'', p_stop_loss = None, p_take_profit = None, p_broker_stop_confirmed = False,
     p_client_order_id = None, p_realised_pnl = 0, p_financing_paid = 0, p_commission_paid = 0, p_initial_risk = 100,
     p_max_favourable = 0, p_max_adverse = 0, p_partial_taken = False, p_breakeven_moved = False\<rparr>"

definition demo_args :: reconcile_args where
  "demo_args = \<lparr>ra_auto_protect = True, ra_stop_pips = 50, ra_conversions = [(''USD'', 1)]\<rparr>"

lemma demo_reconcile:
  "fst (reconcile (demo_venue [demo_naked] (Inr eur_usd)) demo_args [demo_naked] [] () []) = Inr ()"
  "rr_halt_required (rs_report (snd (reconcile (demo_venue [demo_naked] (Inr eur_usd)) demo_args [demo_naked] [] () []))) = False"
  by code_simp+

theorem reconcile_protects_or_halts_witness:
  "let s = snd (reconcile (demo_venue [demo_naked] (Inr eur_usd)) demo_args [demo_naked] [] () []) in
   \<not> halts s \<and> (\<exists>p. dget (rs_venue s) ''EUR_USD'' = Some p \<and> p_stop_loss p \<noteq> None \<and> p_broker_stop_confirmed p)"
proof -
  define ops where "ops = demo_venue [demo_naked] (Inr eur_usd)"
  define s where "s = snd (reconcile ops demo_args [demo_naked] [] () [])"
  have ret: "reconcile ops demo_args [demo_naked] [] () [] = (Inr (), s)"
    using demo_reconcile(1) by (simp add: s_def ops_def prod_eq_iff)
  have nh: "\<not> halts s" using demo_reconcile(2) by (simp add: s_def ops_def)
  have "ra_auto_protect demo_args" by (simp add: demo_args_def)
  from reconcile_protects_or_halts [OF this ret nh] obtain acct b1 vl b2 where
    v: "vo_account ops () = (Inr acct, b1)" "vo_positions ops b1 = (Inr vl, b2)"
      "\<forall>p\<in>set vl. dget (rs_venue s) (p_instrument p) \<noteq> None"
      "\<forall>k p. dget (rs_venue s) k = Some p \<longrightarrow> p_stop_loss p \<noteq> None \<and> p_broker_stop_confirmed p"
    by blast
  have "vl = [demo_naked]" using v(2) by (simp add: ops_def demo_venue_def)
  then show ?thesis using nh v(3,4) unfolding Let_def s_def [symmetric] ops_def [symmetric]
    by (auto simp: demo_naked_def)
qed

theorem reconcile_reports_every_difference_witness:
  "rr_unprotected (rs_report (snd (reconcile (demo_venue [demo_naked] (Inr eur_usd)) demo_args [demo_naked] [] () [])))
     = [''EUR_USD'']"
proof -
  let ?ops = "demo_venue [demo_naked] (Inr eur_usd)"
  obtain acct where v: "vo_account ?ops () = (Inr acct, ())" "vo_positions ?ops () = (Inr [demo_naked], ())"
    by (simp add: demo_venue_def)
  have ret: "reconcile ?ops demo_args [demo_naked] [] () [] = (Inr (), snd (reconcile ?ops demo_args [demo_naked] [] () []))"
    using demo_reconcile(1) by (simp add: prod_eq_iff)
  show ?thesis
    using reconcile_reports_every_difference [OF v ret]
    by (simp add: Let_def by_instrument_def demo_naked_def protected_def)
qed

theorem reconcile_raises_on_unlisted_instrument_witness:
  "fst (reconcile (demo_venue [demo_naked] (Inl KeyError)) demo_args [] [] () []) = Inl KeyError"
proof -
  let ?ops = "demo_venue [demo_naked] (Inl KeyError)"
  obtain acct where v: "vo_account ?ops () = (Inr acct, ())" "vo_positions ?ops () = (Inr [demo_naked], ())"
    by (simp add: demo_venue_def)
  have "by_instrument [demo_naked] = [] @ (''EUR_USD'', demo_naked) # []" "\<not> protected demo_naked"
    by (simp_all add: by_instrument_def demo_naked_def protected_def)
  then show ?thesis
    using reconcile_raises_on_unlisted_instrument [OF v, of "[]" "''EUR_USD''" demo_naked "[]" demo_args KeyError "[]" "[]" "[]"]
    by (auto simp: demo_args_def demo_venue_def)
qed

end
