(* ===== verification/KillSwitch.thy ===== *)
theory KillSwitch
  imports AuditChain Domain
begin

text \<open>
  \<open>src/sentinel/ops/killswitch.py\<close> and \<open>src/sentinel/ops/watchdog.py\<close>: the kill file, the heartbeat of
  the decision loop and the dead-man switch that watches it. Engine, watchdog and operator are
  separate processes that share two files; a run is any interleaving of their steps. Clock readings
  are arguments of the steps. Temporary files, threads and printing are left out.
\<close>

section \<open>Files\<close>

text \<open>What reading a small text file yields: its text is blank, no JSON, or a JSON value.\<close>

datatype text_file =
    Absent
  | Unreadable
  | Undecodable
  | Empty
  | NotJson string
  | Json json

section \<open>The kill switch\<close>

record kill_state =
  ks_engaged :: bool
  ks_reason :: json
  ks_engaged_at_ns :: json
  ks_engaged_by :: json

definition kill_state_to_dict :: "kill_state \<Rightarrow> json" where
  "kill_state_to_dict k = JObj [(''engaged'', JBool (ks_engaged k)), (''reason'', ks_reason k),
     (''engaged_at_ns'', ks_engaged_at_ns k), (''engaged_by'', ks_engaged_by k)]"

text \<open>Journal entries of the two processes.\<close>

datatype ops_event =
    KillEvent bool string
  | DeadmanTrip string bool
  | FlattenOne string bool
  | FlattenSummary nat "string list" "string list" "string list option"
  | FlattenError
  | HeartbeatRecovered

record kill_switch =
  kw_last_state :: bool
  kw_audit :: "ops_event list option"

definition kill_journal :: "bool \<Rightarrow> string \<Rightarrow> kill_switch \<Rightarrow> kill_switch" where
  "kill_journal b actor k = k\<lparr>kw_audit := map_option (\<lambda>es. es @ [KillEvent b actor]) (kw_audit k)\<rparr>"

definition kill_read :: "text_file \<Rightarrow> kill_state res" where
  "kill_read f =
     (case f of
        Absent \<Rightarrow> Inr \<lparr>ks_engaged = False, ks_reason = JStr '''', ks_engaged_at_ns = JNull, ks_engaged_by = JStr ''''\<rparr>
      | Unreadable \<Rightarrow> Inr \<lparr>ks_engaged = True, ks_reason = JStr ''kill file exists but is unreadable'',
            ks_engaged_at_ns = JNull, ks_engaged_by = JStr ''''\<rparr>
      | Undecodable \<Rightarrow> Inl UnicodeDecodeError
      | Empty \<Rightarrow> Inr \<lparr>ks_engaged = True, ks_reason = JStr ''manual'', ks_engaged_at_ns = JNull, ks_engaged_by = JStr ''file''\<rparr>
      | NotJson raw \<Rightarrow> Inr \<lparr>ks_engaged = True, ks_reason = JStr (take 200 raw), ks_engaged_at_ns = JNull,
            ks_engaged_by = JStr ''file''\<rparr>
      | Json (JObj kvs) \<Rightarrow> Inr \<lparr>ks_engaged = True, ks_reason = dget_default kvs ''reason'' (JStr ''manual''),
            ks_engaged_at_ns = dget_default kvs ''engaged_at_ns'' JNull,
            ks_engaged_by = dget_default kvs ''engaged_by'' (JStr ''file'')\<rparr>
      | Json _ \<Rightarrow> Inl AttributeError)"

definition mk_kill_switch :: "ops_event list option \<Rightarrow> text_file \<Rightarrow> kill_switch res" where
  "mk_kill_switch audit f = res_bind (kill_read f) (\<lambda>k. Inr \<lparr>kw_last_state = ks_engaged k, kw_audit = audit\<rparr>)"

definition kill_engage :: "string \<Rightarrow> string \<Rightarrow> int \<Rightarrow> text_file \<times> kill_switch \<Rightarrow> kill_state \<times> text_file \<times> kill_switch" where
  "kill_engage reason by_whom now = (\<lambda>(f, k).
     let state = \<lparr>ks_engaged = True, ks_reason = JStr reason, ks_engaged_at_ns = JInt now, ks_engaged_by = JStr by_whom\<rparr>
     in (state, Json (kill_state_to_dict state), (kill_journal True by_whom k)\<lparr>kw_last_state := True\<rparr>))"

definition kill_release :: "string \<Rightarrow> text_file \<times> kill_switch \<Rightarrow> bool \<times> text_file \<times> kill_switch" where
  "kill_release by_whom = (\<lambda>(f, k).
     if f = Absent then (False, f, k)
     else (True, Absent, (kill_journal False by_whom k)\<lparr>kw_last_state := False\<rparr>))"

definition kill_poll :: "text_file \<times> kill_switch \<Rightarrow> (kill_state \<times> kill_switch) res" where
  "kill_poll = (\<lambda>(f, k). res_bind (kill_read f) (\<lambda>state.
     Inr (state, (if ks_engaged state \<noteq> kw_last_state k then kill_journal (ks_engaged state) ''poll'' k else k)
                   \<lparr>kw_last_state := ks_engaged state\<rparr>)))"

section \<open>The heartbeat\<close>

record heartbeat =
  hb_payload :: "(string, json) dict"
  hb_liveness_ns :: int

definition dict_update :: "('k, 'v) dict \<Rightarrow> ('k, 'v) dict \<Rightarrow> ('k, 'v) dict" where
  "dict_update d kwargs = foldl (\<lambda>d (k, v). dset d k v) d kwargs"

definition hb_update :: "(string, json) dict \<Rightarrow> int \<Rightarrow> heartbeat \<Rightarrow> heartbeat" where
  "hb_update kwargs now h = h\<lparr>hb_payload := dict_update (hb_payload h) kwargs, hb_liveness_ns := now\<rparr>"

text \<open>\<open>beat\<close>: the dictionary that is written; the fields of the payload come last.\<close>

definition hb_beat :: "int \<Rightarrow> int \<Rightarrow> int \<Rightarrow> heartbeat \<Rightarrow> text_file" where
  "hb_beat now mono_t pid h = Json (JObj (dict_update
     [(''ts_ns'', JInt (hb_liveness_ns h)), (''written_ns'', JInt now), (''mono_ns'', JInt mono_t), (''pid'', JInt pid)]
     (hb_payload h)))"

text \<open>\<open>json.loads(...)["ts_ns"]\<close> with the exceptions on the way; an \<open>OSError\<close> is caught like the others.\<close>

definition stamp_of :: "text_file \<Rightarrow> int res" where
  "stamp_of f =
     (case f of Json j \<Rightarrow> res_bind (jindex j ''ts_ns'') py_int
      | Undecodable \<Rightarrow> Inl UnicodeDecodeError | _ \<Rightarrow> Inl ValueError)"

definition hb_age_sec :: "int \<Rightarrow> text_file \<Rightarrow> pyfloat option res" where
  "hb_age_sec now f =
     (if f = Absent then Inr None
      else case stamp_of f of
        Inl e \<Rightarrow> if e \<in> {ValueError, KeyError, UnicodeDecodeError} then Inr None else Inl e
      | Inr ts \<Rightarrow> Inr (Some (fdiv (of_int (now - ts)) 1000000000)))"

section \<open>The watchdog\<close>

datatype age = Seconds pyfloat | Infinite

definition CLOCK_TOLERANCE_SEC :: pyfloat where
  "CLOCK_TOLERANCE_SEC = 5"

definition heartbeat_age :: "int \<Rightarrow> text_file \<Rightarrow> age option res" where
  "heartbeat_age now f =
     (if f = Absent then Inr None
      else case stamp_of f of
        Inl e \<Rightarrow> if e \<in> {ValueError, KeyError, UnicodeDecodeError} then Inr None else Inl e
      | Inr ts \<Rightarrow>
          (let age = fdiv (of_int (now - ts)) 1000000000
           in Inr (Some (if age < - CLOCK_TOLERANCE_SEC then Infinite else Seconds (max 0 age)))))"

definition watchdog_sees_kill :: "text_file \<Rightarrow> bool" where
  "watchdog_sees_kill f = (case kill_read f of Inl _ \<Rightarrow> True | Inr k \<Rightarrow> ks_engaged k)"

text \<open>
  \<open>flatten_positions\<close>: the broker answers with the open instruments, with the state of each close and
  with what is open afterwards; each answer may raise.
\<close>

fun flatten_each :: "(string \<Rightarrow> order_state option res) \<Rightarrow> string list \<Rightarrow> string list \<Rightarrow> string list
    \<Rightarrow> ops_event list \<Rightarrow> ops_event list \<times> (string list \<times> string list) option" where
  "flatten_each close_pos [] done_ps failed es = (es, Some (done_ps, failed))"
| "flatten_each close_pos (p # ps) done_ps failed es =
     (case close_pos p of
        Inl _ \<Rightarrow> (es @ [FlattenError], None)
      | Inr st \<Rightarrow>
          let ok = (st = Some FILLED \<or> st = Some PARTIAL) in
          flatten_each close_pos ps (if ok then done_ps @ [p] else done_ps) (if ok then failed else failed @ [p])
            (es @ [FlattenOne p ok]))"

definition flatten_positions ::
  "string list res \<Rightarrow> (string \<Rightarrow> order_state option res) \<Rightarrow> string list res \<Rightarrow> ops_event list" where
  "flatten_positions opened close_pos remaining =
     (case opened of
        Inl _ \<Rightarrow> [FlattenError]
      | Inr ps \<Rightarrow>
          (case flatten_each close_pos ps [] [] [] of
             (es, None) \<Rightarrow> es
           | (es, Some (done_ps, failed)) \<Rightarrow>
               es @ [FlattenSummary (length ps) done_ps failed
                       (case remaining of Inl _ \<Rightarrow> None | Inr rs \<Rightarrow> Some rs)]))"

record watchdog_config =
  wc_timeout :: pyfloat
  wc_action :: string
  wc_started :: pyfloat
  wc_flatten :: "ops_event list"

record watchdog =
  wd_tripped :: bool
  wd_kill :: kill_switch

definition watchdog_journal :: "ops_event list \<Rightarrow> watchdog \<Rightarrow> watchdog" where
  "watchdog_journal es w = w\<lparr>wd_kill := (wd_kill w)\<lparr>kw_audit := map_option (\<lambda>xs. xs @ es) (kw_audit (wd_kill w))\<rparr>\<rparr>"

text \<open>One turn of the loop of \<open>main\<close>.\<close>

definition watchdog_poll ::
  "watchdog_config \<Rightarrow> int \<Rightarrow> pyfloat \<Rightarrow> text_file \<Rightarrow> text_file \<times> watchdog \<Rightarrow> (text_file \<times> watchdog) res" where
  "watchdog_poll cfg now mono_t hb = (\<lambda>(kf, w).
     res_bind (heartbeat_age now hb) (\<lambda>age.
     let stale = (case age of None \<Rightarrow> True | Some Infinite \<Rightarrow> True | Some (Seconds a) \<Rightarrow> wc_timeout cfg < a) in
     if stale \<and> fround (mono_t - wc_started cfg) < wc_timeout cfg then Inr (kf, w)
     else if stale \<and> (\<not> wd_tripped w \<or> \<not> watchdog_sees_kill kf) then
       let first = \<not> wd_tripped w;
           w1 = watchdog_journal [DeadmanTrip (wc_action cfg) (\<not> first)] (w\<lparr>wd_tripped := True\<rparr>);
           (_, kf', k) = kill_engage ''dead-man switch'' ''watchdog'' now (kf, wd_kill w1);
           w2 = w1\<lparr>wd_kill := k\<rparr>
       in Inr (kf', if wc_action cfg = ''flatten'' \<and> first then watchdog_journal (wc_flatten cfg) w2 else w2)
     else if \<not> stale \<and> wd_tripped w
     then Inr (kf, watchdog_journal [HeartbeatRecovered] (w\<lparr>wd_tripped := False\<rparr>))
     else Inr (kf, w)))"

section \<open>Engine, watchdog and operator together\<close>

record ops_state =
  os_kill_file :: text_file
  os_heartbeat_file :: text_file
  os_heartbeat :: heartbeat
  os_kill :: kill_switch
  os_watchdog :: watchdog

text \<open>
  The steps: a completed decision cycle, the background thread that republishes the heartbeat, the
  engine's poll of the kill file, the watchdog's poll, and the operator. \<open>OperatorWrites\<close> leaves any
  file but an absent one. A step that raises changes nothing.
\<close>

datatype ops_act =
    CycleDone "(string, json) dict" int
  | Beat int int int
  | EnginePoll
  | WatchdogPoll int pyfloat
  | EngageKill string string int
  | OperatorWrites string
  | ReleaseKill string

fun ops_step :: "watchdog_config \<Rightarrow> ops_act \<Rightarrow> ops_state \<Rightarrow> ops_state" where
  "ops_step cfg (CycleDone kwargs now) s = s\<lparr>os_heartbeat := hb_update kwargs now (os_heartbeat s)\<rparr>"
| "ops_step cfg (Beat now mono_t pid) s = s\<lparr>os_heartbeat_file := hb_beat now mono_t pid (os_heartbeat s)\<rparr>"
| "ops_step cfg EnginePoll s =
     (case kill_poll (os_kill_file s, os_kill s) of Inl _ \<Rightarrow> s | Inr (_, k) \<Rightarrow> s\<lparr>os_kill := k\<rparr>)"
| "ops_step cfg (WatchdogPoll now mono_t) s =
     (case watchdog_poll cfg now mono_t (os_heartbeat_file s) (os_kill_file s, os_watchdog s) of
        Inl _ \<Rightarrow> s
      | Inr (kf, w) \<Rightarrow> s\<lparr>os_kill_file := kf, os_watchdog := w\<rparr>)"
| "ops_step cfg (EngageKill reason by_whom now) s =
     (case kill_engage reason by_whom now (os_kill_file s, os_kill s) of
        (_, kf, k) \<Rightarrow> s\<lparr>os_kill_file := kf, os_kill := k\<rparr>)"
| "ops_step cfg (OperatorWrites raw) s = s\<lparr>os_kill_file := (if raw = [] then Empty else NotJson raw)\<rparr>"
| "ops_step cfg (ReleaseKill by_whom) s =
     (case kill_release by_whom (os_kill_file s, os_kill s) of
        (_, kf, k) \<Rightarrow> s\<lparr>os_kill_file := kf, os_kill := k\<rparr>)"

definition ops_run :: "watchdog_config \<Rightarrow> ops_act list \<Rightarrow> ops_state \<Rightarrow> ops_state" where
  "ops_run cfg acts s = foldl (\<lambda>s a. ops_step cfg a s) s acts"

definition mk_ops :: "int \<Rightarrow> text_file \<Rightarrow> text_file \<Rightarrow> kill_switch \<Rightarrow> kill_switch \<Rightarrow> ops_state" where
  "mk_ops now kf hf k wk = \<lparr>os_kill_file = kf, os_heartbeat_file = hf,
     os_heartbeat = \<lparr>hb_payload = [], hb_liveness_ns = now\<rparr>, os_kill = k,
     os_watchdog = \<lparr>wd_tripped = False, wd_kill = wk\<rparr>\<rparr>"

section \<open>The kill file fails closed\<close>

definition stops_trading :: "text_file \<Rightarrow> bool" where
  "stops_trading f \<longleftrightarrow> (case kill_read f of Inl _ \<Rightarrow> True | Inr k \<Rightarrow> ks_engaged k)"

lemma stops_trading_iff: "stops_trading f \<longleftrightarrow> f \<noteq> Absent"
  by (auto simp: stops_trading_def kill_read_def split: text_file.splits json.splits)

lemma sees_kill_iff: "watchdog_sees_kill f \<longleftrightarrow> f \<noteq> Absent"
  using stops_trading_iff by (simp add: watchdog_sees_kill_def stops_trading_def)

lemma ops_run_Nil [simp]: "ops_run cfg [] s = s"
  and ops_run_Cons [simp]: "ops_run cfg (a # acts) s = ops_run cfg acts (ops_step cfg a s)"
  and ops_run_append: "ops_run cfg (acts @ acts') s = ops_run cfg acts' (ops_run cfg acts s)"
  by (simp_all add: ops_run_def)

lemma watchdog_poll_kill_file:
  "watchdog_poll cfg now mono_t hb (kf, w) = Inr (kf', w') \<Longrightarrow> kf \<noteq> Absent \<Longrightarrow> kf' \<noteq> Absent"
  by (auto simp: watchdog_poll_def res_bind_Inr_iff Let_def kill_engage_def split: if_splits)

definition is_release :: "ops_act \<Rightarrow> bool" where
  "is_release a = (case a of ReleaseKill _ \<Rightarrow> True | _ \<Rightarrow> False)"

lemma step_keeps_kill: "\<not> is_release a \<Longrightarrow> os_kill_file s \<noteq> Absent \<Longrightarrow> os_kill_file (ops_step cfg a s) \<noteq> Absent"
  by (cases a) (auto simp: is_release_def kill_engage_def Let_def dest: watchdog_poll_kill_file split: sum.splits prod.splits)

text \<open>
  C36. Once the kill file exists, in whatever form, no interleaving of engine cycles, heartbeats,
  polls, watchdog turns and operator writes takes it away: until somebody releases it, every
  reading of it stops trading, by reporting it engaged or by raising. An absent file is the only one
  that is read as released.
\<close>

theorem kill_switch_fails_closed:
  "let s' = ops_run cfg (filter (\<lambda>a. \<not> is_release a) acts) s in
     (os_kill_file s = Absent \<or> stops_trading (os_kill_file s'))
   \<and> stops_trading f = (f \<noteq> Absent)"
proof -
  have "os_kill_file (ops_run cfg (filter (\<lambda>a. \<not> is_release a) acts) s) \<noteq> Absent" if "os_kill_file s \<noteq> Absent"
    using that by (induction acts arbitrary: s) (auto simp: step_keeps_kill)
  then show ?thesis by (auto simp: stops_trading_iff)
qed

text \<open>A kill file that holds a JSON value other than an object makes the reading raise.\<close>

lemma json_scalar_kill_file_raises: "kill_read (Json (JInt 1)) = Inl AttributeError"
  by (simp add: kill_read_def)

section \<open>The dead-man switch\<close>

text \<open>The stamp in the heartbeat file is one of a completed cycle.\<close>

definition stamps_below :: "int \<Rightarrow> ops_state \<Rightarrow> bool" where
  "stamps_below t s \<longleftrightarrow> hb_liveness_ns (os_heartbeat s) \<le> t
     \<and> dget (hb_payload (os_heartbeat s)) ''ts_ns'' = None
     \<and> (os_heartbeat_file s = Absent \<or> (\<exists>n \<le> t. stamp_of (os_heartbeat_file s) = Inr n))"

text \<open>The cycles of a run end by \<open>t\<close> and their kwargs leave the stamp alone.\<close>

definition cycles_end_by :: "int \<Rightarrow> ops_act list \<Rightarrow> bool" where
  "cycles_end_by t acts \<longleftrightarrow> list_all (\<lambda>a. case a of CycleDone kwargs now \<Rightarrow>
     now \<le> t \<and> ''ts_ns'' \<notin> fst ` set kwargs | _ \<Rightarrow> True) acts"

lemma dget_dict_update:
  "k \<notin> fst ` set kwargs \<Longrightarrow> dget (dict_update d kwargs) k = dget d k"
  by (induction kwargs arbitrary: d) (auto simp: dict_update_def split: prod.splits)

lemma beat_stamp:
  assumes "dget (hb_payload h) ''ts_ns'' = None"
  shows "stamp_of (hb_beat now mono_t pid h) = Inr (hb_liveness_ns h)"
proof -
  have "''ts_ns'' \<notin> fst ` set (hb_payload h)" using assms by (simp add: dget_None_iff)
  then show ?thesis by (simp add: stamp_of_def hb_beat_def jindex_def dget_dict_update py_int_def)
qed

lemma step_stamps: "stamps_below t s \<Longrightarrow> cycles_end_by t [a] \<Longrightarrow> stamps_below t (ops_step cfg a s)"
proof (cases a)
  case (CycleDone kwargs now)
  moreover assume "stamps_below t s" "cycles_end_by t [a]"
  ultimately show ?thesis
    by (simp add: stamps_below_def cycles_end_by_def hb_update_def dget_dict_update)
next
  case (Beat now mono_t pid)
  moreover assume "stamps_below t s"
  ultimately show ?thesis by (auto simp: stamps_below_def beat_stamp)
qed (auto simp: stamps_below_def split: sum.splits prod.splits)

lemma run_stamps: "stamps_below t s \<Longrightarrow> cycles_end_by t acts \<Longrightarrow> stamps_below t (ops_run cfg acts s)"
proof (induction acts arbitrary: s)
  case (Cons a acts)
  have "cycles_end_by t [a]" "cycles_end_by t acts" using Cons.prems(2) by (simp_all add: cycles_end_by_def)
  then show ?case using Cons by (simp add: step_stamps)
qed simp

text \<open>A stamp more than one second older than the limit is stale, rounding of the doubles included.\<close>

lemma old_stamp_stale:
  assumes "0 \<le> T" "T < 2 ^ 50" "(T + 1) * 1000000000 \<le> d"
  shows "of_int T < fdiv (of_int d) 1000000000"
proof -
  let ?n = "of_int (T + 1) :: rat"
  have n: "0 \<le> ?n" "?n \<le> 2 ^ 50"
  proof -
    have "of_int (T + 1) \<le> (of_int (2 ^ 50) :: rat)" using assms(2) by (intro of_int_le_iff [THEN iffD2]) simp
    then show "?n \<le> 2 ^ 50" by simp
  qed (use assms(1) in simp)
  have e: "fround 1000000000 = 1000000000" by code_simp
  have d: "?n * 1000000000 \<le> of_int d"
    using assms(3) by (metis of_int_le_iff of_int_mult of_int_numeral)
  have "?n * 1000000000 * (1 - feps) \<le> fround (?n * 1000000000)" using n by (intro F.rnd_lower) simp
  also have "\<dots> \<le> fround (of_int d)" by (rule F.rnd_mono [OF d])
  finally have l: "?n * (1 - feps) \<le> fround (of_int d) / fround 1000000000" by (simp add: e field_simps)
  have "?n * (1 - feps) * (1 - feps) \<le> fround (?n * (1 - feps))"
    using n by (intro F.rnd_lower) (simp add: feps_def)
  also have "\<dots> \<le> fdiv (of_int d) 1000000000" unfolding fdiv_def by (rule F.rnd_mono [OF l])
  finally have "?n * (1 - feps) * (1 - feps) \<le> fdiv (of_int d) 1000000000" .
  moreover have "?n * (1 - feps) * (1 - feps) = ?n - ?n * (2 * feps) + ?n * feps * feps" by (simp add: algebra_simps)
  moreover have "0 \<le> ?n * feps * feps" using n by (simp add: feps_def)
  moreover have "?n * (2 * feps) \<le> 1 / 2" using n by (simp add: feps_def)
  ultimately show ?thesis by simp
qed

text \<open>
  C35. The dead-man switch trips. If no decision cycle has completed after \<open>t\<close>, then however beats,
  polls, operator engagements and releases have been interleaved, a turn of the watchdog more than
  the timeout and one second after \<open>t\<close> (past its own grace period) leaves it tripped and the kill
  file in place; republishing the heartbeat cannot make the dead loop look alive.
\<close>

theorem dead_loop_is_stopped:
  assumes "wc_timeout cfg = of_int T" "0 \<le> T" "T < 2 ^ 50" "t + (T + 1) * 1000000000 \<le> now"
    and "wc_timeout cfg \<le> fround (mono_t - wc_started cfg)"
    and "cycles_end_by t acts" "t0 \<le> t"
  shows "let s' = ops_run cfg (acts @ [WatchdogPoll now mono_t]) (mk_ops t0 kf Absent k wk)
     in stops_trading (os_kill_file s') \<and> wd_tripped (os_watchdog s')"
proof -
  define s where "s = ops_run cfg acts (mk_ops t0 kf Absent k wk)"
  have "stamps_below t (mk_ops t0 kf Absent k wk)" using assms(7) by (simp add: stamps_below_def mk_ops_def)
  then have st: "stamps_below t s" unfolding s_def using assms(6) by (rule run_stamps)
  obtain age where age: "heartbeat_age now (os_heartbeat_file s) = Inr age"
    "(case age of None \<Rightarrow> True | Some Infinite \<Rightarrow> True | Some (Seconds a) \<Rightarrow> wc_timeout cfg < a)"
  proof (cases "os_heartbeat_file s = Absent")
    case True
    then show ?thesis using that [of None] by (simp add: heartbeat_age_def)
  next
    case False
    then obtain n where n: "n \<le> t" "stamp_of (os_heartbeat_file s) = Inr n" using st by (auto simp: stamps_below_def)
    define d where "d = fdiv (of_int (now - n)) 1000000000"
    have "of_int T < d" unfolding d_def using assms(2-4) n(1) by (intro old_stamp_stale) auto
    moreover have "heartbeat_age now (os_heartbeat_file s) =
        Inr (Some (if d < - CLOCK_TOLERANCE_SEC then Infinite else Seconds (max 0 d)))"
      using n(2) False by (simp add: heartbeat_age_def Let_def d_def)
    ultimately show ?thesis using that assms(1) by (cases "d < - CLOCK_TOLERANCE_SEC") (auto simp: max_def)
  qed
  let ?r = "watchdog_poll cfg now mono_t (os_heartbeat_file s) (os_kill_file s, os_watchdog s)"
  obtain kf' w' where r: "?r = Inr (kf', w')" "kf' \<noteq> Absent" "wd_tripped w'"
  proof (cases "wd_tripped (os_watchdog s) \<and> watchdog_sees_kill (os_kill_file s)")
    case True
    then have "?r = Inr (os_kill_file s, os_watchdog s)"
      using age assms(5) unfolding watchdog_poll_def by (simp add: Let_def)
    then show ?thesis using that True by (simp add: sees_kill_iff)
  next
    case False
    then show ?thesis using that age assms(5) unfolding watchdog_poll_def
      by (auto simp: Let_def kill_engage_def watchdog_journal_def)
  qed
  then show ?thesis by (simp add: Let_def ops_run_append s_def [symmetric] stops_trading_iff)
qed

definition demo_watchdog :: watchdog_config where
  "demo_watchdog = \<lparr>wc_timeout = 180, wc_action = ''close_only'', wc_started = 0, wc_flatten = []\<rparr>"

definition demo_kill :: kill_switch where
  "demo_kill = \<lparr>kw_last_state = False, kw_audit = Some []\<rparr>"

theorem dead_loop_is_stopped_witness:
  "let s' = ops_run demo_watchdog ([CycleDone [(''cycle'', JInt 7)] 1000000000, Beat 150000000000 0 1, EnginePoll,
         WatchdogPoll 190000000000 190, ReleaseKill ''operator''] @ [WatchdogPoll 200000000000 200])
       (mk_ops 0 Absent Absent demo_kill demo_kill)
   in stops_trading (os_kill_file s') \<and> wd_tripped (os_watchdog s')"
proof -
  have "fround (200 - 0) = 200" by code_simp
  then show ?thesis
    by (intro dead_loop_is_stopped [where T = 180 and t = 1000000000])
      (simp_all add: demo_watchdog_def cycles_end_by_def)
qed

end
