(* ===== verification/Ids.thy ===== *)
theory Ids
  imports Json
begin

text \<open>
  \<open>src/sentinel/core/ids.py\<close>: the identifiers derived from a trading intent. BLAKE2b is an argument,
  a function from the text to the hexadecimal digest; the random identifiers are left out.
\<close>

datatype ident_val = IStr string | IInt int | IFloat rat

text \<open>\<open>f"{v:.10f}"\<close>: ten decimals, ties to even; the sign is kept when the digits are zero.\<close>

definition pad :: "nat \<Rightarrow> string \<Rightarrow> string" where
  "pad n s = replicate (n - length s) (CHR ''0'') @ s"

definition fixed10 :: "rat \<Rightarrow> string" where
  "fixed10 r = (let m = nat (round_half_even (\<bar>r\<bar> * 10 ^ 10))
     in (if r < 0 then ''-'' else '''') @ show_nat (m div 10 ^ 10) @ ''.'' @ pad 10 (show_nat (m mod 10 ^ 10)))"

definition ident_text :: "ident_val \<Rightarrow> string" where
  "ident_text v = (case v of IStr s \<Rightarrow> s | IInt i \<Rightarrow> show_int i | IFloat r \<Rightarrow> fixed10 r)"

definition canonical :: "(string, ident_val) dict \<Rightarrow> string" where
  "canonical payload = join (CHR ''|'') (map (\<lambda>(k, v). k @ CHR ''='' # ident_text v) (sort_key fst payload))"

definition intent_hash :: "(string \<Rightarrow> string) \<Rightarrow> (string, ident_val) dict \<Rightarrow> string" where
  "intent_hash blake64 payload = blake64 (canonical payload)"

definition safe :: "char \<Rightarrow> bool" where
  "safe c \<longleftrightarrow> (let n = of_char c :: nat in 48 \<le> n \<and> n \<le> 57 \<or> 65 \<le> n \<and> n \<le> 90 \<or> 97 \<le> n \<and> n \<le> 122)
     \<or> c = CHR ''_'' \<or> c = CHR ''-''"

record intent_key =
  ik_strategy :: string
  ik_instrument :: string
  ik_side :: string
  ik_decision_ns :: int
  ik_seq :: int
  ik_account :: string
  ik_attempt :: int

definition key_payload :: "intent_key \<Rightarrow> (string, ident_val) dict" where
  "key_payload k =
     [(''acct'', IStr (ik_account k)), (''strat'', IStr (ik_strategy k)), (''inst'', IStr (ik_instrument k)),
      (''side'', IStr (ik_side k)), (''t'', IInt (ik_decision_ns k)), (''seq'', IInt (ik_seq k)),
      (''att'', IInt (ik_attempt k))]"

definition client_order_id :: "(string \<Rightarrow> string) \<Rightarrow> intent_key \<Rightarrow> string res" where
  "client_order_id blake12 k =
     (if ik_side k \<notin> {''BUY'', ''SELL''} then Inl ValueError
      else Inr (take 32 (filter safe (''SFX'' @ blake12 (canonical (key_payload k))))))"

section \<open>Lemmas\<close>

lemma key_parts:
  "map (\<lambda>(k, v). k @ CHR ''='' # ident_text v) (sort_key fst (key_payload k)) =
     [''acct='' @ ik_account k, ''att='' @ show_int (ik_attempt k), ''inst='' @ ik_instrument k,
      ''seq='' @ show_int (ik_seq k), ''side='' @ ik_side k, ''strat='' @ ik_strategy k,
      ''t='' @ show_int (ik_decision_ns k)]"
  by (simp add: key_payload_def ident_text_def sort_key_def less_eq_char_def list_le_def less_char_def)

lemma show_int_no_bar: "CHR ''|'' \<notin> set (show_int i)"
proof -
  have "CHR ''|'' \<notin> set (show_nat n)" for n
    using show_nat_digits [of n] not_digits(3) by (auto simp: list_all_iff)
  then show ?thesis by (simp add: show_int_def)
qed

text \<open>The separator does not occur in the names of a key.\<close>

definition names_plain :: "intent_key \<Rightarrow> bool" where
  "names_plain k \<longleftrightarrow> list_all (\<lambda>s. CHR ''|'' \<notin> set s) [ik_strategy k, ik_instrument k, ik_side k, ik_account k]"

lemma canonical_key_inj:
  assumes "canonical (key_payload k) = canonical (key_payload l)" "names_plain k" "names_plain l"
  shows "k = l"
proof -
  have "[''acct='' @ ik_account k, ''att='' @ show_int (ik_attempt k), ''inst='' @ ik_instrument k,
      ''seq='' @ show_int (ik_seq k), ''side='' @ ik_side k, ''strat='' @ ik_strategy k, ''t='' @ show_int (ik_decision_ns k)]
    = [''acct='' @ ik_account l, ''att='' @ show_int (ik_attempt l), ''inst='' @ ik_instrument l,
      ''seq='' @ show_int (ik_seq l), ''side='' @ ik_side l, ''strat='' @ ik_strategy l, ''t='' @ show_int (ik_decision_ns l)]"
    using assms unfolding canonical_def key_parts
    by (intro join_inj [of "CHR ''|''"]) (auto simp: names_plain_def show_int_no_bar)
  then show ?thesis by (simp add: show_int_inj)
qed

text \<open>What is known of a BLAKE2b hexadecimal digest of twelve bytes: 24 characters of 0-9 and a-f.\<close>

definition hex_digest12 :: "(string \<Rightarrow> string) \<Rightarrow> bool" where
  "hex_digest12 h \<longleftrightarrow> (\<forall>x. length (h x) = 24 \<and> set (h x) \<subseteq> set ''0123456789abcdef'')"

lemma client_order_id_eq:
  assumes "hex_digest12 h" "ik_side k \<in> {''BUY'', ''SELL''}"
  shows "client_order_id h k = Inr (''SFX'' @ h (canonical (key_payload k)))"
proof -
  let ?x = "h (canonical (key_payload k))"
  have "safe c" if "c \<in> set ''0123456789abcdef''" for c using that by (auto simp: safe_def)
  then have "\<forall>c \<in> set ?x. safe c" using assms(1) by (auto simp: hex_digest12_def)
  then have "filter safe ?x = ?x" by simp
  moreover have "length ?x = 24" using assms(1) by (simp add: hex_digest12_def)
  ultimately show ?thesis using assms(2) by (simp add: client_order_id_def safe_def)
qed

text \<open>
  The client order id identifies the intent: it is a venue-safe token of 27 characters; two
  intents (in whose names no \<open>|\<close> occurs) with one id are the same in every field, or their
  canonical texts are different texts with one BLAKE2b digest. Nothing but the intent enters it, so
  a retry after a restart derives the same id.
\<close>

theorem client_order_id_identifies_intent:
  assumes "hex_digest12 h" "client_order_id h k = Inr i" "client_order_id h l = Inr j"
    and "names_plain k" "names_plain l"
  shows "length i = 27 \<and> list_all safe i
    \<and> (i \<noteq> j \<or> k = l
       \<or> canonical (key_payload k) \<noteq> canonical (key_payload l)
         \<and> h (canonical (key_payload k)) = h (canonical (key_payload l)))"
proof -
  have side: "ik_side k \<in> {''BUY'', ''SELL''}" "ik_side l \<in> {''BUY'', ''SELL''}"
    using assms(2,3) by (auto simp: client_order_id_def split: if_splits)
  have i: "i = ''SFX'' @ h (canonical (key_payload k))" "j = ''SFX'' @ h (canonical (key_payload l))"
    using assms(2,3) client_order_id_eq [OF assms(1)] side by auto
  have "list_all safe i" using assms(2) by (auto simp: client_order_id_def list_all_iff dest!: in_set_takeD split: if_splits)
  moreover have "length i = 27" using assms(1) i(1) by (simp add: hex_digest12_def)
  ultimately show ?thesis using i canonical_key_inj [OF _ assms(4,5)] by auto
qed

definition demo_key :: intent_key where
  "demo_key = \<lparr>ik_strategy = ''trend'', ik_instrument = ''EUR_USD'', ik_side = ''BUY'', ik_decision_ns = 1700000000,
     ik_seq = 0, ik_account = ''A-1'', ik_attempt = 0\<rparr>"

definition demo_hash :: "string \<Rightarrow> string" where
  "demo_hash s = replicate 24 (if s = canonical (key_payload demo_key) then CHR ''a'' else CHR ''0'')"

lemma demo_hash_hex: "hex_digest12 demo_hash"
  by (simp add: hex_digest12_def demo_hash_def)

theorem client_order_id_identifies_intent_witness:
  "let i = ''SFX'' @ replicate 24 (CHR ''a''); j = ''SFX'' @ replicate 24 (CHR ''0'');
       l = demo_key\<lparr>ik_side := ''SELL''\<rparr>
   in length i = 27 \<and> list_all safe i
    \<and> (i \<noteq> j \<or> demo_key = l
       \<or> canonical (key_payload demo_key) \<noteq> canonical (key_payload l)
         \<and> demo_hash (canonical (key_payload demo_key)) = demo_hash (canonical (key_payload l)))"
proof -
  let ?l = "demo_key\<lparr>ik_side := ''SELL''\<rparr>"
  have side: "ik_side demo_key \<in> {''BUY'', ''SELL''}" "ik_side ?l \<in> {''BUY'', ''SELL''}" by (simp_all add: demo_key_def)
  have p: "names_plain demo_key" "names_plain ?l" by (simp_all add: names_plain_def demo_key_def)
  have "canonical (key_payload ?l) \<noteq> canonical (key_payload demo_key)"
    using canonical_key_inj [OF _ p(2,1)] by (auto simp: demo_key_def)
  then have "client_order_id demo_hash demo_key = Inr (''SFX'' @ replicate 24 (CHR ''a''))"
    "client_order_id demo_hash ?l = Inr (''SFX'' @ replicate 24 (CHR ''0''))"
    using client_order_id_eq [OF demo_hash_hex side(1)] client_order_id_eq [OF demo_hash_hex side(2)]
    unfolding demo_hash_def by simp_all
  from client_order_id_identifies_intent [OF demo_hash_hex this p] show ?thesis unfolding Let_def .
qed

text \<open>The canonical form is not explicit about types: a number and its text are the same.\<close>

lemma canonical_ignores_types: "canonical [(''t'', IInt 5)] = canonical [(''t'', IStr ''5'')]"
  by code_simp

end
