(* ===== verification/AgentState.thy ===== *)
theory AgentState
  imports RiskEngine Protect
begin

text \<open>
  The memory of \<open>src/sentinel/agent/orchestrator.py\<close>: the counters every loss budget is measured against, the
  metadata of open positions, and how both survive a restart.

  \<open>durable\<close> holds the fields \<open>_save_state\<close> writes. The state file is the document last written, unreadable, or absent; a
  document has the fields of the state, a decimal in it standing for its text. Texts for humans (halt reasons, audit
  payloads) are shortened to codes. The clock is an argument.
\<close>

section \<open>State\<close>

text \<open>
  The metadata of one position is a Python dictionary; a key that is absent is \<open>None\<close> here. \<open>stop_loss\<close> may be present
  with the value \<open>None\<close>, which no reader tells from an absent key.
\<close>

record pos_meta =
  pm_initial_risk :: "dec option"
  pm_strategy :: "string option"
  pm_opened_ns :: "int option"
  pm_side :: "string option"
  pm_client_order_id :: "string option"
  pm_regime :: "string option"
  pm_provisional :: "bool option"
  pm_partial_taken :: "bool option"
  pm_breakeven_moved :: "bool option"
  pm_lots :: "dec option"
  pm_entry_price :: "dec option"
  pm_stop_loss :: "dec option"
  pm_max_favourable :: "dec option"
  pm_max_adverse :: "dec option"
  pm_max_hold_sec :: "int option"
  pm_intended_risk :: "dec option"

definition empty_meta :: pos_meta where
  "empty_meta = \<lparr>pm_initial_risk = None, pm_strategy = None, pm_opened_ns = None, pm_side = None,
     pm_client_order_id = None, pm_regime = None, pm_provisional = None, pm_partial_taken = None,
     pm_breakeven_moved = None, pm_lots = None, pm_entry_price = None, pm_stop_loss = None,
     pm_max_favourable = None, pm_max_adverse = None, pm_max_hold_sec = None, pm_intended_risk = None\<rparr>"

record durable =
  du_equity_peak :: dec
  du_equity_peak_marked :: dec
  du_day_profit_locked :: bool
  du_ladder_rung :: int
  du_day_start_equity :: dec
  du_week_start_equity :: dec
  du_month_start_equity :: dec
  du_day_key :: "int option"
  du_week_key :: "(int \<times> int) option"
  du_month_key :: "(int \<times> int) option"
  du_year_key :: "int option"
  du_trades_today :: int
  du_trades_week :: int
  du_trades_year :: int
  du_last_entry_ns :: "int option"
  du_halted :: bool
  du_halt_reason :: string
  du_position_meta :: "(string, pos_meta) dict"
  du_entry_regime :: "(string, string) dict"
  du_processed :: "string list"
  du_processed_order :: "string list"
  du_equity_marks :: "(int \<times> dec) list"
  du_trade_cursor :: string
  du_guard_suspended :: "(string, string) dict"

definition fresh_durable :: durable where
  "fresh_durable = \<lparr>du_equity_peak = 0, du_equity_peak_marked = 0, du_day_profit_locked = False, du_ladder_rung = 0,
     du_day_start_equity = 0, du_week_start_equity = 0, du_month_start_equity = 0, du_day_key = None,
     du_week_key = None, du_month_key = None, du_year_key = None, du_trades_today = 0, du_trades_week = 0,
     du_trades_year = 0, du_last_entry_ns = None, du_halted = False, du_halt_reason = '''', du_position_meta = [],
     du_entry_regime = [], du_processed = [], du_processed_order = [], du_equity_marks = [], du_trade_cursor = '''',
     du_guard_suspended = []\<rparr>"

datatype state_file = NoFile | Unreadable | Document durable

datatype agent_event =
    StateSaveFailed
  | StateLoadFailed
  | StateRestored
  | HaltJournaled string
  | Resumed string
  | ModeChanged
  | LadderStep int int
  | StaleMetadata string
  | GuardReleased string
  | GuardTripped string
  | ProfitLockEngaged
  | StopMoved string string
  | StopMoveFailed string string
  | PartialClosed string
  | PartialCloseFailed string
  | ProtectionSuspended string
  | PositionClosed string
  | PositionNotClosed string
  | PositionUnread string
  | PositionOpened string
  | VetoJournaled string
  | SignalJournaled string
  | ProposalQueued string
  | ProposalAccepted string
  | ProposalRejected string
  | LicenceBlocks
  | LicenceRestored
  | ReplayResolved string bool
  | SystemStarted
  | ConnectivityLost string
  | LearningSkipped string
  | ServiceFailed string
  | ProtectionFailed string
  | ManualTicket string

text \<open>\<open>ag_disk_writable\<close> is the environment's: whether a write of the state file succeeds.\<close>

record agent_core =
  ag_state :: durable
  ag_disk :: state_file
  ag_disk_writable :: bool
  ag_events :: "agent_event list"

definition journal_agent :: "agent_event \<Rightarrow> 'a agent_core_scheme \<Rightarrow> 'a agent_core_scheme" where
  "journal_agent e s = s\<lparr>ag_events := ag_events s @ [e]\<rparr>"

definition upd :: "(durable \<Rightarrow> durable) \<Rightarrow> 'a agent_core_scheme \<Rightarrow> 'a agent_core_scheme" where
  "upd f s = s\<lparr>ag_state := f (ag_state s)\<rparr>"

section \<open>Saving and loading\<close>

text \<open>\<open>_bounded_processed\<close>: the most recent ids, oldest first; a deque of 5000.\<close>

definition last_n :: "nat \<Rightarrow> 'a list \<Rightarrow> 'a list" where
  "last_n n xs = drop (length xs - n) xs"

definition bounded_processed :: "durable \<Rightarrow> string list" where
  "bounded_processed d =
     last_n 5000 (sort (filter (\<lambda>t. t \<notin> set (du_processed_order d)) (du_processed d)) @ du_processed_order d)"

definition payload_of :: "durable \<Rightarrow> durable" where
  "payload_of d = d\<lparr>du_processed := [], du_processed_order := bounded_processed d\<rparr>"

definition save_state :: "'a agent_core_scheme \<Rightarrow> 'a agent_core_scheme" where
  "save_state s =
     (if ag_disk_writable s then s\<lparr>ag_disk := Document (payload_of (ag_state s))\<rparr>
      else journal_agent StateSaveFailed
             (upd (\<lambda>d. d\<lparr>du_halted := True, du_halt_reason := ''state persistence failed''\<rparr>) s))"

text \<open>Every key is written back, a missing one with its default.\<close>

definition dflt :: "'v \<Rightarrow> 'v option \<Rightarrow> 'v option" where
  "dflt v x = Some (case x of None \<Rightarrow> v | Some w \<Rightarrow> w)"

definition load_meta :: "pos_meta \<Rightarrow> pos_meta" where
  "load_meta m = \<lparr>pm_initial_risk = dflt 0 (pm_initial_risk m), pm_strategy = dflt '''' (pm_strategy m),
     pm_opened_ns = dflt 0 (pm_opened_ns m), pm_side = dflt '''' (pm_side m),
     pm_client_order_id = dflt '''' (pm_client_order_id m), pm_regime = dflt '''' (pm_regime m),
     pm_provisional = dflt False (pm_provisional m), pm_partial_taken = dflt False (pm_partial_taken m),
     pm_breakeven_moved = dflt False (pm_breakeven_moved m), pm_lots = dflt 0 (pm_lots m),
     pm_entry_price = dflt 0 (pm_entry_price m), pm_stop_loss = pm_stop_loss m,
     pm_max_favourable = dflt 0 (pm_max_favourable m), pm_max_adverse = dflt 0 (pm_max_adverse m),
     pm_max_hold_sec = dflt 0 (pm_max_hold_sec m), pm_intended_risk = dflt 0 (pm_intended_risk m)\<rparr>"

definition load_document :: "durable \<Rightarrow> durable \<Rightarrow> durable" where
  "load_document doc d =
     doc\<lparr>du_halted := (du_halted doc \<or> du_halted d),
         du_halt_reason := (if du_halted doc then du_halt_reason doc else du_halt_reason d),
         du_position_meta := foldl (\<lambda>ms (k, m). dset ms k (load_meta m)) (du_position_meta d) (du_position_meta doc),
         du_processed := du_processed_order doc,
         du_processed_order := last_n 5000 (du_processed_order doc),
         du_equity_marks := last_n 400 (du_equity_marks doc)\<rparr>"

definition load_state :: "'a agent_core_scheme \<Rightarrow> bool \<times> 'a agent_core_scheme" where
  "load_state s =
     (case ag_disk s of
        NoFile \<Rightarrow> (False, s)
      | Unreadable \<Rightarrow> (False, journal_agent StateLoadFailed
          (upd (\<lambda>d. d\<lparr>du_halted := True, du_halt_reason := ''agent state is unreadable''\<rparr>) s))
      | Document doc \<Rightarrow> (True, journal_agent StateRestored (upd (load_document doc) s)))"

section \<open>Halt and resume\<close>

definition agent_halt :: "string \<Rightarrow> 'a agent_core_scheme \<Rightarrow> 'a agent_core_scheme" where
  "agent_halt reason s =
     (if du_halted (ag_state s) then s
      else save_state (journal_agent (HaltJournaled reason)
             (upd (\<lambda>d. d\<lparr>du_halted := True, du_halt_reason := reason\<rparr>) s)))"

definition agent_resume :: "string \<Rightarrow> 'a agent_core_scheme \<Rightarrow> bool \<times> 'a agent_core_scheme" where
  "agent_resume by_whom s =
     (if \<not> du_halted (ag_state s) then (False, s)
      else (True, save_state (upd (\<lambda>d. d\<lparr>du_halt_reason := ''''\<rparr>)
             (journal_agent (Resumed by_whom) (upd (\<lambda>d. d\<lparr>du_halted := False\<rparr>) s)))))"

definition release_guard :: "string \<Rightarrow> string \<Rightarrow> 'a agent_core_scheme \<Rightarrow> bool \<times> 'a agent_core_scheme" where
  "release_guard strategy by_whom s =
     (if \<not> dmem (du_guard_suspended (ag_state s)) strategy then (False, s)
      else (True, save_state (journal_agent (GuardReleased strategy)
             (upd (\<lambda>d. d\<lparr>du_guard_suspended := dpop (du_guard_suspended d) strategy\<rparr>) s))))"

section \<open>Budget windows\<close>

text \<open>\<open>_venue_day\<close>: the ordinal of the instant 21 hours earlier.\<close>

definition venue_day :: "int \<Rightarrow> int" where
  "venue_day dt = dt_date (dt - 21 * hour_us)"

definition roll_periods :: "int \<Rightarrow> dec \<Rightarrow> 'a agent_core_scheme \<Rightarrow> 'a agent_core_scheme" where
  "roll_periods now equity s =
     (let dt = from_timestamp_ns now; n = dt_date dt; day = venue_day dt; week = iso_week n;
          month = (ord2year n, ord2month n); year = ord2year n; d0 = ag_state s;
          d1 = (if du_day_key d0 = Some day then d0
                else d0\<lparr>du_day_key := Some day, du_day_start_equity := equity, du_trades_today := 0,
                        du_day_profit_locked := False\<rparr>);
          d2 = (if du_week_key d1 = Some week then d1
                else d1\<lparr>du_week_key := Some week, du_week_start_equity := equity, du_trades_week := 0\<rparr>);
          d3 = (if du_month_key d2 = Some month then d2
                else d2\<lparr>du_month_key := Some month, du_month_start_equity := equity\<rparr>);
          d4 = (if du_year_key d3 = Some year then d3 else d3\<lparr>du_year_key := Some year, du_trades_year := 0\<rparr>);
          rolled = (du_day_key d0 \<noteq> Some day \<or> du_week_key d0 \<noteq> Some week \<or> du_month_key d0 \<noteq> Some month
                    \<or> du_year_key d0 \<noteq> Some year);
          s' = s\<lparr>ag_state := d4\<rparr>
      in if rolled then save_state s' else s')"

text \<open>The rolling 24 hours: one mark per five-minute bucket, in a deque of 400.\<close>

definition mark_bucket_ns :: int where
  "mark_bucket_ns = 300 * 1000000000"

definition rolling_24h :: "int \<Rightarrow> dec \<Rightarrow> durable \<Rightarrow> dec \<times> durable" where
  "rolling_24h now equity d =
     (let cutoff = now - 86400 * 1000000000; ms = du_equity_marks d;
          ms1 = (if ms = [] \<or> now div mark_bucket_ns \<noteq> fst (last ms) div mark_bucket_ns
                 then last_n 400 (ms @ [(now, equity)]) else ms);
          ms2 = dropWhile (\<lambda>m. fst m < cutoff) ms1
      in (if ms2 = [] then 0 else dsub equity (snd (hd ms2)), d\<lparr>du_equity_marks := ms2\<rparr>))"

definition in_session :: "int list \<Rightarrow> (int \<times> int) list \<Rightarrow> int \<Rightarrow> bool" where
  "in_session trade_days windows now =
     (let dt = from_timestamp_ns now in
      weekday (dt_date dt) \<in> set trade_days \<and> list_ex (\<lambda>(start, stop). start \<le> dt_hour dt \<and> dt_hour dt < stop) windows)"

section \<open>Peaks and the ladder rung\<close>

text \<open>The account reading at the start of a cycle.\<close>

definition observe_account :: "risk_config \<Rightarrow> int \<Rightarrow> account_state \<Rightarrow> 'a agent_core_scheme \<Rightarrow> 'a agent_core_scheme" where
  "observe_account cfg now acct s =
     (let s1 = upd (\<lambda>d. d\<lparr>du_equity_peak := max (du_equity_peak d) (ac_balance acct),
                          du_equity_peak_marked := max (du_equity_peak_marked d) (ac_equity acct)\<rparr>)
                 (roll_periods now (ac_equity acct) s);
          d = ag_state s1
      in if ladder_enabled cfg \<and> 0 < du_equity_peak d
         then let dd_now = dmul (ddiv (dsub (du_equity_peak d) (ac_equity acct)) (du_equity_peak d)) 100;
                  rung = ladder_rung dd_now (ladder cfg) (du_ladder_rung d) (ladder_hysteresis_pct cfg);
                  s2 = upd (\<lambda>d. d\<lparr>du_ladder_rung := rung\<rparr>) s1
              in if rung \<noteq> du_ladder_rung d
                 then save_state (journal_agent (LadderStep (du_ladder_rung d) rung) s2) else s2
         else s1)"

text \<open>What \<open>start\<close> does with the baselines once the state is loaded.\<close>

definition start_baselines :: "bool \<Rightarrow> account_state \<Rightarrow> durable \<Rightarrow> durable" where
  "start_baselines restored acct d =
     (if \<not> restored
      then d\<lparr>du_equity_peak := ac_balance acct, du_day_start_equity := ac_equity acct,
             du_week_start_equity := ac_equity acct, du_month_start_equity := ac_equity acct\<rparr>
      else let peak = max (du_equity_peak d) 0 in
        d\<lparr>du_equity_peak := (if peak \<le> 0 then ac_equity acct else peak),
          du_day_start_equity := (if du_day_start_equity d \<le> 0 then ac_equity acct else du_day_start_equity d),
          du_week_start_equity := (if du_week_start_equity d \<le> 0 then ac_equity acct else du_week_start_equity d),
          du_month_start_equity := (if du_month_start_equity d \<le> 0 then ac_equity acct else du_month_start_equity d)\<rparr>)"

section \<open>Crashes and restarts\<close>

text \<open>
  A process that lives and dies: account readings, executed or unknown orders (the counters and the moment of the
  last entry), halts, resumptions, lifted suspensions, and crashes. A crash loses the memory; the next start
  loads the file, takes the account's reading for missing baselines, and saves.
\<close>

datatype memory_act =
    Observe int account_state
  | EntryCounted int
  | HaltFor string
  | ResumeBy string
  | ReleaseGuard string
  | CrashRestart account_state

text \<open>The part of \<open>_execute\<close> that spends the frequency budget.\<close>

definition count_entry :: "int \<Rightarrow> durable \<Rightarrow> durable" where
  "count_entry now d = d\<lparr>du_trades_today := du_trades_today d + 1, du_trades_week := du_trades_week d + 1,
     du_trades_year := du_trades_year d + 1, du_last_entry_ns := Some now\<rparr>"

definition restart :: "account_state \<Rightarrow> 'a agent_core_scheme \<Rightarrow> 'a agent_core_scheme" where
  "restart acct s =
     (let (restored, s1) = load_state (s\<lparr>ag_state := fresh_durable\<rparr>)
      in save_state (upd (start_baselines restored acct) s1))"

fun memory_step :: "risk_config \<Rightarrow> memory_act \<Rightarrow> 'a agent_core_scheme \<Rightarrow> 'a agent_core_scheme" where
  "memory_step cfg (Observe now acct) s = observe_account cfg now acct s"
| "memory_step cfg (EntryCounted now) s = save_state (upd (count_entry now) s)"
| "memory_step cfg (HaltFor reason) s = agent_halt reason s"
| "memory_step cfg (ResumeBy h) s = snd (agent_resume h s)"
| "memory_step cfg (ReleaseGuard strategy) s = snd (release_guard strategy ''owner'' s)"
| "memory_step cfg (CrashRestart acct) s = restart acct s"

definition memory_run :: "risk_config \<Rightarrow> memory_act list \<Rightarrow> 'a agent_core_scheme \<Rightarrow> 'a agent_core_scheme" where
  "memory_run cfg acts s = foldl (\<lambda>s a. memory_step cfg a s) s acts"

text \<open>
  What is never only in memory: the baselines, the windows, the counters, the halt, the rung, the latch and the
  suspensions. A state whose document agrees with it on these is \<open>on_disk\<close>.
\<close>

definition committed where
  "committed d = ((du_day_start_equity d, du_week_start_equity d, du_month_start_equity d),
     (du_day_key d, du_week_key d, du_month_key d, du_year_key d),
     (du_trades_today d, du_trades_week d, du_trades_year d, du_last_entry_ns d),
     (du_halted d, if du_halted d then du_halt_reason d else ''''), du_ladder_rung d, du_day_profit_locked d,
     du_guard_suspended d)"

definition budgets_set :: "durable \<Rightarrow> bool" where
  "budgets_set d \<longleftrightarrow> 0 < du_equity_peak d \<and> 0 < du_day_start_equity d \<and> 0 < du_week_start_equity d
     \<and> 0 < du_month_start_equity d"

definition on_disk :: "'a agent_core_scheme \<Rightarrow> bool" where
  "on_disk s \<longleftrightarrow> ag_disk_writable s \<and> budgets_set (ag_state s) \<and> (case ag_disk s of Document doc \<Rightarrow>
       committed doc = committed (ag_state s) \<and> 0 < du_equity_peak doc \<and> du_equity_peak doc \<le> du_equity_peak (ag_state s)
     | _ \<Rightarrow> False)"

definition solvent_act :: "memory_act \<Rightarrow> bool" where
  "solvent_act a \<longleftrightarrow> (case a of Observe _ acct \<Rightarrow> 0 < ac_equity acct \<and> 0 < ac_balance acct
     | CrashRestart acct \<Rightarrow> 0 < ac_equity acct \<and> 0 < ac_balance acct | _ \<Rightarrow> True)"

lemmas core_defs = upd_def journal_agent_def

lemma committed_payload [simp]: "committed (payload_of d) = committed d" "du_equity_peak (payload_of d) = du_equity_peak d"
  by (simp_all add: committed_def payload_of_def)

lemma core_simps [simp]:
  "ag_disk_writable (upd f s) = ag_disk_writable s" "ag_disk_writable (journal_agent e s) = ag_disk_writable s"
  "ag_disk_writable (save_state s) = ag_disk_writable s"
  "ag_state (journal_agent e s) = ag_state s" "ag_state (upd f s) = f (ag_state s)"
  "ag_disk (journal_agent e s) = ag_disk s" "ag_disk (upd f s) = ag_disk s"
  by (simp_all add: core_defs save_state_def)

lemma save_on_disk:
  "ag_disk_writable s \<Longrightarrow> budgets_set (ag_state s) \<Longrightarrow> on_disk (save_state s)"
  "ag_disk_writable s \<Longrightarrow> ag_state (save_state s) = ag_state s"
  by (simp_all add: save_state_def on_disk_def budgets_set_def)

text \<open>A change of memory that leaves the committed part and does not lower the peak needs no save.\<close>

lemma on_disk_upd:
  assumes "on_disk s" "committed (f (ag_state s)) = committed (ag_state s)" "du_equity_peak (ag_state s) \<le> du_equity_peak (f (ag_state s))"
  shows "on_disk (upd f s)"
  using assms by (auto simp: on_disk_def budgets_set_def committed_def split: state_file.splits)

lemma roll_on_disk:
  assumes "on_disk s" "0 < equity"
  shows "on_disk (roll_periods now equity s)"
proof -
  define dt where "dt = from_timestamp_ns now"
  define n where "n = dt_date dt"
  let ?d0 = "ag_state s"
  have w: "ag_disk_writable s" and b: "budgets_set ?d0"
    using assms(1) by (auto simp: on_disk_def)
  show ?thesis
  proof (cases "du_day_key ?d0 \<noteq> Some (venue_day dt) \<or> du_week_key ?d0 \<noteq> Some (iso_week n)
      \<or> du_month_key ?d0 \<noteq> Some (ord2year n, ord2month n) \<or> du_year_key ?d0 \<noteq> Some (ord2year n)")
    case True
    then show ?thesis
      unfolding roll_periods_def Let_def dt_def [symmetric] n_def [symmetric]
      using w b assms(2) by (simp add: save_on_disk budgets_set_def)
  next
    case False
    then have "roll_periods now equity s = s"
      unfolding roll_periods_def Let_def dt_def [symmetric] n_def [symmetric] by simp
    then show ?thesis using assms(1) by simp
  qed
qed

lemma observe_on_disk:
  assumes "on_disk s" "0 < ac_equity acct"
  shows "on_disk (observe_account cfg now acct s)"
proof -
  let ?r = "roll_periods now (ac_equity acct) s"
  define s1 where "s1 = upd (\<lambda>d. d\<lparr>du_equity_peak := max (du_equity_peak d) (ac_balance acct),
      du_equity_peak_marked := max (du_equity_peak_marked d) (ac_equity acct)\<rparr>) ?r"
  have o: "on_disk s1"
    unfolding s1_def by (rule on_disk_upd) (use roll_on_disk [OF assms] in \<open>auto simp: committed_def\<close>)
  then have w: "ag_disk_writable s1" "budgets_set (ag_state s1)" by (auto simp: on_disk_def)
  have id: "upd (\<lambda>d. d\<lparr>du_ladder_rung := du_ladder_rung (ag_state s1)\<rparr>) s1 = s1"
    by (simp add: upd_def)
  show ?thesis
    unfolding observe_account_def s1_def [symmetric]
    using o w id by (auto simp: Let_def save_on_disk budgets_set_def)
qed

lemma load_restored:
  assumes "on_disk s"
  shows "fst (load_state (s\<lparr>ag_state := fresh_durable\<rparr>))"
    and "committed (ag_state (snd (load_state (s\<lparr>ag_state := fresh_durable\<rparr>)))) = committed (ag_state s)"
    and "0 < du_equity_peak (ag_state (snd (load_state (s\<lparr>ag_state := fresh_durable\<rparr>))))"
    and "du_equity_peak (ag_state (snd (load_state (s\<lparr>ag_state := fresh_durable\<rparr>)))) \<le> du_equity_peak (ag_state s)"
  using assms
  by (auto simp: on_disk_def load_state_def load_document_def committed_def fresh_durable_def split: state_file.splits)

lemma restart_writable [simp]: "ag_disk_writable (restart acct s) = ag_disk_writable s"
  by (auto simp: restart_def load_state_def split: state_file.splits prod.splits)

text \<open>Whatever the file holds, a start ends with every baseline positive and on disk.\<close>

lemma restart_on_disk:
  assumes "ag_disk_writable s" "0 < ac_equity acct" "0 < ac_balance acct"
  shows "on_disk (restart acct s)"
proof -
  obtain r s1 where l: "load_state (s\<lparr>ag_state := fresh_durable\<rparr>) = (r, s1)" by fastforce
  have w: "ag_disk_writable s1"
    using l assms(1) by (auto simp: load_state_def split: state_file.splits)
  have "budgets_set (start_baselines r acct (ag_state s1))"
    using assms(2,3) by (auto simp: start_baselines_def budgets_set_def Let_def max_def)
  then show ?thesis
    using w by (simp add: restart_def l save_on_disk)
qed

lemma start_baselines_restored:
  assumes "budgets_set d"
  shows "start_baselines True acct d = d"
  using assms by (simp add: start_baselines_def budgets_set_def Let_def max_def)

lemma restart_restores:
  assumes "on_disk s"
  shows "committed (ag_state (restart acct s)) = committed (ag_state s)
       \<and> du_equity_peak (ag_state (restart acct s)) \<le> du_equity_peak (ag_state s)"
proof -
  obtain r s1 where l: "load_state (s\<lparr>ag_state := fresh_durable\<rparr>) = (r, s1)" by fastforce
  note f = load_restored [OF assms, unfolded l, simplified]
  have w: "ag_disk_writable s1"
    using l assms by (auto simp: load_state_def on_disk_def split: state_file.splits)
  have "budgets_set (ag_state s1)"
    using assms f by (auto simp: on_disk_def budgets_set_def committed_def)
  then show ?thesis
    using f w by (simp add: restart_def l save_on_disk start_baselines_restored)
qed

lemma memory_step_on_disk:
  assumes "on_disk s" "solvent_act a"
  shows "on_disk (memory_step cfg a s)"
proof (cases a)
  case (Observe now acct)
  then show ?thesis using assms by (simp add: solvent_act_def observe_on_disk)
next
  case (EntryCounted now)
  then show ?thesis using assms by (simp add: on_disk_def save_on_disk count_entry_def budgets_set_def save_state_def committed_def payload_of_def)
next
  case (HaltFor r)
  then show ?thesis using assms by (auto simp: agent_halt_def on_disk_def save_state_def budgets_set_def committed_def payload_of_def)
next
  case (ResumeBy h)
  then show ?thesis using assms by (cases "du_halted (ag_state s)") (auto simp: agent_resume_def on_disk_def save_state_def budgets_set_def committed_def payload_of_def)
next
  case (ReleaseGuard g)
  then show ?thesis using assms by (cases "dmem (du_guard_suspended (ag_state s)) g") (auto simp: release_guard_def on_disk_def save_state_def budgets_set_def committed_def payload_of_def)
next
  case (CrashRestart acct)
  then have "on_disk (restart acct s)"
    using assms by (intro restart_on_disk) (auto simp: on_disk_def solvent_act_def)
  then show ?thesis by (simp add: CrashRestart)
qed



definition demo_core :: agent_core where
  "demo_core = \<lparr>ag_state = fresh_durable, ag_disk = NoFile, ag_disk_writable = True, ag_events = []\<rparr>"

definition demo_acct :: "dec \<Rightarrow> dec \<Rightarrow> account_state" where
  "demo_acct balance equity = demo_account\<lparr>ac_balance := balance, ac_equity := equity\<rparr>"

definition demo_day :: int where
  "demo_day = 1767603600 * 1000000000"


text \<open>
  What a crash loses: an account reading that opens no window and moves no rung is not written, so the new
  peak of the balance is gone after a restart, and the drawdown is measured from the older peak.
\<close>
theorem unsaved_peak_is_lost:
  assumes "roll_periods now (ac_equity acct) s = s" "\<not> ladder_enabled cfg"
  shows "ag_disk (observe_account cfg now acct s) = ag_disk s
       \<and> ag_state (restart acct' (observe_account cfg now acct s)) = ag_state (restart acct' s)"
proof -
  have d: "ag_disk (observe_account cfg now acct s) = ag_disk s"
    using assms by (simp add: observe_account_def Let_def)
  have w: "ag_disk_writable (observe_account cfg now acct s) = ag_disk_writable s"
    using assms by (simp add: observe_account_def Let_def)
  show ?thesis
    using d w by (auto simp: restart_def load_state_def save_state_def core_defs split: state_file.splits prod.splits)
qed

lemma unsaved_peak_is_lost_witness:
  "let s = snd (load_state (demo_core\<lparr>ag_disk := Document (fresh_durable\<lparr>du_equity_peak := 10000,
             du_day_key := Some (venue_day (from_timestamp_ns demo_day)),
             du_week_key := Some (iso_week (dt_date (from_timestamp_ns demo_day))),
             du_month_key := Some (ord2year (dt_date (from_timestamp_ns demo_day)), ord2month (dt_date (from_timestamp_ns demo_day))),
             du_year_key := Some (ord2year (dt_date (from_timestamp_ns demo_day)))\<rparr>)\<rparr>));
       cfg = default_risk_config\<lparr>ladder_enabled := False\<rparr>; acct = demo_acct 12000 12000
   in ag_state (restart acct (observe_account cfg demo_day acct s)) = ag_state (restart acct s)
      \<and> du_equity_peak (ag_state s) = 10000 \<and> du_equity_peak (ag_state (observe_account cfg demo_day acct s)) = 12000"
proof -
  define s where "s = snd (load_state (demo_core\<lparr>ag_disk := Document (fresh_durable\<lparr>du_equity_peak := 10000,
             du_day_key := Some (venue_day (from_timestamp_ns demo_day)),
             du_week_key := Some (iso_week (dt_date (from_timestamp_ns demo_day))),
             du_month_key := Some (ord2year (dt_date (from_timestamp_ns demo_day)), ord2month (dt_date (from_timestamp_ns demo_day))),
             du_year_key := Some (ord2year (dt_date (from_timestamp_ns demo_day)))\<rparr>)\<rparr>))"
  have roll: "roll_periods demo_day (ac_equity (demo_acct 12000 12000)) s = s"
    by (simp add: s_def roll_periods_def Let_def load_state_def demo_core_def load_document_def)
  have peak: "du_equity_peak (ag_state s) = 10000"
    by (simp add: s_def load_state_def demo_core_def load_document_def)
  show ?thesis
    unfolding s_def [symmetric] Let_def
    using unsaved_peak_is_lost [OF roll, of "default_risk_config\<lparr>ladder_enabled := False\<rparr>"] roll peak
    by (simp add: observe_account_def Let_def demo_acct_def)
qed

section \<open>The rolling window\<close>

text \<open>Reference: the first reading of every five-minute bucket, with no window and no cap.\<close>

definition add_first :: "(int \<times> dec) list \<Rightarrow> int \<times> dec \<Rightarrow> (int \<times> dec) list" where
  "add_first acc m = (if acc = [] \<or> fst m div mark_bucket_ns \<noteq> fst (last acc) div mark_bucket_ns then acc @ [m] else acc)"

definition bucket_firsts :: "(int \<times> dec) list \<Rightarrow> (int \<times> dec) list" where
  "bucket_firsts ms = foldl add_first [] ms"

definition rolling_run :: "(int \<times> dec) list \<Rightarrow> durable \<Rightarrow> durable" where
  "rolling_run ms d = foldl (\<lambda>d (t, e). snd (rolling_24h t e d)) d ms"

definition within_day :: "int \<Rightarrow> (int \<times> dec) list \<Rightarrow> (int \<times> dec) list" where
  "within_day now ms = filter (\<lambda>m. now - 86400 * 1000000000 \<le> fst m) ms"

lemma bucket_firsts_simps [simp]:
  "bucket_firsts [] = []" "bucket_firsts (xs @ [m]) = add_first (bucket_firsts xs) m"
  by (simp_all add: bucket_firsts_def)

lemma bucket_firsts_last:
  "xs \<noteq> [] \<Longrightarrow> bucket_firsts xs \<noteq> [] \<and> fst (last (bucket_firsts xs)) div mark_bucket_ns = fst (last xs) div mark_bucket_ns"
  by (induction xs rule: rev_induct) (auto simp: add_first_def)

lemma bucket_firsts_set: "set (bucket_firsts xs) \<subseteq> set xs"
  by (induction xs rule: rev_induct) (auto simp: add_first_def)

lemma bucket_firsts_strict:
  "sorted (map fst xs) \<Longrightarrow> sorted_wrt (\<lambda>a b. fst a div mark_bucket_ns < fst b div mark_bucket_ns) (bucket_firsts xs)"
proof (induction xs rule: rev_induct)
  case (snoc m xs)
  have ih: "sorted_wrt (\<lambda>a b. fst a div mark_bucket_ns < fst b div mark_bucket_ns) (bucket_firsts xs)"
    using snoc by (simp add: sorted_append)
  show ?case
  proof (cases "bucket_firsts xs = [] \<or> fst m div mark_bucket_ns = fst (last (bucket_firsts xs)) div mark_bucket_ns")
    case True
    then show ?thesis using ih by (auto simp: add_first_def)
  next
    case False
    then have ne: "bucket_firsts xs \<noteq> []" and b: "fst m div mark_bucket_ns \<noteq> fst (last (bucket_firsts xs)) div mark_bucket_ns"
      by auto
    have "fst a div mark_bucket_ns < fst m div mark_bucket_ns" if a: "a \<in> set (bucket_firsts xs)" for a
    proof -
      have le: "fst a div mark_bucket_ns \<le> fst (last (bucket_firsts xs)) div mark_bucket_ns"
        using a ih ne by (cases "bucket_firsts xs" rule: rev_cases) (auto simp: sorted_wrt_append)
      have "last (bucket_firsts xs) \<in> set xs" using ne bucket_firsts_set by fastforce
      then have "fst (last (bucket_firsts xs)) \<le> fst m" using snoc.prems by (auto simp: sorted_append)
      then have "fst (last (bucket_firsts xs)) div mark_bucket_ns \<le> fst m div mark_bucket_ns"
        by (intro zdiv_mono1) (simp_all add: mark_bucket_ns_def)
      then show ?thesis using le b by linarith
    qed
    then show ?thesis using ih b ne by (auto simp: add_first_def sorted_wrt_append)
  qed
qed simp

text \<open>24 hours are 288 buckets, so the window never reaches the 400 marks the deque keeps.\<close>

lemma within_day_short:
  assumes "sorted_wrt (\<lambda>a b. fst a div mark_bucket_ns < fst b div mark_bucket_ns) ms" "\<forall>m\<in>set ms. fst m \<le> now"
  shows "length (within_day now ms) \<le> 289"
proof -
  let ?f = "\<lambda>m. fst m div mark_bucket_ns" and ?w = "within_day now ms"
  have w: "sorted_wrt (\<lambda>a b. ?f a < ?f b) ?w"
    using assms(1) unfolding within_day_def by (rule sorted_wrt_filter)
  then have "sorted_wrt (<) (map ?f ?w)" by (simp add: sorted_wrt_map)
  then have "distinct (map ?f ?w)" by (simp add: strict_sorted_iff)
  then have "length ?w = card (set (map ?f ?w))" by (metis distinct_card length_map)
  moreover have "set (map ?f ?w) \<subseteq> {now div mark_bucket_ns - 288 .. now div mark_bucket_ns}"
  proof
    fix b assume "b \<in> set (map ?f ?w)"
    then obtain m where m: "b = ?f m" "m \<in> set ms" "now - 86400 * 1000000000 \<le> fst m" by (auto simp: within_day_def)
    have "(now - 86400 * 1000000000) div mark_bucket_ns \<le> b"
      unfolding m(1) using m(3) by (intro zdiv_mono1) (simp_all add: mark_bucket_ns_def)
    moreover have "(now - 86400 * 1000000000) div mark_bucket_ns = now div mark_bucket_ns - 288"
      by (simp add: mark_bucket_ns_def)
    moreover have "b \<le> now div mark_bucket_ns"
      unfolding m(1) using assms(2) m(2) by (intro zdiv_mono1) (simp_all add: mark_bucket_ns_def)
    ultimately show "b \<in> {now div mark_bucket_ns - 288 .. now div mark_bucket_ns}" by simp
  qed
  then have "card (set (map ?f ?w)) \<le> card {now div mark_bucket_ns - 288 .. now div mark_bucket_ns}"
    by (intro card_mono) simp_all
  ultimately show ?thesis by simp
qed

lemma dropWhile_within:
  assumes "sorted_wrt (\<lambda>a b. fst a div mark_bucket_ns < fst b div mark_bucket_ns) ms"
  shows "dropWhile (\<lambda>m. fst m < now - 86400 * 1000000000) ms = within_day now ms"
  using assms
proof (induction ms)
  case (Cons a ms)
  have le: "fst a \<le> fst b" if "b \<in> set ms" for b
  proof -
    have "fst a div mark_bucket_ns < fst b div mark_bucket_ns" using Cons.prems that by simp
    then show ?thesis
      by (smt (verit) zdiv_mono1 mark_bucket_ns_def)
  qed
  show ?case
  proof (cases "fst a < now - 86400 * 1000000000")
    case True
    then show ?thesis using Cons by (simp add: within_day_def)
  next
    case False
    then have "\<forall>b\<in>set ms. now - 86400 * 1000000000 \<le> fst b" using le by force
    then show ?thesis using False by (simp add: within_day_def)
  qed
qed (simp add: within_day_def)

lemma within_day_mono: "t \<le> now \<Longrightarrow> within_day now (within_day t ms) = within_day now ms"
  by (auto simp: within_day_def intro: filter_cong)

lemma rolling_24h_marks:
  assumes s: "sorted (map fst (xs @ [(now, e)]))" and d: "du_equity_marks d = within_day (fst (last xs)) (bucket_firsts xs)"
    and ne: "xs \<noteq> []"
  shows "rolling_24h now e d = (dsub e (snd (hd (within_day now (bucket_firsts (xs @ [(now, e)]))))),
           d\<lparr>du_equity_marks := within_day now (bucket_firsts (xs @ [(now, e)]))\<rparr>)
         \<and> within_day now (bucket_firsts (xs @ [(now, e)])) \<noteq> []"
proof -
  let ?F = "bucket_firsts xs" and ?t = "fst (last xs)"
  let ?G = "bucket_firsts (xs @ [(now, e)])"
  have le: "?t \<le> now" using s ne by (simp add: sorted_append)
  have F: "?F \<noteq> []" "fst (last ?F) div mark_bucket_ns = ?t div mark_bucket_ns"
    using bucket_firsts_last [OF ne] by auto
  have sF: "sorted_wrt (\<lambda>a b. fst a div mark_bucket_ns < fst b div mark_bucket_ns) ?F"
    using s by (intro bucket_firsts_strict) (simp add: sorted_append)
  have sG: "sorted_wrt (\<lambda>a b. fst a div mark_bucket_ns < fst b div mark_bucket_ns) ?G"
    by (rule bucket_firsts_strict [OF s])
  have recent: "u - 86400 * 1000000000 \<le> v" if "u div mark_bucket_ns = v div mark_bucket_ns" for u v
    using that div_mult_mod_eq [of u mark_bucket_ns] div_mult_mod_eq [of v mark_bucket_ns]
      pos_mod_bound [of mark_bucket_ns u] pos_mod_sign [of mark_bucket_ns v]
    by (simp add: mark_bucket_ns_def)
  obtain ys l where yl: "?F = ys @ [l]" using F(1) by (metis rev_exhaust)
  have lt: "?t - 86400 * 1000000000 \<le> fst l" using F(2) yl by (intro recent) simp
  have W: "within_day ?t ?F = within_day ?t ys @ [l]" using lt by (simp add: within_day_def yl)
  have short: "length (within_day ?t ?F) \<le> 289"
  proof (rule within_day_short [OF sF])
    have "fst m \<le> ?t" if "m \<in> set xs" for m
      using that s ne by (cases xs rule: rev_cases) (auto simp: sorted_append)
    then show "\<forall>m\<in>set ?F. fst m \<le> ?t" using bucket_firsts_set by fastforce
  qed
  have ms1: "(if du_equity_marks d = [] \<or> now div mark_bucket_ns \<noteq> fst (last (du_equity_marks d)) div mark_bucket_ns
      then last_n 400 (du_equity_marks d @ [(now, e)]) else du_equity_marks d) = add_first (within_day ?t ?F) (now, e)"
    using short by (auto simp: d add_first_def last_n_def)
  have add: "within_day now (add_first (within_day ?t ?F) (now, e)) = within_day now ?G"
  proof (cases "now div mark_bucket_ns = fst l div mark_bucket_ns")
    case True
    have "add_first (within_day ?t ?F) (now, e) = within_day ?t ?F" using True by (simp add: W add_first_def)
    moreover have "?G = ?F" using True by (simp add: yl add_first_def)
    ultimately show ?thesis by (simp only: within_day_mono [OF le])
  next
    case False
    have "add_first (within_day ?t ?F) (now, e) = within_day ?t ?F @ [(now, e)]" using False by (simp add: W add_first_def)
    moreover have "?G = ?F @ [(now, e)]" using False by (simp add: yl add_first_def)
    moreover have "within_day now (within_day ?t ?F @ [(now, e)]) = within_day now (?F @ [(now, e)])"
      using within_day_mono [OF le] by (simp add: within_day_def)
    ultimately show ?thesis by simp
  qed
  have sadd: "sorted_wrt (\<lambda>a b. fst a div mark_bucket_ns < fst b div mark_bucket_ns) (add_first (within_day ?t ?F) (now, e))"
  proof (cases "now div mark_bucket_ns = fst l div mark_bucket_ns")
    case True
    have "sorted_wrt (\<lambda>a b. fst a div mark_bucket_ns < fst b div mark_bucket_ns) (within_day ?t ?F)"
      using sF unfolding within_day_def by (rule sorted_wrt_filter)
    then show ?thesis using True by (simp add: W add_first_def)
  next
    case False
    have "add_first (within_day ?t ?F) (now, e) = within_day ?t ?G"
      using False le by (simp add: W yl add_first_def within_day_def) (use lt in simp)
    then show ?thesis using sG unfolding within_day_def by (simp add: sorted_wrt_filter)
  qed
  have ne': "within_day now ?G \<noteq> []"
  proof -
    have "?G \<noteq> []" "fst (last ?G) div mark_bucket_ns = now div mark_bucket_ns"
      using bucket_firsts_last [of "xs @ [(now, e)]"] by auto
    then have "last ?G \<in> set (within_day now ?G)"
      using recent [of now "fst (last ?G)"] by (simp add: within_day_def)
    then show ?thesis by force
  qed
  show ?thesis
    unfolding rolling_24h_def Let_def ms1 dropWhile_within [OF sadd] add
    using ne' by simp
qed

lemma rolling_run_marks:
  assumes "sorted (map fst xs)" "xs \<noteq> []" "du_equity_marks d = []"
  shows "rolling_run xs d = d\<lparr>du_equity_marks := within_day (fst (last xs)) (bucket_firsts xs)\<rparr>"
  using assms(1,2)
proof (induction xs rule: rev_induct)
  case (snoc m xs)
  obtain now e where m: "m = (now, e)" by force
  show ?case
  proof (cases "xs = []")
    case True
    then show ?thesis
      using assms(3) by (simp add: m rolling_run_def rolling_24h_def Let_def last_n_def add_first_def within_day_def bucket_firsts_def)
  next
    case False
    have s: "sorted (map fst (xs @ [(now, e)]))" using snoc.prems by (simp add: m)
    then have "rolling_run xs d = d\<lparr>du_equity_marks := within_day (fst (last xs)) (bucket_firsts xs)\<rparr>"
      using snoc.IH False by (simp add: sorted_append)
    then show ?thesis
      using rolling_24h_marks [OF s _ False, of "rolling_run xs d"] by (simp add: m rolling_run_def)
  qed
qed simp

text \<open>
  The rolling budget covers 24 hours whatever the decision interval. For any non-empty sequence of readings in
  time order, the marks kept equal the first reading of every five-minute bucket, restricted to the last 24 hours:
  the 400 marks of the deque never drop one of them. The reported change is measured from the oldest of these.
\<close>
theorem rolling_window_covers_day:
  assumes "sorted (map fst (xs @ [(now, e)]))" "xs \<noteq> []" "du_equity_marks d = []"
  shows "let ms = within_day now (bucket_firsts (xs @ [(now, e)])); r = rolling_24h now e (rolling_run xs d)
         in ms \<noteq> [] \<and> length ms \<le> 289 \<and> fst r = dsub e (snd (hd ms)) \<and> du_equity_marks (snd r) = ms"
proof -
  let ?G = "bucket_firsts (xs @ [(now, e)])"
  have run: "du_equity_marks (rolling_run xs d) = within_day (fst (last xs)) (bucket_firsts xs)"
    using rolling_run_marks [OF _ assms(2,3)] assms(1) by (simp add: sorted_append)
  have "\<forall>m\<in>set ?G. fst m \<le> now"
    using bucket_firsts_set [of "xs @ [(now, e)]"] assms(1) by (auto simp: sorted_append)
  then have "length (within_day now ?G) \<le> 289"
    by (rule within_day_short [OF bucket_firsts_strict [OF assms(1)]])
  then show ?thesis
    using rolling_24h_marks [OF assms(1) run assms(2)] by (simp add: Let_def)
qed

lemma rolling_window_covers_day_witness:
  "let r = rolling_24h (90000 * 1000000000) 9700
             (rolling_run [(0, 10000), (1000000000, 9990), (7200 * 1000000000, 9800)] fresh_durable)
   in fst r = -100 \<and> length (du_equity_marks (snd r)) = 2"
  using rolling_window_covers_day [of "[(0, 10000), (1000000000, 9990), (7200 * 1000000000, 9800)]"
      "90000 * 1000000000" 9700 fresh_durable]
  by (simp add: fresh_durable_def Let_def within_day_def bucket_firsts_def add_first_def mark_bucket_ns_def
      decimal_eval)

section \<open>Halts\<close>

definition is_resume :: "memory_act \<Rightarrow> bool" where
  "is_resume a \<longleftrightarrow> (case a of ResumeBy _ \<Rightarrow> True | _ \<Rightarrow> False)"

lemma save_halted [simp]: "du_halted (ag_state s) \<Longrightarrow> du_halted (ag_state (save_state s))"
  by (simp add: save_state_def)

lemma roll_halted:
  assumes "du_halted (ag_state s)"
  shows "du_halted (ag_state (roll_periods now equity s))"
  using assms unfolding roll_periods_def Let_def by (simp split del: if_split) simp

lemma observe_halted:
  assumes "du_halted (ag_state s)"
  shows "du_halted (ag_state (observe_account cfg now acct s))"
  using roll_halted [OF assms, of now "ac_equity acct"] unfolding observe_account_def Let_def by simp

text \<open>
  C17. A halt is lifted by a person only: from a state on disk that is halted, no sequence of readings, entries,
  further halts, lifted suspensions, crashes and restarts ends in a state that is not halted.
\<close>
theorem halt_survives:
  fixes s :: "'a agent_core_scheme"
  assumes "on_disk s" "du_halted (ag_state s)" "list_all (\<lambda>a. solvent_act a \<and> \<not> is_resume a) acts"
  shows "du_halted (ag_state (memory_run cfg acts s))"
proof -
  have step: "du_halted (ag_state (memory_step cfg a s))" if "on_disk s" "du_halted (ag_state s)" "\<not> is_resume a"
    for a and s :: "'a agent_core_scheme"
  proof (cases a)
    case (CrashRestart acct)
    then show ?thesis
      using restart_restores [OF that(1)] that(2) by (simp add: committed_def)
  qed (use that in \<open>simp_all add: is_resume_def observe_halted agent_halt_def release_guard_def count_entry_def\<close>)
  show ?thesis
    using assms unfolding memory_run_def
    by (induction acts arbitrary: s) (simp_all add: memory_step_on_disk step)
qed

lemma halt_survives_witness:
  "du_halted (ag_state (memory_run default_risk_config [CrashRestart (demo_acct 10000 9000), EntryCounted demo_day]
     (restart (demo_acct 10000 10000) (demo_core\<lparr>ag_disk := Unreadable\<rparr>))))"
proof -
  let ?s = "restart (demo_acct 10000 10000) (demo_core\<lparr>ag_disk := Unreadable\<rparr>)"
  have "on_disk ?s" by (rule restart_on_disk) (simp_all add: demo_core_def demo_acct_def)
  moreover have "du_halted (ag_state ?s)"
    by (simp add: restart_def load_state_def demo_core_def start_baselines_def)
  ultimately show ?thesis
    by (rule halt_survives) (simp add: solvent_act_def is_resume_def demo_acct_def)
qed

end
