(* ===== verification/AgentBook.thy ===== *)
theory AgentBook
  imports AgentState OMS Reconcile
begin

text \<open>
  The agent's book in \<open>src/sentinel/agent/orchestrator.py\<close>: its own view of what is open, the metadata it attaches to
  what the venue reports, the excursion of each position, the normal spread, and the closing of a position.

  The broker is an argument, a record of the calls the agent makes beside those of the order manager. \<open>instruments()\<close>
  is a table; every other call may raise and may change the venue.
\<close>

section \<open>State\<close>

record 'b agent_ops =
  ax_oms :: "'b broker_ops"
  ax_venue :: "'b venue_ops"
  ax_account :: "'b \<Rightarrow> account_state res \<times> 'b"
  ax_positions :: "'b \<Rightarrow> position list res \<times> 'b"
  ax_instruments :: "(string, instrument) dict"
  ax_conversion_rate :: "'b \<Rightarrow> string \<Rightarrow> string \<Rightarrow> dec res \<times> 'b"
  ax_close :: "'b \<Rightarrow> string \<Rightarrow> dec option \<Rightarrow> string \<Rightarrow> submit_result res \<times> 'b"
  ax_min_stop :: "(string \<Rightarrow> dec res) option"

record regime_state =
  rg_name :: string
  rg_risk_multiplier :: dec

datatype reference_status = RefOk | RefShrink | RefBlocked

record reference_check =
  rc_status :: reference_status
  rc_size_multiplier :: dec

record news_assessment =
  na_blocked :: bool
  na_size_multiplier :: dec

datatype decision_action = Proposed | Executed | Vetoed | Skipped | Queued | Preview

text \<open>A decision: texts left out, a veto by its rule, decimals for their strings.\<close>

record decision =
  dc_ts_ns :: int
  dc_strategy :: string
  dc_instrument :: string
  dc_action :: decision_action
  dc_side :: "side option"
  dc_lots :: "dec option"
  dc_stop :: "dec option"
  dc_target :: "dec option"
  dc_risk_amount :: "dec option"
  dc_risk_pct :: "dec option"
  dc_vetoes :: "string list"
  dc_caution :: "pyfloat option"
  dc_horizon :: "(int \<times> string) option"
  dc_order_state :: "order_state option"
  dc_client_order_id :: "string option"

record 'b agent = agent_core +
  ag_oms :: "'b oms"
  ag_regime :: "regime_state option"
  ag_spreads :: "((string \<times> string), pyfloat list) dict"
  ag_reference :: "(string, reference_check) dict"
  ag_news :: "(string, news_assessment) dict"
  ag_advisory :: "decision list"
  ag_group_view :: "group_view option"
  ag_licence_logged :: bool
  ag_last_reconcile_ns :: int
  ag_decisions :: "decision list"
  ag_recon_journal :: "reconcile_event list"

type_synonym ('b, 'a) agent_action = "('b agent, 'a) action"

definition metas :: "'a agent_core_scheme \<Rightarrow> (string, pos_meta) dict" where
  "metas s = du_position_meta (ag_state s)"

definition set_meta :: "string \<Rightarrow> pos_meta \<Rightarrow> 'a agent_core_scheme \<Rightarrow> 'a agent_core_scheme" where
  "set_meta i m = upd (\<lambda>d. d\<lparr>du_position_meta := dset (du_position_meta d) i m\<rparr>)"

definition pop_meta :: "string \<Rightarrow> 'a agent_core_scheme \<Rightarrow> 'a agent_core_scheme" where
  "pop_meta i = upd (\<lambda>d. d\<lparr>du_position_meta := dpop (du_position_meta d) i\<rparr>)"

text \<open>A broker call: the venue's state is the order manager's.\<close>

definition on_broker :: "('c \<Rightarrow> 'a res \<times> 'c) \<Rightarrow> ('c agent, 'a) action" where
  "on_broker f s = (case f (om_broker (ag_oms s)) of (r, b) \<Rightarrow> (r, s\<lparr>ag_oms := (ag_oms s)\<lparr>om_broker := b\<rparr>\<rparr>))"

section \<open>The agent's own view\<close>

definition side_name :: "side \<Rightarrow> string" where
  "side_name s = (case s of BUY \<Rightarrow> ''BUY'' | SELL \<Rightarrow> ''SELL'')"

definition side_of :: "string \<Rightarrow> side option" where
  "side_of t = (if t = ''BUY'' then Some BUY else if t = ''SELL'' then Some SELL else None)"

definition or_default :: "'v \<Rightarrow> 'v option \<Rightarrow> 'v" where
  "or_default v x = (case x of None \<Rightarrow> v | Some w \<Rightarrow> w)"

text \<open>A price of zero is no price.\<close>

definition local_position :: "string \<Rightarrow> pos_meta \<Rightarrow> position option" where
  "local_position name m =
     (if or_default False (pm_provisional m) then None
      else case side_of (or_default '''' (pm_side m)) of
        None \<Rightarrow> None
      | Some sd \<Rightarrow> Some \<lparr>p_instrument = name, p_side = sd, p_lots = or_default 0 (pm_lots m),
          p_entry_price = or_default 0 (pm_entry_price m), p_opened_ns = or_default 0 (pm_opened_ns m),
          p_strategy = or_default '''' (pm_strategy m),
          p_stop_loss = (case pm_stop_loss m of Some sl \<Rightarrow> if sl = 0 then None else Some sl | None \<Rightarrow> None),
          p_take_profit = None, p_broker_stop_confirmed = False,
          p_client_order_id = Some (or_default '''' (pm_client_order_id m)), p_realised_pnl = 0,
          p_financing_paid = 0, p_commission_paid = 0, p_initial_risk = or_default 0 (pm_initial_risk m),
          p_max_favourable = 0, p_max_adverse = 0, p_partial_taken = False, p_breakeven_moved = False\<rparr>)"

definition local_book :: "'a agent_core_scheme \<Rightarrow> position list" where
  "local_book s = List.map_filter (\<lambda>(name, m). local_position name m) (metas s)"

section \<open>Attaching the metadata\<close>

text \<open>\<open>if meta\<close>: an entry, and not an empty dictionary.\<close>

definition truthy_meta :: "pos_meta option \<Rightarrow> pos_meta option" where
  "truthy_meta m = (case m of Some x \<Rightarrow> if x = empty_meta then None else Some x | None \<Rightarrow> None)"

definition attach_meta :: "pos_meta \<Rightarrow> position \<Rightarrow> position" where
  "attach_meta m pos = pos
     \<lparr>p_initial_risk := (if p_initial_risk pos \<le> 0 then or_default 0 (pm_initial_risk m) else p_initial_risk pos),
      p_strategy := (if p_strategy pos = '''' then or_default '''' (pm_strategy m) else p_strategy pos),
      p_opened_ns := (if p_opened_ns pos = 0 then or_default 0 (pm_opened_ns m) else p_opened_ns pos),
      p_partial_taken := or_default False (pm_partial_taken m),
      p_breakeven_moved := or_default False (pm_breakeven_moved m)\<rparr>"

definition hydrate_one :: "position \<Rightarrow> 'a agent_core_scheme \<Rightarrow> position \<times> 'a agent_core_scheme" where
  "hydrate_one pos s =
     (case truthy_meta (dget (metas s) (p_instrument pos)) of
        None \<Rightarrow> (pos, s)
      | Some m \<Rightarrow>
          if or_default '''' (pm_side m) \<noteq> side_name (p_side pos)
          then (pos, agent_halt ''position does not match the record''
                  (pop_meta (p_instrument pos) (journal_agent (StaleMetadata (p_instrument pos)) s)))
          else (attach_meta m pos, s))"

fun hydrate_each :: "position list \<Rightarrow> 'a agent_core_scheme \<Rightarrow> position list \<times> 'a agent_core_scheme" where
  "hydrate_each [] s = ([], s)"
| "hydrate_each (p # ps) s =
     (let (p', s1) = hydrate_one p s; (ps', s2) = hydrate_each ps s1 in (p' # ps', s2))"

definition prune_metas :: "position list \<Rightarrow> 'a agent_core_scheme \<Rightarrow> 'a agent_core_scheme" where
  "prune_metas ps = upd (\<lambda>d. d\<lparr>du_position_meta :=
     filter (\<lambda>(k, _). k \<in> set (map p_instrument ps)) (du_position_meta d)\<rparr>)"

definition reattach_excursion :: "(string, pos_meta) dict \<Rightarrow> position \<Rightarrow> position" where
  "reattach_excursion ms pos =
     (case truthy_meta (dget ms (p_instrument pos)) of
        None \<Rightarrow> pos
      | Some m \<Rightarrow> pos\<lparr>p_max_favourable := or_default 0 (pm_max_favourable m),
                      p_max_adverse := or_default 0 (pm_max_adverse m)\<rparr>)"

definition hydrate :: "position list \<Rightarrow> 'a agent_core_scheme \<Rightarrow> position list \<times> 'a agent_core_scheme" where
  "hydrate ps s =
     (let (out, s1) = hydrate_each ps s; s2 = prune_metas ps s1 in (map (reattach_excursion (metas s2)) out, s2))"

section \<open>Excursions\<close>

definition track_excursion ::
  "position \<Rightarrow> quote \<Rightarrow> instrument \<Rightarrow> dec \<Rightarrow> 'a agent_core_scheme \<Rightarrow> position \<times> 'a agent_core_scheme" where
  "track_excursion pos q inst conv s =
     (if p_initial_risk pos \<le> 0 then (pos, s)
      else
      let r = ddiv (unrealised pos q inst conv) (p_initial_risk pos);
          m = or_default empty_meta (dget (metas s) (p_instrument pos));
          old_best = or_default 0 (pm_max_favourable m); old_worst = or_default 0 (pm_max_adverse m);
          best = max (max old_best r) (p_max_favourable pos);
          worst = min (min old_worst r) (p_max_adverse pos);
          m' = (if best \<noteq> old_best \<or> worst \<noteq> old_worst
                then m\<lparr>pm_max_favourable := Some best, pm_max_adverse := Some worst\<rparr> else m)
      in (pos\<lparr>p_max_favourable := best, p_max_adverse := worst\<rparr>, set_meta (p_instrument pos) m' s))"

section \<open>Rates, floors, costs, horizons\<close>

text \<open>\<open>_conversion_map\<close>: only rates the venue returned.\<close>

fun conversion_loop ::
  "'b agent_ops \<Rightarrow> string \<Rightarrow> instrument list \<Rightarrow> (string, dec) dict \<Rightarrow> 'b \<Rightarrow> (string, dec) dict \<times> 'b" where
  "conversion_loop ops ccy [] out b = (out, b)"
| "conversion_loop ops ccy (inst # is) out b =
     (if quote_ccy inst = ccy then conversion_loop ops ccy is (dset out (quote_ccy inst) 1) b
      else case ax_conversion_rate ops b (quote_ccy inst) ccy of
        (Inl _, b') \<Rightarrow> conversion_loop ops ccy is out b'
      | (Inr rate, b') \<Rightarrow>
          conversion_loop ops ccy is (if 0 < rate then dset out (quote_ccy inst) rate else out) b')"

definition conversion_map :: "'b agent_ops \<Rightarrow> string \<Rightarrow> 'b agent \<Rightarrow> (string, dec) dict \<times> 'b agent" where
  "conversion_map ops ccy s =
     (let (out, b) = conversion_loop ops ccy (dvalues (ax_instruments ops)) [] (om_broker (ag_oms s))
      in (out, s\<lparr>ag_oms := (ag_oms s)\<lparr>om_broker := b\<rparr>\<rparr>))"

definition venue_stop_floors :: "'b agent_ops \<Rightarrow> (string, dec) dict" where
  "venue_stop_floors ops =
     (case ax_min_stop ops of
        None \<Rightarrow> []
      | Some getter \<Rightarrow> foldl (\<lambda>out (name, inst).
          (case getter name of
             Inl _ \<Rightarrow> out
           | Inr distance \<Rightarrow> if distance \<noteq> 0 \<and> 0 < pip inst then dset out name (ddiv distance (pip inst)) else out))
          [] (ax_instruments ops))"

definition agent_cost_model :: "dec \<Rightarrow> dec \<Rightarrow> dec \<Rightarrow> cost_model" where
  "agent_cost_model commission slippage spread = (default_cost_model spread)
     \<lparr>cm_commission_per_lot_round_turn := commission, cm_slippage_pips_median := slippage\<rparr>"

definition TIMEFRAME_SECONDS :: "string \<Rightarrow> int option" where
  "TIMEFRAME_SECONDS = map_of [(''M1'', 60), (''M5'', 300), (''M15'', 900), (''M30'', 1800), (''H1'', 3600),
     (''H4'', 14400), (''D1'', 86400), (''W1'', 604800)]"

definition horizon_sec :: "string \<Rightarrow> (int \<times> string) option \<Rightarrow> int" where
  "horizon_sec feed_timeframe horizon =
     (case horizon of
        None \<Rightarrow> 0
      | Some (bars, tf) \<Rightarrow>
          if bars \<le> 0 then 0
          else bars * or_default 0 (TIMEFRAME_SECONDS (if tf = '''' then feed_timeframe else tf)))"

definition agent_max_hold_sec :: "risk_config \<Rightarrow> position \<Rightarrow> 'a agent_core_scheme \<Rightarrow> int" where
  "agent_max_hold_sec cfg pos s =
     (if 0 < max_hold_sec cfg then max_hold_sec cfg
      else or_default 0 (pm_max_hold_sec (or_default empty_meta (dget (metas s) (p_instrument pos)))))"

section \<open>The normal spread\<close>

definition session_bucket :: "int \<Rightarrow> string" where
  "session_bucket now =
     (let hour = dt_hour (from_timestamp_ns now) in
      if 20 \<le> hour \<and> hour < 22 then ''rollover''
      else if 7 \<le> hour \<and> hour < 17 then ''london'' else ''asia'')"

definition observe_spread :: "int \<Rightarrow> string \<Rightarrow> dec \<Rightarrow> 'b agent \<Rightarrow> 'b agent" where
  "observe_spread now name spread s =
     (if spread \<le> 0 then s
      else let key = (name, session_bucket now)
           in s\<lparr>ag_spreads := dset (ag_spreads s) key
                  (last_n 500 (or_default [] (dget (ag_spreads s) key) @ [fround spread]))\<rparr>)"

definition median_of :: "pyfloat list \<Rightarrow> pyfloat" where
  "median_of window =
     (let ordered = sort window; mid = length ordered div 2
      in if odd (length ordered) then ordered ! mid else fround (fround (ordered ! (mid - 1) + ordered ! mid) / 2))"

definition normal_spread :: "int \<Rightarrow> string \<Rightarrow> dec \<Rightarrow> 'b agent \<Rightarrow> dec" where
  "normal_spread now name live s =
     (case dget (ag_spreads s) (name, session_bucket now) of
        None \<Rightarrow> live
      | Some window \<Rightarrow>
          if length window < 30 then live
          else let median = median_of window in if 0 < median then median else live)"

section \<open>Closing a position\<close>

definition close_at_venue :: "'b agent_ops \<Rightarrow> position \<Rightarrow> string \<Rightarrow> 'b agent \<Rightarrow> bool \<times> 'b agent" where
  "close_at_venue ops pos code s =
     (let name = p_instrument pos in
      case on_broker (\<lambda>b. ax_close ops b name None (take 32 code)) s of
        (Inl _, s1) \<Rightarrow> (False, agent_halt ''could not close'' (journal_agent (PositionNotClosed name) s1))
      | (Inr res, s1) \<Rightarrow>
          if sb_state res \<in> {FILLED, PARTIAL}
          then
            let (r, s2) = on_broker (ax_positions ops) s1;
                remaining = (case r of Inl _ \<Rightarrow> [] | Inr ps \<Rightarrow> filter (\<lambda>p. p_instrument p = name) ps);
                s3 = (case r of Inl _ \<Rightarrow> journal_agent (PositionUnread name) s2 | Inr _ \<Rightarrow> s2)
            in if remaining \<noteq> []
               then (False, agent_halt ''closed only partially'' (journal_agent (PositionNotClosed name) s3))
               else (True, pop_meta name (journal_agent (PositionClosed name) s3))
          else (False, agent_halt ''could not be closed'' (journal_agent (PositionNotClosed name) s1)))"

section \<open>Lemmas: the metadata\<close>

lemma dpop_gone [simp]: "k \<notin> fst ` set (dpop d k)"
  by (simp add: AList.delete_eq image_iff)


lemma metas_simps [simp]:
  "metas (journal_agent e s) = metas s" "metas (save_state s) = metas s" "metas (agent_halt r s) = metas s"
  "metas (pop_meta i s) = dpop (metas s) i" "metas (set_meta i m s) = dset (metas s) i m"
  by (simp_all add: metas_def core_defs save_state_def agent_halt_def pop_meta_def set_meta_def)

lemma halted_simps [simp]:
  "du_halted (ag_state (agent_halt r s))"
  "du_halted (ag_state (pop_meta i s)) = du_halted (ag_state s)"
  "du_halted (ag_state (set_meta i m s)) = du_halted (ag_state s)"
  by (simp_all add: agent_halt_def pop_meta_def set_meta_def)

lemma metas_prune: "metas (prune_metas ps s) = filter (\<lambda>(k, _). k \<in> set (map p_instrument ps)) (metas s)"
  by (simp add: prune_metas_def metas_def)

lemma dget_prune: "dget (metas (prune_metas ps s)) k = (if k \<in> set (map p_instrument ps) then dget (metas s) k else None)"
proof -
  have "map_of (filter (\<lambda>(k, _). P k) xs) k = (if P k then map_of xs k else None)" for P and xs :: "(string, pos_meta) dict"
    by (induction xs) auto
  then show ?thesis unfolding metas_prune .
qed

text \<open>What a recorded side must agree with.\<close>

definition meta_agrees :: "position \<Rightarrow> 'a agent_core_scheme \<Rightarrow> bool" where
  "meta_agrees pos s \<longleftrightarrow> (case truthy_meta (dget (metas s) (p_instrument pos)) of
     None \<Rightarrow> True | Some m \<Rightarrow> or_default '''' (pm_side m) = side_name (p_side pos))"

lemma hydrate_one_agrees: "meta_agrees pos (snd (hydrate_one pos s))"
  by (auto simp: meta_agrees_def hydrate_one_def truthy_meta_def split: option.splits)

lemma hydrate_one_others:
  "k \<noteq> p_instrument pos \<Longrightarrow> dget (metas (snd (hydrate_one pos s))) k = dget (metas s) k"
  by (auto simp: hydrate_one_def split: option.splits)

lemma hydrate_one_halts: "\<not> meta_agrees pos s \<Longrightarrow> du_halted (ag_state (snd (hydrate_one pos s)))"
  by (auto simp: meta_agrees_def hydrate_one_def split: option.splits)

lemma hydrate_one_keeps_halt: "du_halted (ag_state s) \<Longrightarrow> du_halted (ag_state (snd (hydrate_one pos s)))"
  by (auto simp: hydrate_one_def split: option.splits)

lemma hydrate_each_others:
  "k \<notin> set (map p_instrument ps) \<Longrightarrow> dget (metas (snd (hydrate_each ps s))) k = dget (metas s) k"
proof (induction ps arbitrary: s)
  case (Cons p ps)
  obtain p' s1 where h: "hydrate_one p s = (p', s1)" by fastforce
  obtain ps' s2 where e: "hydrate_each ps s1 = (ps', s2)" by fastforce
  show ?case
    using Cons.IH [of s1] Cons.prems hydrate_one_others [of k p s] h e by simp
qed simp

lemma meta_agrees_cong: "dget (metas s) (p_instrument pos) = dget (metas s') (p_instrument pos) \<Longrightarrow> meta_agrees pos s = meta_agrees pos s'"
  by (simp add: meta_agrees_def)

lemma hydrate_each_agrees:
  "distinct (map p_instrument ps) \<Longrightarrow> pos \<in> set ps \<Longrightarrow> meta_agrees pos (snd (hydrate_each ps s))"
proof (induction ps arbitrary: s)
  case (Cons p ps)
  obtain p' s1 where h: "hydrate_one p s = (p', s1)" by fastforce
  obtain ps' s2 where e: "hydrate_each ps s1 = (ps', s2)" by fastforce
  show ?case
  proof (cases "pos = p")
    case True
    have "dget (metas s2) (p_instrument p) = dget (metas s1) (p_instrument p)"
      using hydrate_each_others [of "p_instrument p" ps s1] Cons.prems(1) e by simp
    then show ?thesis
      using hydrate_one_agrees [of p s] True h e meta_agrees_cong [of s2 p s1] by simp
  next
    case False
    then show ?thesis using Cons.IH [of s1] Cons.prems h e by simp
  qed
qed simp

lemma hydrate_each_halts:
  "distinct (map p_instrument ps) \<Longrightarrow> pos \<in> set ps \<and> \<not> meta_agrees pos s \<or> du_halted (ag_state s)
    \<Longrightarrow> du_halted (ag_state (snd (hydrate_each ps s)))"
proof (induction ps arbitrary: s)
  case (Cons p ps)
  obtain p' s1 where h: "hydrate_one p s = (p', s1)" by fastforce
  obtain ps' s2 where e: "hydrate_each ps s1 = (ps', s2)" by fastforce
  have "pos \<in> set ps \<and> \<not> meta_agrees pos s1 \<or> du_halted (ag_state s1)"
  proof (cases "pos = p \<or> du_halted (ag_state s)")
    case True
    then show ?thesis
      using Cons.prems(2) hydrate_one_halts [of p s] hydrate_one_keeps_halt [of s p] h by auto
  next
    case False
    then have m: "pos \<in> set ps" "\<not> meta_agrees pos s" using Cons.prems(2) by auto
    then have "p_instrument pos \<noteq> p_instrument p" using Cons.prems(1) by (metis distinct.simps(2) imageI list.set_map list.simps(9))
    then have "dget (metas s1) (p_instrument pos) = dget (metas s) (p_instrument pos)"
      using hydrate_one_others [of "p_instrument pos" p s] h by simp
    then show ?thesis using m meta_agrees_cong [of s1 pos s] by simp
  qed
  then show ?case using Cons.IH [of s1] Cons.prems(1) h e by simp
qed simp

lemma hydrate_snd: "snd (hydrate ps s) = prune_metas ps (snd (hydrate_each ps s))"
  by (simp add: hydrate_def Let_def split: prod.split)

lemma prune_halted [simp]: "du_halted (ag_state (prune_metas ps s)) = du_halted (ag_state s)"
  by (simp add: prune_metas_def)

text \<open>
  A position never inherits the metadata of another trade. After the positions a venue reports (one per
  instrument) have been given their metadata, every record that is left belongs to a reported position, and its side
  is that position's; and when a record disagreed on the side, the agent is halted.
\<close>
theorem hydrate_never_inherits:
  assumes "distinct (map p_instrument ps)" "pos \<in> set ps"
  shows "(\<forall>k. dmem (metas (snd (hydrate ps s))) k \<longrightarrow> k \<in> set (map p_instrument ps))
       \<and> meta_agrees pos (snd (hydrate ps s))
       \<and> (\<not> meta_agrees pos s \<longrightarrow> du_halted (ag_state (snd (hydrate ps s))))"
proof -
  have "meta_agrees pos (prune_metas ps (snd (hydrate_each ps s)))"
    using hydrate_each_agrees [OF assms, of s] assms(2) by (simp add: meta_agrees_def dget_prune)
  then show ?thesis
    unfolding hydrate_snd using hydrate_each_halts [OF assms(1), of pos s] assms(2)
    by (auto simp: metas_prune)
qed

definition eur_position :: position where
  "eur_position = \<lparr>p_instrument = ''EUR_USD'', p_side = BUY, p_lots = 1/10, p_entry_price = 108500/100000,
     p_opened_ns = 0, p_strategy = '''', p_stop_loss = None, p_take_profit = None, p_broker_stop_confirmed = True,
     p_client_order_id = None, p_realised_pnl = 0, p_financing_paid = 0, p_commission_paid = 0, p_initial_risk = 0,
     p_max_favourable = 0, p_max_adverse = 0, p_partial_taken = False, p_breakeven_moved = False\<rparr>"

lemma hydrate_never_inherits_witness:
  "let s = set_meta ''EUR_USD'' (empty_meta\<lparr>pm_side := Some ''SELL'', pm_initial_risk := Some 200\<rparr>) demo_core;
       (out, s') = hydrate [eur_position] s
   in du_halted (ag_state s') \<and> metas s' = [] \<and> map p_initial_risk out = [0]"
proof -
  define s where "s = set_meta ''EUR_USD'' (empty_meta\<lparr>pm_side := Some ''SELL'', pm_initial_risk := Some 200\<rparr>) demo_core"
  have "\<not> meta_agrees eur_position s"
    by (simp add: s_def meta_agrees_def eur_position_def truthy_meta_def empty_meta_def metas_def demo_core_def
        fresh_durable_def set_meta_def or_default_def side_name_def)
  then have "du_halted (ag_state (snd (hydrate [eur_position] s)))"
    using hydrate_never_inherits [of "[eur_position]" eur_position s] by simp
  then show ?thesis
    unfolding s_def [symmetric]
    by (simp add: hydrate_def hydrate_one_def prune_metas_def reattach_excursion_def s_def eur_position_def
        truthy_meta_def empty_meta_def metas_def demo_core_def fresh_durable_def set_meta_def or_default_def
        side_name_def pop_meta_def agent_halt_def save_state_def core_defs Let_def)
qed

section \<open>Lemmas: excursions\<close>

lemma load_meta_truthy [simp]: "truthy_meta (Some (load_meta m)) = Some (load_meta m)"
  by (simp add: truthy_meta_def load_meta_def empty_meta_def dflt_def)

lemma load_meta_sel:
  "or_default 0 (pm_max_favourable (load_meta m)) = or_default 0 (pm_max_favourable m)"
  "or_default 0 (pm_max_adverse (load_meta m)) = or_default 0 (pm_max_adverse m)"
  "or_default '''' (pm_side (load_meta m)) = or_default '''' (pm_side m)"
  "or_default 0 (pm_initial_risk (load_meta m)) = or_default 0 (pm_initial_risk m)"
  by (simp_all add: load_meta_def dflt_def or_default_def split: option.split)

lemma foldl_load_metas:
  "distinct (map fst xs) \<Longrightarrow>
   dget (foldl (\<lambda>ms (k, m). dset ms k (load_meta m)) ms0 xs) k =
     (case dget xs k of Some m \<Rightarrow> Some (load_meta m) | None \<Rightarrow> dget ms0 k)"
proof (induction xs arbitrary: ms0)
  case (Cons x xs)
  obtain k' m where x: "x = (k', m)" by force
  have new: "dget xs k' = None" using Cons.prems by (simp add: x dget_None_iff)
  have ih: "dget (foldl (\<lambda>ms (k, m). dset ms k (load_meta m)) (dset ms0 k' (load_meta m)) xs) k =
      (case dget xs k of Some m \<Rightarrow> Some (load_meta m) | None \<Rightarrow> dget (dset ms0 k' (load_meta m)) k)"
    by (rule Cons.IH) (use Cons.prems in simp)
  show ?case
    using ih new by (cases "k = k'") (simp_all add: x split: option.split)
qed simp

text \<open>The metadata a restart reads back from the file it saved.\<close>

lemma restart_metas:
  assumes "ag_disk_writable s" "distinct (map fst (metas s))"
  shows "dget (metas (restart acct (save_state s))) k = map_option load_meta (dget (metas s) k)"
proof -
  have "metas (restart acct (save_state s)) = foldl (\<lambda>ms (k, m). dset ms k (load_meta m)) [] (metas s)"
    using assms(1)
    by (simp add: restart_def save_state_def load_state_def load_document_def payload_of_def metas_def
        start_baselines_def fresh_durable_def Let_def)
  then show ?thesis
    using foldl_load_metas [OF assms(2), of "[]" k] by (simp split: option.split)
qed

lemma track_metas:
  assumes "0 < p_initial_risk pos" "track_excursion pos q inst conv s = (pos', s')"
  shows "\<exists>m. dget (metas s') (p_instrument pos) = Some m
       \<and> or_default 0 (pm_max_favourable m) = p_max_favourable pos' \<and> or_default 0 (pm_max_adverse m) = p_max_adverse pos'
       \<and> pm_side m = pm_side (or_default empty_meta (dget (metas s) (p_instrument pos)))"
    and "distinct (map fst (metas s)) \<Longrightarrow> distinct (map fst (metas s'))"
    and "ag_disk_writable s' = ag_disk_writable s" "p_instrument pos' = p_instrument pos"
proof -
  define m where "m = or_default empty_meta (dget (metas s) (p_instrument pos))"
  define best where "best = max (max (or_default 0 (pm_max_favourable m)) (ddiv (unrealised pos q inst conv) (p_initial_risk pos))) (p_max_favourable pos)"
  define worst where "worst = min (min (or_default 0 (pm_max_adverse m)) (ddiv (unrealised pos q inst conv) (p_initial_risk pos))) (p_max_adverse pos)"
  define m' where "m' = (if best \<noteq> or_default 0 (pm_max_favourable m) \<or> worst \<noteq> or_default 0 (pm_max_adverse m)
      then m\<lparr>pm_max_favourable := Some best, pm_max_adverse := Some worst\<rparr> else m)"
  have r: "pos' = pos\<lparr>p_max_favourable := best, p_max_adverse := worst\<rparr>" "s' = set_meta (p_instrument pos) m' s"
    using assms unfolding track_excursion_def Let_def m_def [symmetric] best_def [symmetric] worst_def [symmetric]
      m'_def [symmetric] by auto
  have m': "or_default 0 (pm_max_favourable m') = best" "or_default 0 (pm_max_adverse m') = worst" "pm_side m' = pm_side m"
    unfolding m'_def by (auto simp: or_default_def)
  show "\<exists>m. dget (metas s') (p_instrument pos) = Some m
       \<and> or_default 0 (pm_max_favourable m) = p_max_favourable pos' \<and> or_default 0 (pm_max_adverse m) = p_max_adverse pos'
       \<and> pm_side m = pm_side (or_default empty_meta (dget (metas s) (p_instrument pos)))"
    using m' by (simp add: r m_def)
  show "distinct (map fst (metas s)) \<Longrightarrow> distinct (map fst (metas s'))" by (simp add: r distinct_update)
  show "ag_disk_writable s' = ag_disk_writable s" "p_instrument pos' = p_instrument pos"
    by (simp_all add: r set_meta_def)
qed

text \<open>
  The give-back ratchet survives a restart. A position's best and worst excursion, taken from a mark and saved,
  are what the next process attaches to the position the venue reports, whatever excursion the venue reports itself;
  and a mark never lowers the best nor raises the worst.
\<close>
theorem excursion_survives_restart:
  assumes "0 < p_initial_risk pos" "ag_disk_writable s" "distinct (map fst (metas s))"
    and "dget (metas s) (p_instrument pos) = Some m" "or_default '''' (pm_side m) = side_name (p_side pos)"
    and "p_instrument v = p_instrument pos" "p_side v = p_side pos"
  shows "let (pos', s1) = track_excursion pos q inst conv s;
             (out, s2) = hydrate [v] (restart acct (save_state s1))
         in map p_max_favourable out = [p_max_favourable pos'] \<and> map p_max_adverse out = [p_max_adverse pos']
            \<and> p_max_favourable pos \<le> p_max_favourable pos' \<and> p_max_adverse pos' \<le> p_max_adverse pos"
proof -
  obtain pos' s1 where t: "track_excursion pos q inst conv s = (pos', s1)" by fastforce
  note T = track_metas [OF assms(1) t]
  obtain m1 where m1: "dget (metas s1) (p_instrument pos) = Some m1" "or_default 0 (pm_max_favourable m1) = p_max_favourable pos'"
      "or_default 0 (pm_max_adverse m1) = p_max_adverse pos'" "pm_side m1 = pm_side m"
    using T(1) assms(4) by (auto simp: or_default_def)
  define s2 where "s2 = restart acct (save_state s1)"
  have d: "dget (metas s2) (p_instrument v) = Some (load_meta m1)"
    unfolding s2_def using restart_metas [of s1 acct "p_instrument pos"] T(2,3) assms(2,3,6) m1(1) by simp
  have one: "hydrate_one v s2 = (attach_meta (load_meta m1) v, s2)"
    using d m1(4) assms(5,7) by (simp add: hydrate_one_def load_meta_sel)
  have "dget (metas (prune_metas [v] s2)) (p_instrument (attach_meta (load_meta m1) v)) = Some (load_meta m1)"
    using d by (simp add: dget_prune attach_meta_def)
  moreover have "p_max_favourable pos \<le> p_max_favourable pos' \<and> p_max_adverse pos' \<le> p_max_adverse pos"
    using t assms(1) by (auto simp: track_excursion_def Let_def)
  ultimately show ?thesis
    using m1 by (simp add: t hydrate_def one s2_def [symmetric] reattach_excursion_def load_meta_sel)
qed

lemma excursion_survives_restart_witness:
  "let s = set_meta ''EUR_USD'' (empty_meta\<lparr>pm_side := Some ''BUY''\<rparr>) demo_core; p = eur_position\<lparr>p_initial_risk := 20\<rparr>;
       (pos', s1) = track_excursion p demo_quote eur_usd 1 s;
       (out, s2) = hydrate [eur_position] (restart demo_account (save_state s1))
   in map p_max_favourable out = [p_max_favourable pos']"
  using excursion_survives_restart [of "eur_position\<lparr>p_initial_risk := 20\<rparr>"
      "set_meta ''EUR_USD'' (empty_meta\<lparr>pm_side := Some ''BUY''\<rparr>) demo_core" "empty_meta\<lparr>pm_side := Some ''BUY''\<rparr>"
      eur_position demo_quote eur_usd 1 demo_account]
  by (simp add: eur_position_def demo_core_def set_meta_def metas_def fresh_durable_def or_default_def side_name_def
      upd_def Let_def case_prod_beta)

text \<open>
  Metadata that the agent creates for a position it has no record of carries no side, so the next time it is attached
  it disagrees with the position and the agent halts.
\<close>

lemma metadata_without_side_halts:
  assumes "dget (metas s) (p_instrument pos) = None" "0 < p_initial_risk pos"
    and "track_excursion pos q inst conv s = (pos', s1)" "p_max_favourable pos' \<noteq> 0"
  shows "du_halted (ag_state (snd (hydrate [pos] s1)))"
proof -
  obtain m where m: "dget (metas s1) (p_instrument pos) = Some m" "or_default 0 (pm_max_favourable m) = p_max_favourable pos'"
      "pm_side m = None"
    using track_metas(1) [OF assms(2,3)] assms(1) by (auto simp: or_default_def empty_meta_def)
  have "m \<noteq> empty_meta" using m(2) assms(4) by (auto simp: empty_meta_def or_default_def)
  then have "\<not> meta_agrees pos s1"
    using m by (simp add: meta_agrees_def truthy_meta_def or_default_def side_name_def split: side.split)
  then show ?thesis
    unfolding hydrate_snd prune_halted by (intro hydrate_each_halts [where pos = pos]) simp_all
qed

section \<open>Lemmas: closing\<close>

lemma on_broker_core [simp]:
  "on_broker f s = (r, s') \<Longrightarrow> ag_state s' = ag_state s \<and> ag_disk s' = ag_disk s
     \<and> ag_disk_writable s' = ag_disk_writable s \<and> om_trace (ag_oms s') = om_trace (ag_oms s)"
  by (auto simp: on_broker_def split: prod.splits)

text \<open>
  A close is reported as the venue has it. When closing a position returns false, the agent is halted; when it
  returns true, the venue answered that the close filled, wholly or partly, and a reading of the book after it showed
  no position in the instrument, or could not be made.
\<close>
theorem close_reports_honestly:
  shows "let (r, s1) = on_broker (\<lambda>b. ax_close ops b (p_instrument pos) None (take 32 code)) s;
             (book, _) = on_broker (ax_positions ops) s1;
             (closed, s') = close_at_venue ops pos code s
         in if closed
            then (\<exists>res. r = Inr res \<and> sb_state res \<in> {FILLED, PARTIAL})
               \<and> (case book of Inl _ \<Rightarrow> True | Inr ps \<Rightarrow> p_instrument pos \<notin> set (map p_instrument ps))
               \<and> \<not> dmem (metas s') (p_instrument pos)
            else du_halted (ag_state s')"
proof -
  obtain r s1 where c: "on_broker (\<lambda>b. ax_close ops b (p_instrument pos) None (take 32 code)) s = (r, s1)" by fastforce
  obtain book s2 where b: "on_broker (ax_positions ops) s1 = (book, s2)" by fastforce
  have none: "filter (\<lambda>p. p_instrument p = i) ps = [] \<longleftrightarrow> i \<notin> set (map p_instrument ps)" for i and ps :: "position list"
    by (auto simp: filter_empty_conv)
  show ?thesis
    by (cases r; cases book)
      (simp_all add: c b close_at_venue_def Let_def none del: on_broker_core)
qed

text \<open>A partial close whose confirming read fails is reported as complete, and the metadata is dropped.\<close>

lemma partial_close_unread:
  assumes "on_broker (\<lambda>b. ax_close ops b (p_instrument pos) None (take 32 code)) s = (Inr res, s1)" "sb_state res = PARTIAL"
    and "on_broker (ax_positions ops) s1 = (Inl e, s2)"
  shows "fst (close_at_venue ops pos code s)" and "\<not> dmem (metas (snd (close_at_venue ops pos code s))) (p_instrument pos)"
  using assms by (simp_all add: close_at_venue_def Let_def)

end
