(* ===== verification/AgentEntry.thy ===== *)
theory AgentEntry
  imports AgentBook Ids KillSwitch
begin

text \<open>
  How \<open>src/sentinel/agent/orchestrator.py\<close> opens risk: the context handed to the risk engine, the caution multiplier,
  the handling of one signal, the advisory queue, the manual ticket and the placing of an order.

  Strategies, lessons, the brain, the meta-label filter, the dollar index and the independent reference are seen
  through what they answer (\<open>services\<close>); an answer may be an exception. One call reads the clock, the market snapshot
  and the kill file once (\<open>agent_env\<close>).
\<close>

section \<open>Configuration and environment\<close>

datatype agent_mode = OBSERVE | ADVISORY | SEMI_AUTO | AUTONOMOUS

record allocation =
  al_name :: string
  al_enabled :: bool
  al_lifecycle :: string
  al_instruments :: "string list"
  al_timeframe :: string

record agent_config =
  cg_risk :: risk_config
  cg_mode :: agent_mode
  cg_live :: bool
  cg_account_currency :: string
  cg_commission :: dec
  cg_slippage :: dec
  cg_oms :: oms_config
  cg_allocations :: "allocation list"
  cg_envelope_instruments :: "string list"
  cg_envelope_max_lots :: pyfloat
  cg_envelope_max_risk_pct :: pyfloat
  cg_trade_days :: "int list"
  cg_windows :: "(int \<times> int) list"
  cg_manual_trading_live :: bool
  cg_feed_timeframe :: string
  cg_reconcile_interval_sec :: int

record signal =
  sg_strategy :: string
  sg_instrument :: string
  sg_side :: side
  sg_stop_price :: dec
  sg_target_price :: "dec option"
  sg_decision_ns :: int
  sg_timeframe :: string
  sg_horizon_bars :: int

record services =
  sv_lessons :: "string \<Rightarrow> string \<Rightarrow> string \<Rightarrow> pyfloat"
  sv_layers :: "(string \<Rightarrow> string \<Rightarrow> pyfloat res) option"
  sv_similarity :: "(signal \<Rightarrow> pyfloat res) option"
  sv_macro :: "(signal \<Rightarrow> pyfloat res) option"
  sv_gate :: "(signal \<Rightarrow> (bool \<times> pyfloat) res) option"
  sv_reference :: "(int \<Rightarrow> (string, quote) dict \<Rightarrow> (string, instrument) dict \<Rightarrow> (string, reference_check) dict res) option"
  sv_brain_context :: "(int \<Rightarrow> ((string, string) dict \<times> (string, pyfloat) dict \<times> pyfloat) res) option"
  sv_entry_gate :: "bool res option"
  sv_signals :: "string \<Rightarrow> string \<Rightarrow> signal option"
  sv_hash :: "string \<Rightarrow> string"

record market_snapshot =
  sn_quotes :: "(string, quote) dict"
  sn_ages :: "(string, pyfloat) dict"
  sn_quality :: "(string, data_quality) dict"

record agent_env =
  en_cfg :: agent_config
  en_sv :: services
  en_now :: int
  en_kill :: text_file
  en_snap :: market_snapshot
  en_connected :: bool
  en_clock_skew_ms :: "pyfloat option"
  en_offline_seconds :: pyfloat
  en_strategies :: "string list"
  en_has_bars :: "string \<Rightarrow> bool"

definition regime_name :: "'b agent \<Rightarrow> string" where
  "regime_name s = (case ag_regime s of None \<Rightarrow> '''' | Some r \<Rightarrow> rg_name r)"

section \<open>The risk context\<close>

fun context_conversions ::
  "'b agent_ops \<Rightarrow> string \<Rightarrow> (string, quote) dict \<Rightarrow> (string, dec) dict \<Rightarrow> 'b \<Rightarrow> (string, dec) dict \<times> 'b" where
  "context_conversions ops ccy [] conv b = (conv, b)"
| "context_conversions ops ccy ((name, _) # qs) conv b =
     (case dget (ax_instruments ops) name of
        None \<Rightarrow> context_conversions ops ccy qs conv b
      | Some inst \<Rightarrow>
          if quote_ccy inst = ccy then context_conversions ops ccy qs (dset conv (quote_ccy inst) 1) b
          else case ax_conversion_rate ops b (quote_ccy inst) ccy of
            (Inl _, b') \<Rightarrow> context_conversions ops ccy qs (dpop conv (quote_ccy inst)) b'
          | (Inr rate, b') \<Rightarrow> context_conversions ops ccy qs
              (if 0 < rate then dset conv (quote_ccy inst) rate else dpop conv (quote_ccy inst)) b')"

text \<open>Fresh checks replace the old ones of the quoted instruments; a fault of the reference drops them all.\<close>

definition refresh_reference :: "agent_env \<Rightarrow> (string, instrument) dict \<Rightarrow> 'b agent \<Rightarrow> 'b agent" where
  "refresh_reference env insts s =
     (case sv_reference (en_sv env) of
        None \<Rightarrow> s
      | Some assess \<Rightarrow>
          let qs = sn_quotes (en_snap env) in
          if qs = [] then s
          else case assess (en_now env) qs insts of
            Inl _ \<Rightarrow> journal_agent (ServiceFailed ''reference'') (s\<lparr>ag_reference := []\<rparr>)
          | Inr fresh \<Rightarrow> s\<lparr>ag_reference := foldl (\<lambda>d (name, _).
              (case dget fresh name of Some c \<Rightarrow> dset d name c | None \<Rightarrow> dpop d name)) (ag_reference s) qs\<rparr>)"

definition brain_context ::
  "agent_env \<Rightarrow> 'b agent \<Rightarrow> ((string, string) dict \<times> (string, pyfloat) dict \<times> pyfloat) \<times> 'b agent" where
  "brain_context env s =
     (case sv_brain_context (en_sv env) of
        None \<Rightarrow> (([], [], 0), s)
      | Some f \<Rightarrow> (case f (en_now env) of
          Inl _ \<Rightarrow> (([], [], 0), journal_agent (ServiceFailed ''brain'') s)
        | Inr x \<Rightarrow> (x, s)))"

fun context_spreads ::
  "agent_env \<Rightarrow> (string, instrument) dict \<Rightarrow> (string, quote) dict
    \<Rightarrow> (string, dec) dict \<times> (string, cost_model) dict \<times> 'b agent
    \<Rightarrow> (string, dec) dict \<times> (string, cost_model) dict \<times> 'b agent" where
  "context_spreads env insts [] acc = acc"
| "context_spreads env insts ((name, q) # qs) (normal, costs, s) =
     (case dget insts name of
        None \<Rightarrow> context_spreads env insts qs (normal, costs, s)
      | Some inst \<Rightarrow>
          let spread = quote_spread_pips q inst; s' = observe_spread (en_now env) name spread s
          in context_spreads env insts qs
               (dset normal name (normal_spread (en_now env) name spread s'),
                dset costs name (agent_cost_model (cg_commission (en_cfg env)) (cg_slippage (en_cfg env)) spread), s'))"

definition period_base :: "account_state \<Rightarrow> dec \<Rightarrow> dec" where
  "period_base acct v = (if 0 < v then v else ac_equity acct)"

definition build_context ::
  "'b agent_ops \<Rightarrow> agent_env \<Rightarrow> account_state \<Rightarrow> position list \<Rightarrow> ((string \<times> string), pyfloat) dict \<Rightarrow> string list
    \<Rightarrow> ('b, risk_context) agent_action" where
  "build_context ops env acct ps corr blocking s =
     (let cfg = en_cfg env; insts = ax_instruments ops; snap = en_snap env;
          (conv, b) = context_conversions ops (cg_account_currency cfg) (sn_quotes snap) [] (om_broker (ag_oms s));
          s1 = refresh_reference env insts (s\<lparr>ag_oms := (ag_oms s)\<lparr>om_broker := b\<rparr>\<rparr>);
          ((cool, scen, limit), s2) = brain_context env s1;
          (normal, costs, s3) = context_spreads env insts (sn_quotes snap) ([], [], s2);
          (rolling, d) = rolling_24h (en_now env) (ac_equity acct) (ag_state s3);
          s4 = s3\<lparr>ag_state := d\<rparr>;
          day = period_base acct (du_day_start_equity d); week = period_base acct (du_week_start_equity d);
          month = period_base acct (du_month_start_equity d)
      in case kill_read (en_kill env) of
           Inl e \<Rightarrow> (Inl e, s4)
         | Inr kill \<Rightarrow> (Inr
             \<lparr>now_ns = en_now env, account = acct, positions = ps, instruments = insts, quotes = sn_quotes snap,
              conversions = conv, equity_peak = du_equity_peak d, day_pnl = dsub (ac_equity acct) day,
              week_pnl = dsub (ac_equity acct) week, month_pnl = dsub (ac_equity acct) month,
              week_start_equity = week, month_start_equity = month, rolling_24h_pnl = rolling,
              day_profit_locked = du_day_profit_locked d, ladder_rung_now = du_ladder_rung d,
              venue_min_stop_pips = venue_stop_floors ops, day_start_equity = day,
              trades_today = du_trades_today d, trades_this_week = du_trades_week d,
              trades_this_year = du_trades_year d, last_entry_ns = du_last_entry_ns d,
              pending_risk = oms_pending_risk (ag_oms s4), unresolved_orders = int (length (unresolved (ag_oms s4))),
              blocking_alarms = blocking,
              regime_risk_multiplier = (case ag_regime s4 of None \<Rightarrow> 1 | Some r \<Rightarrow> rg_risk_multiplier r),
              clock_skew_ms = en_clock_skew_ms env, connectivity_ok = en_connected env,
              offline_seconds = en_offline_seconds env, data_age_sec = sn_ages snap, data_quality = sn_quality snap,
              normal_spread_pips = normal,
              news_blackout = map (\<lambda>(k, _). (k, ''news'')) (filter (\<lambda>(_, a). na_blocked a) (ag_news s4)),
              price_divergence = map (\<lambda>(k, _). (k, ''reference''))
                (filter (\<lambda>(_, c). rc_status c = RefBlocked) (ag_reference s4)),
              cooldowns = cool, stress_scenarios = scen, stress_limit_pct = limit, correlations = corr,
              cost_models = costs, halted = du_halted d, kill_switch = ks_engaged kill,
              strategy_lifecycles = map (\<lambda>a. (al_name a, al_lifecycle a)) (rev (cg_allocations cfg)),
              live_money = cg_live cfg, projected_trades_per_year = None,
              group_others_open_risk = map_option gv_others_open_risk (ag_group_view s4),
              group_others_equity = (case ag_group_view s4 of None \<Rightarrow> 0 | Some g \<Rightarrow> gv_others_equity g),
              group_others_currency_risk = (case ag_group_view s4 of None \<Rightarrow> [] | Some g \<Rightarrow> gv_others_currency_risk g),
              group_unknown_members = (case ag_group_view s4 of None \<Rightarrow> []
                | Some g \<Rightarrow> sort (remdups (gv_stale g @ gv_unreadable g)))\<rparr>, s4))"

definition read_account :: "'b agent_ops \<Rightarrow> ('b, account_state) agent_action" where
  "read_account ops = on_broker (ax_account ops)"

definition read_positions :: "'b agent_ops \<Rightarrow> ('b, position list) agent_action" where
  "read_positions ops = act_bind (on_broker (ax_positions ops)) (\<lambda>ps s. let (out, s') = hydrate ps s in (Inr out, s'))"

text \<open>The context read afresh from the broker.\<close>

definition fresh_context ::
  "'b agent_ops \<Rightarrow> agent_env \<Rightarrow> ((string \<times> string), pyfloat) dict \<Rightarrow> string list \<Rightarrow> ('b, risk_context) agent_action" where
  "fresh_context ops env corr blocking =
     act_bind (read_account ops) (\<lambda>acct. act_bind (read_positions ops) (\<lambda>ps. build_context ops env acct ps corr blocking))"

section \<open>Caution\<close>

text \<open>A service that answers with a multiplier below one shrinks the caution; one that fails changes nothing.\<close>

definition shrink_by :: "string \<Rightarrow> (pyfloat \<Rightarrow> pyfloat) \<Rightarrow> pyfloat res \<Rightarrow> pyfloat \<times> 'b agent \<Rightarrow> pyfloat \<times> 'b agent" where
  "shrink_by name cast answer = (\<lambda>(c, s).
     case answer of Inl _ \<Rightarrow> (c, journal_agent (ServiceFailed name) s)
     | Inr m \<Rightarrow> (if m < 1 then cast (min c m) else c, s))"

definition caution_for :: "services \<Rightarrow> string \<Rightarrow> string \<Rightarrow> 'b agent \<Rightarrow> pyfloat \<times> 'b agent" where
  "caution_for sv strategy instr s =
     (let c0 = sv_lessons sv strategy instr (regime_name s);
          c1 = (case dget (ag_news s) instr of
                  Some a \<Rightarrow> if na_size_multiplier a < 1 then fround (min c0 (na_size_multiplier a)) else c0
                | None \<Rightarrow> c0);
          c2 = (case dget (ag_reference s) instr of
                  Some c \<Rightarrow> if rc_status c = RefShrink then fround (min c1 (rc_size_multiplier c)) else c1
                | None \<Rightarrow> c1);
          (c3, s') = (case sv_layers sv of None \<Rightarrow> (c2, s)
                      | Some f \<Rightarrow> shrink_by ''layers'' fround (f strategy (regime_name s)) (c2, s))
      in (max 0 (min 1 c3), s'))"

definition consult :: "string \<Rightarrow> (signal \<Rightarrow> pyfloat res) option \<Rightarrow> signal \<Rightarrow> pyfloat \<times> 'b agent \<Rightarrow> pyfloat \<times> 'b agent" where
  "consult name srv sig acc = (case srv of None \<Rightarrow> acc | Some f \<Rightarrow> shrink_by name (\<lambda>x. x) (f sig) acc)"

definition signal_caution :: "services \<Rightarrow> signal \<Rightarrow> 'b agent \<Rightarrow> pyfloat \<times> 'b agent" where
  "signal_caution sv sig s =
     consult ''macro'' (sv_macro sv) sig (consult ''similarity'' (sv_similarity sv) sig
       (caution_for sv (sg_strategy sig) (sg_instrument sig) s))"

text \<open>The meta-label gate: None when it says to skip.\<close>

definition gate_caution :: "services \<Rightarrow> signal \<Rightarrow> pyfloat \<Rightarrow> 'b agent \<Rightarrow> pyfloat option \<times> 'b agent" where
  "gate_caution sv sig caution s =
     (case sv_gate sv of
        None \<Rightarrow> (Some caution, s)
      | Some decide \<Rightarrow> (case decide sig of
          Inl _ \<Rightarrow> (Some caution, journal_agent (ServiceFailed ''meta_gate'') s)
        | Inr (act, scale) \<Rightarrow>
            if \<not> act then (None, s)
            else (Some (if scale < 1 then min caution (max 0 scale) else caution), s)))"

text \<open>The size the venue is asked for: the engine's, shrunk and rounded down to the lot grid.\<close>

definition shrunk :: "instrument \<Rightarrow> pyfloat \<Rightarrow> risk_decision \<Rightarrow> order_intent \<Rightarrow> order_intent" where
  "shrunk inst caution v intent = intent
     \<lparr>oi_lots := round_lots_down inst (dmul (rd_approved_lots v) caution),
      oi_risk_amount := dmul (rd_risk_amount v) caution, oi_risk_pct := dmul (rd_risk_pct v) caution,
      oi_expected_cost_pips := rd_expected_cost_pips v\<rparr>"

definition round4 :: "pyfloat \<Rightarrow> pyfloat" where
  "round4 x = of_int (round_half_even (x * 10000)) / 10000"

section \<open>Placing the order\<close>

definition first_price :: "dec option \<Rightarrow> dec option \<Rightarrow> dec" where
  "first_price a b = (let x = or_default 0 a in if x \<noteq> 0 then x else or_default 0 b)"

definition realised_risk :: "'b agent_ops \<Rightarrow> string \<Rightarrow> order_intent \<Rightarrow> order \<Rightarrow> 'b agent \<Rightarrow> dec \<times> 'b agent" where
  "realised_risk ops ccy intent ord s =
     (let lots = dor (filled_lots ord) (oi_lots intent) in
      case (avg_fill_price ord, oi_stop_loss intent, dget (ax_instruments ops) (oi_instrument intent)) of
        (Some px, Some stop, Some inst) \<Rightarrow>
          if lots \<le> 0 then (oi_risk_amount intent, s)
          else
          (case conversion_map ops ccy s of (rates, s1) \<Rightarrow>
            (case dget rates (quote_ccy inst) of
               None \<Rightarrow> (oi_risk_amount intent, s1)
             | Some conv \<Rightarrow>
                 if conv \<le> 0 \<or> pip inst = 0 then (oi_risk_amount intent, s1)
                 else (dmul (ddiv (dabs (dsub px stop)) (pip inst)) (dmul (pip_value_quote inst lots) conv), s1)))
      | _ \<Rightarrow> (oi_risk_amount intent, s))"

definition unknown_meta :: "int \<Rightarrow> string \<Rightarrow> order_intent \<Rightarrow> pos_meta" where
  "unknown_meta now rname intent = empty_meta
     \<lparr>pm_initial_risk := Some (oi_risk_amount intent), pm_strategy := Some (oi_strategy intent),
      pm_side := Some (side_name (oi_side intent)), pm_client_order_id := Some (oi_client_order_id intent),
      pm_opened_ns := Some now, pm_regime := Some rname, pm_provisional := Some True,
      pm_partial_taken := Some False, pm_breakeven_moved := Some False\<rparr>"

definition filled_meta :: "int \<Rightarrow> string \<Rightarrow> order_intent \<Rightarrow> order \<Rightarrow> dec \<Rightarrow> int \<Rightarrow> pos_meta" where
  "filled_meta now rname intent ord risk hold = empty_meta
     \<lparr>pm_initial_risk := Some risk, pm_intended_risk := Some (oi_risk_amount intent),
      pm_strategy := Some (oi_strategy intent), pm_side := Some (side_name (oi_side intent)),
      pm_lots := Some (dor (filled_lots ord) (oi_lots intent)),
      pm_entry_price := Some (first_price (avg_fill_price ord) (oi_limit_price intent)),
      pm_stop_loss := oi_stop_loss intent, pm_client_order_id := Some (oi_client_order_id intent),
      pm_opened_ns := Some now, pm_regime := Some rname, pm_max_hold_sec := Some hold,
      pm_partial_taken := Some False, pm_breakeven_moved := Some False\<rparr>"

definition record_unknown :: "agent_env \<Rightarrow> order_intent \<Rightarrow> 'b agent \<Rightarrow> 'b agent" where
  "record_unknown env intent s = save_state (upd (count_entry (en_now env))
     (set_meta (oi_instrument intent) (unknown_meta (en_now env) (regime_name s) intent) s))"

definition record_live ::
  "'b agent_ops \<Rightarrow> agent_env \<Rightarrow> order_intent \<Rightarrow> (int \<times> string) option \<Rightarrow> order \<Rightarrow> 'b agent \<Rightarrow> 'b agent" where
  "record_live ops env intent horizon ord s =
     (let s1 = upd (count_entry (en_now env)) s; name = oi_instrument intent in
      if 0 < filled_lots ord \<or> o_state ord = ACKED
      then
        let (risk, s2) = realised_risk ops (cg_account_currency (en_cfg env)) intent ord s1;
            m = filled_meta (en_now env) (regime_name s2) intent ord risk (horizon_sec (cg_feed_timeframe (en_cfg env)) horizon)
        in save_state (journal_agent (PositionOpened name)
             (upd (\<lambda>d. d\<lparr>du_entry_regime := dset (du_entry_regime d) name (regime_name s2)\<rparr>) (set_meta name m s2)))
      else save_state s1)"

definition execute ::
  "'b agent_ops \<Rightarrow> agent_env \<Rightarrow> order_intent \<Rightarrow> (int \<times> string) option \<Rightarrow> quote \<Rightarrow> decision \<Rightarrow> ('b, decision) agent_action" where
  "execute ops env intent horizon q d s =
     (case submit (ax_oms ops) (cg_oms (en_cfg env)) intent (Some (price_for q (oi_side intent))) (ag_oms s) of
        (Inl UnknownOutcomeError, o') \<Rightarrow>
          (Inr (d\<lparr>dc_action := Vetoed, dc_vetoes := dc_vetoes d @ [''quarantine'']\<rparr>), s\<lparr>ag_oms := o'\<rparr>)
      | (Inl e, o') \<Rightarrow> (Inl e, s\<lparr>ag_oms := o'\<rparr>)
      | (Inr ord, o') \<Rightarrow>
          let s1 = s\<lparr>ag_oms := o'\<rparr>; d1 = d\<lparr>dc_order_state := Some (o_state ord)\<rparr> in
          if o_state ord = UNKNOWN then (Inr (d1\<lparr>dc_action := Queued\<rparr>), record_unknown env intent s1)
          else if o_state ord \<in> {FILLED, PARTIAL, ACKED}
          then (Inr (d1\<lparr>dc_action := (if o_state ord = ACKED then Queued else Executed)\<rparr>),
                record_live ops env intent horizon ord s1)
          else if o_state ord = REJECTED
          then (Inr (d1\<lparr>dc_action := Vetoed, dc_vetoes := dc_vetoes d1 @ [''broker_reject'']\<rparr>), s1)
          else (Inr (d1\<lparr>dc_action := Queued\<rparr>), s1))"

section \<open>One signal\<close>

definition within_envelope :: "agent_config \<Rightarrow> order_intent \<Rightarrow> bool" where
  "within_envelope cfg intent \<longleftrightarrow> oi_instrument intent \<in> set (cg_envelope_instruments cfg)
     \<and> \<not> cg_envelope_max_lots cfg < fround (oi_lots intent)
     \<and> \<not> cg_envelope_max_risk_pct cfg < fround (oi_risk_pct intent)"

definition blank_decision :: "int \<Rightarrow> string \<Rightarrow> string \<Rightarrow> side option \<Rightarrow> decision" where
  "blank_decision ts strategy instr sd =
     \<lparr>dc_ts_ns = ts, dc_strategy = strategy, dc_instrument = instr, dc_action = Skipped, dc_side = sd, dc_lots = None,
      dc_stop = None, dc_target = None, dc_risk_amount = None, dc_risk_pct = None, dc_vetoes = [], dc_caution = None,
      dc_horizon = None, dc_order_state = None, dc_client_order_id = None\<rparr>"

definition rules :: "veto list \<Rightarrow> string list" where
  "rules vs = map v_rule vs"

definition priced :: "order_intent \<Rightarrow> decision \<Rightarrow> decision" where
  "priced intent d = d\<lparr>dc_lots := Some (oi_lots intent), dc_risk_amount := Some (oi_risk_amount intent),
     dc_risk_pct := Some (oi_risk_pct intent)\<rparr>"

text \<open>\<open>if x\<close> on an optional price: zero is no price.\<close>

definition truthy_price :: "dec option \<Rightarrow> dec option" where
  "truthy_price p = (case p of Some x \<Rightarrow> if x = 0 then None else Some x | None \<Rightarrow> None)"

definition market_intent ::
  "string \<Rightarrow> string \<Rightarrow> string \<Rightarrow> side \<Rightarrow> dec \<Rightarrow> dec option \<Rightarrow> dec option \<Rightarrow> int \<Rightarrow> order_intent" where
  "market_intent cid strategy instr sd lots stop target ts =
     \<lparr>oi_client_order_id = cid, oi_strategy = strategy, oi_instrument = instr, oi_side = sd, oi_lots = lots,
      oi_order_type = MARKET, oi_limit_price = None, oi_stop_loss = stop, oi_take_profit = target, oi_decision_ns = ts,
      oi_risk_amount = 0, oi_risk_pct = 0, oi_expected_cost_pips = 0\<rparr>"

definition order_key :: "string \<Rightarrow> string \<Rightarrow> side \<Rightarrow> int \<Rightarrow> string \<Rightarrow> intent_key" where
  "order_key strategy instr sd ts acct =
     \<lparr>ik_strategy = strategy, ik_instrument = instr, ik_side = side_name sd, ik_decision_ns = ts, ik_seq = 0,
      ik_account = acct, ik_attempt = 0\<rparr>"

definition enqueue_advice :: "decision \<Rightarrow> 'b agent \<Rightarrow> 'b agent" where
  "enqueue_advice d s = s\<lparr>ag_advisory := last_n 500
     (filter (\<lambda>x. dc_client_order_id x \<noteq> dc_client_order_id d) (ag_advisory s) @ [d])\<rparr>"

text \<open>An approved and sized intent: what the mode lets happen to it.\<close>

definition dispatch ::
  "'b agent_ops \<Rightarrow> agent_env \<Rightarrow> order_intent \<Rightarrow> (int \<times> string) option \<Rightarrow> quote \<Rightarrow> decision \<Rightarrow> ('b, decision) agent_action" where
  "dispatch ops env intent horizon q d s =
     (let cfg = en_cfg env in
      if cg_mode cfg = OBSERVE then (Inr (d\<lparr>dc_action := Proposed\<rparr>), journal_agent (SignalJournaled (dc_instrument d)) s)
      else if cg_mode cfg = ADVISORY \<or> cg_mode cfg = SEMI_AUTO \<and> \<not> within_envelope cfg intent
      then (Inr (d\<lparr>dc_action := Queued\<rparr>),
            journal_agent (ProposalQueued (dc_instrument d)) (enqueue_advice (d\<lparr>dc_action := Queued\<rparr>) s))
      else execute ops env intent horizon q d s)"

text \<open>From the intent on: the risk engine, the size, the mode.\<close>

definition judge_signal ::
  "'b agent_ops \<Rightarrow> agent_env \<Rightarrow> signal \<Rightarrow> risk_context \<Rightarrow> instrument \<Rightarrow> quote \<Rightarrow> pyfloat \<Rightarrow> order_intent \<Rightarrow> decision
    \<Rightarrow> ('b, decision) agent_action" where
  "judge_signal ops env sig ctx inst q caution intent d s =
     (case evaluate_entry (cg_risk (en_cfg env)) intent ctx of
        Inl e \<Rightarrow> (Inl e, s)
      | Inr v \<Rightarrow>
          let horizon = (if sg_horizon_bars sig = 0 then None else Some (sg_horizon_bars sig, sg_timeframe sig));
              d1 = d\<lparr>dc_vetoes := rules (rd_vetoes v), dc_caution := Some (round4 caution), dc_horizon := horizon,
                     dc_stop := oi_stop_loss intent, dc_target := truthy_price (oi_take_profit intent)\<rparr>;
              s1 = (if rd_halting v then agent_halt ''risk engine halt'' s else s);
              sized = shrunk inst caution v intent
          in if \<not> rd_approved v
             then (Inr (d1\<lparr>dc_action := Vetoed\<rparr>), journal_agent (VetoJournaled (dc_instrument d)) s1)
             else if oi_lots sized < min_lot inst
             then (Inr (d1\<lparr>dc_action := Skipped, dc_vetoes := dc_vetoes d1 @ [''caution_multiplier'']\<rparr>), s1)
             else dispatch ops env sized horizon q (priced sized d1) s1)"

definition act_on_signal ::
  "'b agent_ops \<Rightarrow> agent_env \<Rightarrow> signal \<Rightarrow> risk_context \<Rightarrow> ('b, decision) agent_action" where
  "act_on_signal ops env sig ctx s =
     (let d = blank_decision (sg_decision_ns sig) (sg_strategy sig) (sg_instrument sig) (Some (sg_side sig)) in
      case (dget (instruments ctx) (sg_instrument sig), dget (quotes ctx) (sg_instrument sig)) of
        (Some inst, Some q) \<Rightarrow>
          (case signal_caution (en_sv env) sig s of (c1, s1) \<Rightarrow>
          (case gate_caution (en_sv env) sig c1 s1 of
             (None, s2) \<Rightarrow> (Inr (d\<lparr>dc_vetoes := [''meta_label'']\<rparr>), journal_agent (SignalJournaled (sg_instrument sig)) s2)
           | (Some caution, s2) \<Rightarrow>
               (case client_order_id (sv_hash (en_sv env)) (order_key (sg_strategy sig) (sg_instrument sig) (sg_side sig)
                       (sg_decision_ns sig) (ac_account_id (account ctx))) of
                  Inl e \<Rightarrow> (Inl e, s2)
                | Inr coid \<Rightarrow>
                    let d1 = d\<lparr>dc_client_order_id := Some coid\<rparr> in
                    (case mk_intent (market_intent coid (sg_strategy sig) (sg_instrument sig) (sg_side sig) (min_lot inst)
                            (Some (round_price inst (sg_stop_price sig)))
                            (map_option (round_price inst) (truthy_price (sg_target_price sig))) (sg_decision_ns sig)) of
                       Inl _ \<Rightarrow> (Inr (d1\<lparr>dc_vetoes := [''malformed_intent'']\<rparr>), s2)
                     | Inr intent \<Rightarrow> judge_signal ops env sig ctx inst q caution intent d1 s2))))
      | _ \<Rightarrow> (Inr (d\<lparr>dc_vetoes := [''no_market'']\<rparr>), s))"

section \<open>All candidate entries of a cycle\<close>

definition can_trade :: "string \<Rightarrow> bool \<Rightarrow> bool" where
  "can_trade lifecycle live =
     (lifecycle \<in> (if live then {''accepted''} else {''hypothesis'', ''experimental'', ''accepted''}))"

text \<open>The context is read again after every order that reached the venue in a live state.\<close>

definition reached_venue :: "decision \<Rightarrow> bool" where
  "reached_venue d \<longleftrightarrow> dc_order_state d \<in> {Some FILLED, Some PARTIAL, Some ACKED, Some UNKNOWN}"

definition consider_signal ::
  "'b agent_ops \<Rightarrow> agent_env \<Rightarrow> ((string \<times> string), pyfloat) dict \<Rightarrow> string list \<Rightarrow> signal
    \<Rightarrow> decision list \<times> risk_context \<Rightarrow> ('b, decision list \<times> risk_context) agent_action" where
  "consider_signal ops env corr blocking sig = (\<lambda>(ds, ctx). act_bind (act_on_signal ops env sig ctx) (\<lambda>d.
     if reached_venue d then act_bind (fresh_context ops env corr blocking) (\<lambda>ctx' s. (Inr (ds @ [d], ctx'), s))
     else (\<lambda>s. (Inr (ds @ [d], ctx), s))))"

fun consider_symbols ::
  "'b agent_ops \<Rightarrow> agent_env \<Rightarrow> ((string \<times> string), pyfloat) dict \<Rightarrow> string list \<Rightarrow> string \<Rightarrow> string list
    \<Rightarrow> decision list \<times> risk_context \<Rightarrow> ('b, decision list \<times> risk_context) agent_action" where
  "consider_symbols ops env corr blocking strategy [] acc s = (Inr acc, s)"
| "consider_symbols ops env corr blocking strategy (name # names) acc s =
     act_bind (case sv_signals (en_sv env) strategy name of
                 None \<Rightarrow> (\<lambda>s. (Inr acc, s)) | Some sig \<Rightarrow> consider_signal ops env corr blocking sig acc)
       (consider_symbols ops env corr blocking strategy names) s"

fun consider_allocations ::
  "'b agent_ops \<Rightarrow> agent_env \<Rightarrow> ((string \<times> string), pyfloat) dict \<Rightarrow> string list \<Rightarrow> allocation list
    \<Rightarrow> decision list \<times> risk_context \<Rightarrow> ('b, decision list \<times> risk_context) agent_action" where
  "consider_allocations ops env corr blocking [] acc s = (Inr acc, s)"
| "consider_allocations ops env corr blocking (al # als) (ds, ctx) s =
     (let name = al_name al; skip = (ds @ [blank_decision (en_now env) name ''*'' None], ctx) in
      if \<not> al_enabled al \<or> name \<notin> set (en_strategies env)
      then consider_allocations ops env corr blocking als (ds, ctx) s
      else if dmem (du_guard_suspended (ag_state s)) name \<or> \<not> can_trade (al_lifecycle al) (cg_live (en_cfg env))
              \<or> al_timeframe al \<noteq> '''' \<and> \<not> en_has_bars env (al_timeframe al)
      then consider_allocations ops env corr blocking als skip s
      else act_bind (consider_symbols ops env corr blocking name (al_instruments al) (ds, ctx))
             (consider_allocations ops env corr blocking als) s)"

definition consider_entries ::
  "'b agent_ops \<Rightarrow> agent_env \<Rightarrow> ((string \<times> string), pyfloat) dict \<Rightarrow> string list \<Rightarrow> risk_context
    \<Rightarrow> ('b, decision list) agent_action" where
  "consider_entries ops env corr blocking ctx =
     act_bind (consider_allocations ops env corr blocking (cg_allocations (en_cfg env)) ([], ctx))
       (\<lambda>acc s. (Inr (fst acc), s))"

section \<open>Licence\<close>

definition entry_permission :: "agent_env \<Rightarrow> bool" where
  "entry_permission env =
     (if \<not> cg_live (en_cfg env) then True
      else case sv_entry_gate (en_sv env) of
        None \<Rightarrow> True | Some (Inl _) \<Rightarrow> False | Some (Inr allowed) \<Rightarrow> allowed)"

section \<open>Advice accepted by a person\<close>

definition find_advice :: "string \<Rightarrow> 'b agent \<Rightarrow> decision option" where
  "find_advice coid s = find (\<lambda>d. dc_client_order_id d = Some coid) (ag_advisory s)"

text \<open>The proposal is marked in place, or taken out of the queue.\<close>

definition mark_advice :: "decision \<Rightarrow> string \<Rightarrow> 'b agent \<Rightarrow> 'b agent" where
  "mark_advice d rule s = s\<lparr>ag_advisory := map (\<lambda>x. if x = d
     then x\<lparr>dc_action := Vetoed, dc_vetoes := dc_vetoes x @ [rule]\<rparr> else x) (ag_advisory s)\<rparr>"

definition drop_advice :: "decision \<Rightarrow> 'b agent \<Rightarrow> 'b agent" where
  "drop_advice d s = s\<lparr>ag_advisory := remove1 d (ag_advisory s)\<rparr>"

definition advice_intent :: "instrument \<Rightarrow> string \<Rightarrow> decision \<Rightarrow> side \<Rightarrow> order_intent" where
  "advice_intent inst coid d sd = market_intent coid (dc_strategy d) (dc_instrument d) sd
     (dor (or_default 0 (dc_lots d)) (min_lot inst)) (dc_stop d) (dc_target d) (dc_ts_ns d)"

definition revalidate ::
  "'b agent_ops \<Rightarrow> agent_env \<Rightarrow> string \<Rightarrow> decision \<Rightarrow> instrument \<Rightarrow> quote \<Rightarrow> order_intent \<Rightarrow> risk_context
    \<Rightarrow> ('b, decision) agent_action" where
  "revalidate ops env coid d inst q intent ctx s =
     (case evaluate_entry (cg_risk (en_cfg env)) intent ctx of
        Inl e \<Rightarrow> (Inl e, s)
      | Inr v \<Rightarrow>
          let s1 = journal_agent (ProposalAccepted coid) s in
          if \<not> rd_approved v then (Inr (d\<lparr>dc_action := Vetoed, dc_vetoes := rules (rd_vetoes v)\<rparr>), s1)
          else
          (case caution_for (en_sv env) (dc_strategy d) (dc_instrument d) s1 of (fresh, s2) \<Rightarrow>
            let caution = max 0 (min 1 (min fresh (or_default 1 (dc_caution d))));
                sized = shrunk inst caution v intent
            in if oi_lots sized < min_lot inst
               then (Inr (d\<lparr>dc_action := Vetoed, dc_vetoes := dc_vetoes d @ [''caution_multiplier'']\<rparr>), s2)
               else execute ops env sized (dc_horizon d) q ((priced sized d)\<lparr>dc_caution := Some (round4 caution)\<rparr>) s2))"

definition accept_advice :: "'b agent_ops \<Rightarrow> agent_env \<Rightarrow> string \<Rightarrow> ('b, decision option) agent_action" where
  "accept_advice ops env coid s =
     (case find_advice coid s of
        None \<Rightarrow> (Inr None, s)
      | Some d \<Rightarrow>
          let veto = (\<lambda>rule. d\<lparr>dc_action := Vetoed, dc_vetoes := dc_vetoes d @ [rule]\<rparr>); cfg = en_cfg env in
          if \<not> entry_permission env
          then (Inr (Some (veto ''licence'')), mark_advice d ''licence'' (journal_agent (ProposalRejected coid) s))
          else if dmem (du_guard_suspended (ag_state s)) (dc_strategy d)
          then (Inr (Some (veto ''performance_guard'')), journal_agent (ProposalRejected coid) (drop_advice d s))
          else if \<not> in_session (cg_trade_days cfg) (cg_windows cfg) (en_now env)
          then (Inr (Some (veto ''out_of_session'')), mark_advice d ''out_of_session'' (journal_agent (ProposalRejected coid) s))
          else
          let s1 = drop_advice d s in
          (case (dget (sn_quotes (en_snap env)) (dc_instrument d), dget (ax_instruments ops) (dc_instrument d)) of
             (Some q, Some inst) \<Rightarrow>
               act_bind (fresh_context ops env [] []) (\<lambda>ctx s2.
                 case dc_side d of None \<Rightarrow> (Inl ValueError, s2)
                 | Some sd \<Rightarrow> (case mk_intent (advice_intent inst coid d sd) of
                     Inl e \<Rightarrow> (Inl e, s2)
                   | Inr intent \<Rightarrow> act_bind (revalidate ops env coid d inst q intent ctx) (\<lambda>r s3. (Inr (Some r), s3)) s2)) s1
           | _ \<Rightarrow> (Inr (Some (veto ''stale_proposal'')), s1)))"

definition reject_advice :: "string \<Rightarrow> 'b agent \<Rightarrow> bool \<times> 'b agent" where
  "reject_advice coid s =
     (case find_advice coid s of
        None \<Rightarrow> (False, s)
      | Some d \<Rightarrow> (True, journal_agent (ProposalRejected coid) (drop_advice d s)))"

section \<open>The manual ticket\<close>

definition upper_char :: "char \<Rightarrow> char" where
  "upper_char c = (let n = of_char c :: nat in if 97 \<le> n \<and> n \<le> 122 then char_of (n - 32) else c)"

record ticket =
  tk_instrument :: string
  tk_side :: string
  tk_stop_loss :: dec
  tk_take_profit :: "dec option"
  tk_risk_pct :: "dec option"
  tk_preview :: bool

text \<open>The ticket's own risk, when it is below the budget, caps the caution.\<close>

definition ticket_caution :: "dec \<Rightarrow> dec option \<Rightarrow> pyfloat \<Rightarrow> pyfloat" where
  "ticket_caution budget wanted caution =
     (case wanted of None \<Rightarrow> caution
      | Some w \<Rightarrow> if w < budget then min caution (fround (ddiv w budget)) else caution)"

definition fill_ticket ::
  "'b agent_ops \<Rightarrow> agent_env \<Rightarrow> ticket \<Rightarrow> instrument \<Rightarrow> quote \<Rightarrow> order_intent \<Rightarrow> risk_context \<Rightarrow> decision
    \<Rightarrow> ('b, decision) agent_action" where
  "fill_ticket ops env tk inst q intent ctx d s =
     (case evaluate_entry (cg_risk (en_cfg env)) intent ctx of
        Inl e \<Rightarrow> (Inl e, s)
      | Inr v \<Rightarrow>
          let d1 = d\<lparr>dc_vetoes := rules (rd_vetoes v), dc_stop := oi_stop_loss intent,
                     dc_target := truthy_price (oi_take_profit intent)\<rparr> in
          if \<not> rd_approved v
          then (Inr (d1\<lparr>dc_action := Vetoed\<rparr>), if tk_preview tk then s else journal_agent (VetoJournaled (tk_instrument tk)) s)
          else
          (case caution_for (en_sv env) ''manual'' (tk_instrument tk) s of (c0, s1) \<Rightarrow>
            if (case tk_risk_pct tk of Some w \<Rightarrow> w \<le> 0 | None \<Rightarrow> False)
            then (Inr (d1\<lparr>dc_action := Vetoed, dc_vetoes := [''malformed_ticket'']\<rparr>), s1)
            else
            let caution = ticket_caution (risk_per_trade_pct (cg_risk (en_cfg env))) (tk_risk_pct tk) c0;
                sized = shrunk inst caution v intent;
                d2 = d1\<lparr>dc_caution := Some (round4 caution)\<rparr>
            in if oi_lots sized < min_lot inst
               then (Inr (d2\<lparr>dc_action := Vetoed, dc_vetoes := dc_vetoes d2 @ [''caution_multiplier'']\<rparr>), s1)
               else if tk_preview tk then (Inr ((priced sized d2)\<lparr>dc_action := Preview\<rparr>), s1)
               else act_bind (execute ops env sized None q (priced sized d2))
                      (\<lambda>r s'. (Inr r, s'\<lparr>ag_decisions := ag_decisions s' @ [r]\<rparr>))
                      (journal_agent (ManualTicket (tk_instrument tk)) s1)))"

definition manual_order :: "'b agent_ops \<Rightarrow> agent_env \<Rightarrow> ticket \<Rightarrow> ('b, decision) agent_action" where
  "manual_order ops env tk s =
     (let cfg = en_cfg env; name = tk_instrument tk; sd = side_of (map upper_char (tk_side tk));
          d = blank_decision (en_now env) ''manual'' name sd;
          veto = (\<lambda>rule. (Inr (d\<lparr>dc_action := Vetoed, dc_vetoes := [rule]\<rparr>), s))
      in case sd of
           None \<Rightarrow> (Inr (d\<lparr>dc_vetoes := [''malformed_ticket'']\<rparr>), s)
         | Some side \<Rightarrow>
             if cg_live cfg \<and> \<not> cg_manual_trading_live cfg then veto ''manual_live_disabled''
             else if \<not> entry_permission env then veto ''licence''
             else if \<not> in_session (cg_trade_days cfg) (cg_windows cfg) (en_now env) then veto ''out_of_session''
             else
             (case (dget (sn_quotes (en_snap env)) name, dget (ax_instruments ops) name) of
                (Some q, Some inst) \<Rightarrow>
                  act_bind (fresh_context ops env [] []) (\<lambda>ctx0 s1.
                    let ctx = ctx0\<lparr>strategy_lifecycles := dset (strategy_lifecycles ctx0) ''manual'' ''accepted''\<rparr> in
                    (case client_order_id (sv_hash (en_sv env))
                            (order_key ''manual'' name side (en_now env) (ac_account_id (account ctx))) of
                       Inl e \<Rightarrow> (Inl e, s1)
                     | Inr coid \<Rightarrow>
                         let d1 = d\<lparr>dc_client_order_id := Some coid\<rparr> in
                         (case mk_intent (market_intent coid ''manual'' name side (min_lot inst)
                                 (Some (round_price inst (tk_stop_loss tk)))
                                 (map_option (round_price inst) (truthy_price (tk_take_profit tk))) (en_now env)) of
                            Inl _ \<Rightarrow> (Inr (d1\<lparr>dc_action := Vetoed, dc_vetoes := [''malformed_ticket'']\<rparr>), s1)
                          | Inr intent \<Rightarrow> fill_ticket ops env tk inst q intent ctx d1 s1))) s
              | _ \<Rightarrow> veto ''no_market''))"

section \<open>What never reaches the order manager\<close>

text \<open>
  The parts of a decision that read, measure and record. \<open>calm\<close>: the order manager is as it was but for the venue's
  own state, no trade is counted, a halt stays, the advisory queue and the suspensions are untouched.
\<close>

definition calm :: "'b agent \<Rightarrow> 'b agent \<Rightarrow> bool" where
  "calm s s' \<longleftrightarrow> (\<exists>b. ag_oms s' = (ag_oms s)\<lparr>om_broker := b\<rparr>)
     \<and> du_trades_today (ag_state s') = du_trades_today (ag_state s)
     \<and> du_last_entry_ns (ag_state s') = du_last_entry_ns (ag_state s)
     \<and> (du_halted (ag_state s) \<longrightarrow> du_halted (ag_state s'))
     \<and> ag_advisory s' = ag_advisory s \<and> du_guard_suspended (ag_state s') = du_guard_suspended (ag_state s)"

lemma oms_own_broker [simp]: "\<exists>b. x = x\<lparr>om_broker := b\<rparr>"
  by (rule exI [of _ "om_broker x"]) simp

lemma calm_refl [simp]: "calm s s"
  by (simp add: calm_def)

lemma calm_trans: "calm s s' \<Longrightarrow> calm s' s'' \<Longrightarrow> calm s s''"
  by (auto simp: calm_def)

lemma calm_trace: "calm s s' \<Longrightarrow> om_trace (ag_oms s') = om_trace (ag_oms s)"
  by (auto simp: calm_def)

lemma calm_halted: "calm s s' \<Longrightarrow> du_halted (ag_state s) \<Longrightarrow> du_halted (ag_state s')"
  by (simp add: calm_def)

lemma calm_same:
  assumes "ag_oms s' = ag_oms s" "ag_state s' = ag_state s" "ag_advisory s' = ag_advisory s"
  shows "calm s s'"
  using calm_refl [of s] assms by (simp add: calm_def)

named_theorems calm_rules \<open>what a reading step leaves alone\<close>

lemma calm_upd:
  assumes "du_trades_today (f (ag_state s)) = du_trades_today (ag_state s)"
    "du_last_entry_ns (f (ag_state s)) = du_last_entry_ns (ag_state s)"
    "du_halted (ag_state s) \<Longrightarrow> du_halted (f (ag_state s))"
    "du_guard_suspended (f (ag_state s)) = du_guard_suspended (ag_state s)"
  shows "calm s (upd f s)"
  using assms calm_refl [of s] by (simp add: calm_def upd_def)

lemma calm_journal [calm_rules]: "calm s (journal_agent e s)"
  by (rule calm_same) (simp_all add: journal_agent_def)

lemma calm_save [calm_rules]: "calm s (save_state s)"
  using calm_refl [of s] by (simp add: calm_def save_state_def core_defs)

lemma calm_halt [calm_rules]: "calm s (agent_halt r s)"
proof (cases "du_halted (ag_state s)")
  case False
  have "calm s (journal_agent (HaltJournaled r) (upd (\<lambda>d. d\<lparr>du_halted := True, du_halt_reason := r\<rparr>) s))"
    by (rule calm_trans [OF calm_upd calm_journal]) simp_all
  then show ?thesis using False by (simp add: agent_halt_def calm_trans [OF _ calm_save])
qed (simp add: agent_halt_def)

lemma calm_set_meta [calm_rules]: "calm s (set_meta i m s)"
  unfolding set_meta_def by (rule calm_upd) simp_all

lemma calm_pop_meta [calm_rules]: "calm s (pop_meta i s)"
  unfolding pop_meta_def by (rule calm_upd) simp_all

lemma calm_prune [calm_rules]: "calm s (prune_metas ps s)"
  unfolding prune_metas_def by (rule calm_upd) simp_all

lemma calm_set_broker [calm_rules]: "calm s (s\<lparr>ag_oms := (ag_oms s)\<lparr>om_broker := b\<rparr>\<rparr>)"
  unfolding calm_def by (simp, rule exI [of _ b], rule refl)

lemma calm_broker [calm_rules]: "calm s (snd (on_broker f s))"
  unfolding on_broker_def by (simp add: calm_set_broker case_prod_beta)

lemma calm_hydrate_one [calm_rules]: "calm s (snd (hydrate_one pos s))"
  unfolding hydrate_one_def
  by (auto split: option.split intro: calm_trans [OF calm_trans [OF calm_journal calm_pop_meta] calm_halt])

lemma calm_hydrate_each [calm_rules]: "calm s (snd (hydrate_each ps s))"
proof (induction ps arbitrary: s)
  case (Cons p ps)
  show ?case
    using calm_trans [OF calm_hydrate_one [of s p] Cons.IH [of "snd (hydrate_one p s)"]]
    by (simp add: case_prod_beta Let_def)
qed simp

lemma calm_hydrate [calm_rules]: "calm s (snd (hydrate ps s))"
  unfolding hydrate_snd by (rule calm_trans [OF calm_hydrate_each calm_prune])

text \<open>Actions: calm whether they return or raise.\<close>

definition calm_action :: "('b, 'a) agent_action \<Rightarrow> bool" where
  "calm_action m \<longleftrightarrow> (\<forall>s. calm s (snd (m s)))"

lemma calm_actionD: "calm_action m \<Longrightarrow> calm s (snd (m s))"
  by (simp add: calm_action_def)

lemma calm_bind: "calm_action m \<Longrightarrow> (\<And>x. calm_action (f x)) \<Longrightarrow> calm_action (act_bind m f)"
  unfolding calm_action_def act_bind_def
  by (auto split: prod.splits sum.splits) (metis calm_trans prod.sel(2))+

lemma calm_return [calm_rules]: "calm_action (\<lambda>s. (r, s))"
  by (simp add: calm_action_def)

lemma calm_read_account [calm_rules]: "calm_action (read_account ops)"
  by (simp add: calm_action_def read_account_def calm_broker)

lemma calm_read_positions [calm_rules]: "calm_action (read_positions ops)"
  unfolding read_positions_def
  by (rule calm_bind) (simp_all add: calm_action_def calm_broker case_prod_beta Let_def calm_hydrate)

lemma calm_refresh_reference [calm_rules]: "calm s (refresh_reference env insts s)"
proof -
  have r: "calm s (s\<lparr>ag_reference := x\<rparr>)" for x by (rule calm_same) simp_all
  show ?thesis
    unfolding refresh_reference_def Let_def
    using r calm_trans [OF r calm_journal] by (auto split: option.split sum.split)
qed

lemma calm_brain_context [calm_rules]: "calm s (snd (brain_context env s))"
  by (simp add: brain_context_def calm_journal split: option.split sum.split)

lemma calm_observe_spread [calm_rules]: "calm s (observe_spread now name spread s)"
  unfolding observe_spread_def Let_def by (auto intro: calm_same)

lemma calm_context_spreads [calm_rules]: "calm (snd (snd acc)) (snd (snd (context_spreads env insts qs acc)))"
proof (induction qs arbitrary: acc)
  case (Cons x qs)
  obtain name q normal costs s where x: "x = (name, q)" "acc = (normal, costs, s)" by (metis prod_cases3 surj_pair)
  show ?case
    using Cons.IH calm_trans [OF calm_observe_spread] by (fastforce simp: x Let_def split: option.split)
qed simp

lemma calm_rolling: "calm s (s\<lparr>ag_state := snd (rolling_24h now equity (ag_state s))\<rparr>)"
  using calm_refl [of s] by (simp add: calm_def rolling_24h_def Let_def)

text \<open>The context says what the state says.\<close>

lemma build_context_calm:
  assumes "build_context ops env acct ps corr blocking s = (r, s')"
  shows "calm s s'"
    and "r = Inr ctx \<Longrightarrow> trades_today ctx = du_trades_today (ag_state s') \<and> last_entry_ns ctx = du_last_entry_ns (ag_state s')
      \<and> now_ns ctx = en_now env \<and> halted ctx = du_halted (ag_state s') \<and> account ctx = acct
      \<and> (\<exists>k. kill_read (en_kill env) = Inr k \<and> kill_switch ctx = ks_engaged k)"
proof -
  define insts where "insts = ax_instruments ops"
  obtain conv b where c: "context_conversions ops (cg_account_currency (en_cfg env)) (sn_quotes (en_snap env)) []
      (om_broker (ag_oms s)) = (conv, b)" by fastforce
  define s1 where "s1 = refresh_reference env insts (s\<lparr>ag_oms := (ag_oms s)\<lparr>om_broker := b\<rparr>\<rparr>)"
  obtain cool scen limit s2 where bc: "brain_context env s1 = ((cool, scen, limit), s2)" by (metis prod_cases3 surj_pair)
  obtain normal costs s3 where sp: "context_spreads env insts (sn_quotes (en_snap env)) ([], [], s2) = (normal, costs, s3)"
    by (metis prod_cases3)
  obtain rolling d where ro: "rolling_24h (en_now env) (ac_equity acct) (ag_state s3) = (rolling, d)" by fastforce
  define s4 where "s4 = s3\<lparr>ag_state := d\<rparr>"
  have "calm s s1" unfolding s1_def by (rule calm_trans [OF calm_set_broker calm_refresh_reference])
  moreover have "calm s1 s2" using calm_brain_context [of s1 env] bc by simp
  moreover have "calm s2 s3" using calm_context_spreads [of "([], [], s2)" env insts "sn_quotes (en_snap env)"] by (simp add: sp)
  moreover have "calm s3 s4" using calm_rolling [of s3 "en_now env" "ac_equity acct"] ro by (simp add: s4_def)
  ultimately have c4: "calm s s4" by (metis calm_trans)
  have eq: "build_context ops env acct ps corr blocking s = (case kill_read (en_kill env) of Inl e \<Rightarrow> (Inl e, s4)
      | Inr kill \<Rightarrow> (fst (build_context ops env acct ps corr blocking s), s4))"
    unfolding build_context_def Let_def insts_def [symmetric]
    by (simp add: c s1_def [symmetric] bc sp ro s4_def split: sum.split)
  have "snd (build_context ops env acct ps corr blocking s) = s4" by (subst eq) (simp split: sum.split)
  then have s': "s' = s4" using assms by simp
  show "calm s s'" using c4 s' by simp
  assume r: "r = Inr ctx"
  show "trades_today ctx = du_trades_today (ag_state s') \<and> last_entry_ns ctx = du_last_entry_ns (ag_state s')
      \<and> now_ns ctx = en_now env \<and> halted ctx = du_halted (ag_state s') \<and> account ctx = acct
      \<and> (\<exists>k. kill_read (en_kill env) = Inr k \<and> kill_switch ctx = ks_engaged k)"
    using assms unfolding r s' build_context_def Let_def insts_def [symmetric]
    by (auto simp: c s1_def [symmetric] bc sp ro s4_def split: sum.splits)
qed

lemma calm_build_context [calm_rules]: "calm_action (build_context ops env acct ps corr blocking)"
  unfolding calm_action_def
proof
  fix s
  show "calm s (snd (build_context ops env acct ps corr blocking s))"
    by (cases "build_context ops env acct ps corr blocking s") (simp add: build_context_calm(1))
qed

lemma calm_fresh_context [calm_rules]: "calm_action (fresh_context ops env corr blocking)"
  unfolding fresh_context_def
  by (intro calm_bind calm_read_account calm_read_positions calm_build_context)

definition current_context :: "agent_env \<Rightarrow> risk_context \<Rightarrow> 'b agent \<Rightarrow> bool" where
  "current_context env ctx s \<longleftrightarrow> trades_today ctx = du_trades_today (ag_state s)
     \<and> last_entry_ns ctx = du_last_entry_ns (ag_state s) \<and> now_ns ctx = en_now env"

lemma fresh_context_reads:
  assumes "fresh_context ops env corr blocking s = (Inr ctx, s')"
  shows "current_context env ctx s'" "halted ctx = du_halted (ag_state s')"
    "\<exists>k. kill_read (en_kill env) = Inr k \<and> kill_switch ctx = ks_engaged k"
proof -
  obtain acct ps s2 where "build_context ops env acct ps corr blocking s2 = (Inr ctx, s')"
    using assms by (auto simp: fresh_context_def act_bind_def split: prod.splits sum.splits)
  from build_context_calm(2) [OF this refl]
  show "current_context env ctx s'" "halted ctx = du_halted (ag_state s')"
    "\<exists>k. kill_read (en_kill env) = Inr k \<and> kill_switch ctx = ks_engaged k"
    by (simp_all add: current_context_def)
qed

lemma current_calm: "current_context env ctx s \<Longrightarrow> calm s s' \<Longrightarrow> current_context env ctx s'"
  by (simp add: current_context_def calm_def)

section \<open>Caution only shrinks\<close>

lemma calm_shrink_by: "calm (snd acc) (snd (shrink_by name cast answer acc))"
  by (cases acc) (simp add: shrink_by_def calm_journal split: sum.split)

lemma shrink_by_le: "(\<And>x. x \<le> 1 \<Longrightarrow> cast x \<le> 1) \<Longrightarrow> fst acc \<le> 1 \<Longrightarrow> fst (shrink_by name cast answer acc) \<le> 1"
  by (cases acc) (auto simp: shrink_by_def min_def split: sum.split)

lemma calm_caution_for: "calm s (snd (caution_for sv strategy instr s))"
proof -
  have "calm s (snd (case sv_layers sv of None \<Rightarrow> (c, s)
      | Some f \<Rightarrow> shrink_by ''layers'' fround (f strategy (regime_name s)) (c, s)))" for c
    using calm_shrink_by [of "(c, s)" "''layers''" fround] by (simp split: option.split)
  then show ?thesis unfolding caution_for_def Let_def by (simp add: case_prod_beta)
qed

lemma caution_for_bounds: "0 \<le> fst (caution_for sv strategy instr s)" "fst (caution_for sv strategy instr s) \<le> 1"
  by (simp_all add: caution_for_def Let_def case_prod_beta)

lemma calm_consult: "calm (snd acc) (snd (consult name srv sig acc))"
  by (simp add: consult_def calm_shrink_by split: option.split)

lemma consult_le: "fst acc \<le> 1 \<Longrightarrow> fst (consult name srv sig acc) \<le> 1"
  by (simp add: consult_def shrink_by_le split: option.split)

lemma signal_caution_calm: "calm s (snd (signal_caution sv sig s))"
  using calm_trans [OF calm_caution_for calm_trans [OF calm_consult calm_consult]] by (simp add: signal_caution_def)

lemma signal_caution_le: "fst (signal_caution sv sig s) \<le> 1"
  unfolding signal_caution_def by (intro consult_le caution_for_bounds)

lemma gate_caution_calm: "calm s (snd (gate_caution sv sig c s))"
  by (simp add: gate_caution_def calm_journal split: option.split sum.split)

lemma gate_caution_le: "gate_caution sv sig c s = (Some c', s') \<Longrightarrow> c' \<le> c"
  by (auto simp: gate_caution_def split: option.splits sum.splits if_splits)

section \<open>The outcomes of one signal\<close>

text \<open>No order: like \<open>calm\<close>, but for the advisory queue.\<close>

definition no_order :: "'b agent \<Rightarrow> 'b agent \<Rightarrow> bool" where
  "no_order s s' \<longleftrightarrow> om_trace (ag_oms s') = om_trace (ag_oms s)
     \<and> du_trades_today (ag_state s') = du_trades_today (ag_state s)
     \<and> du_last_entry_ns (ag_state s') = du_last_entry_ns (ag_state s)
     \<and> (du_halted (ag_state s) \<longrightarrow> du_halted (ag_state s'))"

lemma no_order_trans: "no_order s s' \<Longrightarrow> no_order s' s'' \<Longrightarrow> no_order s s''"
  by (simp add: no_order_def)

lemma calm_no_order: "calm s s' \<Longrightarrow> no_order s s'"
  by (auto simp: calm_def no_order_def)

lemma enqueue_no_order: "no_order s (enqueue_advice d s)"
  by (simp add: no_order_def enqueue_advice_def)

text \<open>The mode lets an approved and sized intent go to the venue.\<close>

definition may_send :: "agent_config \<Rightarrow> order_intent \<Rightarrow> bool" where
  "may_send cfg intent \<longleftrightarrow> cg_mode cfg = AUTONOMOUS \<or> cg_mode cfg = SEMI_AUTO \<and> within_envelope cfg intent"

text \<open>
  What stands behind an order: an evaluation of the engine that approved it, a caution of at most one, a size on the
  lot grid of at least one minimum lot.
\<close>

definition granted :: "agent_env \<Rightarrow> risk_context \<Rightarrow> order_intent \<Rightarrow> instrument \<Rightarrow> pyfloat \<Rightarrow> risk_decision \<Rightarrow> bool" where
  "granted env ctx intent inst caution v \<longleftrightarrow> evaluate_entry (cg_risk (en_cfg env)) intent ctx = Inr v \<and> rd_approved v
     \<and> caution \<le> 1 \<and> min_lot inst \<le> oi_lots (shrunk inst caution v intent)"

lemma shrunk_simps [simp]:
  "oi_instrument (shrunk inst c v i) = oi_instrument i" "oi_side (shrunk inst c v i) = oi_side i"
  "oi_client_order_id (shrunk inst c v i) = oi_client_order_id i" "oi_stop_loss (shrunk inst c v i) = oi_stop_loss i"
  "oi_strategy (shrunk inst c v i) = oi_strategy i"
  by (simp_all add: shrunk_def)

lemma journal_no_order: "no_order s (journal_agent e s)"
  by (rule calm_no_order [OF calm_journal])

lemma dispatch_sends: "may_send (en_cfg env) intent \<Longrightarrow> dispatch ops env intent horizon q d s = execute ops env intent horizon q d s"
  by (auto simp: may_send_def dispatch_def)

lemma dispatch_keeps:
  assumes "\<not> may_send (en_cfg env) intent"
  obtains d' s' where "dispatch ops env intent horizon q d s = (Inr d', s')" "dc_order_state d' = dc_order_state d" "no_order s s'"
proof (cases "cg_mode (en_cfg env) = OBSERVE")
  case True
  then show ?thesis
    using that [of "d\<lparr>dc_action := Proposed\<rparr>" "journal_agent (SignalJournaled (dc_instrument d)) s"]
    by (simp add: dispatch_def journal_no_order)
next
  case False
  then have "cg_mode (en_cfg env) = ADVISORY \<or> cg_mode (en_cfg env) = SEMI_AUTO \<and> \<not> within_envelope (en_cfg env) intent"
    using assms by (cases "cg_mode (en_cfg env)") (auto simp: may_send_def)
  then show ?thesis
    using False that [of "d\<lparr>dc_action := Queued\<rparr>"]
    by (simp add: dispatch_def no_order_trans [OF enqueue_no_order journal_no_order])
qed

lemma judge_signal_cases:
  assumes "judge_signal ops env sig ctx inst q caution intent d s = (r, s')" "caution \<le> 1" "dc_order_state d = None"
  obtains (no_order) "no_order s s'" "\<And>x. r = Inr x \<Longrightarrow> dc_order_state x = None"
  | (sent) v horizon d1 s1 where "granted env ctx intent inst caution v" "calm s s1" "dc_order_state d1 = None"
      "may_send (en_cfg env) (shrunk inst caution v intent)"
      "execute ops env (shrunk inst caution v intent) horizon q d1 s1 = (r, s')"
proof (cases "evaluate_entry (cg_risk (en_cfg env)) intent ctx")
  case (Inl e)
  then have "r = Inl e" "s' = s" using assms(1) by (simp_all add: judge_signal_def)
  moreover have "no_order s s" by (simp add: calm_no_order)
  ultimately show ?thesis using no_order by simp
next
  case (Inr v)
  define s1 where "s1 = (if rd_halting v then agent_halt ''risk engine halt'' s else s)"
  have c1: "calm s s1" by (simp add: s1_def calm_halt)
  define sized where "sized = shrunk inst caution v intent"
  define horizon where "horizon = (if sg_horizon_bars sig = 0 then None else Some (sg_horizon_bars sig, sg_timeframe sig))"
  define d1 where "d1 = d\<lparr>dc_vetoes := rules (rd_vetoes v), dc_caution := Some (round4 caution), dc_horizon := horizon,
      dc_stop := oi_stop_loss intent, dc_target := truthy_price (oi_take_profit intent)\<rparr>"
  have o1: "dc_order_state d1 = None" "dc_order_state (priced sized d1) = None" using assms(3) by (simp_all add: d1_def priced_def)
  show ?thesis
  proof (cases "rd_approved v \<and> min_lot inst \<le> oi_lots sized \<and> may_send (en_cfg env) sized")
    case True
    then have g: "granted env ctx intent inst caution v"
      using Inr assms(2) by (simp add: granted_def sized_def)
    have ex: "execute ops env sized horizon q (priced sized d1) s1 = (r, s')"
      using assms(1) True unfolding judge_signal_def Inr Let_def
      by (simp add: dispatch_sends sized_def [symmetric] s1_def [symmetric] horizon_def [symmetric] d1_def [symmetric])
    have ms: "may_send (en_cfg env) (shrunk inst caution v intent)" using True by (simp add: sized_def)
    show ?thesis by (rule sent [OF g c1 o1(2) [unfolded sized_def] ms ex [unfolded sized_def]])
  next
    case False
    have n: "no_order s s1" "no_order s (journal_agent x s1)" for x
      using calm_no_order [OF c1] no_order_trans [OF _ journal_no_order] by blast+
    have eq: "judge_signal ops env sig ctx inst q caution intent d s =
        (if \<not> rd_approved v then (Inr (d1\<lparr>dc_action := Vetoed\<rparr>), journal_agent (VetoJournaled (dc_instrument d)) s1)
         else if oi_lots sized < min_lot inst
         then (Inr (d1\<lparr>dc_action := Skipped, dc_vetoes := dc_vetoes d1 @ [''caution_multiplier'']\<rparr>), s1)
         else dispatch ops env sized horizon q (priced sized d1) s1)"
      by (simp add: judge_signal_def Inr Let_def sized_def s1_def horizon_def d1_def)
    have "no_order s s' \<and> (\<forall>x. r = Inr x \<longrightarrow> dc_order_state x = None)"
    proof (cases "rd_approved v \<and> min_lot inst \<le> oi_lots sized")
      case True
      then have "\<not> may_send (en_cfg env) sized" using False by simp
      then obtain d' s2 where "dispatch ops env sized horizon q (priced sized d1) s1 = (Inr d', s2)"
          "dc_order_state d' = None" "no_order s1 s2" using dispatch_keeps o1(2) by metis
      then show ?thesis using eq True assms(1) no_order_trans [OF n(1)] by auto
    next
      case False
      then show ?thesis using eq assms(1) n o1(1) by (auto split: if_splits)
    qed
    then show ?thesis using no_order by blast
  qed
qed

lemma act_on_signal_cases:
  assumes "act_on_signal ops env sig ctx s = (r, s')"
  obtains (no_order) "no_order s s'" "\<And>x. r = Inr x \<Longrightarrow> dc_order_state x = None"
  | (sent) inst q caution intent v horizon d s1 where
      "dget (instruments ctx) (sg_instrument sig) = Some inst" "dget (quotes ctx) (sg_instrument sig) = Some q"
      "granted env ctx intent inst caution v" "calm s s1" "dc_order_state d = None"
      "may_send (en_cfg env) (shrunk inst caution v intent)"
      "execute ops env (shrunk inst caution v intent) horizon q d s1 = (r, s')"
      "oi_instrument intent = sg_instrument sig" "oi_side intent = sg_side sig"
      "oi_stop_loss intent = Some (round_price inst (sg_stop_price sig))"
proof -
  let ?d = "blank_decision (sg_decision_ns sig) (sg_strategy sig) (sg_instrument sig) (Some (sg_side sig))"
  have d0: "dc_order_state ?d = None" by (simp add: blank_decision_def)
  have stop: "no_order s s' \<Longrightarrow> (\<And>x. r = Inr x \<Longrightarrow> dc_order_state x = None) \<Longrightarrow> thesis" by (rule no_order)
  show ?thesis
  proof (cases "\<exists>inst q. dget (instruments ctx) (sg_instrument sig) = Some inst \<and> dget (quotes ctx) (sg_instrument sig) = Some q")
    case False
    then have "r = Inr (?d\<lparr>dc_vetoes := [''no_market'']\<rparr>)" "s' = s"
      using assms by (cases "dget (instruments ctx) (sg_instrument sig)"; cases "dget (quotes ctx) (sg_instrument sig)";
          simp add: act_on_signal_def Let_def)+
    then show ?thesis using stop d0 by (simp add: calm_no_order)
  next
    case True
    then obtain inst q where m: "dget (instruments ctx) (sg_instrument sig) = Some inst"
        "dget (quotes ctx) (sg_instrument sig) = Some q" by blast
    obtain c1 s1 where c: "signal_caution (en_sv env) sig s = (c1, s1)" by fastforce
    obtain g s2 where g: "gate_caution (en_sv env) sig c1 s1 = (g, s2)" by fastforce
    have s2: "calm s s2"
      using signal_caution_calm [of s "en_sv env" sig] gate_caution_calm [of s1 "en_sv env" sig c1] c g
      by (auto intro: calm_trans)
    show ?thesis
    proof (cases g)
      case None
      then have "r = Inr (?d\<lparr>dc_vetoes := [''meta_label'']\<rparr>)" "s' = journal_agent (SignalJournaled (sg_instrument sig)) s2"
        using assms by (auto simp: act_on_signal_def m c g)
      then show ?thesis using stop d0 calm_no_order [OF calm_trans [OF s2 calm_journal]] by simp
    next
      case (Some caution)
      have le: "caution \<le> 1"
        using signal_caution_le [of "en_sv env" sig s] gate_caution_le [of "en_sv env" sig c1 s1 caution s2] c g Some by simp
      let ?key = "order_key (sg_strategy sig) (sg_instrument sig) (sg_side sig) (sg_decision_ns sig) (ac_account_id (account ctx))"
      show ?thesis
      proof (cases "client_order_id (sv_hash (en_sv env)) ?key")
        case (Inl e)
        then have "r = Inl e" "s' = s2" using assms by (auto simp: act_on_signal_def m c g Some)
        then show ?thesis using stop calm_no_order [OF s2] by simp
      next
        case (Inr coid)
        let ?i = "market_intent coid (sg_strategy sig) (sg_instrument sig) (sg_side sig) (min_lot inst)
            (Some (round_price inst (sg_stop_price sig)))
            (map_option (round_price inst) (truthy_price (sg_target_price sig))) (sg_decision_ns sig)"
        let ?d1 = "?d\<lparr>dc_client_order_id := Some coid\<rparr>"
        show ?thesis
        proof (cases "mk_intent ?i")
          case (Inl e)
          then have "r = Inr (?d1\<lparr>dc_vetoes := [''malformed_intent'']\<rparr>)" "s' = s2"
            using assms Inr by (auto simp: act_on_signal_def m c g Some)
          then show ?thesis using stop d0 calm_no_order [OF s2] by simp
        next
          case i: (Inr intent)
          then have j: "judge_signal ops env sig ctx inst q caution intent ?d1 s2 = (r, s')"
            using assms Inr by (simp add: act_on_signal_def m c g Some)
          have ii: "intent = ?i" using i by (auto simp: mk_intent_def split: if_splits option.splits)
          have o: "dc_order_state ?d1 = None" using d0 by simp
          from j le o show ?thesis
          proof (cases rule: judge_signal_cases)
            case no_order
            then show ?thesis using stop no_order_trans [OF calm_no_order [OF s2]] by blast
          next
            case (sent v horizon d1 s3)
            then show ?thesis
              using that(2) [OF m sent(1) calm_trans [OF s2 sent(2)] sent(3-5)] ii by (simp add: market_intent_def)
          qed
        qed
      qed
    qed
  qed
qed

section \<open>What an order costs the frequency budget\<close>

lemma conversion_map_keeps: "conversion_map ops ccy s = (rates, s') \<Longrightarrow> ag_state s' = ag_state s \<and> ag_disk_writable s' = ag_disk_writable s"
  by (auto simp: conversion_map_def split: prod.splits)

lemma realised_risk_keeps: "realised_risk ops ccy intent ord s = (x, s') \<Longrightarrow> ag_state s' = ag_state s \<and> ag_disk_writable s' = ag_disk_writable s"
  by (auto simp: realised_risk_def Let_def split: option.splits prod.splits if_splits dest: conversion_map_keeps)

lemma save_counters [simp]:
  "du_trades_today (ag_state (save_state s)) = du_trades_today (ag_state s)"
  "du_last_entry_ns (ag_state (save_state s)) = du_last_entry_ns (ag_state s)"
  by (simp_all add: save_state_def)

lemma meta_counters [simp]:
  "du_trades_today (ag_state (set_meta i m s)) = du_trades_today (ag_state s)"
  "du_last_entry_ns (ag_state (set_meta i m s)) = du_last_entry_ns (ag_state s)"
  "du_halted (ag_state (set_meta i m s)) = du_halted (ag_state s)"
  by (simp_all add: set_meta_def)

lemma record_unknown_counts:
  "du_trades_today (ag_state (record_unknown env intent s)) = du_trades_today (ag_state s) + 1"
  "du_last_entry_ns (ag_state (record_unknown env intent s)) = Some (en_now env)"
  "du_halted (ag_state s) \<Longrightarrow> du_halted (ag_state (record_unknown env intent s))"
  by (simp_all add: record_unknown_def count_entry_def)

lemma record_live_counts:
  "du_trades_today (ag_state (record_live ops env intent horizon ord s)) = du_trades_today (ag_state s) + 1"
  "du_last_entry_ns (ag_state (record_live ops env intent horizon ord s)) = Some (en_now env)"
  "du_halted (ag_state s) \<Longrightarrow> du_halted (ag_state (record_live ops env intent horizon ord s))"
proof -
  obtain risk s2 where r: "realised_risk ops (cg_account_currency (en_cfg env)) intent ord (upd (count_entry (en_now env)) s) = (risk, s2)"
    by fastforce
  note k = realised_risk_keeps [OF r]
  show "du_trades_today (ag_state (record_live ops env intent horizon ord s)) = du_trades_today (ag_state s) + 1"
    "du_last_entry_ns (ag_state (record_live ops env intent horizon ord s)) = Some (en_now env)"
    "du_halted (ag_state s) \<Longrightarrow> du_halted (ag_state (record_live ops env intent horizon ord s))"
    using k by (simp_all add: record_live_def Let_def r count_entry_def)
qed

text \<open>An order in a live state is counted once, at the present moment; any other outcome counts nothing.\<close>

lemma execute_counts:
  assumes "execute ops env intent horizon q d s = (r, s')" "dc_order_state d = None"
  shows "(\<exists>d'. r = Inr d' \<and> reached_venue d' \<and> du_trades_today (ag_state s') = du_trades_today (ag_state s) + 1
            \<and> du_last_entry_ns (ag_state s') = Some (en_now env))
       \<or> ((\<forall>d'. r = Inr d' \<longrightarrow> \<not> reached_venue d') \<and> du_trades_today (ag_state s') = du_trades_today (ag_state s)
            \<and> du_last_entry_ns (ag_state s') = du_last_entry_ns (ag_state s))"
    and "du_halted (ag_state s) \<Longrightarrow> du_halted (ag_state s')"
proof -
  obtain res o' where o: "submit (ax_oms ops) (cg_oms (en_cfg env)) intent (Some (price_for q (oi_side intent))) (ag_oms s) = (res, o')"
    by fastforce
  have "((\<exists>d'. r = Inr d' \<and> reached_venue d' \<and> du_trades_today (ag_state s') = du_trades_today (ag_state s) + 1
            \<and> du_last_entry_ns (ag_state s') = Some (en_now env))
       \<or> ((\<forall>d'. r = Inr d' \<longrightarrow> \<not> reached_venue d') \<and> du_trades_today (ag_state s') = du_trades_today (ag_state s)
            \<and> du_last_entry_ns (ag_state s') = du_last_entry_ns (ag_state s)))
      \<and> (du_halted (ag_state s) \<longrightarrow> du_halted (ag_state s'))"
  proof (cases res)
    case (Inl e)
    then show ?thesis
      using assms by (cases e) (auto simp: execute_def o reached_venue_def)
  next
    case (Inr ord)
    then show ?thesis
      using assms by (cases "o_state ord")
        (auto simp: execute_def o reached_venue_def Let_def record_unknown_counts record_live_counts)
  qed
  then show "(\<exists>d'. r = Inr d' \<and> reached_venue d' \<and> du_trades_today (ag_state s') = du_trades_today (ag_state s) + 1
            \<and> du_last_entry_ns (ag_state s') = Some (en_now env))
       \<or> ((\<forall>d'. r = Inr d' \<longrightarrow> \<not> reached_venue d') \<and> du_trades_today (ag_state s') = du_trades_today (ag_state s)
            \<and> du_last_entry_ns (ag_state s') = du_last_entry_ns (ag_state s))"
    "du_halted (ag_state s) \<Longrightarrow> du_halted (ag_state s')" by blast+
qed


section \<open>Relations kept by every candidate entry\<close>

text \<open>
  A relation between agents that holds when no order is placed, is transitive, and holds over the placing of a granted
  order judged in a current context, holds over the handling of all candidate entries of a cycle. The context is
  current before every candidate.
\<close>

locale entry_relation =
  fixes R :: "'b agent \<Rightarrow> 'b agent \<Rightarrow> bool" and ops :: "'b agent_ops" and env :: agent_env
  assumes R_trans: "R a b \<Longrightarrow> R b c \<Longrightarrow> R a c"
    and R_no_order: "no_order s s' \<Longrightarrow> R s s'"
    and R_execute: "granted env ctx intent inst caution v \<Longrightarrow> current_context env ctx s
      \<Longrightarrow> may_send (en_cfg env) (shrunk inst caution v intent) \<Longrightarrow> dc_order_state d = None
      \<Longrightarrow> execute ops env (shrunk inst caution v intent) horizon q d s = (r, s') \<Longrightarrow> R s s'"
begin

lemma R_refl: "R s s"
  by (simp add: R_no_order calm_no_order)

lemma R_calm: "calm s s' \<Longrightarrow> R s s'"
  by (simp add: R_no_order calm_no_order)

lemma R_act:
  assumes "act_on_signal ops env sig ctx s = (r, s')" "current_context env ctx s"
  shows "R s s'" "r = Inr d \<Longrightarrow> \<not> reached_venue d \<Longrightarrow> current_context env ctx s'"
proof -
  from assms(1) have "R s s' \<and> (\<forall>d. r = Inr d \<and> \<not> reached_venue d \<longrightarrow> current_context env ctx s')"
  proof (cases rule: act_on_signal_cases)
    case no_order
    then show ?thesis using R_no_order assms(2) by (auto simp: current_context_def no_order_def)
  next
    case (sent inst q caution intent v horizon d s1)
    have cur: "current_context env ctx s1" using assms(2) sent(4) by (rule current_calm)
    have "R s1 s'" by (rule R_execute [OF sent(3) cur sent(6,5,7)])
    moreover have "current_context env ctx s'" if "r = Inr d'" "\<not> reached_venue d'" for d'
      using execute_counts(1) [OF sent(7,5)] that cur by (auto simp: current_context_def)
    ultimately show ?thesis using R_trans R_calm sent(4) by blast
  qed
  then show "R s s'" "r = Inr d \<Longrightarrow> \<not> reached_venue d \<Longrightarrow> current_context env ctx s'" by blast+
qed

definition keeps_current :: "('b, decision list \<times> risk_context) agent_action \<Rightarrow> 'b agent \<Rightarrow> bool" where
  "keeps_current m s \<longleftrightarrow> R s (snd (m s)) \<and> (\<forall>ds ctx. fst (m s) = Inr (ds, ctx) \<longrightarrow> current_context env ctx (snd (m s)))"

lemma keeps_bind:
  assumes "keeps_current m s" "\<And>ds ctx s'. current_context env ctx s' \<Longrightarrow> keeps_current (f (ds, ctx)) s'"
  shows "keeps_current (act_bind m f) s"
proof -
  obtain r s' where m: "m s = (r, s')" by fastforce
  show ?thesis
  proof (cases r)
    case (Inl e)
    then show ?thesis using assms(1) by (simp add: keeps_current_def act_bind_def m)
  next
    case (Inr x)
    obtain ds ctx where x: "x = (ds, ctx)" by force
    then have "R s s'" "keeps_current (f (ds, ctx)) s'"
      using assms Inr m by (auto simp: keeps_current_def)
    then show ?thesis using R_trans by (auto simp: keeps_current_def act_bind_def m Inr x)
  qed
qed

lemma keeps_consider_signal:
  assumes "current_context env ctx s"
  shows "keeps_current (consider_signal ops env corr blocking sig (ds, ctx)) s"
proof -
  obtain r s1 where a: "act_on_signal ops env sig ctx s = (r, s1)" by fastforce
  note A = R_act [OF a assms]
  show ?thesis
  proof (cases r)
    case (Inl e)
    then show ?thesis using A by (simp add: keeps_current_def consider_signal_def act_bind_def a)
  next
    case (Inr d)
    obtain c s2 where f: "fresh_context ops env corr blocking s1 = (c, s2)" by fastforce
    have "calm s1 s2" using calm_actionD [OF calm_fresh_context, of s1 ops env corr blocking] f by simp
    then have "R s s2" using A(1) R_calm R_trans by blast
    then show ?thesis
      using A Inr fresh_context_reads(1) [of ops env corr blocking s1 _ s2] f
      by (cases c) (auto simp: keeps_current_def consider_signal_def act_bind_def a)
  qed
qed

lemma keeps_consider_symbols:
  assumes "current_context env ctx s"
  shows "keeps_current (consider_symbols ops env corr blocking strategy names (ds, ctx)) s"
  using assms
proof (induction names arbitrary: ds ctx s)
  case Nil
  then show ?case by (simp add: keeps_current_def R_refl)
next
  case (Cons name names)
  have "keeps_current (case sv_signals (en_sv env) strategy name of
      None \<Rightarrow> (\<lambda>s. (Inr (ds, ctx), s)) | Some sig \<Rightarrow> consider_signal ops env corr blocking sig (ds, ctx)) s"
    using Cons.prems keeps_consider_signal by (auto simp: keeps_current_def R_refl split: option.split)
  then have "keeps_current (act_bind (case sv_signals (en_sv env) strategy name of
      None \<Rightarrow> (\<lambda>s. (Inr (ds, ctx), s)) | Some sig \<Rightarrow> consider_signal ops env corr blocking sig (ds, ctx))
      (consider_symbols ops env corr blocking strategy names)) s"
    by (rule keeps_bind) (rule Cons.IH)
  then show ?case by (simp add: keeps_current_def)
qed

lemma keeps_consider_allocations:
  assumes "current_context env ctx s"
  shows "keeps_current (consider_allocations ops env corr blocking als (ds, ctx)) s"
  using assms
proof (induction als arbitrary: ds ctx s)
  case Nil
  then show ?case by (simp add: keeps_current_def R_refl)
next
  case (Cons al als)
  have "keeps_current (act_bind (consider_symbols ops env corr blocking (al_name al) (al_instruments al) (ds, ctx))
      (consider_allocations ops env corr blocking als)) s"
    by (rule keeps_bind [OF keeps_consider_symbols [OF Cons.prems]]) (rule Cons.IH)
  then show ?case
    using Cons.IH [OF Cons.prems] by (simp add: keeps_current_def Let_def)
qed

lemma R_consider_entries:
  assumes "current_context env ctx s"
  shows "R s (snd (consider_entries ops env corr blocking ctx s))"
proof -
  obtain r s' where c: "consider_allocations ops env corr blocking (cg_allocations (en_cfg env)) ([], ctx) s = (r, s')"
    by fastforce
  have "R s s'" using keeps_consider_allocations [OF assms, of corr blocking "cg_allocations (en_cfg env)" "[]"]
    by (simp add: keeps_current_def c)
  then show ?thesis by (cases r) (simp_all add: consider_entries_def act_bind_def c)
qed

end



text \<open>Second interpretation: a mode that may not send leaves the trace of the order manager as it is.\<close>

definition silent_mode :: "agent_env \<Rightarrow> bool" where
  "silent_mode env \<longleftrightarrow> cg_mode (en_cfg env) \<in> {OBSERVE, ADVISORY}"

interpretation silence: entry_relation "\<lambda>s s'. silent_mode env \<longrightarrow> om_trace (ag_oms s') = om_trace (ag_oms s)" ops env
  for ops :: "'b agent_ops" and env
proof (unfold_locales, goal_cases)
  case (2 s s')
  then show ?case by (simp add: no_order_def)
next
  case 3
  then show ?case by (auto simp: silent_mode_def may_send_def)
qed simp

text \<open>Third interpretation: a halt stays.\<close>

interpretation halting: entry_relation "\<lambda>s s'. du_halted (ag_state s) \<longrightarrow> du_halted (ag_state s')" ops env
  for ops :: "'b agent_ops" and env
proof (unfold_locales, goal_cases)
  case (2 s s')
  then show ?case by (simp add: no_order_def)
next
  case 3
  then show ?case using execute_counts(2) by blast
qed simp


text \<open>
  In the modes OBSERVE and ADVISORY the agent sends nothing: handling all candidate entries leaves the trace of the
  order manager, and so every call of the broker that opens, queries or modifies, as it was.
\<close>
theorem silent_modes_send_nothing:
  assumes "current_context env ctx s" "cg_mode (en_cfg env) \<in> {OBSERVE, ADVISORY}"
  shows "om_trace (ag_oms (snd (consider_entries ops env corr blocking ctx s))) = om_trace (ag_oms s)"
  using silence.R_consider_entries [OF assms(1), of ops corr blocking] assms(2) by (auto simp: silent_mode_def)

section \<open>Orders a person asks for\<close>

lemma granted_not_stopped: "granted env ctx intent inst caution v \<Longrightarrow> \<not> halted ctx \<and> \<not> kill_switch ctx"
proof -
  assume g: "granted env ctx intent inst caution v"
  then have "evaluate_entry (cg_risk (en_cfg env)) intent ctx = Inr v" "rd_approved v" by (simp_all add: granted_def)
  then have "absolute_stops (cg_risk (en_cfg env)) ctx = []" by (rule approved_entry)
  then show ?thesis by (simp add: absolute_stops_def split: if_splits)
qed

lemma drop_advice_no_order: "no_order s (drop_advice d s)"
  by (simp add: no_order_def drop_advice_def)

lemma mark_advice_no_order: "no_order s (mark_advice d rule s)"
  by (simp add: no_order_def mark_advice_def)

lemma fresh_calm: "fresh_context ops env corr blocking s = (r, s') \<Longrightarrow> calm s s'"
  using calm_actionD [OF calm_fresh_context, of s ops env corr blocking] by simp

lemma revalidate_cases:
  assumes "revalidate ops env coid d inst q intent ctx s = (r, s')"
  obtains (no_order) "no_order s s'"
  | (sent) v caution d1 s1 where "granted env ctx intent inst caution v" "0 \<le> caution" "caution \<le> max 0 (or_default 1 (dc_caution d))"
      "calm s s1" "execute ops env (shrunk inst caution v intent) (dc_horizon d) q d1 s1 = (r, s')"
proof (cases "evaluate_entry (cg_risk (en_cfg env)) intent ctx")
  case (Inl e)
  then have "s' = s" using assms by (simp add: revalidate_def)
  then show ?thesis using no_order calm_no_order [OF calm_refl] by blast
next
  case (Inr v)
  define s1 where "s1 = journal_agent (ProposalAccepted coid) s"
  obtain fresh s2 where c: "caution_for (en_sv env) (dc_strategy d) (dc_instrument d) s1 = (fresh, s2)" by fastforce
  have cs: "calm s s1" "calm s s2"
    using calm_journal [of s] calm_caution_for [of s1 "en_sv env" "dc_strategy d" "dc_instrument d"] c
    by (auto simp: s1_def intro: calm_trans)
  define caution where "caution = max 0 (min 1 (min fresh (or_default 1 (dc_caution d))))"
  define sized where "sized = shrunk inst caution v intent"
  have eq: "revalidate ops env coid d inst q intent ctx s =
      (if \<not> rd_approved v then (Inr (d\<lparr>dc_action := Vetoed, dc_vetoes := rules (rd_vetoes v)\<rparr>), s1)
       else if oi_lots sized < min_lot inst
       then (Inr (d\<lparr>dc_action := Vetoed, dc_vetoes := dc_vetoes d @ [''caution_multiplier'']\<rparr>), s2)
       else execute ops env sized (dc_horizon d) q ((priced sized d)\<lparr>dc_caution := Some (round4 caution)\<rparr>) s2)"
    unfolding revalidate_def Inr by (simp add: Let_def s1_def [symmetric] c caution_def [symmetric] sized_def [symmetric])
  show ?thesis
  proof (cases "rd_approved v \<and> min_lot inst \<le> oi_lots sized")
    case True
    then have g: "granted env ctx intent inst caution v"
      by (simp add: granted_def Inr sized_def [symmetric]) (simp add: caution_def)
    have ex: "execute ops env (shrunk inst caution v intent) (dc_horizon d) q
        ((priced sized d)\<lparr>dc_caution := Some (round4 caution)\<rparr>) s2 = (r, s')"
      using True eq assms by (simp add: sized_def)
    show ?thesis
      by (rule sent [OF g _ _ cs(2) ex]) (auto simp: caution_def)
  next
    case False
    then have "s' = s1 \<or> s' = s2" using eq assms by (auto split: if_splits)
    then show ?thesis using no_order calm_no_order cs by blast
  qed
qed

lemma accept_advice_cases:
  assumes "accept_advice ops env coid s = (r, s')"
  obtains (no_order) "no_order s s'"
  | (sent) d q inst ctx s1 intent v caution d1 s2 x where
      "find_advice coid s = Some d" "entry_permission env" "\<not> dmem (du_guard_suspended (ag_state s)) (dc_strategy d)"
      "in_session (cg_trade_days (en_cfg env)) (cg_windows (en_cfg env)) (en_now env)"
      "fresh_context ops env [] [] (drop_advice d s) = (Inr ctx, s1)"
      "granted env ctx intent inst caution v" "0 \<le> caution" "caution \<le> max 0 (or_default 1 (dc_caution d))"
      "oi_instrument intent = dc_instrument d" "oi_strategy intent = dc_strategy d" "oi_stop_loss intent = dc_stop d"
      "calm s1 s2" "execute ops env (shrunk inst caution v intent) (dc_horizon d) q d1 s2 = (x, s')"
proof (cases "find_advice coid s")
  case None
  then have "s' = s" using assms by (simp add: accept_advice_def)
  then show ?thesis using no_order calm_no_order [OF calm_refl] by blast
next
  case (Some d)
  let ?cfg = "en_cfg env"
  show ?thesis
  proof (cases "entry_permission env \<and> \<not> dmem (du_guard_suspended (ag_state s)) (dc_strategy d)
      \<and> in_session (cg_trade_days ?cfg) (cg_windows ?cfg) (en_now env)
      \<and> (\<exists>q inst. dget (sn_quotes (en_snap env)) (dc_instrument d) = Some q \<and> dget (ax_instruments ops) (dc_instrument d) = Some inst)")
    case False
    have j: "no_order s (mark_advice d rule (journal_agent e s))" "no_order s (journal_agent e (drop_advice d s))" for rule e
      using no_order_trans [OF journal_no_order mark_advice_no_order] no_order_trans [OF drop_advice_no_order journal_no_order]
      by blast+
    have "no_order s s'"
      using assms False j drop_advice_no_order [of s d] unfolding accept_advice_def Some
      by (auto simp: Let_def split: if_splits option.splits)
    then show ?thesis by (rule no_order)
  next
    case True
    then obtain q inst where m: "dget (sn_quotes (en_snap env)) (dc_instrument d) = Some q"
        "dget (ax_instruments ops) (dc_instrument d) = Some inst" by blast
    obtain c s1 where f: "fresh_context ops env [] [] (drop_advice d s) = (c, s1)" by fastforce
    have n1: "no_order s s1"
      using no_order_trans [OF drop_advice_no_order calm_no_order [OF fresh_calm [OF f]]] .
    define k where "k = (\<lambda>ctx s2. case dc_side d of None \<Rightarrow> (Inl ValueError, s2)
                 | Some sd \<Rightarrow> (case mk_intent (advice_intent inst coid d sd) of
                     Inl e \<Rightarrow> (Inl e, s2)
                   | Inr intent \<Rightarrow> act_bind (revalidate ops env coid d inst q intent ctx) (\<lambda>r s3. (Inr (Some r), s3)) s2))"
    have eq: "accept_advice ops env coid s = (case c of Inl e \<Rightarrow> (Inl e, s1) | Inr ctx \<Rightarrow> k ctx s1)"
      using True m unfolding accept_advice_def Some by (cases c) (simp_all add: Let_def act_bind_def f k_def)
    show ?thesis
    proof (cases "\<exists>ctx sd intent. c = Inr ctx \<and> dc_side d = Some sd \<and> mk_intent (advice_intent inst coid d sd) = Inr intent")
      case False
      then have "s' = s1" using eq assms by (auto simp: k_def split: sum.splits option.splits)
      then show ?thesis using n1 no_order by blast
    next
      case t: True
      then obtain ctx sd intent where i: "c = Inr ctx" "dc_side d = Some sd" "mk_intent (advice_intent inst coid d sd) = Inr intent"
        by blast
      have ii: "intent = advice_intent inst coid d sd" using i(3) by (auto simp: mk_intent_def split: if_splits option.splits)
      obtain x s3 where v: "revalidate ops env coid d inst q intent ctx s1 = (x, s3)" by fastforce
      have s': "s' = s3" using eq assms i v by (simp add: k_def act_bind_def split: sum.splits)
      from v show ?thesis
      proof (cases rule: revalidate_cases)
        case no_order
        then show ?thesis using that(1) no_order_trans [OF n1] s' by blast
      next
        case (sent v caution d1 s2)
        show ?thesis
          by (rule that(2) [OF Some _ _ _ f [unfolded i(1)] sent(1-3) _ _ _ sent(4,5) [folded s']])
            (use True ii in \<open>simp_all add: advice_intent_def market_intent_def\<close>)
      qed
    qed
  qed
qed

lemma ticket_caution_le: "ticket_caution budget wanted c \<le> c"
  by (simp add: ticket_caution_def split: option.split)

lemma fill_ticket_cases:
  assumes "fill_ticket ops env tk inst q intent ctx d s = (r, s')"
  obtains (no_order) "no_order s s'"
  | (sent) v c0 d1 s1 x s'' where "granted env ctx intent inst (ticket_caution (risk_per_trade_pct (cg_risk (en_cfg env))) (tk_risk_pct tk) c0) v"
      "c0 \<le> 1" "\<not> tk_preview tk" "(case tk_risk_pct tk of Some w \<Rightarrow> 0 < w | None \<Rightarrow> True)" "calm s s1"
      "execute ops env (shrunk inst (ticket_caution (risk_per_trade_pct (cg_risk (en_cfg env))) (tk_risk_pct tk) c0) v intent)
         None q d1 s1 = (x, s'')" "no_order s'' s'"
proof (cases "evaluate_entry (cg_risk (en_cfg env)) intent ctx")
  case (Inl e)
  then have "s' = s" using assms by (simp add: fill_ticket_def)
  then show ?thesis using no_order calm_no_order [OF calm_refl] by blast
next
  case (Inr v)
  obtain c0 s1 where c: "caution_for (en_sv env) ''manual'' (tk_instrument tk) s = (c0, s1)" by fastforce
  have cs: "calm s s1" "c0 \<le> 1"
    using calm_caution_for [of s "en_sv env" "''manual''" "tk_instrument tk"] caution_for_bounds(2) [of "en_sv env" "''manual''" "tk_instrument tk" s] c
    by auto
  define caution where "caution = ticket_caution (risk_per_trade_pct (cg_risk (en_cfg env))) (tk_risk_pct tk) c0"
  define sized where "sized = shrunk inst caution v intent"
  define d1 where "d1 = d\<lparr>dc_vetoes := rules (rd_vetoes v), dc_stop := oi_stop_loss intent,
      dc_target := truthy_price (oi_take_profit intent)\<rparr>"
  define d2 where "d2 = d1\<lparr>dc_caution := Some (round4 caution)\<rparr>"
  define bad where "bad = (case tk_risk_pct tk of Some w \<Rightarrow> w \<le> 0 | None \<Rightarrow> False)"
  define s2 where "s2 = journal_agent (ManualTicket (tk_instrument tk)) s1"
  have c2: "calm s s2" unfolding s2_def by (rule calm_trans [OF cs(1) calm_journal])
  obtain x s3 where ex: "execute ops env sized None q (priced sized d2) s2 = (x, s3)" by fastforce
  have eq: "fill_ticket ops env tk inst q intent ctx d s =
     (if \<not> rd_approved v
      then (Inr (d1\<lparr>dc_action := Vetoed\<rparr>), if tk_preview tk then s else journal_agent (VetoJournaled (tk_instrument tk)) s)
      else if bad then (Inr (d1\<lparr>dc_action := Vetoed, dc_vetoes := [''malformed_ticket'']\<rparr>), s1)
      else if oi_lots sized < min_lot inst
      then (Inr (d2\<lparr>dc_action := Vetoed, dc_vetoes := dc_vetoes d2 @ [''caution_multiplier'']\<rparr>), s1)
      else if tk_preview tk then (Inr ((priced sized d2)\<lparr>dc_action := Preview\<rparr>), s1)
      else act_bind (execute ops env sized None q (priced sized d2))
             (\<lambda>r s'. (Inr r, s'\<lparr>ag_decisions := ag_decisions s' @ [r]\<rparr>)) s2)"
    unfolding fill_ticket_def Inr
    by (simp add: Let_def c caution_def [symmetric] sized_def [symmetric] d1_def [symmetric] d2_def bad_def [symmetric] s2_def)
  show ?thesis
  proof (cases "rd_approved v \<and> \<not> bad \<and> min_lot inst \<le> oi_lots sized \<and> \<not> tk_preview tk")
    case True
    have "caution \<le> 1" using cs(2) ticket_caution_le order_trans unfolding caution_def by blast
    then have g: "granted env ctx intent inst caution v" using True Inr by (simp add: granted_def sized_def)
    have good: "(case tk_risk_pct tk of Some w \<Rightarrow> 0 < w | None \<Rightarrow> True)" using True by (auto simp: bad_def split: option.splits)
    have n: "no_order s3 s'"
      using eq True assms ex by (cases x) (auto simp: act_bind_def no_order_def)
    show ?thesis
      by (rule sent [OF g [unfolded caution_def] cs(2) _ good c2 ex [unfolded sized_def caution_def] n]) (use True in simp)
  next
    case False
    then have "s' \<in> {s, s1, journal_agent (VetoJournaled (tk_instrument tk)) s}"
      using eq assms by (auto split: if_splits)
    then have "no_order s s'" using calm_no_order cs(1) calm_journal calm_refl by blast
    then show ?thesis by (rule no_order)
  qed
qed

lemma manual_order_cases:
  assumes "manual_order ops env tk s = (r, s')"
  obtains (no_order) "no_order s s'"
  | (sent) q inst ctx0 ctx s1 intent v c0 d1 s2 s3 x where
      "cg_live (en_cfg env) \<longrightarrow> cg_manual_trading_live (en_cfg env)" "entry_permission env"
      "in_session (cg_trade_days (en_cfg env)) (cg_windows (en_cfg env)) (en_now env)"
      "fresh_context ops env [] [] s = (Inr ctx0, s1)"
      "ctx = ctx0\<lparr>strategy_lifecycles := dset (strategy_lifecycles ctx0) ''manual'' ''accepted''\<rparr>"
      "granted env ctx intent inst (ticket_caution (risk_per_trade_pct (cg_risk (en_cfg env))) (tk_risk_pct tk) c0) v"
      "c0 \<le> 1" "\<not> tk_preview tk" "(case tk_risk_pct tk of Some w \<Rightarrow> 0 < w | None \<Rightarrow> True)"
      "oi_instrument intent = tk_instrument tk" "oi_strategy intent = ''manual''"
      "oi_stop_loss intent = Some (round_price inst (tk_stop_loss tk))" "calm s1 s2"
      "execute ops env (shrunk inst (ticket_caution (risk_per_trade_pct (cg_risk (en_cfg env))) (tk_risk_pct tk) c0) v intent)
         None q d1 s2 = (x, s3)" "no_order s3 s'"
proof -
  let ?cfg = "en_cfg env" and ?name = "tk_instrument tk"
  have stop: "s' = s \<Longrightarrow> thesis" using no_order calm_no_order [OF calm_refl] by blast
  show ?thesis
  proof (cases "side_of (map upper_char (tk_side tk))")
    case None
    then show ?thesis using assms stop by (simp add: manual_order_def)
  next
    case (Some side)
    show ?thesis
    proof (cases "(cg_live ?cfg \<longrightarrow> cg_manual_trading_live ?cfg) \<and> entry_permission env
        \<and> in_session (cg_trade_days ?cfg) (cg_windows ?cfg) (en_now env)
        \<and> (\<exists>q inst. dget (sn_quotes (en_snap env)) ?name = Some q \<and> dget (ax_instruments ops) ?name = Some inst)")
      case False
      then have "s' = s"
        using assms Some unfolding manual_order_def by (auto simp: Let_def split: if_splits option.splits)
      then show ?thesis by (rule stop)
    next
      case True
      then obtain q inst where m: "dget (sn_quotes (en_snap env)) ?name = Some q" "dget (ax_instruments ops) ?name = Some inst"
        by blast
      obtain c s1 where f: "fresh_context ops env [] [] s = (c, s1)" by fastforce
      have n1: "no_order s s1" by (rule calm_no_order [OF fresh_calm [OF f]])
      let ?d = "blank_decision (en_now env) ''manual'' ?name (Some side)"
      define ctx where "ctx = (\<lambda>ctx0 :: risk_context. ctx0\<lparr>strategy_lifecycles := dset (strategy_lifecycles ctx0) ''manual'' ''accepted''\<rparr>)"
      define coid where "coid = (\<lambda>ctx0. client_order_id (sv_hash (en_sv env))
          (order_key ''manual'' ?name side (en_now env) (ac_account_id (account (ctx ctx0)))))"
      define mk where "mk = (\<lambda>coid. mk_intent (market_intent coid ''manual'' ?name side (min_lot inst)
          (Some (round_price inst (tk_stop_loss tk))) (map_option (round_price inst) (truthy_price (tk_take_profit tk))) (en_now env)))"
      have eq: "manual_order ops env tk s = (case c of Inl e \<Rightarrow> (Inl e, s1) | Inr ctx0 \<Rightarrow>
          (case coid ctx0 of Inl e \<Rightarrow> (Inl e, s1) | Inr oid \<Rightarrow>
             (case mk oid of Inl _ \<Rightarrow> (Inr (?d\<lparr>dc_client_order_id := Some oid, dc_action := Vetoed, dc_vetoes := [''malformed_ticket'']\<rparr>), s1)
              | Inr intent \<Rightarrow> fill_ticket ops env tk inst q intent (ctx ctx0) (?d\<lparr>dc_client_order_id := Some oid\<rparr>) s1)))"
        using True m Some unfolding manual_order_def
        by (cases c) (auto simp: Let_def act_bind_def f ctx_def coid_def mk_def cong: sum.case_cong)
      show ?thesis
      proof (cases "\<exists>ctx0 oid intent. c = Inr ctx0 \<and> coid ctx0 = Inr oid \<and> mk oid = Inr intent")
        case False
        then have "s' = s1" using eq assms by (auto split: sum.splits)
        then show ?thesis using n1 no_order by blast
      next
        case t: True
        then obtain ctx0 oid intent where i: "c = Inr ctx0" "coid ctx0 = Inr oid" "mk oid = Inr intent" by blast
        have ii: "oi_instrument intent = ?name" "oi_strategy intent = ''manual''"
            "oi_stop_loss intent = Some (round_price inst (tk_stop_loss tk))"
          using i(3) by (auto simp: mk_def mk_intent_def market_intent_def split: if_splits option.splits)
        have "fill_ticket ops env tk inst q intent (ctx ctx0) (?d\<lparr>dc_client_order_id := Some oid\<rparr>) s1 = (r, s')"
          using eq assms i by simp
        then show ?thesis
        proof (cases rule: fill_ticket_cases)
          case no_order
          then show ?thesis using that(1) no_order_trans [OF n1] by blast
        next
          case (sent v c0 d1 s2 x s3)
          show ?thesis
            by (rule that(2) [OF _ _ _ f [unfolded i(1)] _ sent(1-4) ii sent(5-7)]) (use True in \<open>simp_all add: ctx_def\<close>)
        qed
      qed
    qed
  qed
qed

section \<open>Properties of the human paths\<close>

text \<open>The agent is halted, or the kill file is there.\<close>

definition stopped :: "agent_env \<Rightarrow> 'b agent \<Rightarrow> bool" where
  "stopped env s \<longleftrightarrow> du_halted (ag_state s) \<or> (\<exists>k. kill_read (en_kill env) = Inr k \<and> ks_engaged k)"

lemma stopped_context:
  assumes "fresh_context ops env corr blocking s = (Inr ctx, s')" "stopped env s"
  shows "halted ctx \<or> kill_switch ctx"
  using assms calm_halted [OF fresh_calm [OF assms(1)]] fresh_context_reads(2,3) [OF assms(1)]
  by (auto simp: stopped_def)

text \<open>
  A person cannot trade past a stop. While the agent is halted or the kill file is present, neither accepting a
  queued proposal nor a manual ticket reaches the order manager: no call of the venue that places an order, no
  counted trade, and the halt stays.
\<close>
theorem stops_bind_people:
  assumes "stopped env s"
  shows "no_order s (snd (accept_advice ops env coid s)) \<and> no_order s (snd (manual_order ops env tk s))"
proof
  obtain r s' where a: "accept_advice ops env coid s = (r, s')" by fastforce
  then show "no_order s (snd (accept_advice ops env coid s))"
  proof (cases rule: accept_advice_cases)
    case (sent d q inst ctx s1 intent v caution d1 s2 x)
    have "stopped env (drop_advice d s)" using assms by (simp add: stopped_def drop_advice_def)
    then show ?thesis
      using stopped_context [OF sent(5)] granted_not_stopped [OF sent(6)] by blast
  qed (simp add: a)
next
  obtain r s' where m: "manual_order ops env tk s = (r, s')" by fastforce
  then show "no_order s (snd (manual_order ops env tk s))"
  proof (cases rule: manual_order_cases)
    case (sent q inst ctx0 ctx s1 intent v c0 d1 s2 s3 x)
    then show ?thesis
      using stopped_context [OF sent(4) assms] granted_not_stopped [OF sent(6)] by simp
  qed (simp add: m)
qed



text \<open>
  Nothing behind an order is larger than what the engine approved: the risk amount is the approved one times a
  caution of at most one, and on a lot step that is a power of ten so is the size.
\<close>
theorem order_within_approval:
  assumes "granted env ctx intent inst caution v" "dget (instruments ctx) (oi_instrument intent) = Some inst"
    and "instrument_ok inst" "lot_step inst = 10 powi k" "rd_approved_lots v / lot_step inst \<le> 10 ^ 27"
    and "dround (rd_approved_lots v) = rd_approved_lots v"
  shows "min_lot inst \<le> oi_lots (shrunk inst caution v intent) \<and> oi_lots (shrunk inst caution v intent) \<le> rd_approved_lots v"
proof -
  let ?a = "rd_approved_lots v"
  have g: "rd_approved v" "caution \<le> 1" "min_lot inst \<le> oi_lots (shrunk inst caution v intent)"
    using assms(1) by (simp_all add: granted_def)
  have ml: "0 < min_lot inst" using assms(3) by (simp add: instrument_ok_def)
  have l: "0 < dmul ?a caution"
    using g(3) ml by (auto simp: shrunk_def round_lots_down_def split: if_splits)
  show ?thesis
  proof (cases "0 \<le> ?a")
    case True
    have le: "dmul ?a caution \<le> ?a" using dmul_le_fixed [OF True g(2) assms(6)] .
    have "0 < lot_step inst" using assms(4) by simp
    then have "dmul ?a caution / lot_step inst \<le> 10 ^ 27"
      using le assms(5) divide_right_mono [OF le, of "lot_step inst"] by simp
    then have "oi_lots (shrunk inst caution v intent) \<le> dmul ?a caution"
      using lots_whole_steps(3) [OF assms(4) l] by (simp add: shrunk_def)
    then show ?thesis using g(3) le by simp
  next
    case False
    have "evaluate_entry (cg_risk (en_cfg env)) intent ctx = Inr v" using assms(1) by (simp add: granted_def)
    then obtain inst' sizing q conv e sl sws where
      "dget (instruments ctx) (oi_instrument intent) = Some inst'"
      "sizing_stage (cg_risk (en_cfg env)) ctx inst' q conv e sl = Inr (sizing, [], sws)" "?a = sr_lots sizing"
      using g(1) by (rule approved_entry)
    moreover from this obtain "min_lot inst \<le> sr_lots sizing"
      using assms(2,3) sizing_stage_clean by (metis option.inject)
    ultimately show ?thesis using False ml by simp
  qed
qed

text \<open>The caution recorded with a proposal is rounded to four places, so it may be above the one it was made with.\<close>

lemma recorded_caution_can_be_looser: "round4 (49996/100000) = 1/2"
  by code_simp

section \<open>Witnesses\<close>

definition demo_venue :: "'b venue_ops" where
  "demo_venue = \<lparr>vo_account = (\<lambda>b. (Inr demo_account, b)), vo_positions = (\<lambda>b. (Inr [], b)),
     vo_instrument = (\<lambda>_ _. Inr eur_usd), vo_quote = (\<lambda>b _. (Inr demo_quote, b)),
     vo_modify_stop = (\<lambda>b _ _. (Inr True, b)), vo_transactions_since = (\<lambda>b _. (Inr [], b))\<rparr>"

definition demo_ops :: "unit agent_ops" where
  "demo_ops = \<lparr>ax_oms = timeout_broker (Inr None) (Inr True), ax_venue = demo_venue,
     ax_account = (\<lambda>b. (Inr demo_account, b)), ax_positions = (\<lambda>b. (Inr [], b)),
     ax_instruments = [(''EUR_USD'', eur_usd)], ax_conversion_rate = (\<lambda>b _ _. (Inl ConversionMissingError, b)),
     ax_close = (\<lambda>b _ _ _. (Inl BrokerError, b)), ax_min_stop = None\<rparr>"

definition demo_agent :: "unit agent" where
  "demo_agent = \<lparr>ag_state = fresh_durable, ag_disk = NoFile, ag_disk_writable = True, ag_events = [],
     ag_oms = \<lparr>om_orders = [], om_quarantine = [], om_trace = [], om_quality = [], om_breaches = [], om_broker = ()\<rparr>,
     ag_regime = None, ag_spreads = [], ag_reference = [], ag_news = [], ag_advisory = [], ag_group_view = None,
     ag_licence_logged = False, ag_last_reconcile_ns = 0, ag_decisions = [], ag_recon_journal = []\<rparr>"

definition demo_services :: services where
  "demo_services = \<lparr>sv_lessons = (\<lambda>_ _ _. 1), sv_layers = None, sv_similarity = None, sv_macro = None, sv_gate = None,
     sv_reference = None, sv_brain_context = None, sv_entry_gate = None, sv_signals = (\<lambda>_ _. None), sv_hash = demo_hash\<rparr>"

definition demo_config :: agent_config where
  "demo_config = \<lparr>cg_risk = default_risk_config, cg_mode = ADVISORY, cg_live = False, cg_account_currency = ''USD'',
     cg_commission = 7, cg_slippage = 1/10,
     cg_oms = \<lparr>oc_max_retries = 2, oc_max_slippage_pips = None, oc_on_fill = False\<rparr>, cg_allocations = [],
     cg_envelope_instruments = [], cg_envelope_max_lots = 0, cg_envelope_max_risk_pct = 0,
     cg_trade_days = [0, 1, 2, 3, 4], cg_windows = [(7, 16)], cg_manual_trading_live = False,
     cg_feed_timeframe = ''H4'', cg_reconcile_interval_sec = 60\<rparr>"

definition demo_env :: agent_env where
  "demo_env = \<lparr>en_cfg = demo_config, en_sv = demo_services, en_now = 0, en_kill = Absent,
     en_snap = \<lparr>sn_quotes = [(''EUR_USD'', demo_quote)], sn_ages = [], sn_quality = []\<rparr>, en_connected = True,
     en_clock_skew_ms = None, en_offline_seconds = 0, en_strategies = [], en_has_bars = (\<lambda>_. True)\<rparr>"


lemma silent_modes_send_nothing_witness:
  "om_trace (ag_oms (snd (consider_entries demo_ops demo_env [] [] demo_context demo_agent))) = []"
  using silent_modes_send_nothing [of demo_env demo_context demo_agent demo_ops "[]" "[]"]
  by (simp add: current_context_def demo_env_def demo_context_def demo_agent_def fresh_durable_def demo_config_def)

lemma stops_bind_people_witness:
  "no_order (agent_halt ''test'' demo_agent) (snd (accept_advice demo_ops demo_env ''c1'' (agent_halt ''test'' demo_agent)))"
  using stops_bind_people [of demo_env "agent_halt ''test'' demo_agent" demo_ops "''c1''"]
  by (simp add: stopped_def)

lemma order_within_approval_witness:
  "\<exists>v. evaluate_entry default_risk_config demo_intent demo_context = Inr v
     \<and> oi_lots (shrunk eur_usd 1 v demo_intent) \<le> rd_approved_lots v"
proof -
  obtain v where v: "evaluate_entry default_risk_config demo_intent demo_context = Inr v" "rd_approved v"
      "rd_approved_lots v = 1/4" by (rule demo_entry)
  have lots: "min_lot eur_usd \<le> round_lots_down eur_usd (dmul (1/4) 1)" by code_simp
  have g: "granted demo_env demo_context demo_intent eur_usd 1 v"
    using v(1,2) by (simp add: granted_def demo_env_def demo_config_def shrunk_def v(3) lots)
  have "lot_step eur_usd = 10 powi (- 2)" by (simp add: eur_usd_def power_int_minus)
  from order_within_approval [OF g _ eur_usd_ok this] show ?thesis
    using v(1) by (simp add: demo_context_def demo_intent_def eur_usd_def v(3) decimal_eval)
qed

end
