(* ===== verification/AgentCycle.thy ===== *)
theory AgentCycle
  imports AgentEntry
begin

text \<open>
  The decision cycle of \<open>src/sentinel/agent/orchestrator.py\<close>: the start with its replay of the order journal, the
  daily profit lock, the management of open positions, and the cycle that composes account, book, reconciliation,
  context, alarms, protection and entries in the order of the code.

  Regime, news, correlations, the owner's ledger and the ATR are inputs of a cycle. Reports, heartbeats, the learning
  pass and the terminal watchdog are left out.
\<close>

section \<open>Start\<close>

datatype journal_kind = OrderSent | OrderEnded | OtherRecord





text \<open>A reconciliation from the agent: it halts when the report asks for it.\<close>

definition agent_reconcile ::
  "'b agent_ops \<Rightarrow> reconcile_args \<Rightarrow> position list \<Rightarrow> string list \<Rightarrow> string \<Rightarrow> ('b, unit) agent_action" where
  "agent_reconcile ops args local unres reason s =
     (case reconcile (ax_venue ops) args local unres (om_broker (ag_oms s)) (ag_recon_journal s) of (r, rc) \<Rightarrow>
        let s1 = s\<lparr>ag_oms := (ag_oms s)\<lparr>om_broker := rs_broker rc\<rparr>, ag_recon_journal := rs_journal rc\<rparr>
        in case r of
             Inl e \<Rightarrow> (Inl e, s1)
           | Inr _ \<Rightarrow> (Inr (), if rr_halt_required (rs_report rc) then agent_halt reason s1 else s1))"

definition default_recon_args :: "(string, dec) dict \<Rightarrow> reconcile_args" where
  "default_recon_args rates = \<lparr>ra_auto_protect = True, ra_stop_pips = 50, ra_conversions = rates\<rparr>"


section \<open>The daily profit lock\<close>

text \<open>The stop that leaves a position its share of what the day may give back; None when the position is skipped.\<close>

definition lock_stop :: "risk_context \<Rightarrow> instrument \<Rightarrow> quote \<Rightarrow> dec \<Rightarrow> position \<Rightarrow> dec option" where
  "lock_stop ctx inst q per_position pos =
     (case ctx_conversion ctx (quote_ccy inst) of
        None \<Rightarrow> None
      | Some conv \<Rightarrow>
          if conv \<le> 0 then None
          else
          let unreal = unrealised pos q inst conv;
              floor_value = dsub unreal per_position;
              pip_val = dmul (pip_value_quote inst (p_lots pos)) conv
          in if pip_val \<le> 0 then None
             else
             let ref = price_for q (side_opposite (p_side pos));
                 distance = dmul (ddiv (dsub unreal floor_value) pip_val) (pip inst);
                 candidate = round_price inst (dsub ref (dmul distance (side_sign (p_side pos))))
             in if \<not> tighter (p_side pos) (p_stop_loss pos) candidate then None
                else if beyond (p_side pos) candidate ref then None
                else Some candidate)"

definition modify_stop :: "'b agent_ops \<Rightarrow> string \<Rightarrow> dec \<Rightarrow> ('b, bool) agent_action" where
  "modify_stop ops name stop = on_broker (\<lambda>b. br_modify_stop (ax_oms ops) b name (Some stop))"

definition meta_of :: "string \<Rightarrow> 'a agent_core_scheme \<Rightarrow> pos_meta" where
  "meta_of name s = or_default empty_meta (dget (metas s) name)"

definition lock_position ::
  "'b agent_ops \<Rightarrow> agent_env \<Rightarrow> risk_context \<Rightarrow> dec \<Rightarrow> position \<Rightarrow> bool \<times> 'b agent \<Rightarrow> bool \<times> 'b agent" where
  "lock_position ops env ctx per_position pos = (\<lambda>(moved, s).
     let name = p_instrument pos in
     case (dget (ax_instruments ops) name, dget (sn_quotes (en_snap env)) name) of
       (Some inst, Some q) \<Rightarrow>
         (case lock_stop ctx inst q per_position pos of
            None \<Rightarrow> (moved, s)
          | Some stop \<Rightarrow>
              (case modify_stop ops name stop s of
                 (Inl _, s1) \<Rightarrow> (moved, journal_agent (StopMoveFailed name ''profit_lock'') s1)
               | (Inr False, s1) \<Rightarrow> (moved, s1)
               | (Inr True, s1) \<Rightarrow> (True, journal_agent (StopMoved name ''profit_lock'')
                     (set_meta name ((meta_of name s1)\<lparr>pm_stop_loss := Some stop\<rparr>) s1))))
     | _ \<Rightarrow> (moved, s))"

definition apply_profit_lock :: "'b agent_ops \<Rightarrow> agent_env \<Rightarrow> position list \<Rightarrow> risk_context \<Rightarrow> 'b agent \<Rightarrow> 'b agent" where
  "apply_profit_lock ops env ps ctx s =
     (let cfg = cg_risk (en_cfg env) in
      if daily_profit_lock_pct cfg \<le> 0 then s
      else if day_pnl_pct ctx < daily_profit_lock_pct cfg \<and> \<not> du_day_profit_locked (ag_state s) then s
      else
      let s1 = (if du_day_profit_locked (ag_state s) then s
                else journal_agent ProfitLockEngaged (save_state (upd (\<lambda>d. d\<lparr>du_day_profit_locked := True\<rparr>) s)));
          open_ps = filter (\<lambda>p. 0 < p_lots p) ps
      in if open_ps = [] then s1
         else
         let keep_total = dmul (day_pnl ctx) (profit_lock_keep_fraction cfg);
             per_position = ddiv (dsub (day_pnl ctx) keep_total) (of_nat (length open_ps));
             (moved, s2) = foldl (\<lambda>acc p. lock_position ops env ctx per_position p acc) (False, s1) open_ps
         in if moved then save_state s2 else s2)"

section \<open>Open positions\<close>

definition scale_out_meta :: "position \<Rightarrow> dec \<Rightarrow> pos_meta \<Rightarrow> pos_meta" where
  "scale_out_meta pos lots m =
     (let remaining = dsub (p_lots pos) lots; m1 = m\<lparr>pm_partial_taken := Some True\<rparr>
      in if 0 < remaining \<and> 0 < p_initial_risk pos
         then m1\<lparr>pm_initial_risk := Some (ddiv (dmul (p_initial_risk pos) remaining) (p_lots pos))\<rparr> else m1)"

definition apply_instruction :: "'b agent_ops \<Rightarrow> position \<Rightarrow> protect_instruction \<Rightarrow> 'b agent \<Rightarrow> 'b agent" where
  "apply_instruction ops pos act s =
     (let name = p_instrument pos; s0 = set_meta name (meta_of name s) s in
      case pi_action act of
        MOVE_STOP \<Rightarrow>
          (case pi_new_stop act of
             None \<Rightarrow> s0
           | Some stop \<Rightarrow>
               (case modify_stop ops name stop s0 of
                  (Inl _, s1) \<Rightarrow> journal_agent (ProtectionFailed name) s1
                | (Inr False, s1) \<Rightarrow> journal_agent (StopMoveFailed name (pi_rule act)) s1
                | (Inr True, s1) \<Rightarrow>
                    let m = meta_of name s1;
                        m1 = (if pi_rule act = ''breakeven'' then m\<lparr>pm_breakeven_moved := Some True\<rparr> else m)
                    in journal_agent (StopMoved name (pi_rule act))
                         (save_state (set_meta name (m1\<lparr>pm_stop_loss := Some stop\<rparr>) s1))))
      | PARTIAL_CLOSE \<Rightarrow>
          (case pi_close_lots act of
             None \<Rightarrow> s0
           | Some lots \<Rightarrow>
               if lots = 0 then s0
               else (case on_broker (\<lambda>b. ax_close ops b name (Some lots) ''partial_take'') s0 of
                  (Inl _, s1) \<Rightarrow> journal_agent (ProtectionFailed name) s1
                | (Inr res, s1) \<Rightarrow>
                    if sb_state res \<in> {FILLED, PARTIAL}
                    then journal_agent (PartialClosed name)
                           (save_state (set_meta name (scale_out_meta pos lots (meta_of name s1)) s1))
                    else journal_agent (PartialCloseFailed name) s1))
      | CLOSE \<Rightarrow> snd (close_at_venue ops pos (pi_rule act) s0))"

text \<open>The exits that need only the clock: before the weekend, and past the horizon.\<close>

definition clock_exit :: "risk_config \<Rightarrow> int \<Rightarrow> position \<Rightarrow> 'b agent \<Rightarrow> string option res" where
  "clock_exit cfg now pos s =
     res_bind (if weekend_flat_enabled cfg then weekend_flat pos now (Some (friday_close_utc_hour cfg)) 16 else Inr None)
       (\<lambda>wf. Inr (case wf of
          Some i \<Rightarrow> Some (pi_rule i)
        | None \<Rightarrow> if 0 < agent_max_hold_sec cfg pos s
            then map_option pi_rule (time_stop pos now (agent_max_hold_sec cfg pos s)) else None))"

definition manage_position ::
  "'b agent_ops \<Rightarrow> agent_env \<Rightarrow> (string \<Rightarrow> string \<Rightarrow> dec option) \<Rightarrow> risk_context \<Rightarrow> position \<Rightarrow> ('b, unit) agent_action" where
  "manage_position ops env atr ctx pos s =
     (let cfg = en_cfg env; name = p_instrument pos in
      case (dget (sn_quotes (en_snap env)) name, dget (ax_instruments ops) name) of
        (Some q, Some inst) \<Rightarrow>
          (case clock_exit (cg_risk cfg) (now_ns ctx) pos s of
             Inl e \<Rightarrow> (Inl e, s)
           | Inr (Some rule) \<Rightarrow> (Inr (), snd (close_at_venue ops pos rule s))
           | Inr None \<Rightarrow>
               (case ctx_conversion ctx (quote_ccy inst) of
                  None \<Rightarrow> (Inr (), journal_agent (ProtectionSuspended name) s)
                | Some conv \<Rightarrow>
                    if conv \<le> 0 then (Inr (), journal_agent (ProtectionSuspended name) s)
                    else
                    let (pos', s1) = track_excursion pos q inst conv s;
                        model = agent_cost_model (cg_commission cfg) (cg_slippage cfg) (quote_spread_pips q inst);
                        acts = evaluate_protection pos' q inst (cg_risk cfg) (atr (p_strategy pos) name) conv (Some model)
                    in (Inr (), foldl (\<lambda>s act. apply_instruction ops pos' act s) s1 acts)))
      | _ \<Rightarrow> (Inr (), s))"

fun manage_each ::
  "'b agent_ops \<Rightarrow> agent_env \<Rightarrow> (string \<Rightarrow> string \<Rightarrow> dec option) \<Rightarrow> risk_context \<Rightarrow> position list \<Rightarrow> ('b, unit) agent_action" where
  "manage_each ops env atr ctx [] s = (Inr (), s)"
| "manage_each ops env atr ctx (p # ps) s =
     act_bind (manage_position ops env atr ctx p) (\<lambda>_. manage_each ops env atr ctx ps) s"

definition manage_positions ::
  "'b agent_ops \<Rightarrow> agent_env \<Rightarrow> (string \<Rightarrow> string \<Rightarrow> dec option) \<Rightarrow> position list \<Rightarrow> risk_context \<Rightarrow> ('b, unit) agent_action" where
  "manage_positions ops env atr ps ctx s = manage_each ops env atr ctx ps (apply_profit_lock ops env ps ctx s)"

section \<open>The cycle\<close>

record cycle_inputs =
  cy_regime :: "regime_state option"
  cy_news :: "(string, news_assessment) dict res option"
  cy_correlations :: "((string \<times> string), pyfloat) dict"
  cy_group_view :: "group_view option"
  cy_atr :: "string \<Rightarrow> string \<Rightarrow> dec option"

definition take_inputs :: "cycle_inputs \<Rightarrow> 'b agent \<Rightarrow> 'b agent" where
  "take_inputs inp s = s\<lparr>ag_regime := (case cy_regime inp of None \<Rightarrow> ag_regime s | Some r \<Rightarrow> Some r),
     ag_news := (case cy_news inp of Some (Inr d) \<Rightarrow> d | _ \<Rightarrow> []), ag_group_view := cy_group_view inp\<rparr>"

definition reconcile_due :: "agent_config \<Rightarrow> int \<Rightarrow> 'b agent \<Rightarrow> bool" where
  "reconcile_due cfg now s \<longleftrightarrow>
     of_int (cg_reconcile_interval_sec cfg) \<le> fdiv (of_int (now - ag_last_reconcile_ns s)) 1000000000
     \<or> unresolved (ag_oms s) \<noteq> []"

definition reconcile_step ::
  "'b agent_ops \<Rightarrow> agent_env \<Rightarrow> position list \<Rightarrow> position list \<Rightarrow> ('b, position list) agent_action" where
  "reconcile_step ops env local ps s =
     (if \<not> reconcile_due (en_cfg env) (en_now env) s then (Inr ps, s)
      else case resolve_all_unknown (ax_oms ops) (cg_oms (en_cfg env)) (ag_oms s) of
        (Inl e, o') \<Rightarrow> (Inl e, s\<lparr>ag_oms := o'\<rparr>)
      | (Inr _, o') \<Rightarrow>
          (case conversion_map ops (cg_account_currency (en_cfg env)) (s\<lparr>ag_oms := o'\<rparr>) of (rates, s1) \<Rightarrow>
             act_bind (agent_reconcile ops (default_recon_args rates) local (unresolved (ag_oms s1)) ''reconciliation mismatch'')
               (\<lambda>_ s2. read_positions ops (s2\<lparr>ag_last_reconcile_ns := en_now env\<rparr>)) s1))"

definition raise_alarms :: "veto list \<Rightarrow> 'b agent \<Rightarrow> 'b agent" where
  "raise_alarms alarms s = foldl (\<lambda>s a. agent_halt (v_rule a) s) s (filter (\<lambda>a. v_severity a = HALT) alarms)"

definition note_licence :: "agent_env \<Rightarrow> 'b agent \<Rightarrow> 'b agent" where
  "note_licence env s =
     (if \<not> entry_permission env
      then (if ag_licence_logged s then s else journal_agent LicenceBlocks (s\<lparr>ag_licence_logged := True\<rparr>))
      else if ag_licence_logged s then journal_agent LicenceRestored (s\<lparr>ag_licence_logged := False\<rparr>) else s)"

text \<open>Sections 7 to 9 of the cycle: new entries, when nothing blocks them.\<close>

definition entry_step ::
  "'b agent_ops \<Rightarrow> agent_env \<Rightarrow> cycle_inputs \<Rightarrow> bool \<Rightarrow> string list \<Rightarrow> risk_context \<Rightarrow> ('b, decision list) agent_action" where
  "entry_step ops env inp kill blocking ctx s =
     (let blocked = (du_halted (ag_state s) \<or> kill \<or> \<not> entry_permission env); s1 = note_licence env s in
      if \<not> blocked \<and> in_session (cg_trade_days (en_cfg env)) (cg_windows (en_cfg env)) (en_now env)
      then consider_entries ops env (cy_correlations inp) blocking ctx s1 else (Inr [], s1))"

text \<open>Sections 5 to 9, from the book on.\<close>

definition act_on_book ::
  "'b agent_ops \<Rightarrow> agent_env \<Rightarrow> cycle_inputs \<Rightarrow> bool \<Rightarrow> account_state \<Rightarrow> position list \<Rightarrow> ('b, decision list) agent_action" where
  "act_on_book ops env inp kill acct ps s =
     act_bind (build_context ops env acct ps (cy_correlations inp) [])
       (\<lambda>ctx s1.
          let alarms = portfolio_alarms (cg_risk (en_cfg env)) ctx;
              blocking = rules (filter (\<lambda>a. v_severity a = BLOCK) alarms);
              s2 = raise_alarms alarms s1
          in act_bind (if blocking \<noteq> [] then build_context ops env acct ps (cy_correlations inp) blocking
                       else (\<lambda>s. (Inr ctx, s)))
               (\<lambda>ctx'. act_bind (manage_positions ops env (cy_atr inp) ps ctx')
                 (\<lambda>_. entry_step ops env inp kill blocking ctx')) s2)
       (take_inputs inp s)"

definition cycle :: "'b agent_ops \<Rightarrow> agent_env \<Rightarrow> cycle_inputs \<Rightarrow> ('b, decision list) agent_action" where
  "cycle ops env inp s =
     (case kill_read (en_kill env) of
        Inl e \<Rightarrow> (Inl e, s)
      | Inr kill \<Rightarrow>
          (case read_account ops s of
             (Inl _, s1) \<Rightarrow> (Inr [], journal_agent (ConnectivityLost ''account'') s1)
           | (Inr acct, s1) \<Rightarrow>
               let s2 = observe_account (cg_risk (en_cfg env)) (en_now env) acct s1; local = local_book s2 in
               (case read_positions ops s2 of
                  (Inl _, s3) \<Rightarrow> (Inr [], journal_agent (ConnectivityLost ''positions'') s3)
                | (Inr ps, s3) \<Rightarrow>
                    act_bind (reconcile_step ops env local ps)
                      (\<lambda>ps'. act_bind (act_on_book ops env inp (ks_engaged kill) acct ps')
                        (\<lambda>ds s'. (Inr ds, s'\<lparr>ag_decisions := last_n 5000 (ag_decisions s' @ ds)\<rparr>))) s3)))"

section \<open>What never opens a position\<close>

text \<open>\<open>idle\<close>: the venue was not asked to open anything, and a halt stays.\<close>

definition idle :: "'b agent \<Rightarrow> 'b agent \<Rightarrow> bool" where
  "idle s s' \<longleftrightarrow> submits (ag_oms s') = submits (ag_oms s) \<and> (du_halted (ag_state s) \<longrightarrow> du_halted (ag_state s'))"

lemma idle_refl [simp]: "idle s s"
  by (simp add: idle_def)

lemma idle_trans: "idle s s' \<Longrightarrow> idle s' s'' \<Longrightarrow> idle s s''"
  by (simp add: idle_def)

lemma no_order_idle: "no_order s s' \<Longrightarrow> idle s s'"
  by (simp add: no_order_def idle_def submits_def)

lemma calm_idle: "calm s s' \<Longrightarrow> idle s s'"
  by (simp add: calm_no_order no_order_idle)

definition idle_action :: "('b, 'a) agent_action \<Rightarrow> bool" where
  "idle_action m \<longleftrightarrow> (\<forall>s. idle s (snd (m s)))"

lemma idle_actionD: "idle_action m \<Longrightarrow> m s = (r, s') \<Longrightarrow> idle s s'"
  unfolding idle_action_def by (metis snd_conv)

lemma idle_bind: "idle_action m \<Longrightarrow> (\<And>x. idle_action (f x)) \<Longrightarrow> idle_action (act_bind m f)"
  unfolding idle_action_def act_bind_def
  by (auto split: prod.splits sum.splits) (metis idle_trans prod.sel(2))+

lemma idle_return: "idle_action (\<lambda>s. (r, s))"
  by (simp add: idle_action_def)

lemma calm_action_idle: "calm_action m \<Longrightarrow> idle_action m"
  by (simp add: calm_action_def idle_action_def calm_idle)

lemma resolve_submits: "submits (snd (resolve_unknown ops cfg cid s)) = submits s"
  by (rule quiet.resolve_related [where i = "oi_instrument (o_intent (get_order cid s))"]) (simp add: get_order_def)

lemma resolve_all_submits: "submits (snd (resolve_all_unknown ops cfg s)) = submits s"
  unfolding resolve_all_unknown_def
  by (rule resolve_each_keeps [where P = "\<lambda>t. submits t = submits s"]) (simp_all add: resolve_submits)

lemma idle_oms:
  assumes "submits o' = submits (ag_oms s)"
  shows "idle s (s\<lparr>ag_oms := o'\<rparr>)"
  using assms by (simp add: idle_def)

lemma idle_core: "ag_oms s' = ag_oms s \<Longrightarrow> (du_halted (ag_state s) \<Longrightarrow> du_halted (ag_state s')) \<Longrightarrow> idle s s'"
  by (simp add: idle_def)

lemma roll_oms [simp]: "ag_oms (roll_periods now equity s) = ag_oms s"
  by (simp add: roll_periods_def Let_def save_state_def core_defs)

lemma observe_oms [simp]: "ag_oms (observe_account cfg now acct s) = ag_oms s"
  by (simp add: observe_account_def Let_def save_state_def core_defs)

lemma observe_idle: "idle s (observe_account cfg now acct s)"
  by (rule idle_core) (simp_all add: observe_halted)

lemma conversion_map_idle: "conversion_map ops ccy s = (rates, s') \<Longrightarrow> idle s s'"
  by (auto simp: conversion_map_def idle_def submits_def split: prod.splits)

lemma agent_reconcile_idle: "idle_action (agent_reconcile ops args local unres reason)"
  unfolding idle_action_def
proof
  fix s :: "'a agent"
  obtain r rc where "reconcile (ax_venue ops) args local unres (om_broker (ag_oms s)) (ag_recon_journal s) = (r, rc)" by fastforce
  moreover define s1 where "s1 = s\<lparr>ag_oms := (ag_oms s)\<lparr>om_broker := rs_broker rc\<rparr>, ag_recon_journal := rs_journal rc\<rparr>"
  moreover have "idle s s1" "idle s1 (agent_halt reason s1)"
    by (simp_all add: s1_def idle_def submits_def calm_idle [OF calm_halt, unfolded idle_def submits_def])
  ultimately show "idle s (snd (agent_reconcile ops args local unres reason s))"
    using idle_trans by (cases r) (auto simp: agent_reconcile_def Let_def)
qed

lemma reconcile_step_idle: "idle_action (reconcile_step ops env local ps)"
  unfolding idle_action_def
proof
  fix s :: "'a agent"
  show "idle s (snd (reconcile_step ops env local ps s))"
  proof (cases "reconcile_due (en_cfg env) (en_now env) s")
    case False
    then show ?thesis by (simp add: reconcile_step_def)
  next
    case True
    obtain r o' where o: "resolve_all_unknown (ax_oms ops) (cg_oms (en_cfg env)) (ag_oms s) = (r, o')" by fastforce
    have p: "idle s (s\<lparr>ag_oms := o'\<rparr>)"
      using resolve_all_submits [of "ax_oms ops" "cg_oms (en_cfg env)" "ag_oms s"] o by (intro idle_oms) simp
    obtain rates s1 where c: "conversion_map ops (cg_account_currency (en_cfg env)) (s\<lparr>ag_oms := o'\<rparr>) = (rates, s1)" by fastforce
    have p1: "idle s s1" using idle_trans [OF p conversion_map_idle [OF c]] .
    have set_now: "idle_action (\<lambda>s2. read_positions ops (s2\<lparr>ag_last_reconcile_ns := en_now env\<rparr>))"
      unfolding idle_action_def
    proof
      fix s2 :: "'a agent"
      have "idle s2 (s2\<lparr>ag_last_reconcile_ns := en_now env\<rparr>)" by (simp add: idle_def)
      then show "idle s2 (snd (read_positions ops (s2\<lparr>ag_last_reconcile_ns := en_now env\<rparr>)))"
        using idle_trans calm_idle [OF calm_actionD [OF calm_read_positions]] by blast
    qed
    have "idle_action (act_bind (agent_reconcile ops (default_recon_args rates) local (unresolved (ag_oms s1)) ''reconciliation mismatch'')
               (\<lambda>_ s2. read_positions ops (s2\<lparr>ag_last_reconcile_ns := en_now env\<rparr>)))"
      by (rule idle_bind [OF agent_reconcile_idle set_now])
    then have "idle s1 (snd (act_bind (agent_reconcile ops (default_recon_args rates) local (unresolved (ag_oms s1)) ''reconciliation mismatch'')
               (\<lambda>_ s2. read_positions ops (s2\<lparr>ag_last_reconcile_ns := en_now env\<rparr>)) s1))"
      by (simp add: idle_action_def)
    then show ?thesis
      using True p idle_trans [OF p1] by (cases r) (simp_all add: reconcile_step_def o c)
  qed
qed

lemma raise_alarms_calm: "calm s (raise_alarms alarms s)"
proof -
  have "calm s (foldl (\<lambda>s a. agent_halt (v_rule a) s) s as)" for as
  proof (induction as arbitrary: s)
    case (Cons a as)
    show ?case using calm_trans [OF calm_halt Cons.IH] by simp
  qed simp
  then show ?thesis by (simp add: raise_alarms_def)
qed

lemma modify_stop_calm: "modify_stop ops name stop s = (r, s') \<Longrightarrow> calm s s'"
  unfolding modify_stop_def by (metis calm_broker snd_conv)

lemma on_broker_calm: "on_broker f s = (r, s') \<Longrightarrow> calm s s'"
  by (metis calm_broker snd_conv)

lemma lock_position_calm: "calm (snd acc) (snd (lock_position ops env ctx per acc_pos acc))"
proof -
  obtain moved s where acc: "acc = (moved, s)" by force
  let ?name = "p_instrument acc_pos"
  have m: "calm s (journal_agent e (set_meta i m s1))" "calm s (journal_agent e s1)" "calm s s1"
    if "modify_stop ops ?name stop s = (r, s1)" for stop r s1 e i m
    using modify_stop_calm [OF that] calm_set_meta calm_journal calm_trans by metis+
  show ?thesis
    unfolding lock_position_def acc Let_def
    by (auto split: option.split prod.split sum.split bool.split intro: m)
qed

lemma lock_positions_calm: "calm (snd acc) (snd (foldl (\<lambda>acc p. lock_position ops env ctx per p acc) acc qs))"
proof (induction qs arbitrary: acc)
  case (Cons p qs)
  show ?case using calm_trans [OF lock_position_calm Cons.IH] by simp
qed simp

lemma apply_profit_lock_calm: "calm s (apply_profit_lock ops env ps ctx s)"
proof -
  have lock: "calm s (journal_agent ProfitLockEngaged (save_state (upd (\<lambda>d. d\<lparr>du_day_profit_locked := True\<rparr>) s)))"
    by (rule calm_trans [OF calm_trans [OF calm_upd calm_save] calm_journal]) simp_all
  have tail: "calm s1 (case foldl (\<lambda>acc p. lock_position ops env ctx per p acc) (False, s1) qs of
      (moved, s2) \<Rightarrow> if moved then save_state s2 else s2)" for s1 per qs
  proof -
    obtain moved s2 where f: "foldl (\<lambda>acc p. lock_position ops env ctx per p acc) (False, s1) qs = (moved, s2)" by fastforce
    have "calm s1 s2" using lock_positions_calm [of "(False, s1)" ops env ctx per qs] f by simp
    then show ?thesis using calm_trans [of s1 s2 "save_state s2", OF _ calm_save] by (simp add: f)
  qed
  show ?thesis
    unfolding apply_profit_lock_def Let_def
    using lock tail calm_trans [OF lock tail] by auto
qed

lemma close_at_venue_calm: "calm s (snd (close_at_venue ops pos code s))"
proof -
  let ?name = "p_instrument pos"
  have hj: "calm s (agent_halt r (journal_agent e s1))" if "calm s s1" for r e s1
    using that calm_journal calm_halt calm_trans by metis
  obtain r s1 where c: "on_broker (\<lambda>b. ax_close ops b ?name None (take 32 code)) s = (r, s1)" by fastforce
  have 1: "calm s s1" by (rule on_broker_calm [OF c])
  obtain book s2 where b: "on_broker (ax_positions ops) s1 = (book, s2)" by fastforce
  have 2: "calm s s2" using calm_trans [OF 1 on_broker_calm [OF b]] .
  have 3: "calm s (journal_agent e s2)" for e using calm_trans [OF 2 calm_journal] .
  have 4: "calm s (pop_meta i (journal_agent e t))" if "calm s t" for i e t
    using that calm_journal calm_pop_meta calm_trans by metis
  show ?thesis
    by (cases r; cases book) (simp_all add: close_at_venue_def Let_def c b 1 2 3 4 hj del: on_broker_core)
qed

lemma apply_instruction_calm: "calm s (apply_instruction ops pos act s)"
proof -
  let ?name = "p_instrument pos"
  define s0 where "s0 = set_meta ?name (meta_of ?name s) s"
  have 0: "calm s s0" unfolding s0_def by (rule calm_set_meta)
  have e: "calm s (journal_agent x s1)" "calm s (journal_agent x (save_state (set_meta ?name m s1)))" if "calm s0 s1" for x m s1
    using that 0 calm_journal calm_save calm_set_meta calm_trans by metis+
  have m: "calm s0 s1" if "modify_stop ops ?name stop s0 = (r, s1)" for stop r s1
    by (rule modify_stop_calm [OF that])
  have b: "calm s0 s1" if "on_broker f s0 = (r, s1)" for f and r :: "submit_result res" and s1
    by (rule on_broker_calm [OF that])
  show ?thesis
  proof (cases "pi_action act")
    case MOVE_STOP
    then show ?thesis
      unfolding apply_instruction_def Let_def s0_def [symmetric]
      by (auto split: option.split prod.split sum.split bool.split intro: 0 e m)
  next
    case PARTIAL_CLOSE
    then show ?thesis
      unfolding apply_instruction_def Let_def s0_def [symmetric]
      by (auto split: option.split prod.split sum.split intro: 0 e b)
  next
    case CLOSE
    then show ?thesis
      unfolding apply_instruction_def Let_def s0_def [symmetric]
      using calm_trans [OF 0 close_at_venue_calm] by simp
  qed
qed

lemma apply_instructions_calm: "calm s (foldl (\<lambda>s act. apply_instruction ops pos act s) s acts)"
proof (induction acts arbitrary: s)
  case (Cons a acts)
  show ?case using calm_trans [OF apply_instruction_calm Cons.IH] by simp
qed simp

lemma track_calm: "track_excursion pos q inst conv s = (pos', s') \<Longrightarrow> calm s s'"
  by (auto simp: track_excursion_def Let_def calm_set_meta split: if_splits)

lemma manage_position_calm: "calm_action (manage_position ops env atr ctx pos)"
  unfolding calm_action_def
proof
  fix s :: "'a agent"
  let ?name = "p_instrument pos"
  have track: "calm s (foldl (\<lambda>s act. apply_instruction ops pos' act s) s1 acts)"
    if "track_excursion pos q inst conv s = (pos', s1)" for pos' s1 acts q inst conv
    by (rule calm_trans [OF track_calm [OF that] apply_instructions_calm])
  show "calm s (snd (manage_position ops env atr ctx pos s))"
    unfolding manage_position_def Let_def
    by (auto split: option.split sum.split prod.split intro: track close_at_venue_calm calm_journal)
qed

lemma manage_each_calm: "calm_action (manage_each ops env atr ctx ps)"
proof (induction ps)
  case Nil
  then show ?case by (simp add: calm_action_def)
next
  case (Cons p ps)
  have "calm_action (act_bind (manage_position ops env atr ctx p) (\<lambda>_. manage_each ops env atr ctx ps))"
    by (rule calm_bind [OF manage_position_calm Cons.IH])
  then show ?case by (simp add: calm_action_def)
qed

lemma manage_positions_calm: "calm_action (manage_positions ops env atr ps ctx)"
  unfolding calm_action_def manage_positions_def
proof
  fix s :: "'a agent"
  show "calm s (snd (manage_each ops env atr ctx ps (apply_profit_lock ops env ps ctx s)))"
    by (rule calm_trans [OF apply_profit_lock_calm calm_actionD [OF manage_each_calm]])
qed

lemma note_licence_calm: "calm s (note_licence env s)"
proof -
  have "calm s (s\<lparr>ag_licence_logged := b\<rparr>)" for b by (rule calm_same) simp_all
  then have "calm s (journal_agent e (s\<lparr>ag_licence_logged := b\<rparr>))" for e b by (rule calm_trans [OF _ calm_journal])
  then show ?thesis by (simp add: note_licence_def)
qed

lemma take_inputs_calm: "calm s (take_inputs inp s)"
  by (rule calm_same) (simp_all add: take_inputs_def)

section \<open>When a cycle sends nothing\<close>

definition no_entries :: "agent_env \<Rightarrow> 'b agent \<Rightarrow> bool" where
  "no_entries env s \<longleftrightarrow> stopped env s \<or> \<not> entry_permission env \<or> silent_mode env
     \<or> \<not> in_session (cg_trade_days (en_cfg env)) (cg_windows (en_cfg env)) (en_now env)"

lemma no_entries_stays: "no_entries env s \<Longrightarrow> (du_halted (ag_state s) \<Longrightarrow> du_halted (ag_state s')) \<Longrightarrow> no_entries env s'"
  by (auto simp: no_entries_def stopped_def)

lemma entry_step_halt:
  assumes "current_context env ctx s"
  shows "du_halted (ag_state s) \<Longrightarrow> du_halted (ag_state (snd (entry_step ops env inp kill blocking ctx s)))"
proof -
  have c: "current_context env ctx (note_licence env s)" using assms note_licence_calm by (rule current_calm)
  assume "du_halted (ag_state s)"
  then have h: "du_halted (ag_state (note_licence env s))" using calm_halted [OF note_licence_calm] by blast
  then show "du_halted (ag_state (snd (entry_step ops env inp kill blocking ctx s)))"
    using halting.R_consider_entries [OF c, of ops "cy_correlations inp" blocking]
    by (simp add: entry_step_def Let_def)
qed

lemma entry_step_idle:
  assumes "current_context env ctx s" "no_entries env s"
    and "kill_read (en_kill env) = Inr k" "kill = ks_engaged k"
  shows "idle s (snd (entry_step ops env inp kill blocking ctx s))"
proof (cases "\<not> du_halted (ag_state s) \<and> \<not> kill \<and> entry_permission env
    \<and> in_session (cg_trade_days (en_cfg env)) (cg_windows (en_cfg env)) (en_now env)")
  case False
  then have "snd (entry_step ops env inp kill blocking ctx s) = note_licence env s"
    by (auto simp: entry_step_def Let_def)
  then show ?thesis using calm_idle [OF note_licence_calm] by simp
next
  case True
  then have m: "silent_mode env" using assms(2-4) by (auto simp: no_entries_def stopped_def)
  have c: "current_context env ctx (note_licence env s)" using assms(1) note_licence_calm by (rule current_calm)
  have "om_trace (ag_oms (snd (consider_entries ops env (cy_correlations inp) blocking ctx (note_licence env s)))) = om_trace (ag_oms s)"
    using silence.R_consider_entries [OF c, of ops "cy_correlations inp" blocking] m calm_trace [OF note_licence_calm] by metis
  then show ?thesis
    using entry_step_halt [OF assms(1), of ops inp kill blocking] True
    by (simp add: idle_def submits_def entry_step_def Let_def)
qed

lemma build_current:
  assumes "build_context ops env acct ps corr blocking s = (Inr ctx, s')"
  shows "current_context env ctx s'"
  using build_context_calm(2) [OF assms refl] by (simp add: current_context_def)

lemma act_on_book_idle:
  assumes "no_entries env s" "kill_read (en_kill env) = Inr k" "kill = ks_engaged k"
  shows "idle s (snd (act_on_book ops env inp kill acct ps s))"
proof -
  obtain r1 s1 where b1: "build_context ops env acct ps (cy_correlations inp) [] (take_inputs inp s) = (r1, s1)" by fastforce
  have c1: "calm s s1" by (rule calm_trans [OF take_inputs_calm build_context_calm(1) [OF b1]])
  show ?thesis
  proof (cases r1)
    case (Inl e)
    then show ?thesis using calm_idle [OF c1] by (simp add: act_on_book_def act_bind_def b1)
  next
    case (Inr ctx)
    define alarms where "alarms = portfolio_alarms (cg_risk (en_cfg env)) ctx"
    define blocking where "blocking = rules (filter (\<lambda>a. v_severity a = BLOCK) alarms)"
    define s2 where "s2 = raise_alarms alarms s1"
    have c2: "calm s s2" unfolding s2_def by (rule calm_trans [OF c1 raise_alarms_calm])
    define again where "again = (if blocking \<noteq> [] then build_context ops env acct ps (cy_correlations inp) blocking else (\<lambda>s. (Inr ctx, s)))"
    obtain r3 s3 where b3: "again s2 = (r3, s3)" by fastforce
    have c3: "calm s s3"
      using c2 b3 calm_trans [OF c2 build_context_calm(1)] by (auto simp: again_def split: if_splits)
    have eq: "act_on_book ops env inp kill acct ps s = (case r3 of Inl e \<Rightarrow> (Inl e, s3)
        | Inr ctx' \<Rightarrow> act_bind (manage_positions ops env (cy_atr inp) ps ctx') (\<lambda>_. entry_step ops env inp kill blocking ctx') s3)"
      unfolding act_on_book_def act_bind_def [of "build_context ops env acct ps (cy_correlations inp) []"] b1 Inr Let_def prod.case sum.case
        alarms_def [symmetric] blocking_def [symmetric] s2_def [symmetric] again_def [symmetric] act_bind_def [of again] b3
      by (rule refl)
    show ?thesis
    proof (cases r3)
      case (Inl e)
      then show ?thesis using calm_idle [OF c3] by (simp add: eq)
    next
      case r3: (Inr ctx')
      have cur: "current_context env ctx' s3"
      proof (cases "blocking = []")
        case True
        then have "ctx' = ctx" "s3 = s2" using b3 r3 by (simp_all add: again_def)
        then show ?thesis using current_calm [OF build_current [OF b1 [unfolded Inr]] raise_alarms_calm] by (simp add: s2_def)
      next
        case False
        then show ?thesis using b3 r3 build_current by (simp add: again_def)
      qed
      obtain r4 s4 where m: "manage_positions ops env (cy_atr inp) ps ctx' s3 = (r4, s4)" by fastforce
      have m4: "calm s3 s4" using calm_actionD [OF manage_positions_calm, of s3 ops env "cy_atr inp" ps ctx'] m by simp
      have c4: "calm s s4" by (rule calm_trans [OF c3 m4])
      show ?thesis
      proof (cases r4)
        case (Inl e)
        then show ?thesis using calm_idle [OF c4] by (simp add: eq r3 act_bind_def m)
      next
        case (Inr u)
        have "no_entries env s4" using assms(1) calm_halted [OF c4] by (rule no_entries_stays)
        then have "idle s4 (snd (entry_step ops env inp kill blocking ctx' s4))"
          using entry_step_idle [OF current_calm [OF cur m4] _ assms(2,3)] by blast
        then show ?thesis using idle_trans [OF calm_idle [OF c4]] by (simp add: eq r3 act_bind_def m Inr)
      qed
    qed
  qed
qed

text \<open>
  C1. A cycle that may not enter opens nothing. When the agent is halted or the kill file present, the licence does not
  permit entries, the session is closed, or the mode is OBSERVE or ADVISORY, then over the whole cycle (the account and
  book readings, the resolution of unknown orders, the reconciliation, the alarms, the protection of open positions)
  the venue is never asked to open a position, whatever it answers and wherever an exception ends the cycle.
\<close>
theorem blocked_cycle_opens_nothing:
  assumes "no_entries env s"
  shows "submits (ag_oms (snd (cycle ops env inp s))) = submits (ag_oms s)
    \<and> (if du_halted (ag_state s) then du_halted (ag_state (snd (cycle ops env inp s))) else True)"
proof -
  have "idle s (snd (cycle ops env inp s))"
  proof (cases "kill_read (en_kill env)")
    case (Inl e)
    then show ?thesis by (simp add: cycle_def)
  next
    case k: (Inr k)
    obtain r1 s1 where a: "read_account ops s = (r1, s1)" by fastforce
    have i1: "idle s s1" using calm_idle [OF calm_actionD [OF calm_read_account], of s ops] a by simp
    show ?thesis
    proof (cases r1)
      case (Inl e)
      then show ?thesis using idle_trans [OF i1 calm_idle [OF calm_journal]] by (simp add: cycle_def k a)
    next
      case (Inr acct)
      define s2 where "s2 = observe_account (cg_risk (en_cfg env)) (en_now env) acct s1"
      have i2: "idle s s2" unfolding s2_def by (rule idle_trans [OF i1 observe_idle])
      obtain r3 s3 where p: "read_positions ops s2 = (r3, s3)" by fastforce
      have i3: "idle s s3"
        using idle_trans [OF i2 calm_idle [OF calm_actionD [OF calm_read_positions]], of ops] p by simp
      show ?thesis
      proof (cases r3)
        case (Inl e)
        then show ?thesis
          using idle_trans [OF i3 calm_idle [OF calm_journal]] Inr by (simp add: cycle_def k a Let_def s2_def [symmetric] p)
      next
        case r3: (Inr ps)
        obtain r4 s4 where rs: "reconcile_step ops env (local_book s2) ps s3 = (r4, s4)" by fastforce
        have i4: "idle s s4" by (rule idle_trans [OF i3 idle_actionD [OF reconcile_step_idle rs]])
        show ?thesis
        proof (cases r4)
          case (Inl e)
          then show ?thesis
            using i4 Inr r3 by (simp add: cycle_def k a Let_def s2_def [symmetric] p act_bind_def rs)
        next
          case r4: (Inr ps')
          obtain r5 s5 where b: "act_on_book ops env inp (ks_engaged k) acct ps' s4 = (r5, s5)" by fastforce
          have "no_entries env s4" using assms i4 by (auto simp: idle_def intro: no_entries_stays)
          then have i5: "idle s s5" using idle_trans [OF i4] act_on_book_idle [OF _ k refl, of s4 ops inp acct ps'] b by simp
          then show ?thesis
            using Inr r3 r4 by (cases r5) (simp_all add: cycle_def k a Let_def s2_def [symmetric] p act_bind_def rs b idle_def)
        qed
      qed
    qed
  qed
  then show ?thesis by (simp add: idle_def)
qed

definition demo_inputs :: cycle_inputs where
  "demo_inputs = \<lparr>cy_regime = None, cy_news = None, cy_correlations = [], cy_group_view = None, cy_atr = (\<lambda>_ _. None)\<rparr>"

lemma blocked_cycle_opens_nothing_witness:
  "submits (ag_oms (snd (cycle demo_ops demo_env demo_inputs (agent_halt ''test'' demo_agent))))
     = submits (ag_oms (agent_halt ''test'' demo_agent))
   \<and> du_halted (ag_state (snd (cycle demo_ops demo_env demo_inputs (agent_halt ''test'' demo_agent))))"
proof -
  have "no_entries demo_env (agent_halt ''test'' demo_agent)" by (simp add: no_entries_def stopped_def)
  from blocked_cycle_opens_nothing [OF this, of demo_ops demo_inputs] show ?thesis by simp
qed

section \<open>The start\<close>










section \<open>Protection\<close>

lemma restart_journal [simp]: "ag_state (restart acct (journal_agent e s)) = ag_state (restart acct s)"
  by (auto simp: restart_def load_state_def save_state_def core_defs split: state_file.splits)

text \<open>
  A position is scaled out once, also across a crash. When the venue has answered a scale-out with a fill, whole or
  partial, the flag is on disk before anything else happens: the process that starts next attaches it to the
  position, and the scale-out rule then proposes nothing.
\<close>
theorem scale_out_survives_crash:
  assumes "pi_action act = PARTIAL_CLOSE" "pi_close_lots act = Some lots" "lots \<noteq> 0"
    and "ax_close ops (om_broker (ag_oms s)) (p_instrument pos) (Some lots) ''partial_take'' = (Inr res, b)"
    and "sb_state res \<in> {FILLED, PARTIAL}" "ag_disk_writable s" "distinct (map fst (metas s))"
    and "or_default '''' (pm_side (meta_of (p_instrument pos) s)) = side_name (p_side pos)"
    and "p_instrument v = p_instrument pos" "p_side v = p_side pos"
  shows "\<exists>w s'. hydrate [v] (restart acct (apply_instruction ops pos act s)) = ([w], s')
    \<and> p_partial_taken w \<and> partial_rule w inst cfg r = []"
proof -
  let ?name = "p_instrument pos"
  define m where "m = meta_of ?name s"
  define s0 where "s0 = set_meta ?name m s"
  define s1 where "s1 = s0\<lparr>ag_oms := (ag_oms s0)\<lparr>om_broker := b\<rparr>\<rparr>"
  have "ag_oms s0 = ag_oms s" by (simp add: s0_def set_meta_def upd_def)
  then have c: "on_broker (\<lambda>b. ax_close ops b ?name (Some lots) ''partial_take'') s0 = (Inr res, s1)"
    using assms(4) by (simp add: on_broker_def s1_def)
  have ms1: "metas s1 = dset (metas s) ?name m" by (simp add: s1_def metas_def s0_def set_meta_def)
  then have m1: "meta_of ?name s1 = m" by (simp add: meta_of_def or_default_def)
  define m2 where "m2 = scale_out_meta pos lots m"
  have m2: "pm_partial_taken m2 = Some True" "pm_side m2 = pm_side m" by (simp_all add: m2_def scale_out_meta_def Let_def)
  define t where "t = set_meta ?name m2 s1"
  have a: "apply_instruction ops pos act s = journal_agent (PartialClosed ?name) (save_state t)"
    using assms(1-3,5) c by (simp add: apply_instruction_def Let_def m_def [symmetric] s0_def [symmetric] m1 m2_def [symmetric] t_def)
  define u where "u = restart acct (save_state t)"
  have w: "ag_disk_writable t" "distinct (map fst (metas t))"
    using assms(6,7) by (simp_all add: t_def s1_def s0_def set_meta_def metas_def distinct_update)
  have "metas (restart acct (apply_instruction ops pos act s)) = metas u" by (simp add: metas_def a u_def)
  moreover have "dget (metas u) ?name = Some (load_meta m2)"
    using restart_metas [OF w, of acct ?name] by (simp add: u_def t_def)
  ultimately have d: "dget (metas (restart acct (apply_instruction ops pos act s))) (p_instrument v) = Some (load_meta m2)"
    using assms(9) by simp
  define w1 where "w1 = attach_meta (load_meta m2) v"
  have one: "hydrate_one v (restart acct (apply_instruction ops pos act s)) = (w1, restart acct (apply_instruction ops pos act s))"
    using d assms(8,10) m2(2) by (simp add: hydrate_one_def load_meta_sel w1_def m_def)
  have p: "p_partial_taken w1" using m2(1) by (simp add: w1_def attach_meta_def load_meta_def dflt_def or_default_def)
  have "p_partial_taken (reattach_excursion ms w1)" for ms
    using p by (simp add: reattach_excursion_def split: option.split)
  then have "p_partial_taken w \<and> partial_rule w inst cfg r = []"
    if "w = reattach_excursion (metas (prune_metas [v] (restart acct (apply_instruction ops pos act s)))) w1" for w
    using that by (simp add: partial_rule_def)
  then show ?thesis by (simp add: hydrate_def one Let_def)
qed

text \<open>
  The exits that read only the clock need no exchange rate. When a quoted position is due to be closed before the
  weekend, managing it asks the venue to close it and does nothing else, whatever rates are known; afterwards the
  agent is halted or has dropped the position's record.
\<close>
theorem weekend_exit_needs_no_rate:
  assumes "weekend_flat_enabled (cg_risk (en_cfg env))"
    and "weekend_flat pos (now_ns ctx) (Some (friday_close_utc_hour (cg_risk (en_cfg env)))) 16 = Inr (Some i)"
    and "dget (sn_quotes (en_snap env)) (p_instrument pos) = Some q" "dget (ax_instruments ops) (p_instrument pos) = Some inst"
  shows "manage_position ops env atr ctx pos s = (Inr (), snd (close_at_venue ops pos (pi_rule i) s))
    \<and> (du_halted (ag_state (snd (manage_position ops env atr ctx pos s)))
       \<or> dget (metas (snd (manage_position ops env atr ctx pos s))) (p_instrument pos) = None)"
proof -
  have e: "manage_position ops env atr ctx pos s = (Inr (), snd (close_at_venue ops pos (pi_rule i) s))"
    using assms by (simp add: manage_position_def clock_exit_def res_bind_def Let_def)
  have "du_halted (ag_state (snd (close_at_venue ops pos c s))) \<or> dget (metas (snd (close_at_venue ops pos c s))) (p_instrument pos) = None" for c
  proof -
    obtain r s1 where c: "on_broker (\<lambda>b. ax_close ops b (p_instrument pos) None (take 32 c)) s = (r, s1)" by fastforce
    obtain book s2 where b: "on_broker (ax_positions ops) s1 = (book, s2)" by fastforce
    show ?thesis
      by (cases r; cases book) (simp_all add: close_at_venue_def Let_def c b del: on_broker_core)
  qed
  then show ?thesis using e by simp
qed

definition held_position :: position where
  "held_position = eur_position\<lparr>p_initial_risk := 20\<rparr>"

definition held_ops :: "unit agent_ops" where
  "held_ops = demo_ops\<lparr>ax_close := (\<lambda>b _ _ _. (Inr (plain_result FILLED), b))\<rparr>"

definition held_agent :: "unit agent" where
  "held_agent = set_meta ''EUR_USD'' (empty_meta\<lparr>pm_side := Some ''BUY'', pm_initial_risk := Some 20\<rparr>) demo_agent"

definition take_half :: protect_instruction where
  "take_half = \<lparr>pi_action = PARTIAL_CLOSE, pi_instrument = ''EUR_USD'', pi_new_stop = None, pi_close_lots = Some (5/100),
     pi_r_at_trigger = 1, pi_rule = ''partial_take''\<rparr>"

lemma held_metas: "metas held_agent = [(''EUR_USD'', empty_meta\<lparr>pm_side := Some ''BUY'', pm_initial_risk := Some 20\<rparr>)]"
  by (simp add: held_agent_def) (simp add: metas_def demo_agent_def fresh_durable_def)

lemma scale_out_survives_crash_witness:
  "\<exists>w s'. hydrate [eur_position] (restart demo_account (apply_instruction held_ops held_position take_half held_agent)) = ([w], s')
    \<and> p_partial_taken w \<and> partial_rule w eur_usd default_risk_config 2 = []"
proof (rule scale_out_survives_crash)
  show "ax_close held_ops (om_broker (ag_oms held_agent)) (p_instrument held_position) (Some (5/100)) ''partial_take''
      = (Inr (plain_result FILLED), om_broker (ag_oms held_agent))"
    by (simp add: held_ops_def)
  show "or_default '''' (pm_side (meta_of (p_instrument held_position) held_agent)) = side_name (p_side held_position)"
    by (simp add: meta_of_def held_metas held_position_def eur_position_def or_default_def side_name_def)
  show "ag_disk_writable held_agent" by (simp add: held_agent_def set_meta_def demo_agent_def)
qed (simp_all add: take_half_def plain_result_def held_metas held_position_def eur_position_def)

text \<open>A Friday, at nine in the evening UTC.\<close>

lemma weekend_exit_needs_no_rate_witness:
  "let env = demo_env; ctx = demo_context\<lparr>now_ns := 162000000000000, conversions := []\<rparr>;
       s' = snd (manage_position held_ops env (\<lambda>_ _. None) ctx held_position held_agent)
   in du_halted (ag_state s') \<or> dget (metas s') (p_instrument held_position) = None"
proof -
  have w: "weekend_flat held_position 162000000000000 (Some (friday_close_utc_hour (cg_risk (en_cfg demo_env)))) 16
      = Inr (Some (close_all held_position 0 ''weekend_flat''))"
    by (simp add: weekend_flat_def demo_env_def demo_config_def default_risk_config_def) code_simp
  show ?thesis
    unfolding Let_def
    by (rule weekend_exit_needs_no_rate [THEN conjunct2, of demo_env held_position
          "demo_context\<lparr>now_ns := 162000000000000, conversions := []\<rparr>" "close_all held_position 0 ''weekend_flat''"
          demo_quote held_ops eur_usd "\<lambda>_ _. None" held_agent])
      (simp_all add: w, simp_all add: demo_env_def demo_config_def default_risk_config_def held_position_def eur_position_def held_ops_def demo_ops_def)
qed

end
