(* ===== verification/Proposals.thy ===== *)
theory Proposals
  imports Config
begin

text \<open>
  The change proposals of \<open>src/sentinel/agent/proposals.py\<close>: what may be proposed at all, the checks and the step limit
  of \<open>propose\<close>, the findings that become proposals or scoped lessons, and the queue with its file.

  A setting is a number, absent, or a value that is not a number. Times are readings passed in. Rationale texts are
  left out.
\<close>

section \<open>What may be proposed\<close>

definition FROZEN_PATHS :: "string list" where
  "FROZEN_PATHS =
     [''risk.daily_loss_limit_pct'', ''risk.weekly_loss_limit_pct'', ''risk.monthly_loss_limit_pct'',
      ''risk.max_drawdown_halt_pct'', ''risk.ladder'', ''risk.ladder_enabled'', ''risk.require_broker_side_stop'',
      ''risk.max_trades_per_day'', ''risk.max_trades_per_week'', ''risk.max_trades_per_year'',
      ''risk.max_annual_cost_pct_of_equity'', ''risk.max_gross_leverage'', ''risk.max_currency_exposure_pct'',
      ''risk.max_correlated_risk_pct'', ''risk.risk_per_trade_pct'', ''risk.max_lots_per_trade'',
      ''execution.venue_mode'', ''execution.broker'', ''agent.mode'', ''agent.proposal_requires_human'',
      ''security.dashboard_read_only_default'', ''security.require_totp_for_writes'', ''security.bind_host'',
      ''security.allowed_origins'', ''research.alpha'', ''research.pbo_max'', ''research.min_dsr'',
      ''research.declared_prior'', ''research.cpcv_positive_path_fraction'']"

datatype param_kind = FloatKind | IntKind | DictKind

datatype safer = SaferLower | SaferHigher | EitherWay

record param_spec =
  sp_min :: pyfloat
  sp_max :: pyfloat
  sp_kind :: param_kind
  sp_direction :: safer

definition spec :: "pyfloat \<Rightarrow> pyfloat \<Rightarrow> param_kind \<Rightarrow> safer \<Rightarrow> param_spec" where
  "spec lo hi k d = \<lparr>sp_min = lo, sp_max = hi, sp_kind = k, sp_direction = d\<rparr>"

text \<open>\<open>strategy.params\<close> has no bounds; its kind keeps them from being read.\<close>

definition PROPOSABLE :: "(string, param_spec) dict" where
  "PROPOSABLE =
     [(''risk.breakeven_trigger_r'', spec 0 3 FloatKind SaferLower),
      (''risk.partial_take_r'', spec (1/2) 5 FloatKind SaferLower),
      (''risk.trail_atr_multiple'', spec (1/2) 6 FloatKind SaferLower),
      (''risk.trail_activate_r'', spec 0 3 FloatKind SaferLower),
      (''risk.max_spread_pips_multiple'', spec (11/10) 5 FloatKind SaferLower),
      (''risk.giveback_arm_r'', spec (1/2) 5 FloatKind SaferLower),
      (''risk.partial_take_fraction'', spec (1/10) (8/10) FloatKind SaferHigher),
      (''risk.min_reward_risk'', spec 1 5 FloatKind SaferHigher),
      (''risk.min_stop_pips'', spec 5 100 FloatKind SaferHigher),
      (''risk.min_seconds_between_entries'', spec 60 86400 IntKind SaferHigher),
      (''risk.block_minutes_before_high_impact'', spec 5 240 IntKind SaferHigher),
      (''risk.block_minutes_after_high_impact'', spec 5 240 IntKind SaferHigher),
      (''risk.giveback_keep_fraction'', spec (2/10) (9/10) FloatKind SaferHigher),
      (''strategy.params'', spec 0 0 DictKind EitherWay)]"

section \<open>Findings and proposals\<close>

record pattern_finding =
  pf_pattern :: string
  pf_n :: int
  pf_mean_delta_r :: pyfloat
  pf_t_stat :: pyfloat
  pf_p_value :: pyfloat
  pf_p_value_adjusted :: pyfloat
  pf_significant :: bool
  pf_n_tests_in_family :: int
  pf_diagnosis :: string
  pf_dominant_regime :: string

datatype pvalue = Num pyfloat | Absent | NotANumber string

fun as_float :: "pvalue \<Rightarrow> pyfloat res" where
  "as_float (Num x) = Inr x"
| "as_float Absent = Inl TypeError"
| "as_float (NotANumber _) = Inl ValueError"

datatype proposal_status = Pending | Approved | Rejected | Validated | Applied | Expired

record proposal =
  pp_id :: string
  pp_created_ns :: int
  pp_path :: string
  pp_current_value :: pvalue
  pp_proposed_value :: pvalue
  pp_evidence :: pattern_finding
  pp_sample_size :: int
  pp_expected_effect_r :: pyfloat
  pp_effect_ci_low :: pyfloat
  pp_effect_ci_high :: pyfloat
  pp_p_value :: pyfloat
  pp_status :: proposal_status
  pp_validation_run_id :: "string option"
  pp_reviewed_by :: "string option"
  pp_reviewed_ns :: "int option"
  pp_expires_ns :: int
  pp_strategy :: "string option"

text \<open>Why \<open>propose\<close> refuses, or the exception that is not a refusal.\<close>

datatype propose_error =
    FrozenPath
  | NotProposable
  | ThinEvidence
  | TowardMoreRisk
  | NotSignificant
  | NotSurviving
  | WrongDiagnosis
  | InvalidConfiguration
  | StepTowardMoreRisk
  | Escapes exn

section \<open>The step\<close>

text \<open>\<open>round(v, 4)\<close> is the double whose \<open>repr\<close> has at most four decimals.\<close>

definition round_places4 :: "pyfloat \<Rightarrow> pyfloat" where
  "round_places4 x = of_int (round_half_even (x * 10000)) / 10000"

definition clamp_number :: "param_spec \<Rightarrow> pyfloat \<Rightarrow> pyfloat" where
  "clamp_number sp x =
     (let v = max (sp_min sp) (min (sp_max sp) x)
      in if sp_kind sp = IntKind then of_int (round_half_even v) else round_places4 v)"

definition clamp :: "string \<Rightarrow> pvalue \<Rightarrow> propose_error + pvalue" where
  "clamp path v =
     (case dget PROPOSABLE path of
        None \<Rightarrow> Inl NotProposable
      | Some sp \<Rightarrow>
          if sp_kind sp = DictKind then Inr v
          else (case as_float v of Inl e \<Rightarrow> Inl (Escapes e) | Inr x \<Rightarrow> Inr (Num (clamp_number sp x))))"

text \<open>Whether a move from one value to another goes toward more risk; a value that is no number is not compared.\<close>

definition riskier :: "param_spec \<Rightarrow> pvalue \<Rightarrow> pvalue \<Rightarrow> bool" where
  "riskier sp cur new =
     (sp_direction sp \<noteq> EitherWay \<and> sp_kind sp \<noteq> DictKind \<and>
      (case (as_float cur, as_float new) of
         (Inr c, Inr n) \<Rightarrow> n \<noteq> c \<and> (if sp_direction sp = SaferLower then c < n else \<not> c < n)
       | _ \<Rightarrow> False))"

text \<open>The default risk configuration with one field replaced, for the dry run.\<close>

definition with_field :: "string \<Rightarrow> pyfloat \<Rightarrow> risk_config \<Rightarrow> risk_config" where
  "with_field path x c =
     (if path = ''risk.breakeven_trigger_r'' then c\<lparr>breakeven_trigger_r := x\<rparr>
      else if path = ''risk.partial_take_r'' then c\<lparr>partial_take_r := x\<rparr>
      else if path = ''risk.trail_atr_multiple'' then c\<lparr>trail_atr_multiple := x\<rparr>
      else if path = ''risk.trail_activate_r'' then c\<lparr>trail_activate_r := x\<rparr>
      else if path = ''risk.max_spread_pips_multiple'' then c\<lparr>max_spread_pips_multiple := x\<rparr>
      else if path = ''risk.giveback_arm_r'' then c\<lparr>giveback_arm_r := x\<rparr>
      else if path = ''risk.partial_take_fraction'' then c\<lparr>partial_take_fraction := x\<rparr>
      else if path = ''risk.min_reward_risk'' then c\<lparr>min_reward_risk := x\<rparr>
      else if path = ''risk.min_stop_pips'' then c\<lparr>min_stop_pips := x\<rparr>
      else if path = ''risk.min_seconds_between_entries'' then c\<lparr>min_seconds_between_entries := \<lfloor>x\<rfloor>\<rparr>
      else if path = ''risk.block_minutes_before_high_impact'' then c\<lparr>block_minutes_before_high_impact := \<lfloor>x\<rfloor>\<rparr>
      else if path = ''risk.block_minutes_after_high_impact'' then c\<lparr>block_minutes_after_high_impact := \<lfloor>x\<rfloor>\<rparr>
      else if path = ''risk.giveback_keep_fraction'' then c\<lparr>giveback_keep_fraction := x\<rparr>
      else c)"

definition dry_run_ok :: "string \<Rightarrow> pvalue \<Rightarrow> bool" where
  "dry_run_ok path v =
     (case v of
        Num x \<Rightarrow> (case mk_risk_config (with_field path x default_risk_config) of Inl _ \<Rightarrow> False | Inr _ \<Rightarrow> True)
      | _ \<Rightarrow> False)"

definition relative_step :: "pyfloat \<Rightarrow> pyfloat \<Rightarrow> pyfloat" where
  "relative_step cur new = fround (\<bar>fround (new - cur)\<bar> / max (1 / 1000000000) \<bar>cur\<bar>)"

definition limited_value :: "pyfloat \<Rightarrow> pyfloat \<Rightarrow> pyfloat \<Rightarrow> pyfloat" where
  "limited_value cur new max_rel =
     (let sign = (if cur < new then 1 else - 1) in fround (cur * fround (1 + fround (sign * max_rel))))"

text \<open>The step limit; a value that cannot be read as a number is left as it is.\<close>

definition limit_step :: "param_spec \<Rightarrow> pvalue \<Rightarrow> pyfloat \<Rightarrow> pvalue \<Rightarrow> pvalue" where
  "limit_step sp cur max_rel v =
     (if sp_kind sp = DictKind \<or> cur = Absent \<or> cur = Num 0 then v
      else (case (as_float v, as_float cur) of
         (Inr x, Inr c) \<Rightarrow>
           if max_rel < relative_step c x then Num (clamp_number sp (limited_value c x max_rel)) else v
       | _ \<Rightarrow> v))"

section \<open>Proposing\<close>

text \<open>The p-value that counts is the corrected one, when the finding comes from a family of tests.\<close>

definition effective_p :: "pattern_finding \<Rightarrow> pyfloat" where
  "effective_p f = (if pf_n_tests_in_family f \<noteq> 0 then pf_p_value_adjusted f else pf_p_value f)"

definition not_a_parameter :: "string \<Rightarrow> bool" where
  "not_a_parameter d \<longleftrightarrow> d \<in> {''luck'', ''regime'', ''insufficient'', ''descriptive''}"

definition hex_digit :: "nat \<Rightarrow> char" where
  "hex_digit n = ''0123456789abcdef'' ! n"

fun hex_of :: "nat \<Rightarrow> string" where
  "hex_of n = (if n < 16 then [hex_digit n] else hex_of (n div 16) @ [hex_digit (n mod 16)])"

declare hex_of.simps [simp del]

text \<open>The half-width of the effect's interval.\<close>

definition effect_half_width :: "pattern_finding \<Rightarrow> pyfloat" where
  "effect_half_width f =
     (let se = (if pf_t_stat f \<noteq> 0 then fround (\<bar>pf_mean_delta_r f\<bar> / max (1 / 1000000000) \<bar>pf_t_stat f\<bar>) else 0)
      in fround (fround (196/100) * se))"

definition build_proposal ::
  "string \<Rightarrow> pvalue \<Rightarrow> pvalue \<Rightarrow> pattern_finding \<Rightarrow> string option \<Rightarrow> int \<Rightarrow> int \<Rightarrow> proposal" where
  "build_proposal path cur new f strategy ttl_days now =
     \<lparr>pp_id = CHR ''P'' # hex_of (nat (now div 1000000)), pp_created_ns = now, pp_path = path, pp_current_value = cur,
      pp_proposed_value = new, pp_evidence = f, pp_sample_size = pf_n f, pp_expected_effect_r = pf_mean_delta_r f,
      pp_effect_ci_low = round_places4 (fround (pf_mean_delta_r f - effect_half_width f)),
      pp_effect_ci_high = round_places4 (fround (pf_mean_delta_r f + effect_half_width f)),
      pp_p_value = pf_p_value f, pp_status = Pending, pp_validation_run_id = None, pp_reviewed_by = None,
      pp_reviewed_ns = None, pp_expires_ns = now + ttl_days * 86400 * 1000000000, pp_strategy = strategy\<rparr>"

record proposal_limits =
  pl_max_relative_change :: pyfloat
  pl_ttl_days :: int
  pl_min_sample :: int
  pl_alpha :: pyfloat

definition default_limits :: proposal_limits where
  "default_limits = \<lparr>pl_max_relative_change = 35/100, pl_ttl_days = 21, pl_min_sample = 40, pl_alpha = 1/100\<rparr>"

text \<open>The gates that read the finding only.\<close>

definition evidence_gate :: "proposal_limits \<Rightarrow> pattern_finding \<Rightarrow> propose_error option" where
  "evidence_gate pl f =
     (if pl_alpha pl \<le> effective_p f then Some NotSignificant
      else if pf_n_tests_in_family f \<noteq> 0 \<and> \<not> pf_significant f then Some NotSurviving
      else if not_a_parameter (pf_diagnosis f) then Some WrongDiagnosis
      else None)"

definition propose ::
  "proposal_limits \<Rightarrow> string \<Rightarrow> pvalue \<Rightarrow> pvalue \<Rightarrow> pattern_finding \<Rightarrow> string option \<Rightarrow> int \<Rightarrow> propose_error + proposal" where
  "propose pl path cur proposed f strategy now =
     (if path \<in> set FROZEN_PATHS then Inl FrozenPath
      else
      (case dget PROPOSABLE path of
         None \<Rightarrow> Inl NotProposable
       | Some sp \<Rightarrow>
           if pf_n f < pl_min_sample pl then Inl ThinEvidence
           else
           (case clamp path proposed of
              Inl e \<Rightarrow> Inl e
            | Inr v \<Rightarrow>
                if riskier sp cur v then Inl TowardMoreRisk
                else
                (case evidence_gate pl f of
                   Some e \<Rightarrow> Inl e
                 | None \<Rightarrow>
                     if take 5 path = ''risk.'' \<and> sp_kind sp \<noteq> DictKind \<and> \<not> dry_run_ok path v
                     then Inl InvalidConfiguration
                     else
                     let final = limit_step sp cur (pl_max_relative_change pl) v
                     in if riskier sp cur final then Inl StepTowardMoreRisk
                        else Inr (build_proposal path cur final f strategy (pl_ttl_days pl) now)))))"

section \<open>Only toward caution\<close>

definition on_places4 :: "pyfloat \<Rightarrow> bool" where
  "on_places4 x \<longleftrightarrow> round_places4 x = x"

definition spec_ok :: "param_spec \<Rightarrow> bool" where
  "spec_ok sp \<longleftrightarrow> sp_min sp \<le> sp_max sp \<and> round_places4 (sp_min sp) = sp_min sp \<and> round_places4 (sp_max sp) = sp_max sp
     \<and> (sp_kind sp = IntKind \<longrightarrow> of_int (round_half_even (sp_min sp)) = sp_min sp \<and> of_int (round_half_even (sp_max sp)) = sp_max sp)"

lemma proposable_ok: "dget PROPOSABLE path = Some sp \<Longrightarrow> spec_ok sp"
proof -
  have "list_all (\<lambda>(_, sp). spec_ok sp) PROPOSABLE" unfolding spec_ok_def by code_simp
  then show "dget PROPOSABLE path = Some sp \<Longrightarrow> spec_ok sp" by (auto simp: list_all_iff dest: map_of_SomeD)
qed

lemma frozen_not_proposable: "path \<in> set FROZEN_PATHS \<Longrightarrow> dget PROPOSABLE path = None"
proof -
  have "list_all (\<lambda>p. dget PROPOSABLE p = None) FROZEN_PATHS" by code_simp
  then show "path \<in> set FROZEN_PATHS \<Longrightarrow> dget PROPOSABLE path = None" by (simp add: list_all_iff)
qed

lemma round_places4_mono: "x \<le> y \<Longrightarrow> round_places4 x \<le> round_places4 y"
  by (simp add: round_places4_def divide_right_mono round_half_even_mono)

lemma clamp_number_range:
  assumes "spec_ok sp"
  shows "sp_min sp \<le> clamp_number sp x \<and> clamp_number sp x \<le> sp_max sp"
proof -
  define v where "v = max (sp_min sp) (min (sp_max sp) x)"
  have v: "sp_min sp \<le> v" "v \<le> sp_max sp" using assms by (auto simp: v_def spec_ok_def)
  show ?thesis
  proof (cases "sp_kind sp = IntKind")
    case True
    then have "of_int (round_half_even (sp_min sp)) \<le> (of_int (round_half_even v) :: rat)"
        "of_int (round_half_even v) \<le> (of_int (round_half_even (sp_max sp)) :: rat)"
      using v by (simp_all add: round_half_even_mono)
    then show ?thesis using True assms by (simp add: clamp_number_def v_def [symmetric] Let_def spec_ok_def)
  next
    case False
    then show ?thesis
      using round_places4_mono [OF v(1)] round_places4_mono [OF v(2)] assms
      by (simp add: clamp_number_def v_def [symmetric] Let_def spec_ok_def)
  qed
qed

text \<open>What a returned proposal has passed.\<close>

lemma propose_Inr:
  "propose pl path cur proposed f strategy now = Inr p \<longleftrightarrow>
     path \<notin> set FROZEN_PATHS
     \<and> (\<exists>sp v. dget PROPOSABLE path = Some sp \<and> pl_min_sample pl \<le> pf_n f \<and> clamp path proposed = Inr v
        \<and> \<not> riskier sp cur v \<and> evidence_gate pl f = None
        \<and> \<not> (take 5 path = ''risk.'' \<and> sp_kind sp \<noteq> DictKind \<and> \<not> dry_run_ok path v)
        \<and> \<not> riskier sp cur (limit_step sp cur (pl_max_relative_change pl) v)
        \<and> p = build_proposal path cur (limit_step sp cur (pl_max_relative_change pl) v) f strategy (pl_ttl_days pl) now)"
  by (auto simp: propose_def Let_def not_less split: option.split sum.split)

lemma clamp_Inr:
  assumes "clamp path proposed = Inr v" "dget PROPOSABLE path = Some sp" "sp_kind sp \<noteq> DictKind"
  shows "\<exists>x. proposed = Num x \<and> v = Num (clamp_number sp x)"
  using assms by (cases proposed) (auto simp: clamp_def)

lemma limit_step_number:
  "\<exists>y. limit_step sp cur mr (Num (clamp_number sp x)) = Num (clamp_number sp y)"
  by (auto simp: limit_step_def split: sum.split)

text \<open>
  C25. A proposal only ever counsels caution. Whatever is asked for, a proposal that \<open>propose\<close> returns is for a setting
  that is not a frozen risk control, within the absolute bounds of that setting, and never moves it toward more risk,
  neither before nor after the step limit; and its finding has the sample, the corrected significance and a diagnosis
  that does not blame luck or a regime.
\<close>
theorem proposal_only_cautious:
  assumes "propose pl path cur proposed f strategy now = Inr p"
  shows "path \<notin> set FROZEN_PATHS \<and> pp_path p = path \<and> pp_status p = Pending
    \<and> pl_min_sample pl \<le> pf_n f \<and> effective_p f < pl_alpha pl \<and> (pf_n_tests_in_family f = 0 \<or> pf_significant f)
    \<and> \<not> not_a_parameter (pf_diagnosis f)
    \<and> (\<exists>sp. dget PROPOSABLE path = Some sp
        \<and> (if sp_kind sp = DictKind then True
           else \<exists>n. pp_proposed_value p = Num n \<and> sp_min sp \<le> n \<and> n \<le> sp_max sp
             \<and> (case cur of Num c \<Rightarrow> (if sp_direction sp = SaferLower then n \<le> c else True)
                    \<and> (if sp_direction sp = SaferHigher then c \<le> n else True)
                | _ \<Rightarrow> True)))"
proof -
  obtain sp v where s: "dget PROPOSABLE path = Some sp" and c: "clamp path proposed = Inr v"
    and e: "evidence_gate pl f = None" and r: "\<not> riskier sp cur (limit_step sp cur (pl_max_relative_change pl) v)"
    and p: "p = build_proposal path cur (limit_step sp cur (pl_max_relative_change pl) v) f strategy (pl_ttl_days pl) now"
    and m: "path \<notin> set FROZEN_PATHS" "pl_min_sample pl \<le> pf_n f"
    using assms unfolding propose_Inr by blast
  have g: "effective_p f < pl_alpha pl" "pf_n_tests_in_family f = 0 \<or> pf_significant f" "\<not> not_a_parameter (pf_diagnosis f)"
    using e by (auto simp: evidence_gate_def split: if_splits)
  have n: "\<exists>n. pp_proposed_value p = Num n \<and> sp_min sp \<le> n \<and> n \<le> sp_max sp
       \<and> (case cur of Num c \<Rightarrow> (if sp_direction sp = SaferLower then n \<le> c else True)
                    \<and> (if sp_direction sp = SaferHigher then c \<le> n else True)
                | _ \<Rightarrow> True)" if k: "sp_kind sp \<noteq> DictKind"
  proof -
    obtain y where y: "limit_step sp cur (pl_max_relative_change pl) v = Num (clamp_number sp y)"
      using clamp_Inr [OF c s k] limit_step_number by metis
    then have "pp_proposed_value p = Num (clamp_number sp y)" by (simp add: p build_proposal_def)
    then show ?thesis
      using clamp_number_range [OF proposable_ok [OF s], of y] r k
      by (auto simp: y riskier_def split: pvalue.split)
  qed
  show ?thesis using m g s n by (auto simp: p build_proposal_def)
qed

section \<open>Only one step\<close>

definition step_grain :: "param_spec \<Rightarrow> rat" where
  "step_grain sp = (if sp_kind sp = IntKind then 1 / 2 else 1 / 20000)"

lemma round_places4_err: "\<bar>round_places4 x - x\<bar> \<le> 1 / 20000"
proof -
  have "round_places4 x - x = (of_int (round_half_even (x * 10000)) - x * 10000) / 10000"
    by (simp add: round_places4_def field_simps)
  then have "\<bar>round_places4 x - x\<bar> = \<bar>of_int (round_half_even (x * 10000)) - x * 10000\<bar> / 10000"
    by (simp only: abs_divide abs_numeral)
  also have "\<dots> \<le> (1/2) / 10000" by (intro divide_right_mono round_half_even_err) simp
  finally show ?thesis by simp
qed

lemma clamp_number_near:
  assumes "sp_min sp \<le> c" "c \<le> sp_max sp"
  shows "\<bar>clamp_number sp y - c\<bar> \<le> \<bar>y - c\<bar> + step_grain sp"
proof -
  define v where "v = max (sp_min sp) (min (sp_max sp) y)"
  have "\<bar>v - c\<bar> \<le> \<bar>y - c\<bar>" using assms by (auto simp: v_def)
  moreover have "\<bar>clamp_number sp y - v\<bar> \<le> step_grain sp"
    using round_half_even_err [of v] round_places4_err [of v]
    by (simp add: clamp_number_def v_def [symmetric] Let_def step_grain_def)
  ultimately show ?thesis by linarith
qed

lemma unlimited_step:
  assumes "relative_step c x \<le> mr" "1 / 1000000000 \<le> c" "mr \<le> 1"
  shows "\<bar>x - c\<bar> \<le> c * (mr + 1 / 10 ^ 12)"
proof -
  define d where "d = \<bar>x - c\<bar>"
  have c: "0 < c" "max (1 / 1000000000) \<bar>c\<bar> = c" using assms(2) by (simp_all add: max_def)
  define y where "y = \<bar>fround (x - c)\<bar> / c"
  have y: "0 \<le> y" using c by (simp add: y_def)
  have "y * (1 - feps) \<le> mr" using F.rnd_lower [OF y] assms(1) by (simp add: relative_step_def c y_def)
  then have "c * (y * (1 - feps)) \<le> c * mr" using c by (intro mult_left_mono) simp_all
  then have "\<bar>fround (x - c)\<bar> * (1 - feps) \<le> c * mr" using c by (simp add: y_def)
  moreover have "d * (1 - feps) \<le> \<bar>fround (x - c)\<bar>" using F.rnd_lower [of d] F.rnd_abs [of "x - c"] by (simp add: d_def)
  then have "d * (1 - feps) * (1 - feps) \<le> \<bar>fround (x - c)\<bar> * (1 - feps)"
    using F.eps_small by (intro mult_right_mono) simp_all
  ultimately have 1: "d * ((1 - feps) * (1 - feps)) \<le> c * mr" by (simp add: mult.assoc)
  have "mr \<le> (mr + 1 / 10 ^ 12) * ((1 - feps) * (1 - feps))"
    using assms(3) by (simp add: feps_def field_simps)
  then have "c * mr \<le> c * ((mr + 1 / 10 ^ 12) * ((1 - feps) * (1 - feps)))" using c by (intro mult_left_mono) simp_all
  then have "d * ((1 - feps) * (1 - feps)) \<le> (c * (mr + 1 / 10 ^ 12)) * ((1 - feps) * (1 - feps))"
    using 1 by (simp add: mult.assoc)
  moreover have "0 < (1 - feps) * (1 - feps)" using F.eps_small by simp
  ultimately show ?thesis unfolding d_def by (rule mult_right_le_imp_le)
qed

lemma limited_step:
  assumes "0 < c" "0 \<le> mr" "mr \<le> 1"
  shows "\<bar>limited_value c x mr - c\<bar> \<le> c * (mr + 1 / 10 ^ 12)"
proof -
  define s where "s = (if c < x then 1 else - 1 :: rat)"
  define a where "a = fround (s * mr)"
  define b where "b = fround (1 + a)"
  have s: "\<bar>s * mr\<bar> = mr" using assms by (simp add: s_def)
  have a: "\<bar>a - s * mr\<bar> \<le> mr * feps" using F.rnd_err [of "s * mr"] s by (simp add: a_def)
  have m: "mr * feps \<le> feps" using assms F.eps_small by (simp add: mult_le_cancel_right1)
  have a2: "\<bar>1 + a\<bar> \<le> 3" using a m s assms(3) F.eps_small by linarith
  then have b: "\<bar>b - (1 + a)\<bar> \<le> 3 * feps"
    using order_trans [OF F.rnd_err [of "1 + a"] mult_right_mono [OF a2, of feps]] F.eps_small by (simp add: b_def)
  have bs: "\<bar>b - 1\<bar> \<le> mr + 4 * feps" using a b m s by linarith
  then have b3: "\<bar>b\<bar> \<le> 3" using assms(3) by (auto simp: feps_def abs_le_iff)
  have l: "limited_value c x mr = fround (c * b)" by (simp add: limited_value_def b_def a_def s_def Let_def)
  have "\<bar>fround (c * b) - c * b\<bar> \<le> \<bar>c * b\<bar> * feps" by (rule F.rnd_err)
  also have "\<dots> \<le> (c * 3) * feps" using b3 assms(1) F.eps_small by (intro mult_right_mono) (simp_all add: abs_mult)
  finally have r: "\<bar>fround (c * b) - c * b\<bar> \<le> c * (3 * feps)" by simp
  have "c * b - c = c * (b - 1)" by (simp add: algebra_simps)
  then have "\<bar>c * b - c\<bar> = c * \<bar>b - 1\<bar>" using assms(1) by (simp add: abs_mult)
  also have "\<dots> \<le> c * (mr + 4 * feps)" using bs assms(1) by (intro mult_left_mono) simp_all
  finally have "\<bar>limited_value c x mr - c\<bar> \<le> c * (mr + 4 * feps) + c * (3 * feps)" using r l by linarith
  also have "\<dots> = c * (mr + 7 * feps)" by (simp add: algebra_simps)
  also have "\<dots> \<le> c * (mr + 1 / 10 ^ 12)" using assms(1) by (intro mult_left_mono) (simp_all add: feps_def)
  finally show ?thesis .
qed

text \<open>
  C61. One proposal is one small step. When the current value lies within the bounds of the table, the proposed value
  differs from it by at most the allowed fraction of it, up to the rounding of the result to the setting's grid (half
  a unit for a whole number, half of the fourth decimal otherwise) and one part in a million million for the doubles.
\<close>
theorem step_is_bounded:
  assumes "propose pl path (Num c) proposed f strategy now = Inr p"
    and "dget PROPOSABLE path = Some sp" "sp_kind sp \<noteq> DictKind"
    and "sp_min sp \<le> c" "c \<le> sp_max sp" "1 / 1000000000 \<le> c"
    and "0 \<le> pl_max_relative_change pl" "pl_max_relative_change pl \<le> 1"
  shows "\<exists>n. pp_proposed_value p = Num n
    \<and> \<bar>n - c\<bar> \<le> c * (pl_max_relative_change pl + 1 / 10 ^ 12) + step_grain sp"
proof -
  let ?mr = "pl_max_relative_change pl"
  obtain v where v: "clamp path proposed = Inr v"
    and p: "p = build_proposal path (Num c) (limit_step sp (Num c) ?mr v) f strategy (pl_ttl_days pl) now"
    using assms(1,2) by (auto simp: propose_Inr)
  obtain x where x: "v = Num (clamp_number sp x)" using clamp_Inr [OF v assms(2,3)] by blast
  have c: "0 < c" using assms(6) by simp
  have g: "0 \<le> step_grain sp" by (simp add: step_grain_def)
  show ?thesis
  proof (cases "?mr < relative_step c (clamp_number sp x)")
    case True
    then have "pp_proposed_value p = Num (clamp_number sp (limited_value c (clamp_number sp x) ?mr))"
      using c assms(3) by (simp add: p x build_proposal_def limit_step_def)
    moreover have "\<bar>clamp_number sp (limited_value c (clamp_number sp x) ?mr) - c\<bar> \<le> c * (?mr + 1 / 10 ^ 12) + step_grain sp"
      using clamp_number_near [OF assms(4,5), of "limited_value c (clamp_number sp x) ?mr"]
        limited_step [OF c assms(7,8), of "clamp_number sp x"] by linarith
    ultimately show ?thesis by blast
  next
    case False
    then have "pp_proposed_value p = Num (clamp_number sp x)"
      using c assms(3) by (simp add: p x build_proposal_def limit_step_def)
    moreover have "\<bar>clamp_number sp x - c\<bar> \<le> c * (?mr + 1 / 10 ^ 12) + step_grain sp"
      using unlimited_step [OF _ assms(6,8), of "clamp_number sp x"] False g by linarith
    ultimately show ?thesis by blast
  qed
qed

definition demo_finding :: pattern_finding where
  "demo_finding = \<lparr>pf_pattern = ''tag:news_adjacent'', pf_n = 60, pf_mean_delta_r = - 3/10, pf_t_stat = - 4,
     pf_p_value = 1/1000, pf_p_value_adjusted = 5/1000, pf_significant = True, pf_n_tests_in_family = 20,
     pf_diagnosis = ''parameter'', pf_dominant_regime = ''''\<rparr>"

definition returned :: "propose_error + proposal \<Rightarrow> pvalue option" where
  "returned r = (case r of Inl _ \<Rightarrow> None | Inr p \<Rightarrow> Some (pp_proposed_value p))"

lemma returned_Some: "returned r = Some v \<Longrightarrow> \<exists>p. r = Inr p \<and> pp_proposed_value p = v"
  by (auto simp: returned_def split: sum.splits)

lemma demo_proposed:
  "returned (propose default_limits ''risk.block_minutes_before_high_impact'' (Num 30) (Num 120) demo_finding None 0) = Some (Num 40)"
  by code_simp

text \<open>The cap of 35 percent on 30 minutes is 40.5; a half rounds to the even neighbour.\<close>

lemma proposal_only_cautious_witness:
  "\<exists>p. propose default_limits ''risk.block_minutes_before_high_impact'' (Num 30) (Num 120) demo_finding None 0 = Inr p
     \<and> pp_proposed_value p = Num 40 \<and> \<not> not_a_parameter (pf_diagnosis demo_finding)"
proof -
  obtain p where p: "propose default_limits ''risk.block_minutes_before_high_impact'' (Num 30) (Num 120) demo_finding None 0 = Inr p"
      "pp_proposed_value p = Num 40"
    using returned_Some [OF demo_proposed] by blast
  then show ?thesis using proposal_only_cautious [OF p(1)] by blast
qed

lemma step_is_bounded_witness:
  "\<exists>p n. propose default_limits ''risk.block_minutes_before_high_impact'' (Num 30) (Num 120) demo_finding None 0 = Inr p
     \<and> pp_proposed_value p = Num n \<and> \<bar>n - 30\<bar> \<le> 30 * (35/100 + 1 / 10 ^ 12) + 1/2"
proof -
  obtain p where p: "propose default_limits ''risk.block_minutes_before_high_impact'' (Num 30) (Num 120) demo_finding None 0 = Inr p"
    using returned_Some [OF demo_proposed] by blast
  have "dget PROPOSABLE ''risk.block_minutes_before_high_impact'' = Some (spec 5 240 IntKind SaferHigher)" by code_simp
  from step_is_bounded [OF p this] p show ?thesis by (simp add: spec_def step_grain_def default_limits_def)
qed

section \<open>What the dry run misses\<close>

text \<open>
  The dry run replaces the field in the default configuration, not in the one that is running, and looks at the value
  before the step limit. So the activation of the trail can be lowered only to zero and only when that is one step
  away; and a step that was cut short can end on a value the same check would have refused.
\<close>

lemma dry_run_reads_the_default:
  assumes "0 < x" "x < 1"
  shows "dry_run_ok ''risk.trail_activate_r'' (Num x) = False"
proof -
  have "mk_risk_config (with_field ''risk.trail_activate_r'' x default_risk_config) = Inl ValueError"
    using assms by (simp add: mk_risk_config_def risk_config_coherent_def with_field_def default_risk_config_def)
  then show ?thesis by (simp add: dry_run_ok_def)
qed

lemma cut_step_skips_the_dry_run:
  "returned (propose default_limits ''risk.trail_activate_r'' (Num 1) (Num 0) demo_finding None 0) = Some (Num (65/100))"
  "dry_run_ok ''risk.trail_activate_r'' (Num (65/100)) = False"
  by code_simp (simp add: dry_run_reads_the_default)

text \<open>A current value below the table's minimum is moved to the minimum whatever the step limit says.\<close>

lemma step_limit_yields_to_the_table:
  "returned (propose default_limits ''risk.min_reward_risk'' (Num (1/2)) (Num 2) demo_finding None 0) = Some (Num 1)"
  by code_simp

section \<open>From findings to proposals\<close>

text \<open>The configuration as the values at dotted paths; a path that is not there has the given default.\<close>

definition current_setting :: "(string, pvalue) dict \<Rightarrow> string \<Rightarrow> pyfloat \<Rightarrow> pvalue" where
  "current_setting cfg path dv = (case dget cfg path of None \<Rightarrow> Num dv | Some v \<Rightarrow> v)"

definition supported :: "int \<Rightarrow> pyfloat \<Rightarrow> pattern_finding \<Rightarrow> bool" where
  "supported min_sample alpha f \<longleftrightarrow> effective_p f < alpha \<and> min_sample \<le> pf_n f
     \<and> (pf_significant f \<or> pf_n_tests_in_family f = 0) \<and> \<not> not_a_parameter (pf_diagnosis f)"

text \<open>Which finding argues for which setting, with the default of the setting and the value to ask for.\<close>

definition remedy :: "pyfloat \<Rightarrow> pattern_finding \<Rightarrow> (string \<times> pyfloat \<times> (pyfloat \<Rightarrow> pyfloat)) option" where
  "remedy min_effect f =
     (let pat = pf_pattern f; delta = pf_mean_delta_r f in
      if pat = ''counterfactual:partial_at_1R'' \<and> min_effect < delta
      then Some (''risk.partial_take_r'', 15/10, \<lambda>c. max 1 (fround (c * (75/100))))
      else if pat = ''counterfactual:breakeven_at_1R'' \<and> min_effect < delta
      then Some (''risk.breakeven_trigger_r'', 1, \<lambda>c. max (1/2) (fround (c * fround (8/10))))
      else if pat = ''counterfactual:trail_tighter'' \<and> min_effect < delta
      then Some (''risk.trail_atr_multiple'', 25/10, \<lambda>c. max 1 (fround (c * fround (8/10))))
      else if pat = ''tag:entry_slippage'' \<and> delta < - min_effect
      then Some (''risk.max_spread_pips_multiple'', 25/10, \<lambda>c. max (12/10) (fround (c * fround (8/10))))
      else if pat = ''tag:news_adjacent'' \<and> delta < - min_effect
      then Some (''risk.block_minutes_before_high_impact'', 30, \<lambda>c. min 240 (fround (c * fround (13/10))))
      else None)"

text \<open>One finding; a refusal is skipped, any other exception ends the pass.\<close>

definition derive_one ::
  "proposal_limits \<Rightarrow> pyfloat \<Rightarrow> (string, pvalue) dict \<Rightarrow> string option \<Rightarrow> pattern_finding \<Rightarrow> int \<Rightarrow> proposal option res" where
  "derive_one pl min_effect cfg strategy f now =
     (if \<not> supported (pl_min_sample pl) (pl_alpha pl) f then Inr None
      else
      (case remedy min_effect f of
         None \<Rightarrow> Inr None
       | Some (path, dv, ask) \<Rightarrow>
           res_bind (as_float (current_setting cfg path dv)) (\<lambda>c.
             (case propose pl path (Num c) (Num (ask c)) f strategy now of
                Inr p \<Rightarrow> Inr (Some p)
              | Inl (Escapes e) \<Rightarrow> Inl e
              | Inl _ \<Rightarrow> Inr None))))"

text \<open>\<open>derive_proposals\<close>, with the reading of the clock at each finding.\<close>

fun derive_proposals ::
  "proposal_limits \<Rightarrow> pyfloat \<Rightarrow> (string, pvalue) dict \<Rightarrow> string option \<Rightarrow> (pattern_finding \<times> int) list \<Rightarrow> proposal list res" where
  "derive_proposals pl min_effect cfg strategy [] = Inr []"
| "derive_proposals pl min_effect cfg strategy ((f, now) # fs) =
     res_bind (derive_one pl min_effect cfg strategy f now) (\<lambda>p.
       res_bind (derive_proposals pl min_effect cfg strategy fs) (\<lambda>ps.
         Inr (case p of None \<Rightarrow> ps | Some x \<Rightarrow> x # ps)))"

section \<open>Lessons for one regime\<close>

record regime_lesson =
  rl_strategy :: "string option"
  rl_regime :: string
  rl_pattern :: string
  rl_sample_size :: int
  rl_effect_r :: pyfloat
  rl_p_value :: pyfloat
  rl_caution :: pyfloat
  rl_also_seen :: "string list"

definition regime_evidence :: "int \<Rightarrow> pyfloat \<Rightarrow> pattern_finding \<Rightarrow> bool" where
  "regime_evidence min_sample alpha f \<longleftrightarrow> pf_diagnosis f = ''regime'' \<and> min_sample \<le> pf_n f
     \<and> pf_dominant_regime f \<noteq> '''' \<and> pf_dominant_regime f \<noteq> ''unknown'' \<and> effective_p f < alpha \<and> pf_mean_delta_r f < 0"

definition lesson_of :: "string option \<Rightarrow> pattern_finding \<Rightarrow> regime_lesson" where
  "lesson_of strategy f =
     \<lparr>rl_strategy = strategy, rl_regime = pf_dominant_regime f, rl_pattern = pf_pattern f, rl_sample_size = pf_n f,
      rl_effect_r = pf_mean_delta_r f, rl_p_value = effective_p f,
      rl_caution = max (1/2) (min 1 (fround (1 + fround (pf_mean_delta_r f / 2)))), rl_also_seen = []\<rparr>"

text \<open>The largest effect of a regime is kept; the patterns it displaces are recorded with it.\<close>

definition better_lesson :: "string option \<Rightarrow> (string, regime_lesson) dict \<Rightarrow> pattern_finding \<Rightarrow> (string, regime_lesson) dict" where
  "better_lesson strategy best f =
     (let key = pf_dominant_regime f; candidate = lesson_of strategy f in
      case dget best key of
        None \<Rightarrow> dset best key candidate
      | Some prior \<Rightarrow>
          if \<bar>rl_effect_r prior\<bar> < \<bar>pf_mean_delta_r f\<bar>
          then dset best key (candidate\<lparr>rl_also_seen := rl_also_seen prior @ [rl_pattern prior]\<rparr>)
          else dset best key (prior\<lparr>rl_also_seen := rl_also_seen prior @ [pf_pattern f]\<rparr>))"

definition regime_lessons :: "string option \<Rightarrow> int \<Rightarrow> pyfloat \<Rightarrow> pattern_finding list \<Rightarrow> regime_lesson list" where
  "regime_lessons strategy min_sample alpha fs =
     dvalues (foldl (better_lesson strategy) [] (filter (regime_evidence min_sample alpha) fs))"

text \<open>What a pass has learnt about the regimes, from the findings it has read.\<close>

definition best_of :: "string option \<Rightarrow> pattern_finding list \<Rightarrow> string \<Rightarrow> regime_lesson \<Rightarrow> bool" where
  "best_of strategy fs r l \<longleftrightarrow>
     (\<exists>f \<in> set fs. pf_dominant_regime f = r \<and> l = (lesson_of strategy f)\<lparr>rl_also_seen := rl_also_seen l\<rparr>)
     \<and> (\<forall>f \<in> set fs. pf_dominant_regime f = r \<longrightarrow> \<bar>pf_mean_delta_r f\<bar> \<le> \<bar>rl_effect_r l\<bar>)
     \<and> length (rl_also_seen l) + 1 = length (filter (\<lambda>f. pf_dominant_regime f = r) fs)"

definition best_so_far :: "string option \<Rightarrow> pattern_finding list \<Rightarrow> (string, regime_lesson) dict \<Rightarrow> bool" where
  "best_so_far strategy fs best \<longleftrightarrow> distinct (map fst best) \<and> set (map fst best) = pf_dominant_regime ` set fs
     \<and> (\<forall>r l. dget best r = Some l \<longrightarrow> best_of strategy fs r l)"

lemma lesson_of_sel [simp]:
  "rl_regime (lesson_of strategy f) = pf_dominant_regime f" "rl_effect_r (lesson_of strategy f) = pf_mean_delta_r f"
  "rl_also_seen (lesson_of strategy f) = []" "rl_pattern (lesson_of strategy f) = pf_pattern f"
  by (simp_all add: lesson_of_def)

lemma best_of_first:
  "\<forall>g \<in> set fs. pf_dominant_regime g \<noteq> pf_dominant_regime f \<Longrightarrow>
   best_of strategy (fs @ [f]) (pf_dominant_regime f) (lesson_of strategy f)"
  by (auto simp: best_of_def filter_empty_conv)

lemma best_of_other: "pf_dominant_regime f \<noteq> r \<Longrightarrow> best_of strategy fs r l \<Longrightarrow> best_of strategy (fs @ [f]) r l"
  by (auto simp: best_of_def)

lemma best_of_displaced:
  assumes "best_of strategy fs (pf_dominant_regime f) prior" "\<bar>rl_effect_r prior\<bar> < \<bar>pf_mean_delta_r f\<bar>"
  shows "best_of strategy (fs @ [f]) (pf_dominant_regime f)
    ((lesson_of strategy f)\<lparr>rl_also_seen := rl_also_seen prior @ [rl_pattern prior]\<rparr>)"
  using assms unfolding best_of_def by fastforce

lemma best_of_kept:
  assumes "best_of strategy fs (pf_dominant_regime f) prior" "\<not> \<bar>rl_effect_r prior\<bar> < \<bar>pf_mean_delta_r f\<bar>"
  shows "best_of strategy (fs @ [f]) (pf_dominant_regime f) (prior\<lparr>rl_also_seen := rl_also_seen prior @ [pf_pattern f]\<rparr>)"
proof -
  obtain g where g: "g \<in> set fs" "pf_dominant_regime g = pf_dominant_regime f"
      "prior = (lesson_of strategy g)\<lparr>rl_also_seen := rl_also_seen prior\<rparr>"
    using assms(1) unfolding best_of_def by blast
  have "prior\<lparr>rl_also_seen := x\<rparr> = (lesson_of strategy g)\<lparr>rl_also_seen := x\<rparr>" for x by (subst g(3), simp)
  then show ?thesis using assms g(1,2) unfolding best_of_def by fastforce
qed

lemma dset_keys: "set (map fst (dset d k v)) = insert k (set (map fst d))"
  using dom_update [of k v d] by (simp add: dom_map_of_conv_image_fst)

lemma better_lesson_keeps:
  assumes "best_so_far strategy fs best"
  shows "best_so_far strategy (fs @ [f]) (better_lesson strategy best f)"
proof -
  let ?k = "pf_dominant_regime f"
  have d: "distinct (map fst best)" and s: "set (map fst best) = pf_dominant_regime ` set fs"
    using assms unfolding best_so_far_def by blast+
  have b: "best_of strategy fs r l" if "dget best r = Some l" for r l
    using assms that unfolding best_so_far_def by blast
  obtain l where l: "better_lesson strategy best f = dset best ?k l" "best_of strategy (fs @ [f]) ?k l"
  proof (cases "dget best ?k")
    case None
    then have "?k \<notin> pf_dominant_regime ` set fs" unfolding dget_None_iff s .
    then have "best_of strategy (fs @ [f]) ?k (lesson_of strategy f)" by (intro best_of_first ballI notI) (metis imageI)
    moreover have "better_lesson strategy best f = dset best ?k (lesson_of strategy f)"
      by (simp add: better_lesson_def None)
    ultimately show ?thesis using that by blast
  next
    case (Some prior)
    show ?thesis
    proof (cases "\<bar>rl_effect_r prior\<bar> < \<bar>pf_mean_delta_r f\<bar>")
      case True
      have "better_lesson strategy best f
          = dset best ?k ((lesson_of strategy f)\<lparr>rl_also_seen := rl_also_seen prior @ [rl_pattern prior]\<rparr>)"
        by (simp add: better_lesson_def Some True)
      then show ?thesis using that best_of_displaced [OF b [OF Some] True] by blast
    next
      case False
      have "better_lesson strategy best f = dset best ?k (prior\<lparr>rl_also_seen := rl_also_seen prior @ [pf_pattern f]\<rparr>)"
        by (simp add: better_lesson_def Some False)
      then show ?thesis using that best_of_kept [OF b [OF Some] False] by blast
    qed
  qed
  have "best_of strategy (fs @ [f]) r l'" if "dget (dset best ?k l) r = Some l'" for r l'
    using that l(2) b best_of_other by (cases "r = ?k") auto
  then show ?thesis
    unfolding best_so_far_def l(1) dset_keys s using d by (simp add: distinct_update)
qed

lemma regime_pass: "best_so_far strategy fs (foldl (better_lesson strategy) [] fs)"
proof (induction fs rule: rev_induct)
  case Nil
  then show ?case by (simp add: best_so_far_def)
next
  case (snoc f fs)
  then show ?case using better_lesson_keeps by simp
qed

text \<open>
  C62. A finding confined to one regime becomes at most one lesson for that regime, and the lesson can only shrink a
  position. The lessons of a pass are for exactly the regimes that have adverse, significant evidence, one each; each
  carries the largest effect found there, a caution between one half and one, and one displaced pattern for every
  other finding about that regime.
\<close>
theorem regime_lessons_sound:
  shows "let ls = regime_lessons strategy min_sample alpha fs; es = filter (regime_evidence min_sample alpha) fs in
      distinct (map rl_regime ls) \<and> set (map rl_regime ls) = set (map pf_dominant_regime es)
      \<and> list_all (\<lambda>l. 1/2 \<le> rl_caution l \<and> rl_caution l \<le> 1 \<and> rl_effect_r l < 0
           \<and> list_all (\<lambda>f. rl_effect_r l \<le> pf_mean_delta_r f) (filter (\<lambda>f. pf_dominant_regime f = rl_regime l) es)
           \<and> length (rl_also_seen l) + 1 = length (filter (\<lambda>f. pf_dominant_regime f = rl_regime l) es)) ls"
proof -
  define es where "es = filter (regime_evidence min_sample alpha) fs"
  define best where "best = foldl (better_lesson strategy) [] es"
  have b: "best_so_far strategy es best" unfolding best_def by (rule regime_pass)
  have d: "distinct (map fst best)" using b by (simp add: best_so_far_def)
  have key: "rl_regime l = r" if "(r, l) \<in> set best" for r l
  proof -
    have "dget best r = Some l" using that d by simp
    then obtain f where "pf_dominant_regime f = r" "l = (lesson_of strategy f)\<lparr>rl_also_seen := rl_also_seen l\<rparr>"
      using b unfolding best_so_far_def best_of_def by blast
    then show ?thesis by (metis lesson_of_sel(1) regime_lesson.select_convs(2) regime_lesson.surjective regime_lesson.update_convs(8))
  qed
  have keys: "map rl_regime (map snd best) = map fst best" using key by (simp add: case_prod_beta)
  have neg: "pf_mean_delta_r f < 0" if "f \<in> set es" for f using that by (simp add: es_def regime_evidence_def)
  have each: "1/2 \<le> rl_caution l \<and> rl_caution l \<le> 1 \<and> rl_effect_r l < 0
      \<and> (\<forall>f \<in> set es. pf_dominant_regime f = r \<longrightarrow> rl_effect_r l \<le> pf_mean_delta_r f)
      \<and> length (rl_also_seen l) + 1 = length (filter (\<lambda>f. pf_dominant_regime f = r) es)" if "(r, l) \<in> set best" for r l
  proof -
    have g: "dget best r = Some l" using that d by simp
    obtain f where f: "f \<in> set es" "l = (lesson_of strategy f)\<lparr>rl_also_seen := rl_also_seen l\<rparr>"
      using b g unfolding best_so_far_def best_of_def by blast
    have e: "rl_effect_r l = pf_mean_delta_r f" "rl_caution l = rl_caution (lesson_of strategy f)"
      by (subst f(2), simp)+
    have m: "\<forall>h \<in> set es. pf_dominant_regime h = r \<longrightarrow> \<bar>pf_mean_delta_r h\<bar> \<le> \<bar>rl_effect_r l\<bar>"
      and n: "length (rl_also_seen l) + 1 = length (filter (\<lambda>f. pf_dominant_regime f = r) es)"
      using b g unfolding best_so_far_def best_of_def by blast+
    have "rl_effect_r l < 0" using e(1) neg [OF f(1)] by simp
    then have "rl_effect_r l \<le> pf_mean_delta_r h" if "h \<in> set es" "pf_dominant_regime h = r" for h
      using m neg [OF that(1)] that by fastforce
    then show ?thesis using \<open>rl_effect_r l < 0\<close> n e(2) by (simp add: lesson_of_def)
  qed
  have s: "set (map fst best) = pf_dominant_regime ` set es" using b unfolding best_so_far_def by simp
  show ?thesis
    unfolding regime_lessons_def es_def [symmetric] best_def [symmetric] Let_def keys
    using d s each key by (auto simp: list_all_iff)
qed

end
