(* ===== verification/ProposalQueue.thy ===== *)
theory ProposalQueue
  imports Proposals
begin

text \<open>
  The proposal queue of \<open>src/sentinel/agent/proposals.py\<close>: review, validation and application of proposals, expiry, and
  the file the queue is rewritten to. A row of the file that is not a proposal ends the loading, with the rows before it
  kept. A write may fail; the change in memory has then been made already.
\<close>

section \<open>The queue and its file\<close>

datatype queue_row = Row proposal | BadRow

datatype queue_file = NoQueueFile | UnparseableQueue | QueueRows "queue_row list"

record proposal_queue =
  pq_items :: "(string, proposal) dict"
  pq_file :: queue_file
  pq_writable :: bool

datatype queue_error = UnknownProposal | WrongStatus proposal_status | SaveFailed

type_synonym 'a queue_result = "(queue_error + 'a) \<times> proposal_queue"

fun load_rows :: "queue_row list \<Rightarrow> (string, proposal) dict \<Rightarrow> (string, proposal) dict" where
  "load_rows [] d = d"
| "load_rows (BadRow # rs) d = d"
| "load_rows (Row p # rs) d = load_rows rs (dset d (pp_id p) p)"

text \<open>A new queue object over the same file.\<close>

definition load_queue :: "proposal_queue \<Rightarrow> proposal_queue" where
  "load_queue q = q\<lparr>pq_items := (case pq_file q of QueueRows rs \<Rightarrow> load_rows rs [] | _ \<Rightarrow> [])\<rparr>"

definition save_queue :: "'a \<Rightarrow> proposal_queue \<Rightarrow> 'a queue_result" where
  "save_queue x q =
     (if pq_writable q then (Inr x, q\<lparr>pq_file := QueueRows (map Row (dvalues (pq_items q)))\<rparr>) else (Inl SaveFailed, q))"

definition map_items :: "(proposal \<Rightarrow> proposal) \<Rightarrow> proposal_queue \<Rightarrow> proposal_queue" where
  "map_items f q = q\<lparr>pq_items := map (\<lambda>(k, p). (k, f p)) (pq_items q)\<rparr>"

definition set_item :: "string \<Rightarrow> proposal \<Rightarrow> proposal_queue \<Rightarrow> proposal_queue" where
  "set_item k p q = q\<lparr>pq_items := dset (pq_items q) k p\<rparr>"

section \<open>Operations\<close>

definition supersede :: "string \<Rightarrow> proposal \<Rightarrow> proposal" where
  "supersede path p = (if pp_path p = path \<and> pp_status p = Pending then p\<lparr>pp_status := Expired\<rparr> else p)"

definition add_proposal :: "proposal \<Rightarrow> proposal_queue \<Rightarrow> unit queue_result" where
  "add_proposal p q = save_queue () (set_item (pp_id p) p (map_items (supersede (pp_path p)) q))"

definition is_stale :: "int \<Rightarrow> proposal \<Rightarrow> bool" where
  "is_stale now p \<longleftrightarrow> pp_status p = Pending \<and> pp_expires_ns p \<noteq> 0 \<and> pp_expires_ns p < now"

definition expire :: "int \<Rightarrow> proposal \<Rightarrow> proposal" where
  "expire now p = (if is_stale now p then p\<lparr>pp_status := Expired\<rparr> else p)"

definition expire_stale :: "int \<Rightarrow> proposal_queue \<Rightarrow> int queue_result" where
  "expire_stale now q =
     (let n = int (length (filter (is_stale now) (dvalues (pq_items q)))); q' = map_items (expire now) q
      in if n \<noteq> 0 then save_queue n q' else (Inr n, q'))"

definition pending :: "int \<Rightarrow> proposal_queue \<Rightarrow> proposal list queue_result" where
  "pending now q =
     (case expire_stale now q of
        (Inl e, q') \<Rightarrow> (Inl e, q')
      | (Inr _, q') \<Rightarrow> (Inr (filter (\<lambda>p. pp_status p = Pending) (dvalues (pq_items q'))), q'))"

text \<open>A step of the life cycle: looked up by id, allowed from one status only, saved after the change.\<close>

definition advance :: "string \<Rightarrow> proposal_status \<Rightarrow> (proposal \<Rightarrow> proposal) \<Rightarrow> proposal_queue \<Rightarrow> proposal queue_result" where
  "advance k from f q =
     (case dget (pq_items q) k of
        None \<Rightarrow> (Inl UnknownProposal, q)
      | Some p \<Rightarrow> if pp_status p \<noteq> from then (Inl (WrongStatus (pp_status p)), q) else save_queue (f p) (set_item k (f p) q))"

definition review :: "string \<Rightarrow> bool \<Rightarrow> string \<Rightarrow> int \<Rightarrow> proposal_queue \<Rightarrow> proposal queue_result" where
  "review k approve reviewer now =
     advance k Pending (\<lambda>p. p\<lparr>pp_status := (if approve then Approved else Rejected), pp_reviewed_by := Some reviewer,
       pp_reviewed_ns := Some now\<rparr>)"

definition mark_validated :: "string \<Rightarrow> string \<Rightarrow> bool \<Rightarrow> proposal_queue \<Rightarrow> proposal queue_result" where
  "mark_validated k run_id passed =
     advance k Approved (\<lambda>p. p\<lparr>pp_validation_run_id := Some run_id, pp_status := (if passed then Validated else Rejected)\<rparr>)"

definition mark_applied :: "string \<Rightarrow> proposal_queue \<Rightarrow> proposal queue_result" where
  "mark_applied k = advance k Validated (\<lambda>p. p\<lparr>pp_status := Applied\<rparr>)"

definition all_proposals :: "proposal_queue \<Rightarrow> proposal list" where
  "all_proposals q = rev (sort_key pp_created_ns (rev (dvalues (pq_items q))))"

datatype queue_act =
    AddProposal proposal
  | ExpireStale int
  | ReadPending int
  | Review string bool string int
  | MarkValidated string string bool
  | MarkApplied string
  | NewProcess

fun queue_step :: "queue_act \<Rightarrow> proposal_queue \<Rightarrow> proposal_queue" where
  "queue_step (AddProposal p) q = snd (add_proposal p q)"
| "queue_step (ExpireStale now) q = snd (expire_stale now q)"
| "queue_step (ReadPending now) q = snd (pending now q)"
| "queue_step (Review k approve reviewer now) q = snd (review k approve reviewer now q)"
| "queue_step (MarkValidated k run_id passed) q = snd (mark_validated k run_id passed q)"
| "queue_step (MarkApplied k) q = snd (mark_applied k q)"
| "queue_step NewProcess q = load_queue q"

definition queue_run :: "queue_act list \<Rightarrow> proposal_queue \<Rightarrow> proposal_queue" where
  "queue_run acts q = foldl (\<lambda>q a. queue_step a q) q acts"

definition empty_queue :: "bool \<Rightarrow> proposal_queue" where
  "empty_queue w = \<lparr>pq_items = [], pq_file = NoQueueFile, pq_writable = w\<rparr>"

section \<open>The life cycle\<close>

text \<open>The abstract states of a proposal and the moves between them.\<close>

inductive status_step :: "proposal_status \<Rightarrow> proposal_status \<Rightarrow> bool" where
  approve: "status_step Pending Approved"
| reject: "status_step Pending Rejected"
| expire: "status_step Pending Expired"
| validate: "status_step Approved Validated"
| fail: "status_step Approved Rejected"
| apply_it: "status_step Validated Applied"

code_pred status_step .



lemma status_moves [simp]:
  "status_step\<^sup>*\<^sup>* Pending Approved" "status_step\<^sup>*\<^sup>* Pending Rejected" "status_step\<^sup>*\<^sup>* Pending Expired"
  "status_step\<^sup>*\<^sup>* Approved Validated" "status_step\<^sup>*\<^sup>* Approved Rejected" "status_step\<^sup>*\<^sup>* Validated Applied"
  by (rule r_into_rtranclp, rule status_step.intros)+


text \<open>\<open>moves p p'\<close>: the same proposal, further along.\<close>

definition moves :: "proposal \<Rightarrow> proposal \<Rightarrow> bool" where
  "moves p p' \<longleftrightarrow> status_step\<^sup>*\<^sup>* (pp_status p) (pp_status p') \<and> pp_id p' = pp_id p \<and> pp_path p' = pp_path p
     \<and> pp_proposed_value p' = pp_proposed_value p"

lemma moves_refl [simp]: "moves p p"
  by (simp add: moves_def)




text \<open>What a proposal's fields say at each point of its life.\<close>

definition proposal_ok :: "proposal \<Rightarrow> bool" where
  "proposal_ok p \<longleftrightarrow>
     (case pp_status p of
        Pending \<Rightarrow> pp_reviewed_by p = None \<and> pp_validation_run_id p = None
      | Approved \<Rightarrow> pp_reviewed_by p \<noteq> None \<and> pp_validation_run_id p = None
      | Rejected \<Rightarrow> pp_reviewed_by p \<noteq> None
      | Validated \<Rightarrow> pp_reviewed_by p \<noteq> None \<and> pp_validation_run_id p \<noteq> None
      | Applied \<Rightarrow> pp_reviewed_by p \<noteq> None \<and> pp_validation_run_id p \<noteq> None
      | Expired \<Rightarrow> pp_reviewed_by p = None \<and> pp_validation_run_id p = None)"

section \<open>Well-formed queues\<close>

definition is_pending :: "proposal \<Rightarrow> bool" where
  "is_pending p \<longleftrightarrow> pp_status p = Pending"

definition pending_paths :: "(string, proposal) dict \<Rightarrow> string list" where
  "pending_paths d = map pp_path (filter is_pending (dvalues d))"



lemma pending_paths_simps [simp]:
  "pending_paths [] = []"
  "pending_paths ((k, p) # d) = (if is_pending p then pp_path p # pending_paths d else pending_paths d)"
  by (simp_all add: pending_paths_def)














lemma load_empty [simp]: "load_queue (empty_queue w) = empty_queue w"
  by (simp add: load_queue_def empty_queue_def)

lemma load_again [simp]: "load_queue (load_queue q) = load_queue q"
  by (simp add: load_queue_def)


lemma map_items_simps [simp]:
  "pq_items (map_items f q) = map (\<lambda>(k, p). (k, f p)) (pq_items q)" "pq_file (map_items f q) = pq_file q"
  "pq_writable (map_items f q) = pq_writable q" "pq_items (set_item k p q) = dset (pq_items q) k p"
  "pq_file (set_item k p q) = pq_file q" "pq_writable (set_item k p q) = pq_writable q"
  by (simp_all add: map_items_def set_item_def)



lemma pending_snd [simp]: "snd (pending now q) = snd (expire_stale now q)"
  by (auto simp: pending_def split: prod.splits sum.splits)






section \<open>The queue implements the life cycle\<close>


text \<open>\<open>further k q q'\<close>: the proposal of that id is still there, and further along.\<close>

definition further :: "string \<Rightarrow> proposal_queue \<Rightarrow> proposal_queue \<Rightarrow> bool" where
  "further k q q' \<longleftrightarrow> pq_writable q' = pq_writable q
     \<and> (\<forall>p. dget (pq_items q) k = Some p \<longrightarrow> (\<exists>p'. dget (pq_items q') k = Some p' \<and> moves p p'))"

lemma further_refl [simp]: "further k q q"
  by (simp add: further_def)


lemma save_items [simp]: "pq_items (snd (save_queue x q)) = pq_items q" "pq_writable (snd (save_queue x q)) = pq_writable q"
  by (simp_all add: save_queue_def)





definition demo_proposal :: proposal where
  "demo_proposal = build_proposal ''risk.min_stop_pips'' (Num 10) (Num 12) demo_finding None 21 1000000000"



lemma demo_proposal_sel [simp]:
  "pp_status demo_proposal = Pending" "pp_proposed_value demo_proposal = Num 12" "proposal_ok demo_proposal"
  by (simp_all add: demo_proposal_def build_proposal_def proposal_ok_def)

lemmas queue_eval = queue_run_def add_proposal_def save_queue_def map_items_def set_item_def empty_queue_def load_queue_def
  review_def mark_validated_def mark_applied_def advance_def




section \<open>What the queue does not guard\<close>

text \<open>
  The id is the millisecond of the proposal: two proposals of one pass made in the same millisecond share it, and adding
  the second drops the first.
\<close>

lemma same_millisecond_replaces:
  assumes "now div 1000000 = now' div 1000000"
  shows "let p = build_proposal path cur v f s ttl now; p' = build_proposal path' cur' v' f' s ttl now';
             q = queue_run [AddProposal p, AddProposal p'] (empty_queue True)
         in pq_items q = [(pp_id p, p')]"
  using assms by (simp add: build_proposal_def queue_eval Let_def)

text \<open>A review does not look at the expiry: a proposal that is out of date but not yet swept can be approved.\<close>

lemma stale_proposal_can_be_approved:
  assumes "dget (pq_items q) k = Some p" "is_stale now p" "pq_writable q"
  shows "\<exists>p'. fst (review k True reviewer now q) = Inr p' \<and> pp_status p' = Approved"
  using assms by (simp add: review_def advance_def is_stale_def save_queue_def)

end
