(* ===== verification/Text.thy ===== *)
theory Text
  imports Prelude
begin

text \<open>The methods of Python's \<open>str\<close> the components use, on ASCII text.\<close>

definition is_blank :: "char \<Rightarrow> bool" where
  "is_blank c \<longleftrightarrow> c \<in> {CHR '' '', CHR 0x09, CHR 0x0A, CHR 0x0B, CHR 0x0C, CHR 0x0D, CHR 0x1C, CHR 0x1D, CHR 0x1E, CHR 0x1F}"

definition strip :: "string \<Rightarrow> string" where
  "strip s = rev (dropWhile is_blank (rev (dropWhile is_blank s)))"

definition rstrip_chars :: "string \<Rightarrow> string \<Rightarrow> string" where
  "rstrip_chars cs s = rev (dropWhile (\<lambda>c. c \<in> set cs) (rev s))"

definition code_in :: "nat \<Rightarrow> nat \<Rightarrow> char \<Rightarrow> bool" where
  "code_in lo hi c \<longleftrightarrow> lo \<le> (of_char c :: nat) \<and> (of_char c :: nat) \<le> hi"

definition decimal_char :: "char \<Rightarrow> bool" where
  "decimal_char = code_in 48 57"

definition is_alpha_char :: "char \<Rightarrow> bool" where
  "is_alpha_char c \<longleftrightarrow> code_in 65 90 c \<or> code_in 97 122 c"

definition is_alnum_char :: "char \<Rightarrow> bool" where
  "is_alnum_char c \<longleftrightarrow> is_alpha_char c \<or> decimal_char c"

definition lower_char :: "char \<Rightarrow> char" where
  "lower_char c = (if code_in 65 90 c then char_of ((of_char c :: nat) + 32) else c)"

definition lower :: "string \<Rightarrow> string" where
  "lower = map lower_char"

text \<open>\<open>needle in text\<close>\<close>

fun contains :: "string \<Rightarrow> string \<Rightarrow> bool" where
  "contains needle [] \<longleftrightarrow> needle = []"
| "contains needle (c # s) \<longleftrightarrow> take (length needle) (c # s) = needle \<or> contains needle s"

text \<open>\<open>text.isdigit()\<close>: at least one character, all of them digits.\<close>

definition all_digits :: "string \<Rightarrow> bool" where
  "all_digits s \<longleftrightarrow> s \<noteq> [] \<and> list_all decimal_char s"

lemma dropWhile_blank_idem [simp]: "dropWhile P (dropWhile P t) = dropWhile P t"
  by (induction t) auto

lemma strip_strip [simp]: "strip (strip s) = strip s"
proof -
  have tail: "dropWhile is_blank (rev (dropWhile is_blank (rev t))) = rev (dropWhile is_blank (rev t))"
    if "dropWhile is_blank t = t" for t
  proof (cases t)
    case (Cons c u)
    then have "\<not> is_blank c" using that by (metis dropWhile.simps(2) dropWhile_eq_self_iff list.distinct(1) list.sel(1))
    then show ?thesis using Cons by (simp add: dropWhile_append)
  qed simp
  show ?thesis unfolding strip_def using tail [of "dropWhile is_blank s"] by simp
qed

end
