(* ===== verification/Licence.thy ===== *)
theory Licence
  imports Civil Text
begin

text \<open>
  The licence document of \<open>src/sentinel/licensing/license.py\<close> and the machine binding of
  \<open>src/sentinel/licensing/fingerprint.py\<close>: calendar terms, tiers and capabilities, issuing, verifying and renewing.

  An instant is a UTC \<open>datetime\<close> in microseconds. A document is what \<open>parse\<close> makes of its text: nothing, or a licence
  with the canonical text that was signed and the signature. Ed25519 is a pair of parameters; the canonical text of a
  licence is a parameter too. Notes and labels are left out.
\<close>

section \<open>Calendar terms\<close>

definition dt_month :: "int \<Rightarrow> int" where
  "dt_month t = ord2month (dt_date t)"

definition dt_day :: "int \<Rightarrow> int" where
  "dt_day t = ord2day (dt_date t)"

text \<open>\<open>when.replace(year=.., month=.., day=..)\<close>; a year beyond 9999 raises.\<close>

definition dt_replace :: "int \<Rightarrow> int \<Rightarrow> int \<Rightarrow> int \<Rightarrow> int res" where
  "dt_replace y m d t = (if y < 1 \<or> 9999 < y then Inl ValueError else Inr (ymd2ord y m d * day_us + t mod day_us))"

definition add_months :: "int \<Rightarrow> int \<Rightarrow> int res" where
  "add_months t months =
     (if months < 0 then Inl ValueError
      else
      let total = dt_month t - 1 + months; y = dt_year t + total div 12; m = total mod 12 + 1
      in dt_replace y m (min (dt_day t) (days_in_month y m)) t)"

definition term_end :: "int \<Rightarrow> int \<Rightarrow> int \<Rightarrow> int res" where
  "term_end begins months anchor_day =
     res_bind (add_months begins months) (\<lambda>e.
       if anchor_day \<noteq> 0 \<and> dt_day e < anchor_day
       then dt_replace (dt_year e) (dt_month e) (min anchor_day (days_in_month (dt_year e) (dt_month e))) e
       else Inr e)"

text \<open>\<open>_rfc3339\<close> keeps whole seconds.\<close>

definition whole_second :: "int \<Rightarrow> int" where
  "whole_second t = t - t mod 1000000"

text \<open>The difference of two instants in days, as a double.\<close>

definition td_days :: "int \<Rightarrow> pyfloat" where
  "td_days d = fround (fround (of_int d / 1000000) / 86400)"

section \<open>Licences\<close>

datatype cap_value = CapBool bool | CapNumber int | CapText string | NoLimit

record licence =
  lc_id :: string
  lc_issued_to :: string
  lc_issued :: int
  lc_expires :: "int option"
  lc_tier :: string
  lc_machine :: "(string, string) dict"
  lc_capabilities :: "(string, cap_value) dict"
  lc_activation_url :: "string option"
  lc_activation_interval_hours :: int
  lc_term_months :: int
  lc_term_index :: int
  lc_subscription_id :: string
  lc_anchor_day :: int

definition tier_row :: "bool \<Rightarrow> cap_value \<Rightarrow> cap_value \<Rightarrow> cap_value \<Rightarrow> bool \<Rightarrow> bool \<Rightarrow> (string, cap_value) dict" where
  "tier_row live max_instruments max_accounts max_equity lab news =
     [(''live_trading'', CapBool live), (''max_instruments'', max_instruments), (''max_accounts'', max_accounts),
      (''max_equity'', max_equity), (''research_lab'', CapBool lab), (''llm_news'', CapBool news)]"

definition TIER_CAPABILITIES :: "(string, (string, cap_value) dict) dict" where
  "TIER_CAPABILITIES =
     [(''evaluation'', tier_row False (CapNumber 3) (CapNumber 1) (CapText ''25000'') False False),
      (''research'', tier_row False NoLimit (CapNumber 1) NoLimit True True),
      (''live_single'', tier_row True (CapNumber 8) (CapNumber 1) NoLimit True True),
      (''live_multi'', tier_row True NoLimit (CapNumber 5) NoLimit True True),
      (''unlimited'', tier_row True NoLimit NoLimit NoLimit True True)]"

definition capability :: "licence \<Rightarrow> string \<Rightarrow> cap_value \<Rightarrow> cap_value" where
  "capability l name default_value =
     (case dget (lc_capabilities l) name of
        Some v \<Rightarrow> v
      | None \<Rightarrow> dget_default (dget_default TIER_CAPABILITIES (lc_tier l) []) name default_value)"

definition cap_truthy :: "cap_value \<Rightarrow> bool" where
  "cap_truthy v = (case v of CapBool b \<Rightarrow> b | CapNumber n \<Rightarrow> n \<noteq> 0 | CapText t \<Rightarrow> t \<noteq> '''' | NoLimit \<Rightarrow> False)"

definition days_remaining :: "licence \<Rightarrow> int \<Rightarrow> pyfloat option" where
  "days_remaining l now = map_option (\<lambda>e. td_days (e - now)) (lc_expires l)"

datatype renewal_stage = Perpetual | StageExpired | Critical | Due | Approaching | Healthy

definition renewal_stage :: "licence \<Rightarrow> int \<Rightarrow> renewal_stage" where
  "renewal_stage l now =
     (case days_remaining l now of
        None \<Rightarrow> Perpetual
      | Some r \<Rightarrow> if r < 0 then StageExpired else if r \<le> 3 then Critical else if r \<le> 14 then Due
          else if r \<le> 30 then Approaching else Healthy)"

section \<open>The machine\<close>

definition MATCH_THRESHOLD :: nat where
  "MATCH_THRESHOLD = 3"

definition fingerprint_matches :: "(string, string) dict \<Rightarrow> (string, string) dict \<Rightarrow> bool \<times> nat" where
  "fingerprint_matches bound now =
     (let matched = filter (\<lambda>k. dmem now k \<and> dget bound k = dget now k) (map fst bound);
          required = (if bound = [] then 0 else min MATCH_THRESHOLD (length bound))
      in if bound = [] then (True, 0) else (required \<le> length matched \<and> 0 < required, length matched))"

section \<open>Verifying\<close>

datatype licence_error = LicenceInvalid | LicenceExpired | LicenceMachineMismatch | OtherError exn

record 'g document =
  do_licence :: licence
  do_canonical :: string
  do_signature :: 'g

definition licence_slack :: int where
  "licence_slack = 24 * hour_us"

text \<open>\<open>parse\<close> fails on text that is no licence document.\<close>

definition parse :: "'g document option \<Rightarrow> licence_error + 'g document" where
  "parse doc = (case doc of None \<Rightarrow> Inl LicenceInvalid | Some d \<Rightarrow> Inr d)"

definition past_deadline :: "licence \<Rightarrow> int \<Rightarrow> int \<Rightarrow> bool" where
  "past_deadline l grace_days now = (case lc_expires l of None \<Rightarrow> False | Some e \<Rightarrow> e + grace_days * day_us < now)"

definition verify_licence ::
  "('k \<Rightarrow> string \<Rightarrow> 'g \<Rightarrow> bool) \<Rightarrow> 'g document option \<Rightarrow> 'k \<Rightarrow> bool \<Rightarrow> int \<Rightarrow> int \<Rightarrow> (string, string) dict \<Rightarrow> licence_error + licence" where
  "verify_licence sig doc key check_machine grace_days now fp =
     (case parse doc of
        Inl e \<Rightarrow> Inl e
      | Inr d \<Rightarrow>
          let l = do_licence d in
          if \<not> sig key (do_canonical d) (do_signature d) then Inl LicenceInvalid
          else if now + licence_slack < lc_issued l then Inl LicenceInvalid
          else if past_deadline l grace_days now then Inl LicenceExpired
          else if check_machine \<and> lc_machine l \<noteq> [] \<and> \<not> fst (fingerprint_matches (lc_machine l) fp)
          then Inl LicenceMachineMismatch
          else Inr l)"

section \<open>Issuing\<close>

text \<open>An argument that may be left out, or be passed as None.\<close>

datatype 'v argument = Unset | Given 'v

record issue_request =
  iq_issued_to :: string
  iq_tier :: string
  iq_term_months :: "int option argument"
  iq_valid_days :: "int option argument"
  iq_machine :: "(string, string) dict"
  iq_capabilities :: "(string, cap_value) dict"
  iq_activation_url :: "string option"
  iq_activation_interval_hours :: int
  iq_allow_unbound :: bool
  iq_perpetual :: bool
  iq_subscription_id :: string
  iq_term_index :: int
  iq_anchor_day :: int
  iq_starts_at :: "int option"

text \<open>The checks on the term arguments.\<close>

definition term_arguments_clash :: "issue_request \<Rightarrow> bool" where
  "term_arguments_clash r =
     (let months_given = iq_term_months r \<noteq> Unset; days = (case iq_valid_days r of Given (Some _) \<Rightarrow> True | _ \<Rightarrow> False)
      in iq_perpetual r \<and> (months_given \<or> days) \<or> days \<and> months_given)"

text \<open>The expiry and the length in months, in the order of the branches.\<close>

definition issue_term :: "issue_request \<Rightarrow> int \<Rightarrow> licence_error + (int option \<times> int)" where
  "issue_term r begins =
     (if iq_perpetual r \<or> iq_valid_days r = Given None then Inr (None, 0)
      else
      (case iq_valid_days r of
         Given (Some days) \<Rightarrow>
           if days \<le> 0 then Inl LicenceInvalid
           else if 9999 < dt_year (begins + days * day_us) then Inl (OtherError ValueError)
           else Inr (Some (whole_second (begins + days * day_us)), 0)
       | _ \<Rightarrow>
           let months = (case iq_term_months r of Given (Some m) \<Rightarrow> m | _ \<Rightarrow> 3);
               anchor = (if iq_anchor_day r \<noteq> 0 then iq_anchor_day r else dt_day begins)
           in if months \<le> 0 \<or> 60 < months then Inl LicenceInvalid
              else (case term_end begins months anchor of
                      Inl e \<Rightarrow> Inl (OtherError e)
                    | Inr t \<Rightarrow> Inr (Some (whole_second t), months))))"

definition issue :: "issue_request \<Rightarrow> string \<Rightarrow> int \<Rightarrow> licence_error + licence" where
  "issue r licence_id now =
     (if \<not> dmem TIER_CAPABILITIES (iq_tier r) then Inl LicenceInvalid
      else if strip (iq_issued_to r) = '''' then Inl LicenceInvalid
      else if iq_machine r = [] \<and> \<not> iq_allow_unbound r then Inl LicenceInvalid
      else if term_arguments_clash r then Inl LicenceInvalid
      else if iq_anchor_day r \<noteq> 0 \<and> \<not> (1 \<le> iq_anchor_day r \<and> iq_anchor_day r \<le> 31) then Inl LicenceInvalid
      else
      let begins = (case iq_starts_at r of Some t \<Rightarrow> t | None \<Rightarrow> now) in
      case issue_term r begins of
        Inl e \<Rightarrow> Inl e
      | Inr (expires, months) \<Rightarrow>
          if (case expires of Some e \<Rightarrow> e \<le> now | None \<Rightarrow> False) then Inl LicenceInvalid
          else Inr
            \<lparr>lc_id = licence_id, lc_issued_to = strip (iq_issued_to r), lc_issued = whole_second now, lc_expires = expires,
             lc_tier = iq_tier r, lc_machine = iq_machine r, lc_capabilities = iq_capabilities r,
             lc_activation_url = iq_activation_url r, lc_activation_interval_hours = iq_activation_interval_hours r,
             lc_term_months = months, lc_term_index = max 1 (iq_term_index r),
             lc_subscription_id = strip (if iq_subscription_id r \<noteq> '''' then iq_subscription_id r else licence_id),
             lc_anchor_day = (if iq_anchor_day r \<noteq> 0 then iq_anchor_day r else if expires \<noteq> None then dt_day begins else 0)\<rparr>)"

definition sign_licence :: "(licence \<Rightarrow> string) \<Rightarrow> ('p \<Rightarrow> string \<Rightarrow> 'g) \<Rightarrow> 'p \<Rightarrow> licence \<Rightarrow> 'g document" where
  "sign_licence canon sign private l = \<lparr>do_licence = l, do_canonical = canon l, do_signature = sign private (canon l)\<rparr>"

section \<open>Renewing\<close>

record renewal_request =
  rn_term_months :: "int option"
  rn_machine :: "(string, string) dict option"
  rn_tier :: "string option"
  rn_capabilities :: "(string, cap_value) dict option"
  rn_late_grace_days :: int

definition renewal_start :: "renewal_request \<Rightarrow> int \<Rightarrow> int \<Rightarrow> int" where
  "renewal_start r old_expiry now =
     (if td_days (now - old_expiry) \<le> of_int (rn_late_grace_days r) then old_expiry else now)"

definition renewal_issue :: "renewal_request \<Rightarrow> licence \<Rightarrow> int \<Rightarrow> int \<Rightarrow> issue_request" where
  "renewal_issue r prev old_expiry now =
     (let machine = (case rn_machine r of Some m \<Rightarrow> m | None \<Rightarrow> lc_machine prev);
          months = (case rn_term_months r of Some m \<Rightarrow> Some m | None \<Rightarrow> if lc_term_months prev \<noteq> 0 then Some (lc_term_months prev) else None);
          base = \<lparr>iq_issued_to = lc_issued_to prev, iq_tier = (case rn_tier r of Some t \<Rightarrow> if t \<noteq> '''' then t else lc_tier prev | None \<Rightarrow> lc_tier prev),
            iq_term_months = Unset, iq_valid_days = Unset, iq_machine = machine,
            iq_capabilities = (case rn_capabilities r of Some c \<Rightarrow> c | None \<Rightarrow> lc_capabilities prev),
            iq_activation_url = lc_activation_url prev, iq_activation_interval_hours = lc_activation_interval_hours prev,
            iq_allow_unbound = (machine = []), iq_perpetual = False,
            iq_subscription_id = (if lc_subscription_id prev \<noteq> '''' then lc_subscription_id prev else lc_id prev),
            iq_term_index = lc_term_index prev + 1, iq_anchor_day = 0, iq_starts_at = Some (renewal_start r old_expiry now)\<rparr>
      in case months of
           None \<Rightarrow> base\<lparr>iq_valid_days := Given (Some (max 1 (round_half_even (td_days (old_expiry - lc_issued prev)))))\<rparr>
         | Some m \<Rightarrow> base\<lparr>iq_term_months := Given (Some m),
               iq_anchor_day := (if lc_anchor_day prev \<noteq> 0 then lc_anchor_day prev else dt_day old_expiry)\<rparr>)"

definition renew ::
  "('k \<Rightarrow> string \<Rightarrow> 'g \<Rightarrow> bool) \<Rightarrow> 'g document option \<Rightarrow> 'k \<Rightarrow> renewal_request \<Rightarrow> string \<Rightarrow> int \<Rightarrow> licence_error + licence" where
  "renew sig doc key r licence_id now =
     (case verify_licence sig doc key False (10 ^ 6) now [] of
        Inl e \<Rightarrow> Inl e
      | Inr prev \<Rightarrow>
          (case lc_expires prev of
             None \<Rightarrow> Inl LicenceInvalid
           | Some old_expiry \<Rightarrow> issue (renewal_issue r prev old_expiry now) licence_id now))"

section \<open>Calendar terms keep the day they were anchored to\<close>

text \<open>Month \<open>k\<close> counted from year 0, clamped to the length of the month.\<close>

definition month_date :: "int \<Rightarrow> int \<Rightarrow> int \<Rightarrow> int" where
  "month_date k a tod =
     (let y = k div 12; m = k mod 12 + 1 in ymd2ord y m (min a (days_in_month y m)) * day_us + tod)"

lemma day_parts:
  assumes "0 \<le> tod" "tod < day_us"
  shows "dt_date (n * day_us + tod) = n" "(n * day_us + tod) mod day_us = tod"
  using assms by (simp_all add: dt_date_def)

lemma dt_parts:
  assumes "1 \<le> m" "m \<le> 12" "1 \<le> d" "d \<le> days_in_month y m" "0 \<le> tod" "tod < day_us"
  shows "dt_year (ymd2ord y m d * day_us + tod) = y" "dt_month (ymd2ord y m d * day_us + tod) = m"
    "dt_day (ymd2ord y m d * day_us + tod) = d"
  using ord2ymd [OF assms(1-4)] day_parts(1) [OF assms(5,6)]
  by (simp_all add: dt_year_def dt_month_def dt_day_def)

lemma month_date_parts:
  assumes "1 \<le> a" "0 \<le> tod" "tod < day_us"
  shows "dt_year (month_date k a tod) = k div 12" "dt_month (month_date k a tod) = k mod 12 + 1"
    "dt_day (month_date k a tod) = min a (days_in_month (k div 12) (k mod 12 + 1))"
    "month_date k a tod mod day_us = tod"
proof -
  have m: "1 \<le> k mod 12 + 1" "k mod 12 + 1 \<le> 12" using pos_mod_bound [of 12 k] by simp_all
  have d: "1 \<le> min a (days_in_month (k div 12) (k mod 12 + 1))" using assms(1) month_table(2) [OF m, of "k div 12"] by simp
  show "dt_year (month_date k a tod) = k div 12" "dt_month (month_date k a tod) = k mod 12 + 1"
    "dt_day (month_date k a tod) = min a (days_in_month (k div 12) (k mod 12 + 1))"
    unfolding month_date_def Let_def using dt_parts [OF m d _ assms(2,3)] by simp_all
  show "month_date k a tod mod day_us = tod"
    unfolding month_date_def Let_def using day_parts(2) [OF assms(2,3)] by simp
qed

lemma add_months_ymd:
  assumes "1 \<le> m" "m \<le> 12" "1 \<le> d" "d \<le> days_in_month y m" "0 \<le> tod" "tod < day_us" "0 \<le> n"
    "1 \<le> y + (m - 1 + n) div 12" "y + (m - 1 + n) div 12 \<le> 9999"
  shows "add_months (ymd2ord y m d * day_us + tod) n =
    (let y' = y + (m - 1 + n) div 12; m' = (m - 1 + n) mod 12 + 1
     in Inr (ymd2ord y' m' (min d (days_in_month y' m')) * day_us + tod))"
  using dt_parts [OF assms(1-6)] day_parts(2) [OF assms(5,6)] assms(7-9)
  by (simp add: add_months_def dt_replace_def Let_def)

lemma term_end_month_date:
  assumes "1 \<le> a" "0 \<le> tod" "tod < day_us" "0 \<le> m" "1 \<le> (k + m) div 12" "(k + m) div 12 \<le> 9999"
  shows "term_end (month_date k a tod) m a = Inr (month_date (k + m) a tod)"
proof -
  define y where "y = (k + m) div 12"
  define mo where "mo = (k + m) mod 12 + 1"
  define d0 where "d0 = min (min a (days_in_month (k div 12) (k mod 12 + 1))) (days_in_month y mo)"
  note parts = month_date_parts [OF assms(1-3)]
  have yr: "k div 12 + (k mod 12 + m) div 12 = y" "(k mod 12 + m) mod 12 + 1 = mo"
    using div_mult_self1 [of 12 "k mod 12 + m" "k div 12"] unfolding y_def mo_def by (simp_all add: mod_add_left_eq)
  have mo: "1 \<le> mo" "mo \<le> 12" unfolding mo_def using pos_mod_bound [of 12 "k + m"] by simp_all
  have mk: "1 \<le> k mod 12 + 1" "k mod 12 + 1 \<le> 12" using pos_mod_bound [of 12 k] by simp_all
  have d0: "1 \<le> d0" "d0 \<le> days_in_month y mo" "d0 \<le> a"
    unfolding d0_def using assms(1) month_table(2) [OF mo, of y] month_table(2) [OF mk, of "k div 12"] by auto
  have e: "add_months (month_date k a tod) m = Inr (ymd2ord y mo d0 * day_us + tod)"
    using assms(4-6) parts yr by (simp add: add_months_def dt_replace_def Let_def y_def [symmetric] d0_def)
  have ep: "dt_year (ymd2ord y mo d0 * day_us + tod) = y" "dt_month (ymd2ord y mo d0 * day_us + tod) = mo"
    "dt_day (ymd2ord y mo d0 * day_us + tod) = d0" "(ymd2ord y mo d0 * day_us + tod) mod day_us = tod"
    using dt_parts [OF mo d0(1,2) assms(2,3)] day_parts(2) [OF assms(2,3)] by simp_all
  have goal: "month_date (k + m) a tod = ymd2ord y mo (min a (days_in_month y mo)) * day_us + tod"
    by (simp add: month_date_def y_def mo_def Let_def)
  show ?thesis
  proof (cases "d0 < a")
    case True
    then show ?thesis using e ep assms goal by (simp add: term_end_def res_bind_def dt_replace_def y_def [symmetric])
  next
    case False
    then have "d0 = a" using d0(3) by simp
    then have "min a (days_in_month y mo) = d0" using d0(2) by simp
    then show ?thesis using e ep False goal by (simp add: term_end_def res_bind_def)
  qed
qed

text \<open>A chain of terms.\<close>

fun term_chain :: "int \<Rightarrow> int list \<Rightarrow> int \<Rightarrow> int res" where
  "term_chain t [] a = Inr t"
| "term_chain t (m # ms) a = res_bind (term_end t m a) (\<lambda>e. term_chain e ms a)"

text \<open>
  However a subscription is cut into terms, with the anchor day it ends where one term of all the months would:
  the same month, the anchor day clamped to that month alone, and the time of day it began at.
\<close>

theorem anchored_terms_do_not_drift:
  assumes "1 \<le> a" "0 \<le> tod" "tod < day_us" "12 \<le> k" "\<forall>m \<in> set ms. 0 \<le> m" "k + sum_list ms < 120000"
  shows "term_chain (month_date k a tod) ms a = Inr (month_date (k + sum_list ms) a tod)"
  using assms(4-6)
proof (induction ms arbitrary: k)
  case (Cons m ms)
  have m: "0 \<le> m" "0 \<le> sum_list ms" using Cons.prems(2) by (simp_all add: sum_list_nonneg)
  then have "1 \<le> (k + m) div 12" "(k + m) div 12 \<le> 9999" using Cons.prems by auto
  then show ?case
    using term_end_month_date [OF assms(1-3) m(1), of k] Cons.IH [of "k + m"] Cons.prems m
    by (simp add: res_bind_def add.assoc)
qed simp

text \<open>Four quarters from 31 March, and the same without the anchor.\<close>

lemma anchored_terms_do_not_drift_witness:
  "term_chain (month_date 24314 31 0) [3, 3, 3, 3] 31 = Inr (month_date 24326 31 0) \<and> dt_day (month_date 24326 31 0) = 31"
  using anchored_terms_do_not_drift [of 31 0 24314 "[3, 3, 3, 3]"] month_date_parts(3) [of 31 0 24326]
  by (simp add: days_in_month_def)

lemma terms_without_an_anchor_lose_days:
  "term_chain (ymd2ord 2026 3 31 * day_us + 43200000000) [3, 3, 3, 3] 0 = Inr (ymd2ord 2027 3 30 * day_us + 43200000000)"
  by (simp add: term_end_def add_months_ymd res_bind_def days_in_month_def Let_def)

section \<open>Subscriptions renewed on time\<close>

lemma month_date_next:
  assumes "1 \<le> a"
  shows "month_date k a tod + 28 * day_us \<le> month_date (k + 1) a tod"
proof -
  define y where "y = k div 12"
  define m where "m = k mod 12 + 1"
  have m: "1 \<le> m" "m \<le> 12" unfolding m_def using pos_mod_bound [of 12 k] by simp_all
  have split: "k + 1 = 12 * y + m" by (simp add: y_def m_def)
  have here: "month_date k a tod = ymd2ord y m (min a (days_in_month y m)) * day_us + tod"
    by (simp add: month_date_def y_def m_def Let_def)
  have gap: "ymd2ord y m (min a (days_in_month y m)) + 28 \<le> ymd2ord y' m' (min a (days_in_month y' m'))"
    if first: "ymd2ord y' m' 1 = ymd2ord y m 1 + days_in_month y m" and "1 \<le> m'" "m' \<le> 12" for y' m'
  proof -
    have "28 \<le> days_in_month y m" "28 \<le> days_in_month y' m'"
      using month_table(2) [OF m, of y] month_table(2) [OF that(2,3), of y'] by simp_all
    then have "min a (days_in_month y m) + 28 \<le> days_in_month y m + min a (days_in_month y' m')" by linarith
    then show ?thesis using first by (simp add: ymd2ord_def)
  qed
  have scale: "x * day_us + tod + 28 * day_us \<le> z * day_us + tod" if "x + 28 \<le> z" for x z :: int
    using that by simp
  show ?thesis
  proof (cases "m = 12")
    case True
    then have k1: "(k + 1) div 12 = y + 1" "(k + 1) mod 12 = 0" using split by simp_all
    have "ymd2ord (y + 1) 1 1 = ymd2ord y 12 1 + days_in_month y 12"
      using days_before_year_Suc [of y] by (simp add: ymd2ord_def days_before_month_def days_in_month_def)
    then have "ymd2ord y m (min a (days_in_month y m)) + 28 \<le> ymd2ord (y + 1) 1 (min a (days_in_month (y + 1) 1))"
      using gap [of "y + 1" 1] True by simp
    then show ?thesis unfolding here month_date_def [of "k + 1"] k1 Let_def by (intro scale) simp
  next
    case False
    then have k1: "(k + 1) div 12 = y" "(k + 1) mod 12 + 1 = m + 1" using split m by simp_all
    have "ymd2ord y (m + 1) 1 = ymd2ord y m 1 + days_in_month y m"
      using days_before_next [of m y] m False by (simp add: ymd2ord_def)
    then have "ymd2ord y m (min a (days_in_month y m)) + 28 \<le> ymd2ord y (m + 1) (min a (days_in_month y (m + 1)))"
      using gap [of y "m + 1"] m False by simp
    then show ?thesis unfolding here month_date_def [of "k + 1"] k1 Let_def by (intro scale) simp
  qed
qed

lemma month_date_later:
  assumes "1 \<le> a" "1 \<le> m"
  shows "month_date k a tod + 28 * day_us \<le> month_date (k + m) a tod"
  using assms(2)
proof (induction m rule: int_ge_induct)
  case base
  then show ?case by (rule month_date_next [OF assms(1)])
next
  case (step m)
  then show ?case using month_date_next [OF assms(1), of "k + m" tod] by (simp add: add.assoc)
qed

lemma whole_second_month_date: "tod mod 1000000 = 0 \<Longrightarrow> whole_second (month_date k a tod) = month_date k a tod"
  by (simp add: whole_second_def month_date_def Let_def mod_add_eq [symmetric])

lemma td_days_at_most:
  assumes "d \<le> 14 * day_us"
  shows "td_days d \<le> 14"
proof -
  have "fround (of_int d / 1000000) \<le> 1209600"
    by (rule F.rnd_le_fixed) (use assms in \<open>simp add: divide_le_eq\<close>, code_simp)
  then have "fround (of_int d / 1000000) / 86400 \<le> 14" by (simp add: divide_le_eq)
  moreover have "fround 14 = 14" by code_simp
  ultimately show ?thesis unfolding td_days_def by (rule F.rnd_le_fixed)
qed

text \<open>A licence sold by the month, in its place on the billing calendar.\<close>

definition on_cycle :: "licence \<Rightarrow> int \<Rightarrow> int \<Rightarrow> int \<Rightarrow> int \<Rightarrow> bool" where
  "on_cycle l k a tod m \<longleftrightarrow>
     dmem TIER_CAPABILITIES (lc_tier l) \<and> strip (lc_issued_to l) \<noteq> '''' \<and> lc_expires l = Some (month_date k a tod)
     \<and> lc_term_months l = m \<and> 1 \<le> m \<and> m \<le> 60 \<and> lc_anchor_day l = a \<and> 1 \<le> a \<and> a \<le> 31 \<and> 12 \<le> k
     \<and> 0 \<le> tod \<and> tod < day_us \<and> tod mod 1000000 = 0 \<and> 0 \<le> lc_term_index l"

definition plain_renewal :: renewal_request where
  "plain_renewal = \<lparr>rn_term_months = None, rn_machine = None, rn_tier = None, rn_capabilities = None, rn_late_grace_days = 14\<rparr>"

lemma renew_on_cycle:
  assumes cyc: "on_cycle l k a tod m" and law: "\<forall>t. sig key t (sign private t)" and k: "k + m < 120000"
    and now: "lc_issued l \<le> now + licence_slack" "now \<le> month_date k a tod + 14 * day_us"
  shows "\<exists>l'. renew sig (Some (sign_licence canon sign private l)) key plain_renewal i now = Inr l' \<and> on_cycle l' (k + m) a tod m
      \<and> lc_issued l' = whole_second now \<and> lc_term_index l' = lc_term_index l + 1 \<and> lc_machine l' = lc_machine l \<and> lc_tier l' = lc_tier l"
proof -
  let ?old = "month_date k a tod"
  note c = cyc [unfolded on_cycle_def]
  have ver: "verify_licence sig (Some (sign_licence canon sign private l)) key False (10 ^ 6) now [] = Inr l"
    using now c law by (simp add: verify_licence_def parse_def sign_licence_def past_deadline_def)
  have start: "renewal_start plain_renewal ?old now = ?old"
    using td_days_at_most [of "now - ?old"] now(2) by (simp add: renewal_start_def plain_renewal_def)
  have "1 \<le> (k + m) div 12" "(k + m) div 12 \<le> 9999" using c k by auto
  then have te: "term_end ?old m a = Inr (month_date (k + m) a tod)"
    using c by (intro term_end_month_date) auto
  let ?q = "renewal_issue plain_renewal l ?old now"
  have q: "iq_tier ?q = lc_tier l" "iq_issued_to ?q = lc_issued_to l" "iq_machine ?q = lc_machine l"
    "iq_allow_unbound ?q = (lc_machine l = [])" "iq_perpetual ?q = False" "iq_term_months ?q = Given (Some m)"
    "iq_valid_days ?q = Unset" "iq_anchor_day ?q = a" "iq_starts_at ?q = Some ?old" "iq_term_index ?q = lc_term_index l + 1"
    using c start by (simp_all add: renewal_issue_def plain_renewal_def Let_def)
  have it: "issue_term ?q ?old = Inr (Some (month_date (k + m) a tod), m)"
    using c te q whole_second_month_date [of tod "k + m" a] by (simp add: issue_term_def)
  have later: "now < month_date (k + m) a tod" using month_date_later [of a m k tod] now(2) c by simp
  show ?thesis
    using ver c q it later
    by (auto simp: renew_def issue_def term_arguments_clash_def on_cycle_def Let_def split: if_splits)
qed

fun renewals ::
  "('k \<Rightarrow> string \<Rightarrow> 'g \<Rightarrow> bool) \<Rightarrow> (licence \<Rightarrow> string) \<Rightarrow> ('p \<Rightarrow> string \<Rightarrow> 'g) \<Rightarrow> 'k \<Rightarrow> 'p \<Rightarrow> licence \<Rightarrow> (string \<times> int) list \<Rightarrow> licence_error + licence" where
  "renewals sig canon sign key private l [] = Inr l"
| "renewals sig canon sign key private l ((i, now) # xs) =
     (case renew sig (Some (sign_licence canon sign private l)) key plain_renewal i now of
        Inl e \<Rightarrow> Inl e
      | Inr l' \<Rightarrow> renewals sig canon sign key private l' xs)"

text \<open>Each renewal happens after the previous one and at most 14 days after the term it extends ended.\<close>

fun on_time :: "int \<Rightarrow> int \<Rightarrow> int \<Rightarrow> int \<Rightarrow> int \<Rightarrow> (string \<times> int) list \<Rightarrow> bool" where
  "on_time issued k a tod m [] = True"
| "on_time issued k a tod m ((i, now) # xs) \<longleftrightarrow>
     issued \<le> now \<and> now \<le> month_date k a tod + 14 * day_us \<and> on_time now (k + m) a tod m xs"

lemma on_time_earlier: "on_time issued k a tod m xs \<Longrightarrow> earlier \<le> issued \<Longrightarrow> on_time earlier k a tod m xs"
  by (cases xs) auto

text \<open>
  C28. A subscription sold by the month and renewed on time, once before or within 14 days after each term ends, is
  continuous: after \<open>n\<close> renewals through \<open>renew\<close> it ends exactly \<open>n\<close> terms after the first end, on the same billing
  day and at the same time of day, however early or late each renewal came; the term counter has grown by \<open>n\<close>, and tier and
  machine binding are unchanged. The signature of a signed document is assumed to verify.
\<close>

theorem renewals_keep_the_billing_day:
  assumes "on_cycle l k a tod m" "\<forall>t. sig key t (sign private t)" "on_time (lc_issued l) k a tod m xs"
    "k + int (length xs) * m < 120000"
  shows "\<exists>l'. renewals sig canon sign key private l xs = Inr l'
    \<and> lc_expires l' = Some (month_date (k + int (length xs) * m) a tod)
    \<and> lc_term_index l' = lc_term_index l + int (length xs) \<and> lc_tier l' = lc_tier l \<and> lc_machine l' = lc_machine l"
  using assms(1,3,4)
proof (induction xs arbitrary: l k)
  case Nil
  then show ?case by (simp add: on_cycle_def)
next
  case (Cons x xs)
  obtain i now where x: "x = (i, now)" by (cases x)
  have m: "1 \<le> m" using Cons.prems(1) by (simp add: on_cycle_def)
  have len: "k + m + int (length xs) * m < 120000" using Cons.prems(3) by (simp add: algebra_simps)
  moreover have "0 \<le> int (length xs) * m" using m by simp
  ultimately have "k + m < 120000" by linarith
  with Cons.prems(1,2) assms(2) obtain l1 where l1: "on_cycle l1 (k + m) a tod m" "lc_issued l1 = whole_second now"
      "renew sig (Some (sign_licence canon sign private l)) key plain_renewal i now = Inr l1"
      "lc_term_index l1 = lc_term_index l + 1" "lc_machine l1 = lc_machine l" "lc_tier l1 = lc_tier l"
    using renew_on_cycle [of l k a tod m sig key sign "private" now canon i] by (auto simp: x licence_slack_def)
  have "on_time (lc_issued l1) (k + m) a tod m xs"
    using Cons.prems(2) l1(2) by (auto simp: x whole_second_def intro: on_time_earlier)
  with Cons.IH [OF l1(1) _ len] show ?case using l1(3-6) by (auto simp: x algebra_simps)
qed

text \<open>A quarterly subscription, five days early once and fourteen days late once.\<close>

definition sample_licence :: licence where
  "sample_licence = \<lparr>lc_id = ''A'', lc_issued_to = ''Customer'', lc_issued = month_date 24314 31 0,
     lc_expires = Some (month_date 24317 31 0), lc_tier = ''live_single'', lc_machine = [(''mac'', ''1'')], lc_capabilities = [],
     lc_activation_url = None, lc_activation_interval_hours = 0, lc_term_months = 3, lc_term_index = 1,
     lc_subscription_id = ''A'', lc_anchor_day = 31\<rparr>"

lemma renewals_keep_the_billing_day_witness:
  "\<exists>l'. renewals (\<lambda>k t g. g = (k, t)) lc_id Pair (7 :: nat) 7 sample_licence
      [(''B'', month_date 24317 31 0 - 5 * day_us), (''C'', month_date 24320 31 0 + 14 * day_us)] = Inr l'
    \<and> lc_expires l' = Some (month_date 24323 31 0)"
proof -
  let ?xs = "[(''B'', month_date 24317 31 0 - 5 * day_us), (''C'', month_date 24320 31 0 + 14 * day_us)]"
  have order: "month_date 24314 31 0 \<le> month_date 24317 31 0 - 5 * day_us"
    "month_date 24317 31 0 - 5 * day_us \<le> month_date 24320 31 0 + 14 * day_us"
    using month_date_later [of 31 3 24314 0] month_date_later [of 31 3 24317 0] by simp_all
  have "on_cycle sample_licence 24317 31 0 3"
    unfolding sample_licence_def on_cycle_def by (simp add: strip_def is_blank_def TIER_CAPABILITIES_def)
  moreover have "on_time (lc_issued sample_licence) 24317 31 0 3 ?xs" using order by (simp add: sample_licence_def)
  ultimately show ?thesis
    using renewals_keep_the_billing_day [of sample_licence 24317 31 0 3 "\<lambda>k t g. g = (k, t)" "7 :: nat" Pair 7 ?xs lc_id]
    by auto
qed

section \<open>What a verified licence is\<close>

lemma verify_licence_sound:
  assumes "verify_licence sig doc key check_machine grace now fp = Inr l"
  shows "\<exists>d. doc = Some d \<and> do_licence d = l \<and> sig key (do_canonical d) (do_signature d) \<and> lc_issued l \<le> now + licence_slack
    \<and> \<not> past_deadline l grace now \<and> (check_machine \<and> lc_machine l \<noteq> [] \<longrightarrow> fst (fingerprint_matches (lc_machine l) fp))"
  using assms by (auto simp: verify_licence_def parse_def Let_def split: option.splits if_splits)

lemma verify_licence_expired:
  assumes "verify_licence sig doc key check_machine grace now fp = Inl LicenceExpired"
  shows "\<exists>d. doc = Some d \<and> sig key (do_canonical d) (do_signature d) \<and> past_deadline (do_licence d) grace now"
  using assms by (auto simp: verify_licence_def parse_def Let_def split: option.splits if_splits)

text \<open>
  What the vendor issues for a machine, that machine accepts: from the moment of issue until the grace period ends, on a
  machine that still shows three of the bound identifiers (all of them, when fewer are bound).
\<close>

theorem issued_licence_verifies:
  assumes issued: "issue r i now0 = Inr l" and law: "\<forall>t. sig key t (sign private t)"
    and window: "now0 \<le> now + licence_slack" "\<not> past_deadline l grace now"
    and machine: "distinct (map fst (iq_machine r))"
      "min 3 (length (iq_machine r)) \<le> card {k. dmem (iq_machine r) k \<and> dget fp k = dget (iq_machine r) k}"
  shows "verify_licence sig (Some (sign_licence canon sign private l)) key True grace now fp = Inr l"
proof -
  have l: "lc_machine l = iq_machine r" "lc_issued l = whole_second now0"
    using issued by (auto simp: issue_def Let_def split: sum.splits option.splits if_splits)
  have "whole_second now0 \<le> now + licence_slack" using window(1) pos_mod_sign [of 1000000 now0]
    by (simp add: whole_second_def)
  moreover have "fst (fingerprint_matches (iq_machine r) fp)" if "iq_machine r \<noteq> []"
  proof -
    let ?p = "\<lambda>k. dmem fp k \<and> dget (iq_machine r) k = dget fp k"
    have "length (filter ?p (map fst (iq_machine r))) = card (set (filter ?p (map fst (iq_machine r))))"
      by (rule distinct_card [symmetric, OF distinct_filter [OF machine(1)]])
    also have "set (filter ?p (map fst (iq_machine r))) = {k. dmem (iq_machine r) k \<and> dget fp k = dget (iq_machine r) k}"
    proof -
      have mem: "dmem d k \<longleftrightarrow> dget d k \<noteq> None" for d :: "(string, string) dict" and k by (simp only: map_of_eq_None_iff) simp
      show ?thesis by (simp only: set_filter mem) auto
    qed
    finally show ?thesis
      using machine(2) that by (auto simp: fingerprint_matches_def MATCH_THRESHOLD_def Let_def)
  qed
  ultimately show ?thesis
    using law window l by (cases "iq_machine r = []") (simp_all add: verify_licence_def parse_def sign_licence_def)
qed

text \<open>A 30-day evaluation licence bound to three identifiers, on a machine that shows the same three and a new one.\<close>

definition sample_request :: issue_request where
  "sample_request = \<lparr>iq_issued_to = ''Customer'', iq_tier = ''evaluation'', iq_term_months = Unset, iq_valid_days = Given (Some 30),
     iq_machine = [(''mac'', ''1''), (''cpu'', ''2''), (''hostname'', ''3'')], iq_capabilities = [], iq_activation_url = None,
     iq_activation_interval_hours = 0, iq_allow_unbound = False, iq_perpetual = False, iq_subscription_id = '''', iq_term_index = 1,
     iq_anchor_day = 0, iq_starts_at = None\<rparr>"

lemma sample_request_issued:
  "\<exists>l. issue sample_request ''A'' (740000 * day_us) = Inr l \<and> lc_expires l = Some (740030 * day_us)"
  by (simp add: issue_def sample_request_def issue_term_def term_arguments_clash_def TIER_CAPABILITIES_def strip_def is_blank_def
      whole_second_def dt_year_def dt_date_def ord2year_def Let_def)

lemma issued_licence_verifies_witness:
  "\<exists>l. issue sample_request ''A'' (740000 * day_us) = Inr l \<and>
     verify_licence (\<lambda>k t g. g = (k, t)) (Some (sign_licence lc_id Pair (7 :: nat) l)) 7 True 0 (740030 * day_us)
       [(''root_fs'', ''9''), (''mac'', ''1''), (''cpu'', ''2''), (''hostname'', ''3'')] = Inr l"
proof -
  let ?fp = "[(''root_fs'', ''9''), (''mac'', ''1''), (''cpu'', ''2''), (''hostname'', ''3'')]"
  obtain l where l: "issue sample_request ''A'' (740000 * day_us) = Inr l" "lc_expires l = Some (740030 * day_us)"
    using sample_request_issued by blast
  have "{k. dmem (iq_machine sample_request) k \<and> dget ?fp k = dget (iq_machine sample_request) k} = {''mac'', ''cpu'', ''hostname''}"
    by (auto simp: sample_request_def)
  then have "verify_licence (\<lambda>k t g. g = (k, t)) (Some (sign_licence lc_id Pair (7 :: nat) l)) 7 True 0 (740030 * day_us) ?fp = Inr l"
    using l(2) by (intro issued_licence_verifies [OF l(1)])
      (simp_all add: sample_request_def licence_slack_def past_deadline_def)
  then show ?thesis using l(1) by blast
qed

end
