(* ===== verification/LicenceGate.thy ===== *)
theory LicenceGate
  imports Licence "HOL-Library.List_Lexorder" "HOL-Library.Char_ord"
begin

text \<open>
  The licence gate of \<open>src/sentinel/licensing\<close>: the clock guard (\<open>clock_guard.py\<close>), the activation lease
  (\<open>activation.py\<close>), the release manifest (\<open>integrity.py\<close>) and the verdict they make together (\<open>enforcement.py\<close>).

  The files the gate keeps (the timing record, the lease) are part of its state; the files it only reads, the clocks, the
  activation server and whether a write succeeds are the \<open>world\<close> of a call. Keys and signatures are strings; signature
  verification, the keyed hash of the timing record and the device digest are parameters, in the record \<open>crypto\<close>.
  Messages, headlines and warnings are left out.
\<close>

section \<open>The outside\<close>

record guard_state =
  gd_high_water_ns :: int
  gd_first_seen_ns :: int
  gd_checks :: int
  gd_expired_licences :: "string list"
  gd_last_licence_id :: string

text \<open>\<open>cr_tag bound key state\<close> is the tag \<open>_write\<close> puts under a record, with the key of \<open>_derive_key\<close>.\<close>

record crypto =
  cr_verify :: "string \<Rightarrow> string \<Rightarrow> string \<Rightarrow> bool"
  cr_tag :: "(string, string) dict \<Rightarrow> string \<Rightarrow> guard_state \<Rightarrow> string"
  cr_device :: "(string, string) dict \<Rightarrow> string"

section \<open>The clock guard\<close>

definition CLOCK_SLACK_SEC :: int where
  "CLOCK_SLACK_SEC = 6 * 3600"

definition new_guard_state :: guard_state where
  "new_guard_state = \<lparr>gd_high_water_ns = 0, gd_first_seen_ns = 0, gd_checks = 0, gd_expired_licences = [], gd_last_licence_id = ''''\<rparr>"

record guard_report =
  gr_ok :: bool
  gr_rolled_back :: bool
  gr_rollback_seconds :: pyfloat
  gr_previously_expired :: bool
  gr_state_missing :: bool
  gr_state_unreadable :: bool
  gr_state_unwritable :: bool
  gr_checks :: int
  gr_first_seen_ns :: int

definition degraded :: "guard_report \<Rightarrow> bool" where
  "degraded r \<longleftrightarrow> gr_state_missing r \<or> gr_state_unreadable r \<or> gr_state_unwritable r"

datatype guard_file = NoRecord | GarbledRecord | Record guard_state string

record clock_guard =
  cg_bound :: "(string, string) dict"
  cg_file :: guard_file

definition rekey :: "(string, string) dict \<Rightarrow> clock_guard \<Rightarrow> clock_guard" where
  "rekey machine g = g\<lparr>cg_bound := machine\<rparr>"

text \<open>The state, whether the file is missing, whether it is unreadable.\<close>

definition read_guard :: "crypto \<Rightarrow> string \<Rightarrow> clock_guard \<Rightarrow> guard_state \<times> bool \<times> bool" where
  "read_guard cr key g =
     (case cg_file g of
        NoRecord \<Rightarrow> (new_guard_state, True, False)
      | GarbledRecord \<Rightarrow> (new_guard_state, False, True)
      | Record st tag \<Rightarrow> if tag = cr_tag cr (cg_bound g) key st then (st, False, False) else (new_guard_state, False, True))"

text \<open>\<open>to_dict\<close> keeps the first occurrence of each id.\<close>

definition keep_first :: "'a list \<Rightarrow> 'a list" where
  "keep_first xs = rev (remdups (rev xs))"

definition write_guard :: "crypto \<Rightarrow> string \<Rightarrow> bool \<Rightarrow> guard_state \<Rightarrow> clock_guard \<Rightarrow> clock_guard" where
  "write_guard cr key writable st g =
     (let body = st\<lparr>gd_expired_licences := keep_first (gd_expired_licences st)\<rparr>
      in if writable then g\<lparr>cg_file := Record body (cr_tag cr (cg_bound g) key body)\<rparr> else g)"

definition rollback_seconds :: "guard_state \<Rightarrow> int \<Rightarrow> pyfloat" where
  "rollback_seconds st now_ns = (if gd_high_water_ns st \<noteq> 0 then fdiv (of_int (gd_high_water_ns st - now_ns)) 1000000000 else 0)"

text \<open>\<open>xs[-200:]\<close>\<close>

definition last_200 :: "'a list \<Rightarrow> 'a list" where
  "last_200 xs = drop (length xs - 200) xs"

definition record_moment :: "guard_state \<Rightarrow> int \<Rightarrow> string \<Rightarrow> bool \<Rightarrow> guard_state" where
  "record_moment st now_ns licence_id expired =
     (let st1 = st\<lparr>gd_high_water_ns := max (gd_high_water_ns st) now_ns,
            gd_first_seen_ns := (if gd_first_seen_ns st \<noteq> 0 then gd_first_seen_ns st else now_ns),
            gd_checks := gd_checks st + 1,
            gd_last_licence_id := (if licence_id \<noteq> '''' then licence_id else gd_last_licence_id st)\<rparr>
      in if expired \<and> licence_id \<noteq> ''''
         then st1\<lparr>gd_expired_licences := last_200
           (if licence_id \<in> set (gd_expired_licences st) then gd_expired_licences st else gd_expired_licences st @ [licence_id])\<rparr>
         else st1)"

definition guard_evaluate ::
  "crypto \<Rightarrow> string \<Rightarrow> bool \<Rightarrow> int \<Rightarrow> string \<Rightarrow> bool \<Rightarrow> clock_guard \<Rightarrow> guard_report \<times> clock_guard" where
  "guard_evaluate cr key writable now_ns licence_id expired g =
     (case read_guard cr key g of (st, missing, unreadable) \<Rightarrow>
        let rolled = of_int CLOCK_SLACK_SEC < rollback_seconds st now_ns;
            seen = licence_id \<noteq> '''' \<and> licence_id \<in> set (gd_expired_licences st);
            st1 = record_moment st now_ns licence_id expired
        in (\<lparr>gr_ok = \<not> rolled \<and> \<not> seen, gr_rolled_back = rolled,
              gr_rollback_seconds = (if rolled then rollback_seconds st now_ns else 0),
              gr_previously_expired = seen, gr_state_missing = missing,
              gr_state_unreadable = unreadable, gr_state_unwritable = \<not> writable, gr_checks = gd_checks st1,
              gr_first_seen_ns = gd_first_seen_ns st1\<rparr>,
            write_guard cr key writable st1 g))"

text \<open>\<open>int(now.timestamp() * 1e9)\<close>; 719163 is the ordinal of 1970-01-01.\<close>

definition clock_ns :: "int \<Rightarrow> int" where
  "clock_ns t = trunc_rat (fround (fround (of_int (t - 719163 * day_us) / 1000000) * 1000000000))"

section \<open>The activation lease\<close>

record lease =
  le_licence_id :: string
  le_device :: string
  le_nonce :: string
  le_status :: string
  le_issued :: int
  le_expires :: int
  le_server_time :: int

record lease_document =
  ld_lease :: lease
  ld_canonical :: string
  ld_signature :: string

definition SERVER_SLACK :: int where
  "SERVER_SLACK = 10 * 60000000"

definition ROLLBACK_TOLERANCE :: int where
  "ROLLBACK_TOLERANCE = 6 * hour_us"

text \<open>A document that is no well-formed lease is None; every refusal is a \<open>LeaseError\<close>, None here.\<close>

definition verify_lease ::
  "crypto \<Rightarrow> lease_document option \<Rightarrow> string \<Rightarrow> string \<Rightarrow> string \<Rightarrow> string option \<Rightarrow> int \<Rightarrow> lease option" where
  "verify_lease cr doc key licence_id device nonce now =
     (case doc of
        None \<Rightarrow> None
      | Some d \<Rightarrow>
          let l = ld_lease d in
          if \<not> cr_verify cr key (ld_canonical d) (ld_signature d) then None
          else if le_licence_id l \<noteq> licence_id then None
          else if le_device l \<noteq> device then None
          else if (case nonce of Some n \<Rightarrow> le_nonce l \<noteq> n | None \<Rightarrow> False) then None
          else if now + SERVER_SLACK < le_issued l \<or> now + SERVER_SLACK < le_server_time l then None
          else if le_expires l \<le> now then None
          else Some l)"

record lease_status =
  la_required :: bool
  la_ok :: bool
  la_lease :: "lease option"
  la_refreshed :: bool
  la_network_error :: bool
  la_rolled_back :: bool

record activation_client =
  ac_cache :: "lease_document option"
  ac_last_attempt :: "int option"

text \<open>What the activation server answers to a nonce: nothing (an exception), or a document, which may be no lease.\<close>

type_synonym transport = "string \<Rightarrow> lease_document option option"

definition activation_required :: "licence \<Rightarrow> bool" where
  "activation_required l \<longleftrightarrow> lc_activation_url l \<noteq> None \<and> lc_activation_url l \<noteq> Some '''' \<and> 0 < lc_activation_interval_hours l"

text \<open>One attempt: the answer verifies for this nonce and is written to the cache, or it is a network error.\<close>

definition refresh_lease ::
  "crypto \<Rightarrow> string \<Rightarrow> licence \<Rightarrow> string \<Rightarrow> int \<Rightarrow> transport \<Rightarrow> string \<Rightarrow> bool \<Rightarrow> (lease \<times> lease_document) option" where
  "refresh_lease cr key l device now server nonce writable =
     (case server nonce of
        Some (Some d) \<Rightarrow>
          (case verify_lease cr (Some d) key (lc_id l) device (Some nonce) now of
             Some fresh \<Rightarrow> if writable then Some (fresh, d) else None
           | None \<Rightarrow> None)
      | _ \<Rightarrow> None)"

definition judge_lease :: "lease option \<Rightarrow> int \<Rightarrow> bool \<Rightarrow> bool \<Rightarrow> lease_status" where
  "judge_lease held now refreshed network_error =
     (let st = \<lparr>la_required = True, la_ok = False, la_lease = held, la_refreshed = refreshed,
            la_network_error = network_error, la_rolled_back = False\<rparr>
      in case held of
           None \<Rightarrow> st
         | Some l \<Rightarrow>
             if now + ROLLBACK_TOLERANCE < le_server_time l then st\<lparr>la_rolled_back := True\<rparr>
             else if le_status l \<noteq> ''active'' then st
             else st\<lparr>la_ok := True\<rparr>)"

definition lease_due :: "licence \<Rightarrow> lease option \<Rightarrow> int option \<Rightarrow> int \<Rightarrow> bool" where
  "lease_due l cached last_attempt now =
     (let due = (case cached of None \<Rightarrow> True | Some c \<Rightarrow> lc_activation_interval_hours l * hour_us \<le> now - le_issued c);
          throttled = (case last_attempt of Some t \<Rightarrow> now - t < 5 * 60000000 | None \<Rightarrow> False) \<and> cached \<noteq> None
      in due \<and> \<not> throttled)"

definition activation_status ::
  "crypto \<Rightarrow> string \<Rightarrow> licence \<Rightarrow> (string, string) dict \<Rightarrow> int \<Rightarrow> transport \<Rightarrow> string \<Rightarrow> bool \<Rightarrow> activation_client
   \<Rightarrow> lease_status \<times> activation_client" where
  "activation_status cr key l fp now server nonce writable c =
     (if \<not> activation_required l
      then (\<lparr>la_required = False, la_ok = True, la_lease = None, la_refreshed = False, la_network_error = False,
             la_rolled_back = False\<rparr>, c)
      else
      let device = cr_device cr fp;
          cached = verify_lease cr (ac_cache c) key (lc_id l) device None now
      in if \<not> lease_due l cached (ac_last_attempt c) now then (judge_lease cached now False False, c)
         else
           let c1 = c\<lparr>ac_last_attempt := Some now\<rparr> in
           case refresh_lease cr key l device now server nonce writable of
             Some (fresh, d) \<Rightarrow> (judge_lease (Some fresh) now True False, c1\<lparr>ac_cache := Some d\<rparr>)
           | None \<Rightarrow> (judge_lease cached now False True, c1))"

section \<open>The release manifest\<close>

record manifest =
  mf_files :: "(string, string) dict"
  mf_canonical :: string
  mf_signature :: string

datatype manifest_file = NoManifest | UnreadableManifest | ManifestText "manifest option"

record integrity_report =
  ig_ok :: bool
  ig_checked :: nat
  ig_missing :: "string list"
  ig_modified :: "string list"
  ig_unsigned :: bool
  ig_error :: bool

definition integrity_failure :: integrity_report where
  "integrity_failure = \<lparr>ig_ok = False, ig_checked = 0, ig_missing = [], ig_modified = [], ig_unsigned = False, ig_error = True\<rparr>"

text \<open>\<open>installed\<close> is the hash of a file of the installation, None where there is no such file.\<close>

definition verify_manifest :: "crypto \<Rightarrow> (string \<Rightarrow> string option) \<Rightarrow> manifest option \<Rightarrow> string \<Rightarrow> integrity_report" where
  "verify_manifest cr installed doc key =
     (case doc of
        None \<Rightarrow> integrity_failure
      | Some m \<Rightarrow>
          if \<not> cr_verify cr key (mf_canonical m) (mf_signature m) then integrity_failure
          else
          let files = sort_key fst (mf_files m);
              missing = map fst (filter (\<lambda>(rel, h). installed rel = None) files);
              modified = map fst (filter (\<lambda>(rel, h). installed rel \<noteq> None \<and> installed rel \<noteq> Some h) files)
          in \<lparr>ig_ok = (missing = [] \<and> modified = []), ig_checked = length files - length missing, ig_missing = missing,
               ig_modified = modified, ig_unsigned = False, ig_error = False\<rparr>)"

definition check_integrity ::
  "crypto \<Rightarrow> bool \<Rightarrow> manifest_file \<Rightarrow> (string \<Rightarrow> string option) \<Rightarrow> string \<Rightarrow> integrity_report" where
  "check_integrity cr require_manifest file installed key =
     (case file of
        NoManifest \<Rightarrow> if require_manifest then integrity_failure
          else \<lparr>ig_ok = True, ig_checked = 0, ig_missing = [], ig_modified = [], ig_unsigned = True, ig_error = False\<rparr>
      | UnreadableManifest \<Rightarrow> integrity_failure
      | ManifestText doc \<Rightarrow> verify_manifest cr installed doc key)"

section \<open>The gate\<close>

datatype licence_file = NoLicence | UnreadableLicence | LicenceText "string document option"

record world =
  wd_now :: int
  wd_monotonic :: "pyfloat \<times> pyfloat"
  wd_licence :: licence_file
  wd_manifest :: manifest_file
  wd_installed :: "string \<Rightarrow> string option"
  wd_machine :: "(string, string) dict"
  wd_guard_writable :: bool
  wd_lease_writable :: bool
  wd_server :: transport
  wd_nonce :: string

record gate_config =
  gc_public_key :: string
  gc_lease_key :: string
  gc_grace_days :: int
  gc_fingerprint :: "(string, string) dict option"
  gc_require_manifest :: bool

datatype gate_stage = NoStage | Ladder renewal_stage | ClockStage | RevokedStage

record gate_status =
  ls_valid :: bool
  ls_licence :: "licence option"
  ls_integrity :: "integrity_report option"
  ls_in_grace :: bool
  ls_days_remaining :: "pyfloat option"
  ls_unlicensed_mode :: bool
  ls_clock :: "guard_report option"
  ls_activation :: "lease_status option"
  ls_stage :: gate_stage

record gate =
  ga_guard :: "clock_guard option"
  ga_activation :: activation_client
  ga_status :: "gate_status option"
  ga_checked :: pyfloat

definition run_guard :: "crypto \<Rightarrow> gate_config \<Rightarrow> world \<Rightarrow> int \<Rightarrow> string \<Rightarrow> bool \<Rightarrow> gate \<Rightarrow> guard_report option \<times> gate" where
  "run_guard cr cf w now licence_id expired s =
     (case ga_guard s of
        None \<Rightarrow> (None, s)
      | Some g \<Rightarrow>
          (case guard_evaluate cr (gc_public_key cf) (wd_guard_writable w) (clock_ns now) licence_id expired g of
             (report, g') \<Rightarrow> (Some report, s\<lparr>ga_guard := Some g'\<rparr>)))"

definition refused_status :: "gate_stage \<Rightarrow> guard_report option \<Rightarrow> gate_status" where
  "refused_status stage clock = \<lparr>ls_valid = False, ls_licence = None, ls_integrity = None, ls_in_grace = False, ls_days_remaining = None,
     ls_unlicensed_mode = False, ls_clock = clock, ls_activation = None, ls_stage = stage\<rparr>"

definition unlicensed :: gate_status where
  "unlicensed = (refused_status NoStage None)\<lparr>ls_valid := True, ls_unlicensed_mode := True\<rparr>"

text \<open>The fingerprint \<open>verify\<close> compares with, and the one the activation client sends.\<close>

definition machine_now :: "gate_config \<Rightarrow> world \<Rightarrow> (string, string) dict" where
  "machine_now cf w = (case gc_fingerprint cf of Some fp \<Rightarrow> fp | None \<Rightarrow> wd_machine w)"

definition activation_machine :: "gate_config \<Rightarrow> world \<Rightarrow> (string, string) dict" where
  "activation_machine cf w = (case gc_fingerprint cf of Some fp \<Rightarrow> if fp = [] then wd_machine w else fp | None \<Rightarrow> wd_machine w)"

text \<open>The id and expiry read before the signature is checked, and the guard pinned to the document's machine map.\<close>

definition peek :: "gate_config \<Rightarrow> string document option \<Rightarrow> int \<Rightarrow> gate \<Rightarrow> string \<times> bool \<times> gate" where
  "peek cf doc now s =
     (case parse doc of
        Inl _ \<Rightarrow> ('''', False, s)
      | Inr d \<Rightarrow> (lc_id (do_licence d), past_deadline (do_licence d) (gc_grace_days cf) now,
          s\<lparr>ga_guard := map_option (rekey (lc_machine (do_licence d))) (ga_guard s)\<rparr>))"

definition withdrawn :: "lease_status \<Rightarrow> bool" where
  "withdrawn a \<longleftrightarrow> la_required a \<and> \<not> la_ok a \<and> (case la_lease a of Some l \<Rightarrow> le_status l \<noteq> ''active'' | None \<Rightarrow> False)"

text \<open>The verdict on a licence that verifies.\<close>

definition judge_valid ::
  "crypto \<Rightarrow> gate_config \<Rightarrow> world \<Rightarrow> int \<Rightarrow> licence \<Rightarrow> gate \<Rightarrow> gate_status \<times> gate" where
  "judge_valid cr cf w now l s =
     (let remaining = days_remaining l now;
          integrity = check_integrity cr (gc_require_manifest cf) (wd_manifest w) (wd_installed w) (gc_public_key cf)
      in case run_guard cr cf w now (lc_id l) False s of (clock, s1) \<Rightarrow>
         case activation_status cr (gc_lease_key cf) l (activation_machine cf w) now (wd_server w) (wd_nonce w) (wd_lease_writable w)
             (ga_activation s1) of (activation, ac) \<Rightarrow>
         let clock_bad = (case clock of Some c \<Rightarrow> \<not> gr_ok c | None \<Rightarrow> False);
             stage = (case clock of
                 Some c \<Rightarrow> if gr_ok c then Ladder (renewal_stage l now) else if gr_rolled_back c then ClockStage else Ladder StageExpired
               | None \<Rightarrow> Ladder (renewal_stage l now))
         in (\<lparr>ls_valid = \<not> clock_bad \<and> \<not> withdrawn activation, ls_licence = Some l, ls_integrity = Some integrity,
               ls_in_grace = (case remaining of Some r \<Rightarrow> r < 0 | None \<Rightarrow> False), ls_days_remaining = remaining,
               ls_unlicensed_mode = False, ls_clock = clock, ls_activation = Some activation,
               ls_stage = (if withdrawn activation then RevokedStage else stage)\<rparr>,
             s1\<lparr>ga_activation := ac\<rparr>))"

text \<open>\<open>_evaluate\<close>. A licence file that is there and cannot be read raises \<open>LicenseInvalid\<close> out of the gate.\<close>

definition gate_evaluate :: "crypto \<Rightarrow> gate_config \<Rightarrow> world \<Rightarrow> int \<Rightarrow> gate \<Rightarrow> (licence_error + gate_status) \<times> gate" where
  "gate_evaluate cr cf w now s =
     (if gc_public_key cf = '''' then (Inr unlicensed, s)
      else
      case wd_licence w of
        NoLicence \<Rightarrow> (case run_guard cr cf w now '''' False s of (clock, s1) \<Rightarrow> (Inr (refused_status NoStage clock), s1))
      | UnreadableLicence \<Rightarrow> (Inl LicenceInvalid, s)
      | LicenceText doc \<Rightarrow>
          (case peek cf doc now s of (peeked_id, peeked_expired, s0) \<Rightarrow>
             (case verify_licence (cr_verify cr) doc (gc_public_key cf) True (gc_grace_days cf) now (machine_now cf w) of
                Inl LicenceExpired \<Rightarrow>
                  (case run_guard cr cf w now peeked_id True s0 of (clock, s1) \<Rightarrow> (Inr (refused_status (Ladder StageExpired) clock), s1))
              | Inl _ \<Rightarrow>
                  (case run_guard cr cf w now peeked_id peeked_expired s0 of (clock, s1) \<Rightarrow> (Inr (refused_status NoStage clock), s1))
              | Inr l \<Rightarrow> (case judge_valid cr cf w now l s0 of (st, s1) \<Rightarrow> (Inr st, s1)))))"

definition recheck_seconds :: pyfloat where
  "recheck_seconds = 900"

text \<open>A call of \<open>check\<close>: the \<open>now\<close> the caller names, \<open>force\<close>, and the world it happens in.\<close>

type_synonym gate_call = "int option \<times> bool \<times> world"

definition call_instant :: "gate_call \<Rightarrow> int" where
  "call_instant c = (case c of (n, f, w) \<Rightarrow> (case n of Some t \<Rightarrow> t | None \<Rightarrow> wd_now w))"

definition verdict_fresh :: "gate \<Rightarrow> gate_call \<Rightarrow> bool" where
  "verdict_fresh s c =
     (case c of (n, f, w) \<Rightarrow>
        ga_status s \<noteq> None \<and> fround (fst (wd_monotonic w) - ga_checked s) < recheck_seconds \<and> \<not> f \<and> n = None)"

definition gate_check :: "crypto \<Rightarrow> gate_config \<Rightarrow> gate_call \<Rightarrow> gate \<Rightarrow> (licence_error + gate_status) \<times> gate" where
  "gate_check cr cf c s =
     (if verdict_fresh s c then (Inr (the (ga_status s)), s)
      else
      case gate_evaluate cr cf (snd (snd c)) (call_instant c) s of
        (Inl e, s1) \<Rightarrow> (Inl e, s1)
      | (Inr st, s1) \<Rightarrow> (Inr st, s1\<lparr>ga_status := Some st, ga_checked := snd (wd_monotonic (snd (snd c)))\<rparr>))"

text \<open>The questions. An exception of \<open>check\<close> is passed on.\<close>

definition live_allowed :: "gate_status \<Rightarrow> bool" where
  "live_allowed st =
     (if ls_unlicensed_mode st then True
      else if \<not> ls_valid st then False
      else if \<not> cap_truthy (capability (the (ls_licence st)) ''live_trading'' (CapBool False)) then False
      else if (case ls_activation st of Some a \<Rightarrow> la_required a \<and> \<not> la_ok a | None \<Rightarrow> False) then False
      else if (case ls_integrity st of Some i \<Rightarrow> \<not> ig_ok i \<and> \<not> ig_unsigned i | None \<Rightarrow> False) then False
      else True)"


definition may_use :: "crypto \<Rightarrow> gate_config \<Rightarrow> string \<Rightarrow> world \<Rightarrow> gate \<Rightarrow> (licence_error + bool) \<times> gate" where
  "may_use cr cf name w s =
     (case gate_check cr cf (None, False, w) s of (r, s1) \<Rightarrow>
        (map_sum id (\<lambda>st. if ls_unlicensed_mode st then True else if \<not> ls_valid st then False
           else cap_truthy (capability (the (ls_licence st)) name (CapBool False))) r, s1))"

text \<open>A new process keeps the files and nothing else.\<close>

definition own_binding :: "gate_config \<Rightarrow> (string, string) dict" where
  "own_binding cf = (case gc_fingerprint cf of Some fp \<Rightarrow> fp | None \<Rightarrow> [])"

definition new_gate :: "gate_config \<Rightarrow> bool \<Rightarrow> guard_file \<Rightarrow> lease_document option \<Rightarrow> gate" where
  "new_gate cf enable_clock_guard file lease =
     \<lparr>ga_guard = (if enable_clock_guard then Some \<lparr>cg_bound = own_binding cf, cg_file = file\<rparr> else None),
      ga_activation = \<lparr>ac_cache = lease, ac_last_attempt = None\<rparr>, ga_status = None, ga_checked = 0\<rparr>"

definition restart_gate :: "gate_config \<Rightarrow> gate \<Rightarrow> gate" where
  "restart_gate cf s =
     \<lparr>ga_guard = map_option (\<lambda>g. g\<lparr>cg_bound := own_binding cf\<rparr>) (ga_guard s),
      ga_activation = \<lparr>ac_cache = ac_cache (ga_activation s), ac_last_attempt = None\<rparr>, ga_status = None, ga_checked = 0\<rparr>"

datatype gate_event = Call gate_call | Restart

fun gate_step :: "crypto \<Rightarrow> gate_config \<Rightarrow> gate_event \<Rightarrow> gate \<Rightarrow> gate" where
  "gate_step cr cf (Call c) s = snd (gate_check cr cf c s)"
| "gate_step cr cf Restart s = restart_gate cf s"

fun gate_run :: "crypto \<Rightarrow> gate_config \<Rightarrow> gate_event list \<Rightarrow> gate \<Rightarrow> gate" where
  "gate_run cr cf [] s = s"
| "gate_run cr cf (e # es) s = gate_run cr cf es (gate_step cr cf e s)"

section \<open>Live trading needs a licence that was good\<close>

lemma run_guard_frame:
  "run_guard cr cf w now i x s = (r, s') \<Longrightarrow> ga_activation s' = ga_activation s \<and> ga_status s' = ga_status s \<and> ga_checked s' = ga_checked s"
  by (auto simp: run_guard_def split: option.splits prod.splits)

lemma verify_lease_sound:
  assumes "verify_lease cr doc key i device nonce now = Some l"
  shows "\<exists>d. doc = Some d \<and> ld_lease d = l \<and> cr_verify cr key (ld_canonical d) (ld_signature d) \<and> le_licence_id l = i
    \<and> le_device l = device \<and> now < le_expires l \<and> le_server_time l \<le> now + SERVER_SLACK"
  using assms by (auto simp: verify_lease_def Let_def split: option.splits if_splits)

lemma refresh_lease_sound:
  assumes "refresh_lease cr key l device now server nonce writable = Some (le, d)"
  shows "verify_lease cr (Some d) key (lc_id l) device (Some nonce) now = Some le"
  using assms by (auto simp: refresh_lease_def split: option.splits if_splits)





text \<open>
  The branch for a clock behind the activation server is never taken: such a lease has already been rejected as dated in the
  future.
\<close>

lemma activation_never_reports_rollback: "\<not> la_rolled_back (fst (activation_status cr key l fp now server nonce wr c))"
proof -
  have judge: "\<not> la_rolled_back (judge_lease held now r e)" if "\<And>le. held = Some le \<Longrightarrow> le_server_time le \<le> now + SERVER_SLACK" for held r e
    using that by (auto simp: judge_lease_def ROLLBACK_TOLERANCE_def SERVER_SLACK_def Let_def split: option.splits)
  have "\<not> la_rolled_back (judge_lease (verify_lease cr doc key i device n now) now r e)" for doc i device n r e
    by (rule judge) (use verify_lease_sound in blast)
  moreover have "\<not> la_rolled_back (judge_lease (Some le) now r e)"
    if "refresh_lease cr key l (cr_device cr fp) now server nonce wr = Some (le, d)" for le d r e
    by (rule judge) (use verify_lease_sound [OF refresh_lease_sound [OF that]] in auto)
  ultimately show ?thesis
    by (auto simp: activation_status_def Let_def split: option.splits prod.splits)
qed




lemma judge_valid_fields:
  assumes "judge_valid cr cf w now l s = (st, s')"
  shows "ls_licence st = Some l \<and> \<not> ls_unlicensed_mode st
    \<and> ls_integrity st = Some (check_integrity cr (gc_require_manifest cf) (wd_manifest w) (wd_installed w) (gc_public_key cf))
    \<and> (\<exists>c. ls_activation st = Some (fst (activation_status cr (gc_lease_key cf) l (activation_machine cf w) now (wd_server w)
            (wd_nonce w) (wd_lease_writable w) c)))
    \<and> ls_clock st = fst (run_guard cr cf w now (lc_id l) False s)
    \<and> (ls_valid st \<longrightarrow> (\<forall>c. ls_clock st = Some c \<longrightarrow> gr_ok c))
    \<and> ga_guard s' = ga_guard (snd (run_guard cr cf w now (lc_id l) False s))
    \<and> ga_status s' = ga_status s \<and> ga_checked s' = ga_checked s"
proof -
  obtain clock s1 where r: "run_guard cr cf w now (lc_id l) False s = (clock, s1)" by fastforce
  obtain a ac where a: "activation_status cr (gc_lease_key cf) l (activation_machine cf w) now (wd_server w) (wd_nonce w)
      (wd_lease_writable w) (ga_activation s1) = (a, ac)" by fastforce
  define E where "E \<longleftrightarrow> (\<exists>c. ls_activation st = Some (fst (activation_status cr (gc_lease_key cf) l (activation_machine cf w) now
      (wd_server w) (wd_nonce w) (wd_lease_writable w) c)))"
  have E: E
    unfolding E_def using assms r a unfolding judge_valid_def Let_def by (intro exI [of _ "ga_activation s1"]) auto
  show ?thesis
    unfolding E_def [symmetric]
    using assms r a run_guard_frame [OF r] E unfolding judge_valid_def Let_def by (auto split: option.splits)
qed


abbreviation world_of :: "gate_call \<Rightarrow> world" where
  "world_of c \<equiv> snd (snd c)"









section \<open>What the timing record remembers\<close>

lemma keep_first_distinct [simp]: "distinct xs \<Longrightarrow> keep_first xs = xs"
  by (simp add: keep_first_def distinct_remdups_id)

lemma last_200_short: "length xs \<le> 200 \<Longrightarrow> last_200 xs = xs"
  by (simp add: last_200_def)

text \<open>
  A record that has seen every licence of \<open>X\<close> expired and the clock at \<open>H\<close>; the licences it can meet are those of \<open>I\<close>, which
  has at most the 200 members the list may hold.
\<close>

definition record_ok :: "string set \<Rightarrow> int \<Rightarrow> string set \<Rightarrow> guard_state \<Rightarrow> bool" where
  "record_ok I H X st \<longleftrightarrow> distinct (gd_expired_licences st) \<and> set (gd_expired_licences st) \<subseteq> I
     \<and> X \<subseteq> set (gd_expired_licences st) \<and> H \<le> gd_high_water_ns st"

lemma record_moment_keeps:
  assumes "record_ok I H X st" "finite I" "card I \<le> 200" "i \<in> I \<or> i = ''''"
  shows "record_ok I (max H now) (if x \<and> i \<noteq> '''' then insert i X else X) (record_moment st now i x)"
proof -
  let ?new = "if i \<in> set (gd_expired_licences st) then gd_expired_licences st else gd_expired_licences st @ [i]"
  have "last_200 ?new = ?new" if "i \<in> I"
  proof (rule last_200_short)
    have new: "distinct ?new" "set ?new \<subseteq> I" using assms(1) that by (auto simp: record_ok_def)
    show "length ?new \<le> 200"
      using card_mono [OF assms(2) new(2)] assms(3) unfolding distinct_card [OF new(1)] by linarith
  qed
  then show ?thesis
    using assms(1,4) by (auto simp: record_ok_def record_moment_def Let_def)
qed

text \<open>The gate's record of the past, authenticated under the machine map \<open>m\<close>.\<close>

definition remembers ::
  "crypto \<Rightarrow> gate_config \<Rightarrow> (string, string) dict \<Rightarrow> string set \<Rightarrow> int \<Rightarrow> string set \<Rightarrow> gate \<Rightarrow> bool" where
  "remembers cr cf m I H X s \<longleftrightarrow>
     (\<exists>g st. ga_guard s = Some g \<and> cg_file g = Record st (cr_tag cr m (gc_public_key cf) st) \<and> record_ok I H X st
        \<and> (ga_status s \<noteq> None \<longrightarrow> cg_bound g = m))"

definition bound_to :: "(string, string) dict \<Rightarrow> gate \<Rightarrow> bool" where
  "bound_to m s \<longleftrightarrow> (\<forall>g. ga_guard s = Some g \<longrightarrow> cg_bound g = m)"

lemma guard_evaluate_keeps:
  assumes "cg_bound g = m" "cg_file g = Record st (cr_tag cr m key st)" "record_ok I H X st" "finite I" "card I \<le> 200"
    "i \<in> I \<or> i = ''''" "guard_evaluate cr key writable now i x g = (r, g')"
  shows "cg_bound g' = m \<and> (\<exists>st'. cg_file g' = Record st' (cr_tag cr m key st') \<and> record_ok I H X st')"
    and "gr_ok r \<Longrightarrow> (i = '''' \<or> i \<notin> X) \<and> \<not> of_int CLOCK_SLACK_SEC < rollback_seconds st now"
proof -
  have read: "read_guard cr key g = (st, False, False)" using assms(1,2) by (simp add: read_guard_def)
  have "record_ok I H X (record_moment st now i x)"
    using record_moment_keeps [OF assms(3-6), of now x] by (auto simp: record_ok_def split: if_splits)
  then show "cg_bound g' = m \<and> (\<exists>st'. cg_file g' = Record st' (cr_tag cr m key st') \<and> record_ok I H X st')"
    using assms(1,2,3,7) read by (auto simp: guard_evaluate_def write_guard_def Let_def record_ok_def)
  show "(i = '''' \<or> i \<notin> X) \<and> \<not> of_int CLOCK_SLACK_SEC < rollback_seconds st now" if "gr_ok r"
    using assms(3,7) read that by (auto simp: guard_evaluate_def Let_def record_ok_def)
qed

lemma run_guard_keeps:
  assumes "remembers cr cf m I H X s" "bound_to m s" "finite I" "card I \<le> 200" "i \<in> I \<or> i = ''''"
    "run_guard cr cf w now i x s = (r, s')"
  shows "remembers cr cf m I H X s' \<and> bound_to m s'"
    and "\<exists>c. r = Some c \<and> (gr_ok c \<longrightarrow> (i = '''' \<or> i \<notin> X) \<and> (\<exists>st. record_ok I H X st \<and> \<not> of_int CLOCK_SLACK_SEC < rollback_seconds st (clock_ns now)))"
proof -
  obtain g st where g: "ga_guard s = Some g" "cg_file g = Record st (cr_tag cr m (gc_public_key cf) st)" "record_ok I H X st"
    using assms(1) by (auto simp: remembers_def)
  have b: "cg_bound g = m" using assms(2) g(1) by (simp add: bound_to_def)
  obtain c g' where ev: "guard_evaluate cr (gc_public_key cf) (wd_guard_writable w) (clock_ns now) i x g = (c, g')" by fastforce
  have r: "r = Some c" "s' = s\<lparr>ga_guard := Some g'\<rparr>" using assms(6) g(1) ev by (simp_all add: run_guard_def)
  note keep = guard_evaluate_keeps [OF b g(2,3) assms(3-5) ev]
  show "remembers cr cf m I H X s' \<and> bound_to m s'" using keep(1) r(2) by (auto simp: remembers_def bound_to_def)
  show "\<exists>c. r = Some c \<and> (gr_ok c \<longrightarrow> (i = '''' \<or> i \<notin> X) \<and> (\<exists>st. record_ok I H X st \<and> \<not> of_int CLOCK_SLACK_SEC < rollback_seconds st (clock_ns now)))"
    using keep(2) r(1) g(3) by blast
qed

lemma peek_keeps:
  assumes "remembers cr cf m I H X s" "peek cf (Some d) now s = (i, x, s')" "lc_machine (do_licence d) = m"
  shows "remembers cr cf m I H X s' \<and> bound_to m s' \<and> i = lc_id (do_licence d)"
  using assms by (auto simp: peek_def parse_def remembers_def bound_to_def rekey_def)

lemma peek_garbage: "peek cf None now s = ('''', False, s)"
  by (simp add: peek_def parse_def)

lemma judge_valid_keeps:
  assumes "remembers cr cf m I H X s" "bound_to m s" "finite I" "card I \<le> 200" "lc_id l \<in> I \<or> lc_id l = ''''"
    "judge_valid cr cf w now l s = (st, s')"
  shows "remembers cr cf m I H X s' \<and> bound_to m s'"
    and "ls_valid st \<Longrightarrow> (lc_id l = '''' \<or> lc_id l \<notin> X) \<and> (\<exists>st. record_ok I H X st \<and> \<not> of_int CLOCK_SLACK_SEC < rollback_seconds st (clock_ns now))"
proof -
  obtain r s1 where r: "run_guard cr cf w now (lc_id l) False s = (r, s1)" by fastforce
  note f = judge_valid_fields [OF assms(6), unfolded r fst_conv snd_conv]
  note keep = run_guard_keeps [OF assms(1-5) r]
  show "remembers cr cf m I H X s' \<and> bound_to m s'"
    using keep(1) f run_guard_frame [OF r] by (auto simp: remembers_def bound_to_def)
  show "(lc_id l = '''' \<or> lc_id l \<notin> X) \<and> (\<exists>st. record_ok I H X st \<and> \<not> of_int CLOCK_SLACK_SEC < rollback_seconds st (clock_ns now))"
    if "ls_valid st" using keep(2) f that by auto
qed

lemma gate_evaluate_licence:
  assumes "wd_licence w = LicenceText (Some d)" "lc_machine (do_licence d) = m" "lc_id (do_licence d) \<in> I"
    "gc_public_key cf \<noteq> ''''" "finite I" "card I \<le> 200" "remembers cr cf m I H X s" "gate_evaluate cr cf w now s = (r, s')"
  shows "remembers cr cf m I H X s' \<and> bound_to m s'"
    and "\<exists>st. r = Inr st \<and> (ls_valid st \<longrightarrow> (lc_id (do_licence d) = '''' \<or> lc_id (do_licence d) \<notin> X)
      \<and> (\<exists>rec. record_ok I H X rec \<and> \<not> of_int CLOCK_SLACK_SEC < rollback_seconds rec (clock_ns now)))"
proof -
  let ?v = "verify_licence (cr_verify cr) (Some d) (gc_public_key cf) True (gc_grace_days cf) now (machine_now cf w)"
  obtain i x s0 where p: "peek cf (Some d) now s = (i, x, s0)" by (metis prod_cases3)
  note k = peek_keeps [OF assms(7) p assms(2)]
  have i: "i \<in> I \<or> i = ''''" using k assms(3) by simp
  have both: "(remembers cr cf m I H X s' \<and> bound_to m s') \<and> (\<exists>st. r = Inr st \<and> (ls_valid st \<longrightarrow>
      (lc_id (do_licence d) = '''' \<or> lc_id (do_licence d) \<notin> X)
      \<and> (\<exists>rec. record_ok I H X rec \<and> \<not> of_int CLOCK_SLACK_SEC < rollback_seconds rec (clock_ns now))))"
  proof (cases ?v)
    case (Inr l)
    then have l: "l = do_licence d" using verify_licence_sound [OF Inr] by simp
    obtain st s1 where j: "judge_valid cr cf w now l s0 = (st, s1)" by fastforce
    then have "r = Inr st" "s' = s1" using assms(1,4,8) p Inr by (simp_all add: gate_evaluate_def)
    moreover have "lc_id l \<in> I \<or> lc_id l = ''''" using assms(3) l by simp
    ultimately show ?thesis using judge_valid_keeps [OF _ _ assms(5,6) _ j] k l by blast
  next
    case (Inl e)
    obtain y stage c s1 where g: "run_guard cr cf w now i y s0 = (c, s1)" "r = Inr (refused_status stage c)" "s' = s1"
      using assms(1,4,8) p Inl by (cases e) (auto simp: gate_evaluate_def split: prod.splits)
    have "remembers cr cf m I H X s1 \<and> bound_to m s1" using run_guard_keeps(1) [OF _ _ assms(5,6) i g(1)] k by blast
    then show ?thesis using g(2,3) by (simp add: refused_status_def)
  qed
  from both show "remembers cr cf m I H X s' \<and> bound_to m s'"
    and "\<exists>st. r = Inr st \<and> (ls_valid st \<longrightarrow> (lc_id (do_licence d) = '''' \<or> lc_id (do_licence d) \<notin> X)
      \<and> (\<exists>rec. record_ok I H X rec \<and> \<not> of_int CLOCK_SLACK_SEC < rollback_seconds rec (clock_ns now)))"
    by blast+
qed

lemma gate_evaluate_no_licence:
  assumes "wd_licence w = NoLicence \<or> wd_licence w = LicenceText None" "bound_to m s"
    "gc_public_key cf \<noteq> ''''" "finite I" "card I \<le> 200" "remembers cr cf m I H X s" "gate_evaluate cr cf w now s = (r, s')"
  shows "remembers cr cf m I H X s' \<and> bound_to m s'"
proof -
  obtain c s1 where g: "run_guard cr cf w now '''' False s = (c, s1)" by fastforce
  then have "s' = s1" using assms(1,3,7) by (auto simp: gate_evaluate_def peek_garbage verify_licence_def parse_def)
  then show ?thesis using run_guard_keeps(1) [OF assms(6,2,4,5) _ g] by simp
qed

text \<open>
  Runs in which every licence file that is there is for the machine map \<open>m\<close> and one of the licences \<open>I\<close>; a check without
  a readable licence comes only after one with a licence in the same process.
\<close>

fun same_binding :: "(string, string) dict \<Rightarrow> string set \<Rightarrow> bool \<Rightarrow> gate_event list \<Rightarrow> bool" where
  "same_binding m I pinned [] \<longleftrightarrow> True"
| "same_binding m I pinned (Restart # es) \<longleftrightarrow> same_binding m I False es"
| "same_binding m I pinned (Call c # es) \<longleftrightarrow>
     (case wd_licence (world_of c) of
        LicenceText (Some d) \<Rightarrow> lc_machine (do_licence d) = m \<and> lc_id (do_licence d) \<in> I \<and> same_binding m I True es
      | UnreadableLicence \<Rightarrow> same_binding m I pinned es
      | _ \<Rightarrow> pinned \<and> same_binding m I pinned es)"

lemma gate_check_keeps:
  assumes "remembers cr cf m I H X s" "pinned \<longrightarrow> bound_to m s" "gc_public_key cf \<noteq> ''''" "finite I" "card I \<le> 200"
    "same_binding m I pinned (Call c # es)"
  shows "\<exists>pinned'. remembers cr cf m I H X (snd (gate_check cr cf c s)) \<and> (pinned' \<longrightarrow> bound_to m (snd (gate_check cr cf c s)))
    \<and> same_binding m I pinned' es"
proof (cases "verdict_fresh s c")
  case True
  then have "snd (gate_check cr cf c s) = s" "ga_status s \<noteq> None" by (auto simp: gate_check_def verdict_fresh_def split: prod.splits)
  moreover from this(2) assms(1) have "bound_to m s" by (auto simp: remembers_def bound_to_def)
  ultimately show ?thesis using assms(1,6) by (auto split: licence_file.splits option.splits)
next
  case False
  let ?w = "world_of c"
  obtain r s1 where ev: "gate_evaluate cr cf ?w (call_instant c) s = (r, s1)" by fastforce
  have final: "remembers cr cf m I H X (snd (gate_check cr cf c s)) \<and> bound_to m (snd (gate_check cr cf c s))"
    if "remembers cr cf m I H X s1 \<and> bound_to m s1"
    using False ev that by (auto simp: gate_check_def remembers_def bound_to_def split: sum.splits)
  consider (licence) d where "wd_licence ?w = LicenceText (Some d)" | (unreadable) "wd_licence ?w = UnreadableLicence"
    | (none) "wd_licence ?w = NoLicence \<or> wd_licence ?w = LicenceText None"
    by (metis licence_file.exhaust option.exhaust)
  then show ?thesis
  proof cases
    case licence
    with assms(6) have d: "lc_machine (do_licence d) = m" "lc_id (do_licence d) \<in> I" "same_binding m I True es" by auto
    show ?thesis
      using final [OF gate_evaluate_licence(1) [OF licence d(1,2) assms(3-5,1) ev]] d(3) by blast
  next
    case unreadable
    then have "r = Inl LicenceInvalid" "s1 = s" using ev assms(3) by (simp_all add: gate_evaluate_def)
    then have "snd (gate_check cr cf c s) = s" using False ev by (simp add: gate_check_def)
    then show ?thesis using assms(1,2,6) unreadable by auto
  next
    case none
    with assms(6) have p: "pinned" "same_binding m I pinned es" by (auto split: licence_file.splits)
    show ?thesis
      using final [OF gate_evaluate_no_licence [OF none _ assms(3-5,1) ev]] p assms(2) by blast
  qed
qed

lemma gate_run_remembers:
  assumes "remembers cr cf m I H X s" "pinned \<longrightarrow> bound_to m s" "gc_public_key cf \<noteq> ''''" "finite I" "card I \<le> 200"
    "same_binding m I pinned es"
  shows "remembers cr cf m I H X (gate_run cr cf es s)"
  using assms(1,2,6)
proof (induction es arbitrary: s pinned)
  case (Cons e es)
  show ?case
  proof (cases e)
    case Restart
    then have "remembers cr cf m I H X (gate_step cr cf e s)" using Cons.prems(1) by (auto simp: remembers_def restart_gate_def)
    then show ?thesis using Cons.IH [of _ False] Cons.prems(3) Restart by simp
  next
    case (Call c)
    obtain pinned' where p: "remembers cr cf m I H X (snd (gate_check cr cf c s))"
        "pinned' \<longrightarrow> bound_to m (snd (gate_check cr cf c s))" "same_binding m I pinned' es"
      using gate_check_keeps [OF Cons.prems(1,2) assms(3-5) Cons.prems(3) [unfolded Call]] by blast
    show ?thesis using Cons.IH [OF p] by (simp add: Call)
  qed
qed simp

section \<open>The wall clock in nanoseconds\<close>




section \<open>Neither expiry nor the passing of time can be undone by the clock\<close>

text \<open>A licence that has not been recorded as a different history: the part of the starting record the properties need.\<close>

definition history_within :: "string set \<Rightarrow> gate \<Rightarrow> bool" where
  "history_within I s \<longleftrightarrow>
     (case map_option cg_file (ga_guard s) of
        Some (Record st _) \<Rightarrow> distinct (gd_expired_licences st) \<and> set (gd_expired_licences st) \<subseteq> I
      | Some _ \<Rightarrow> True
      | None \<Rightarrow> False)"

text \<open>A check that is not answered from the cache and can write the timing record.\<close>

definition first_look :: "gate_config \<Rightarrow> gate_call \<Rightarrow> string document \<Rightarrow> string set \<Rightarrow> gate \<Rightarrow> bool" where
  "first_look cf c d I s \<longleftrightarrow> \<not> verdict_fresh s c \<and> wd_licence (world_of c) = LicenceText (Some d) \<and> wd_guard_writable (world_of c)
     \<and> gc_public_key cf \<noteq> '''' \<and> lc_id (do_licence d) \<in> I \<and> finite I \<and> card I \<le> 200 \<and> history_within I s"

definition seen_expired :: "crypto \<Rightarrow> gate_config \<Rightarrow> gate_call \<Rightarrow> string document \<Rightarrow> bool" where
  "seen_expired cr cf c d \<longleftrightarrow>
     verify_licence (cr_verify cr) (Some d) (gc_public_key cf) True (gc_grace_days cf) (call_instant c) (machine_now cf (world_of c))
       = Inl LicenceExpired"

lemma run_guard_records:
  assumes "run_guard cr cf w now i x s = (r, s')" "history_within I s" "bound_to m s" "wd_guard_writable w" "i \<in> I" "finite I" "card I \<le> 200"
  shows "\<exists>g st. ga_guard s' = Some g \<and> cg_bound g = m \<and> cg_file g = Record st (cr_tag cr m (gc_public_key cf) st)
    \<and> record_ok I (clock_ns now) (if x \<and> i \<noteq> '''' then {i} else {}) st"
proof -
  obtain g where g: "ga_guard s = Some g" "cg_bound g = m"
    using assms(2,3) by (auto simp: history_within_def bound_to_def split: option.splits)
  obtain st ms un where r: "read_guard cr (gc_public_key cf) g = (st, ms, un)" by (metis prod_cases3)
  let ?low = "min (gd_high_water_ns st) (clock_ns now)"
  have "record_ok I ?low {} st"
    using r assms(2) g(1) by (auto simp: read_guard_def history_within_def record_ok_def new_guard_state_def
        split: guard_file.splits if_splits)
  then have "record_ok I (clock_ns now) (if x \<and> i \<noteq> '''' then {i} else {}) (record_moment st (clock_ns now) i x)" (is "record_ok I _ ?X ?st")
    using record_moment_keeps [of I ?low "{}" st i "clock_ns now" x] assms(5-7) by (simp add: max_def split: if_splits)
  then show ?thesis
    using assms(1,4) g r by (auto simp: run_guard_def guard_evaluate_def write_guard_def Let_def record_ok_def)
qed

lemma first_look_remembers:
  fixes cr :: crypto
  assumes look: "first_look cf c d I s"
  defines "m \<equiv> lc_machine (do_licence d)"
  defines "X \<equiv> (if past_deadline (do_licence d) (gc_grace_days cf) (call_instant c) \<and> lc_id (do_licence d) \<noteq> '''' then {lc_id (do_licence d)} else {})"
  shows "remembers cr cf m I (clock_ns (call_instant c)) X (snd (gate_check cr cf c s)) \<and> bound_to m (snd (gate_check cr cf c s))"
proof -
  let ?w = "world_of c" and ?now = "call_instant c"
  let ?v = "verify_licence (cr_verify cr) (Some d) (gc_public_key cf) True (gc_grace_days cf) ?now (machine_now cf ?w)"
  note l = look [unfolded first_look_def]
  obtain i x s0 where p: "peek cf (Some d) ?now s = (i, x, s0)" by (metis prod_cases3)
  have s0: "i = lc_id (do_licence d)" "bound_to m s0" "history_within I s0"
    using p l by (auto simp: peek_def parse_def m_def bound_to_def history_within_def rekey_def split: option.splits)
  obtain r s1 where ev: "gate_evaluate cr cf ?w ?now s = (r, s1)" by fastforce
  let ?past = "past_deadline (do_licence d) (gc_grace_days cf) ?now"
  have x: "x = ?past" using p by (simp add: peek_def parse_def)
  have guard: "\<exists>g st. ga_guard s2 = Some g \<and> cg_bound g = m \<and> cg_file g = Record st (cr_tag cr m (gc_public_key cf) st)
      \<and> record_ok I (clock_ns ?now) X st" if "run_guard cr cf ?w ?now (lc_id (do_licence d)) y s0 = (q, s2)" "?past \<longrightarrow> y" for y q s2
  proof -
    have "record_ok I H X st" if "record_ok I H (if y \<and> lc_id (do_licence d) \<noteq> '''' then {lc_id (do_licence d)} else {}) st" for H st
      using that \<open>?past \<longrightarrow> y\<close> by (auto simp: record_ok_def X_def split: if_splits)
    with run_guard_records [OF that(1) s0(3,2)] l show ?thesis by blast
  qed
  obtain g st where g: "ga_guard s1 = Some g" "cg_bound g = m" "cg_file g = Record st (cr_tag cr m (gc_public_key cf) st)"
      "record_ok I (clock_ns ?now) X st"
  proof (cases ?v)
    case (Inr lic)
    then have lic: "lic = do_licence d" "\<not> ?past" using verify_licence_sound [OF Inr] by auto
    obtain stat s2 where j: "judge_valid cr cf ?w ?now lic s0 = (stat, s2)" by fastforce
    obtain q s3 where q: "run_guard cr cf ?w ?now (lc_id lic) False s0 = (q, s3)" by fastforce
    have "s1 = s2" using ev l p Inr j by (simp add: gate_evaluate_def)
    then have "ga_guard s1 = ga_guard s3" using judge_valid_fields [OF j] q by simp
    with guard [of False q s3] q lic that show ?thesis by auto
  next
    case (Inl e)
    obtain y q s2 where q: "run_guard cr cf ?w ?now i y s0 = (q, s2)" "s1 = s2" "?past \<longrightarrow> y"
      using ev l p Inl x by (cases e) (auto simp: gate_evaluate_def split: prod.splits)
    with guard [of y q s2] s0(1) that show ?thesis by auto
  qed
  have "ga_guard (snd (gate_check cr cf c s)) = ga_guard s1" using l ev by (auto simp: gate_check_def split: sum.splits)
  with g show ?thesis by (auto simp: remembers_def bound_to_def)
qed

lemma licensed_build_is_licensed:
  assumes "fst (gate_evaluate cr cf w now s) = Inr st" "gc_public_key cf \<noteq> ''''"
  shows "\<not> ls_unlicensed_mode st"
proof -
  have "\<not> ls_unlicensed_mode st" if "judge_valid cr cf w now l s0 = (st, s1)" for l s0 s1 using judge_valid_fields [OF that] by simp
  moreover have "\<not> ls_unlicensed_mode (refused_status stage k)" for stage k by (simp add: refused_status_def)
  ultimately show ?thesis
    using assms unfolding gate_evaluate_def
    by (auto split: licence_file.splits prod.splits sum.splits licence_error.splits)
qed

text \<open>The verdict of a later check, once the record remembers.\<close>

lemma later_look:
  assumes "remembers cr cf m I H X s" "\<not> verdict_fresh s c" "wd_licence (world_of c) = LicenceText (Some d)" "lc_machine (do_licence d) = m"
    "lc_id (do_licence d) \<in> I" "gc_public_key cf \<noteq> ''''" "finite I" "card I \<le> 200"
  shows "\<exists>st. fst (gate_check cr cf c s) = Inr st \<and> \<not> ls_unlicensed_mode st \<and> (ls_valid st \<longrightarrow> (lc_id (do_licence d) = '''' \<or> lc_id (do_licence d) \<notin> X)
      \<and> (\<exists>rec. record_ok I H X rec \<and> \<not> of_int CLOCK_SLACK_SEC < rollback_seconds rec (clock_ns (call_instant c))))"
proof -
  obtain r s1 where ev: "gate_evaluate cr cf (world_of c) (call_instant c) s = (r, s1)" by fastforce
  have "fst (gate_check cr cf c s) = r" using assms(2) ev by (auto simp: gate_check_def split: sum.splits)
  with gate_evaluate_licence(2) [OF assms(3-8,1) ev] licensed_build_is_licensed [of cr cf "world_of c" "call_instant c" s] ev assms(6)
  show ?thesis by auto
qed

text \<open>
  C23. An expiry that was seen stays seen. Once a check with a writable timing record found a genuine licence past its grace
  period, every later check that looks at that licence refuses it, whatever clocks, servers, restarts, failed writes and
  other licences come in between, as long as each licence file met is for the same machine map, a check without one does
  not come first after a restart, and at most 200 licences are involved.
\<close>

theorem expired_stays_refused:
  assumes "first_look cf c0 d I s" "seen_expired cr cf c0 d" "lc_id (do_licence d) \<noteq> ''''"
    and "same_binding (lc_machine (do_licence d)) I True es"
    and "wd_licence (world_of c) = LicenceText (Some d')" "lc_id (do_licence d') = lc_id (do_licence d)"
    "lc_machine (do_licence d') = lc_machine (do_licence d)"
    and "\<not> verdict_fresh (gate_run cr cf es (snd (gate_check cr cf c0 s))) c"
  shows "\<exists>st. fst (gate_check cr cf c (gate_run cr cf es (snd (gate_check cr cf c0 s)))) = Inr st \<and> \<not> ls_valid st \<and> \<not> live_allowed st"
proof -
  note l = assms(1) [unfolded first_look_def]
  have "past_deadline (do_licence d) (gc_grace_days cf) (call_instant c0)"
    using verify_licence_expired [OF assms(2) [unfolded seen_expired_def]] by auto
  note r = first_look_remembers [OF assms(1), of cr, simplified this, simplified]
  have "remembers cr cf (lc_machine (do_licence d)) I (clock_ns (call_instant c0)) {lc_id (do_licence d)} (gate_run cr cf es (snd (gate_check cr cf c0 s)))"
    using gate_run_remembers [OF conjunct1 [OF r], of True es] r l assms(3,4) by simp
  from later_look [OF this assms(8,5,7)] l assms(3,6)
  obtain st where st: "fst (gate_check cr cf c (gate_run cr cf es (snd (gate_check cr cf c0 s)))) = Inr st" "\<not> ls_valid st" "\<not> ls_unlicensed_mode st" by auto
  then show ?thesis by (auto simp: live_allowed_def)
qed


section \<open>How the history can be washed\<close>

lemma run_guard_writes:
  assumes "run_guard cr cf w now i x s = (r, s')" "ga_guard s = Some g" "wd_guard_writable w"
  shows "\<exists>st. ga_guard s' = Some (g\<lparr>cg_file := Record st (cr_tag cr (cg_bound g) (gc_public_key cf) st)\<rparr>)"
  using assms by (auto simp: run_guard_def guard_evaluate_def write_guard_def Let_def split: prod.splits)

text \<open>A record written under another machine map is not the record of this licence: the guard starts afresh.\<close>

lemma other_binding_forgets:
  assumes "ga_guard s = Some g" "cg_file g = Record st (cr_tag cr m' (gc_public_key cf) st)"
    "cr_tag cr m' (gc_public_key cf) st \<noteq> cr_tag cr (lc_machine l) (gc_public_key cf) st"
    and "wd_licence w = LicenceText (Some d)" "gc_public_key cf \<noteq> ''''" "\<not> activation_required l"
    "verify_licence (cr_verify cr) (Some d) (gc_public_key cf) True (gc_grace_days cf) t (machine_now cf w) = Inr l"
  shows "\<exists>st. fst (gate_check cr cf (Some t, True, w) s) = Inr st \<and> ls_valid st"
proof -
  have l: "do_licence d = l" using verify_licence_sound [OF assms(7)] by auto
  have "fst (gate_evaluate cr cf w t s) = Inr stat \<Longrightarrow> ls_valid stat" for stat
    using assms l
    by (auto simp: gate_evaluate_def peek_def parse_def rekey_def judge_valid_def Let_def run_guard_def guard_evaluate_def
        read_guard_def new_guard_state_def rollback_seconds_def CLOCK_SLACK_SEC_def activation_status_def withdrawn_def
        split: prod.splits)
  moreover obtain stat where "fst (gate_evaluate cr cf w t s) = Inr stat"
  proof -
    obtain i x s0 where "peek cf (Some d) t s = (i, x, s0)" by (metis prod_cases3)
    moreover obtain stat s1 where "judge_valid cr cf w t l s0 = (stat, s1)" by fastforce
    ultimately show ?thesis using that assms(4,5,7) by (simp add: gate_evaluate_def)
  qed
  ultimately show ?thesis
    by (auto simp: gate_check_def verdict_fresh_def call_instant_def split: prod.splits sum.splits)
qed

text \<open>
  Deleting the licence file, starting the agent once and putting the file back washes the history, which \<open>_evaluate\<close> runs the
  guard without a licence file to prevent: that check writes a fresh record under the key of no licence.
\<close>

lemma deleted_licence_washes_history:
  assumes "ga_guard s = Some g" "gc_fingerprint cf = None" "gc_public_key cf \<noteq> ''''" "wd_licence w1 = NoLicence" "wd_guard_writable w1"
    and "\<And>st. cr_tag cr [] (gc_public_key cf) st \<noteq> cr_tag cr (lc_machine l) (gc_public_key cf) st"
    and "wd_licence w = LicenceText (Some d)" "\<not> activation_required l"
    "verify_licence (cr_verify cr) (Some d) (gc_public_key cf) True (gc_grace_days cf) t (machine_now cf w) = Inr l"
  shows "\<exists>st. fst (gate_check cr cf (Some t, True, w) (gate_run cr cf [Restart, Call (None, False, w1)] s)) = Inr st \<and> ls_valid st"
proof -
  obtain r s2 where r: "run_guard cr cf w1 (call_instant (None, False, w1)) '''' False (restart_gate cf s) = (r, s2)" by fastforce
  have "ga_guard (restart_gate cf s) = Some (g\<lparr>cg_bound := []\<rparr>)" using assms(1,2) by (simp add: restart_gate_def own_binding_def)
  from run_guard_writes [OF r this assms(5)] obtain g' st where g': "ga_guard s2 = Some g'"
      "cg_file g' = Record st (cr_tag cr [] (gc_public_key cf) st)" by auto
  have "ga_guard (gate_run cr cf [Restart, Call (None, False, w1)] s) = Some g'"
    using assms(3,4) r g'(1) by (simp add: gate_check_def verdict_fresh_def gate_evaluate_def restart_gate_def)
  with g'(2) other_binding_forgets [OF _ _ assms(6,7,3,8,9)] show ?thesis by blast
qed

text \<open>The same with an unsigned file that claims another machine map: the guard is rekeyed before the signature is checked.\<close>

lemma unsigned_file_washes_history:
  assumes "ga_guard s = Some g" "gc_public_key cf \<noteq> ''''" "wd_licence w1 = LicenceText (Some forged)" "wd_guard_writable w1"
    and "\<not> cr_verify cr (gc_public_key cf) (do_canonical forged) (do_signature forged)"
    and "\<And>st. cr_tag cr (lc_machine (do_licence forged)) (gc_public_key cf) st \<noteq> cr_tag cr (lc_machine l) (gc_public_key cf) st"
    and "wd_licence w = LicenceText (Some d)" "\<not> activation_required l"
    "verify_licence (cr_verify cr) (Some d) (gc_public_key cf) True (gc_grace_days cf) t (machine_now cf w) = Inr l"
  shows "\<exists>st. fst (gate_check cr cf (Some t, True, w) (gate_run cr cf [Call (None, True, w1)] s)) = Inr st \<and> ls_valid st"
proof -
  have "verify_licence (cr_verify cr) (Some forged) (gc_public_key cf) True (gc_grace_days cf) (wd_now w1) (machine_now cf w1)
      = Inl LicenceInvalid" using assms(5) by (simp add: verify_licence_def parse_def)
  moreover obtain i x s0 where p: "peek cf (Some forged) (wd_now w1) s = (i, x, s0)" by (metis prod_cases3)
  moreover obtain r s2 where r: "run_guard cr cf w1 (wd_now w1) i x s0 = (r, s2)" by fastforce
  ultimately have s2: "gate_run cr cf [Call (None, True, w1)] s = s2\<lparr>ga_status := Some (refused_status NoStage r), ga_checked := snd (wd_monotonic w1)\<rparr>"
    using assms(2,3) by (simp add: gate_check_def verdict_fresh_def gate_evaluate_def call_instant_def)
  have "ga_guard s0 = Some (g\<lparr>cg_bound := lc_machine (do_licence forged)\<rparr>)"
    using p assms(1) by (auto simp: peek_def parse_def rekey_def)
  from run_guard_writes [OF r this assms(4)] obtain g' st where "ga_guard (gate_run cr cf [Call (None, True, w1)] s) = Some g'"
      "cg_file g' = Record st (cr_tag cr (lc_machine (do_licence forged)) (gc_public_key cf) st)" unfolding s2 by auto
  with other_binding_forgets [OF _ _ assms(6,7,2,8,9)] show ?thesis by blast
qed

text \<open>And an unsigned file with the id and machine map of a licence in force and an expiry in the past condemns that licence.\<close>

lemma unsigned_file_condemns_licence:
  assumes "first_look cf c0 forged I s" "\<not> cr_verify cr (gc_public_key cf) (do_canonical forged) (do_signature forged)"
    "past_deadline (do_licence forged) (gc_grace_days cf) (call_instant c0)"
    and "wd_licence (world_of c) = LicenceText (Some d)" "lc_id (do_licence d) = lc_id (do_licence forged)"
    "lc_id (do_licence d) \<noteq> ''''" "lc_machine (do_licence d) = lc_machine (do_licence forged)"
    and "\<not> verdict_fresh (snd (gate_check cr cf c0 s)) c"
  shows "\<exists>st. fst (gate_check cr cf c (snd (gate_check cr cf c0 s))) = Inr st \<and> \<not> ls_valid st"
  using later_look [OF conjunct1 [OF first_look_remembers [OF assms(1)]] assms(8,4,7)] assms(1,3,5,6)
  by (auto simp: first_look_def)

section \<open>A sample installation\<close>

text \<open>One signed licence for one machine, an empty timing record, no activation and no manifest.\<close>

definition sample_crypto :: crypto where
  "sample_crypto = \<lparr>cr_verify = (\<lambda>key t g. g = key @ t), cr_tag = (\<lambda>bound key st. concat (map fst bound) @ key),
     cr_device = (\<lambda>fp. concat (map fst fp))\<rparr>"

definition sample_config :: gate_config where
  "sample_config = \<lparr>gc_public_key = ''KEY'', gc_lease_key = ''KEY'', gc_grace_days = 14, gc_fingerprint = Some [(''mac'', ''1'')],
     gc_require_manifest = False\<rparr>"

definition sample_document :: "string document" where
  "sample_document =
     \<lparr>do_licence = \<lparr>lc_id = ''L'', lc_issued_to = ''Customer'', lc_issued = 739000 * day_us, lc_expires = Some (740000 * day_us),
        lc_tier = ''unlimited'', lc_machine = [(''mac'', ''1'')], lc_capabilities = [], lc_activation_url = None,
        lc_activation_interval_hours = 0, lc_term_months = 3, lc_term_index = 1, lc_subscription_id = ''L'', lc_anchor_day = 0\<rparr>,
      do_canonical = ''text'', do_signature = ''KEYtext''\<rparr>"

definition sample_world :: "int \<Rightarrow> pyfloat \<Rightarrow> world" where
  "sample_world t clk =
     \<lparr>wd_now = t, wd_monotonic = (clk, clk), wd_licence = LicenceText (Some sample_document), wd_manifest = NoManifest,
      wd_installed = (\<lambda>rel. None), wd_machine = [], wd_guard_writable = True, wd_lease_writable = True, wd_server = (\<lambda>nonce. None),
      wd_nonce = ''n''\<rparr>"

abbreviation sample_gate :: gate where
  "sample_gate \<equiv> new_gate sample_config True NoRecord None"

lemmas sample_defs = sample_crypto_def sample_config_def sample_document_def sample_world_def

lemma sample_verifies:
  "verify_licence (cr_verify sample_crypto) (Some sample_document) (gc_public_key sample_config) True (gc_grace_days sample_config) t
     (machine_now sample_config (sample_world u clk))
   = (if t + licence_slack < 739000 * day_us then Inl LicenceInvalid else if 740014 * day_us < t then Inl LicenceExpired
      else Inr (do_licence sample_document))"
  by (simp add: sample_defs verify_licence_def parse_def machine_now_def past_deadline_def fingerprint_matches_def MATCH_THRESHOLD_def)

lemma sample_first_look:
  "first_look sample_config (None, True, sample_world t clk) sample_document {''L''} sample_gate"
  by (simp add: sample_defs first_look_def verdict_fresh_def history_within_def new_gate_def)



text \<open>Seen expired, then a restart, a check and the clock set back by 25 days.\<close>

lemma sample_run_bound:
  "same_binding (lc_machine (do_licence sample_document)) {''L''} True [Restart, Call (None, False, sample_world t clk)]"
  by (simp add: sample_defs)

lemma expired_stays_refused_witness:
  "\<exists>st. fst (gate_check sample_crypto sample_config (None, True, sample_world (739990 * day_us) 0)
      (gate_run sample_crypto sample_config [Restart, Call (None, False, sample_world (739990 * day_us) 0)]
        (snd (gate_check sample_crypto sample_config (None, True, sample_world (740015 * day_us) 0) sample_gate)))) = Inr st
    \<and> \<not> ls_valid st \<and> \<not> live_allowed st"
proof (rule expired_stays_refused [where d' = sample_document, OF sample_first_look _ _ sample_run_bound])
  show "seen_expired sample_crypto sample_config (None, True, sample_world (740015 * day_us) 0) sample_document"
    using sample_verifies [of "740015 * day_us" "740015 * day_us" 0]
    by (simp add: seen_expired_def call_instant_def licence_slack_def) (simp add: sample_world_def)
qed (simp_all add: sample_document_def sample_world_def verdict_fresh_def)


end
