(* ===== verification/Accounts.thy ===== *)
theory Accounts
  imports Text "HOL-Library.List_Lexorder" "HOL-Library.Char_ord"
begin

text \<open>
  The accounts of the dashboard: \<open>src/sentinel/api/security.py\<close>, the user store and the account administration of
  \<open>SecurityManager\<close>. The state of the manager is one record; the tables only the sessions use are in it too.

  The SQLite table is a dictionary from user name to row; whether a read or a write of it succeeds is an argument of the
  call, and another process may replace its contents. Argon2 hashes, TOTP secrets and random ids are made outside and
  come in as arguments. Texts are ASCII; messages and the actor of an audit entry are left out.
\<close>

section \<open>Accounts and the state of the manager\<close>

definition ROLES :: "string list" where
  "ROLES = [''owner'', ''operator'', ''viewer'']"

record user =
  us_username :: string
  us_password_hash :: string
  us_totp_secret :: string
  us_role :: string
  us_created_ns :: int
  us_disabled :: bool

definition can_write :: "user \<Rightarrow> bool" where
  "can_write u \<longleftrightarrow> us_role u \<in> {''operator'', ''owner''} \<and> \<not> us_disabled u"

definition can_change_risk :: "user \<Rightarrow> bool" where
  "can_change_risk u \<longleftrightarrow> us_role u = ''owner'' \<and> \<not> us_disabled u"

record session =
  sn_token_id :: string
  sn_username :: string
  sn_role :: string
  sn_issued_ns :: int
  sn_expires_ns :: int
  sn_fingerprint :: string
  sn_writes_used :: nat

datatype denial = LockedOut | BadCredentials | FingerprintMismatch | AccountGone | RoleChanged | TotpReplay | TotpInvalid
  | RoleNotPermitted | OwnerRequired | RateLimited

datatype sec_event =
  AccountChange string string
| AccountWriteFailed string
| AuthSuccess string
| AuthFailure string denial
| WriteAction string string
| WriteDenied string denial

record sec =
  sc_users :: "(string, user) dict"
  sc_store :: "(string, user) dict option"
  sc_sessions :: "(string, session) dict"
  sc_failures :: "(string, pyfloat list) dict"
  sc_lockouts :: "(string, pyfloat) dict"
  sc_used_totp :: "(string \<times> string, pyfloat) dict"
  sc_strikes :: "(string, nat) dict"
  sc_rate :: "(string, pyfloat list) dict"
  sc_audit :: "sec_event list"

text \<open>\<open>ValueError\<close>, \<open>RuntimeError\<close>, and the database error of a delete that is not guarded.\<close>

datatype account_error = AccountRefused | AccountNotPersisted | StoreFailed

type_synonym 'a sec_result = "(account_error + 'a) \<times> sec"

definition log_event :: "sec_event \<Rightarrow> sec \<Rightarrow> sec" where
  "log_event e s = s\<lparr>sc_audit := sc_audit s @ [e]\<rparr>"

text \<open>Whether the store answers reads and takes writes during a call.\<close>

record access =
  ac_reads :: bool
  ac_writes :: bool

section \<open>Names and passwords\<close>

definition MIN_PASSWORD_LENGTH :: nat where
  "MIN_PASSWORD_LENGTH = 12"

definition COMMON_PASSWORDS :: "string list" where
  "COMMON_PASSWORDS =
    [''password'', ''password1'', ''password123'', ''123456'', ''12345678'', ''123456789'',
     ''1234567890'', ''qwerty'', ''qwerty123'', ''abc123'', ''letmein'', ''welcome'',
     ''admin'', ''admin123'', ''root'', ''toor'', ''changeme'', ''trustno1'', ''iloveyou'',
     ''monkey'', ''dragon'', ''sunshine'', ''princess'', ''football'', ''baseball'',
     ''master'', ''shadow'', ''superman'', ''batman'', ''passw0rd'', ''p@ssword'',
     ''p@ssw0rd'', ''sentinel'', ''sentinelfx'', ''trading'', ''forex'', ''money'',
     ''password1234'', ''passwordpassword'', ''qwerty123456'', ''123456789012'',
     ''1234567890123'', ''qwertyuiop123'', ''iloveyou1234'', ''letmein12345'',
     ''administrator'', ''sentinel-fx1'', ''welcome123456'', ''adminadmin12'']"

definition password_shapes :: "string \<Rightarrow> string list" where
  "password_shapes password =
     (let lowered = lower (strip password)
      in [lowered, filter is_alnum_char lowered, filter is_alpha_char lowered, rstrip_chars ''0123456789!@#$%^&*._-'' lowered])"

text \<open>True when there is a reason to refuse, in the order of the code.\<close>

definition check_password_policy :: "string \<Rightarrow> string \<Rightarrow> bool" where
  "check_password_policy password username \<longleftrightarrow>
     256 < length password
     \<or> list_ex (\<lambda>p. p \<in> set COMMON_PASSWORDS) (password_shapes password)
     \<or> length password < MIN_PASSWORD_LENGTH
     \<or> username \<noteq> '''' \<and> contains (lower username) (lower (strip password))
     \<or> length (remdups password) < 5"

definition check_username :: "string \<Rightarrow> bool" where
  "check_username username \<longleftrightarrow>
     username = '''' \<or> 64 < length username \<or> length username < 3
     \<or> \<not> list_all (\<lambda>c. is_alnum_char c \<or> c \<in> {CHR ''.'', CHR ''_'', CHR ''-''}) username"

section \<open>The store\<close>

text \<open>\<open>upsert\<close> keeps the creation time of a row that exists.\<close>

definition upsert :: "user \<Rightarrow> (string, user) dict \<Rightarrow> (string, user) dict" where
  "upsert u db =
     (let row = (case dget db (us_username u) of None \<Rightarrow> u | Some old \<Rightarrow> u\<lparr>us_created_ns := us_created_ns old\<rparr>)
      in dset db (us_username u) row)"

definition all_accounts :: "access \<Rightarrow> sec \<Rightarrow> (string, user) dict \<times> sec" where
  "all_accounts ac s =
     (case sc_store s of
        None \<Rightarrow> (sc_users s, s)
      | Some db \<Rightarrow> if ac_reads ac then (db, s\<lparr>sc_users := db\<rparr>) else (sc_users s, s))"

definition persist :: "access \<Rightarrow> user \<Rightarrow> sec \<Rightarrow> bool \<times> sec" where
  "persist ac u s =
     (case sc_store s of
        None \<Rightarrow> (True, s)
      | Some db \<Rightarrow> if ac_writes ac then (True, s\<lparr>sc_store := Some (upsert u db)\<rparr>)
          else (False, log_event (AccountWriteFailed (us_username u)) s))"

definition cache_user :: "user \<Rightarrow> sec \<Rightarrow> sec" where
  "cache_user u s = s\<lparr>sc_users := dset (sc_users s) (us_username u) u\<rparr>"

text \<open>Every change of a row: the store first, the cache only when the store took it.\<close>

definition save_user :: "access \<Rightarrow> user \<Rightarrow> sec \<Rightarrow> bool \<times> sec" where
  "save_user ac u s = (case persist ac u s of (ok, s1) \<Rightarrow> (ok, if ok then cache_user u s1 else s1))"

definition reload_user :: "access \<Rightarrow> string \<Rightarrow> sec \<Rightarrow> user option \<times> sec" where
  "reload_user ac name s =
     (case sc_store s of
        None \<Rightarrow> (dget (sc_users s) name, s)
      | Some db \<Rightarrow>
          if \<not> ac_reads ac then (dget (sc_users s) name, s)
          else (case dget db name of
                  None \<Rightarrow> (None, s\<lparr>sc_users := dpop (sc_users s) name\<rparr>)
                | Some u \<Rightarrow> (Some u, s\<lparr>sc_users := dset (sc_users s) name u\<rparr>)))"

definition drop_sessions :: "string \<Rightarrow> sec \<Rightarrow> sec" where
  "drop_sessions name s = s\<lparr>sc_sessions := filter (\<lambda>(t, sess). sn_username sess \<noteq> name) (sc_sessions s)\<rparr>"

section \<open>Administration\<close>

definition is_owner :: "user \<Rightarrow> bool" where
  "is_owner u \<longleftrightarrow> us_role u = ''owner'' \<and> \<not> us_disabled u"

definition enabled_owners :: "(string, user) dict \<Rightarrow> string \<Rightarrow> string list" where
  "enabled_owners accounts excluding = map us_username (filter (\<lambda>u. is_owner u \<and> us_username u \<noteq> excluding) (dvalues accounts))"

text \<open>\<open>_last_owner_problem_locked\<close>: would the change leave nobody able to administer?\<close>

definition last_owner_problem :: "access \<Rightarrow> string \<Rightarrow> sec \<Rightarrow> bool \<times> sec" where
  "last_owner_problem ac name s =
     (case all_accounts ac s of (accounts, s1) \<Rightarrow>
        (case dget accounts name of
           None \<Rightarrow> (False, s1)
         | Some u \<Rightarrow> (is_owner u \<and> enabled_owners accounts name = [], s1)))"

definition add_user :: "access \<Rightarrow> string \<Rightarrow> string \<Rightarrow> string \<Rightarrow> string \<Rightarrow> string \<Rightarrow> int \<Rightarrow> sec \<Rightarrow> user sec_result" where
  "add_user ac name0 password role hash secret now s =
     (let name = strip name0 in
      if role \<notin> set ROLES then (Inl AccountRefused, s)
      else if check_username name then (Inl AccountRefused, s)
      else if check_password_policy password name then (Inl AccountRefused, s)
      else
      let u = \<lparr>us_username = name, us_password_hash = hash, us_totp_secret = secret, us_role = role, us_created_ns = now,
            us_disabled = False\<rparr>
      in case all_accounts ac s of (accounts, s1) \<Rightarrow>
         if dmem accounts name then (Inl AccountRefused, s1)
         else (case save_user ac u s1 of (ok, s2) \<Rightarrow>
           if \<not> ok then (Inl AccountNotPersisted, s2)
           else (Inr u, log_event (AccountChange ''user_created'' name) s2)))"

definition set_password :: "access \<Rightarrow> string \<Rightarrow> string \<Rightarrow> string \<Rightarrow> sec \<Rightarrow> bool sec_result" where
  "set_password ac name password hash s =
     (case dget (sc_users s) name of
        None \<Rightarrow> (Inr False, s)
      | Some u \<Rightarrow>
          if check_password_policy password name then (Inl AccountRefused, s)
          else
          let u' = u\<lparr>us_password_hash := hash\<rparr> in
          case save_user ac u' s of (ok, s1) \<Rightarrow>
            if \<not> ok then (Inr False, s1)
            else (Inr True, log_event (AccountChange ''password_changed'' name) s1))"

definition set_role :: "access \<Rightarrow> string \<Rightarrow> string \<Rightarrow> sec \<Rightarrow> bool sec_result" where
  "set_role ac name role s =
     (if role \<notin> set ROLES then (Inl AccountRefused, s)
      else
      case all_accounts ac s of (accounts, s1) \<Rightarrow>
        (case dget accounts name of
           None \<Rightarrow> (Inr False, s1)
         | Some u \<Rightarrow>
             (case (if role \<noteq> ''owner'' then last_owner_problem ac name s1 else (False, s1)) of (problem, s2) \<Rightarrow>
                if problem then (Inl AccountRefused, s2)
                else
                let u' = u\<lparr>us_role := role\<rparr> in
                case save_user ac u' s2 of (ok, s3) \<Rightarrow>
                  if \<not> ok then (Inr False, s3)
                  else (Inr True, log_event (AccountChange ''role_changed'' name) s3))))"

definition set_disabled :: "access \<Rightarrow> string \<Rightarrow> bool \<Rightarrow> sec \<Rightarrow> bool sec_result" where
  "set_disabled ac name off s =
     (case dget (sc_users s) name of
        None \<Rightarrow> (Inr False, s)
      | Some _ \<Rightarrow>
          (case all_accounts ac s of (accounts, s1) \<Rightarrow>
             (case dget accounts name of
                None \<Rightarrow> (Inr False, s1)
              | Some u \<Rightarrow>
                  (case (if off then last_owner_problem ac name s1 else (False, s1)) of (problem, s2) \<Rightarrow>
                     if problem then (Inl AccountRefused, s2)
                     else
                     let u' = u\<lparr>us_disabled := off\<rparr> in
                     case save_user ac u' s2 of (ok, s3) \<Rightarrow>
                       if \<not> ok then (Inr False, s3)
                       else
                       let s4 = (if off then drop_sessions name s3 else s3)
                       in (Inr True, log_event (AccountChange (if off then ''account_disabled'' else ''account_enabled'') name) s4)))))"

text \<open>\<open>UserStore.delete\<close> is not guarded: a write that fails raises.\<close>

definition delete_user :: "access \<Rightarrow> string \<Rightarrow> sec \<Rightarrow> bool sec_result" where
  "delete_user ac name s =
     (case last_owner_problem ac name s of (problem, s1) \<Rightarrow>
        if problem then (Inl AccountRefused, s1)
        else
        case all_accounts ac s1 of (accounts, s2) \<Rightarrow>
          if \<not> dmem accounts name then (Inr False, s2)
          else
          let removed = drop_sessions name (s2\<lparr>sc_users := dpop (sc_users s2) name\<rparr>) in
          case sc_store s2 of
            None \<Rightarrow> (Inr True, log_event (AccountChange ''user_deleted'' name) removed)
          | Some db \<Rightarrow>
              if \<not> ac_writes ac then (Inl StoreFailed, s2)
              else if \<not> dmem db name then (Inr False, s2)
              else (Inr True, log_event (AccountChange ''user_deleted'' name) (removed\<lparr>sc_store := Some (dpop db name)\<rparr>)))"

definition rotate_totp :: "access \<Rightarrow> string \<Rightarrow> string \<Rightarrow> sec \<Rightarrow> bool sec_result" where
  "rotate_totp ac name secret s =
     (case dget (sc_users s) name of
        None \<Rightarrow> (Inr False, s)
      | Some u \<Rightarrow>
          let u' = u\<lparr>us_totp_secret := secret\<rparr> in
          case save_user ac u' s of (ok, s1) \<Rightarrow>
            if \<not> ok then (Inr False, s1)
            else
            let s2 = drop_sessions name s1;
                s3 = s2\<lparr>sc_used_totp := filter (\<lambda>((n, c), t). n \<noteq> name) (sc_used_totp s2)\<rparr>
            in (Inr True, log_event (AccountChange ''totp_rotated'' name) s3))"

text \<open>
  What the dashboard lists: no hash and no secret. The owners first, each group by name; the stable sort by name comes before the
  one by role.
\<close>

record user_summary =
  sm_username :: string
  sm_role :: string
  sm_disabled :: bool
  sm_created_ns :: int
  sm_can_write :: bool
  sm_can_change_risk :: bool
  sm_active_sessions :: nat
  sm_is_last_owner :: bool

definition user_summaries :: "access \<Rightarrow> int \<Rightarrow> sec \<Rightarrow> user_summary list \<times> sec" where
  "user_summaries ac wall s =
     (case all_accounts ac s of (accounts, s1) \<Rightarrow>
        let users = dvalues accounts;
            sessions = map sn_username (filter (\<lambda>sess. wall < sn_expires_ns sess) (dvalues (sc_sessions s1)));
            live_owners = set (map us_username (filter is_owner users))
        in (map (\<lambda>u. \<lparr>sm_username = us_username u, sm_role = us_role u, sm_disabled = us_disabled u, sm_created_ns = us_created_ns u,
                sm_can_write = can_write u, sm_can_change_risk = can_change_risk u,
                sm_active_sessions = count_list sessions (us_username u),
                sm_is_last_owner = (is_owner u \<and> live_owners = {us_username u})\<rparr>)
              (sort_key (\<lambda>u. us_role u \<noteq> ''owner'') (sort_key us_username users)), s1))"

definition list_users :: "sec \<Rightarrow> user list" where
  "list_users s = sort_key us_username (dvalues (sc_users s))"

section \<open>Somebody can always administer\<close>

definition accounts_of :: "sec \<Rightarrow> (string, user) dict" where
  "accounts_of s = (case sc_store s of None \<Rightarrow> sc_users s | Some db \<Rightarrow> db)"

definition well_keyed :: "(string, user) dict \<Rightarrow> bool" where
  "well_keyed db \<longleftrightarrow> distinct (map fst db) \<and> (\<forall>(n, u) \<in> set db. us_username u = n)"

text \<open>The cache agrees with the store, which is so as long as no other process writes to it.\<close>

definition in_step :: "sec \<Rightarrow> bool" where
  "in_step s \<longleftrightarrow> well_keyed (sc_users s) \<and> (\<forall>db. sc_store s = Some db \<longrightarrow> sc_users s = db)"

definition has_owner :: "(string, user) dict \<Rightarrow> bool" where
  "has_owner db \<longleftrightarrow> (\<exists>(n, u) \<in> set db. is_owner u)"

definition governed :: "sec \<Rightarrow> bool" where
  "governed s \<longleftrightarrow> in_step s \<and> has_owner (sc_users s)"

lemma well_keyed_dget: "well_keyed db \<Longrightarrow> dget db n = Some u \<Longrightarrow> us_username u = n"
  by (auto simp: well_keyed_def dest!: map_of_SomeD)

lemma dset_same: "dget db n = Some u \<Longrightarrow> dset db n u = db"
  by (induction db) (auto split: if_splits)

lemma set_dset: "distinct (map fst db) \<Longrightarrow> set (dset db n u) = insert (n, u) {x \<in> set db. fst x \<noteq> n}"
proof (induction db)
  case (Cons x db)
  then show ?case by (cases x) (auto simp: rev_image_eqI)
qed simp

lemma well_keyed_dset: "well_keyed db \<Longrightarrow> us_username u = n \<Longrightarrow> well_keyed (dset db n u)"
  by (auto simp: well_keyed_def set_dset distinct_update)

lemma set_dpop: "set (dpop db n) = {x \<in> set db. fst x \<noteq> n}"
  by (auto simp: AList.delete_eq)

lemma well_keyed_dpop: "well_keyed db \<Longrightarrow> well_keyed (dpop db n)"
  by (auto simp: well_keyed_def set_dpop distinct_delete)

lemma upsert_row: "us_created_ns u = us_created_ns old \<Longrightarrow> dget db (us_username u) = Some old \<Longrightarrow> upsert u db = dset db (us_username u) u"
  by (cases u) (simp add: upsert_def Let_def)

lemma upsert_new: "dget db (us_username u) = None \<Longrightarrow> upsert u db = dset db (us_username u) u"
  by (simp add: upsert_def)

lemma all_accounts_in_step: "in_step s \<Longrightarrow> all_accounts ac s = (sc_users s, s)"
  by (cases s) (auto simp: all_accounts_def in_step_def split: option.splits)

lemma reload_user_in_step: "in_step s \<Longrightarrow> reload_user ac n s = (dget (sc_users s) n, s)"
proof -
  assume s: "in_step s"
  have "dpop db n = db" if "dget db n = None" for db :: "(string, user) dict"
    using that by (simp add: map_of_eq_None_iff)
  then show ?thesis
    using s by (cases s) (auto simp: reload_user_def in_step_def dset_same split: option.splits)
qed

text \<open>A change of one row keeps an owner when the guard lets it pass.\<close>

lemma replace_keeps_owner:
  assumes "has_owner db" "well_keyed db" "dget db n = Some u" "is_owner u \<longrightarrow> is_owner u' \<or> enabled_owners db n \<noteq> []"
  shows "has_owner (dset db n u')"
proof -
  have d: "distinct (map fst db)" using assms(2) by (simp add: well_keyed_def)
  obtain k v where v: "(k, v) \<in> set db" "is_owner v" using assms(1) by (auto simp: has_owner_def)
  show ?thesis
  proof (cases "k = n")
    case False
    then show ?thesis using v by (auto simp: has_owner_def set_dset [OF d])
  next
    case True
    then have "v = u" using v(1) assms(3) d by (simp add: map_of_eq_Some_iff)
    with v(2) assms(4) consider "is_owner u'" | "enabled_owners db n \<noteq> []" by blast
    then show ?thesis
    proof cases
      case 2
      then obtain w where "w \<in> set (dvalues db)" "is_owner w" "us_username w \<noteq> n"
        by (auto simp: enabled_owners_def filter_empty_conv)
      then show ?thesis using assms(2) by (fastforce simp: has_owner_def set_dset [OF d] well_keyed_def)
    qed (auto simp: has_owner_def set_dset [OF d])
  qed
qed

lemma remove_keeps_owner:
  assumes "has_owner db" "well_keyed db" "\<not> (\<exists>u. dget db n = Some u \<and> is_owner u \<and> enabled_owners db n = [])"
  shows "has_owner (dpop db n)"
proof -
  have d: "distinct (map fst db)" using assms(2) by (simp add: well_keyed_def)
  obtain k v where v: "(k, v) \<in> set db" "is_owner v" using assms(1) by (auto simp: has_owner_def)
  show ?thesis
  proof (cases "k = n")
    case True
    then have "dget db n = Some v" using v(1) d by (simp add: map_of_eq_Some_iff)
    then have "enabled_owners db n \<noteq> []" using assms(3) v(2) by blast
    then obtain w where "w \<in> set (dvalues db)" "is_owner w" "us_username w \<noteq> n"
      by (auto simp: enabled_owners_def filter_empty_conv)
    then show ?thesis using assms(2) by (fastforce simp: has_owner_def set_dpop well_keyed_def)
  qed (use v in \<open>auto simp: has_owner_def set_dpop\<close>)
qed

lemma save_user_governed:
  assumes "governed s" "save_user ac u s = (ok, s')"
    and "dget (sc_users s) (us_username u) = Some old \<and> us_created_ns u = us_created_ns old
        \<and> (is_owner old \<longrightarrow> is_owner u \<or> enabled_owners (sc_users s) (us_username u) \<noteq> [])
      \<or> dget (sc_users s) (us_username u) = None"
  shows "governed s'"
proof -
  let ?n = "us_username u"
  have w: "well_keyed (sc_users s)" "has_owner (sc_users s)" using assms(1) by (simp_all add: governed_def in_step_def)
  have "has_owner (dset (sc_users s) ?n u)"
  proof (cases "dget (sc_users s) ?n")
    case None
    then show ?thesis using w by (auto simp: has_owner_def set_dset well_keyed_def map_of_eq_None_iff) (metis fst_conv image_eqI)
  qed (use assms(3) replace_keeps_owner [OF w(2,1)] in auto)
  moreover have "upsert u (sc_users s) = dset (sc_users s) ?n u" using assms(3) upsert_row upsert_new by blast
  ultimately show ?thesis
    using assms(1,2) well_keyed_dset [OF w(1)]
    by (auto simp: save_user_def persist_def cache_user_def governed_def in_step_def log_event_def split: option.splits if_splits)
qed

lemma governed_frame:
  "governed s \<Longrightarrow> sc_users s' = sc_users s \<Longrightarrow> sc_store s' = sc_store s \<Longrightarrow> governed s'"
  by (simp add: governed_def in_step_def)

lemma governed_save:
  assumes "governed s" "dget (sc_users s) n = Some u" "us_username u' = n" "us_created_ns u' = us_created_ns u"
    "is_owner u \<longrightarrow> is_owner u' \<or> enabled_owners (sc_users s) n \<noteq> []" "save_user ac u' s = (ok, s')"
  shows "governed s'"
  using save_user_governed [OF assms(1,6)] assms(2-5) by simp

lemma last_owner_problem_in_step:
  "in_step s \<Longrightarrow> last_owner_problem ac n s
    = (\<exists>u. dget (sc_users s) n = Some u \<and> is_owner u \<and> enabled_owners (sc_users s) n = [], s)"
  by (auto simp: last_owner_problem_def all_accounts_in_step split: option.splits)

text \<open>The badge of the list agrees with the guard: it marks exactly the account a change of which would be refused.\<close>

lemma badge_agrees_with_guard:
  assumes "in_step s" "sm \<in> set (fst (user_summaries ac wall s))"
  shows "sm_is_last_owner sm \<longleftrightarrow> fst (last_owner_problem ac (sm_username sm) s)"
proof -
  obtain n u where u: "(n, u) \<in> set (sc_users s)" "sm_username sm = us_username u"
      "sm_is_last_owner sm \<longleftrightarrow> is_owner u \<and> set (map us_username (filter is_owner (dvalues (sc_users s)))) = {us_username u}"
    using assms by (auto simp: user_summaries_def all_accounts_in_step Let_def)
  have w: "well_keyed (sc_users s)" using assms(1) by (simp add: in_step_def)
  then have "us_username u = n" "dget (sc_users s) n = Some u" using u(1) by (auto simp: well_keyed_def)
  moreover have "enabled_owners (sc_users s) n = []
      \<longleftrightarrow> (\<forall>v \<in> set (dvalues (sc_users s)). is_owner v \<longrightarrow> us_username v = n)"
    by (auto simp: enabled_owners_def filter_empty_conv)
  moreover have "u \<in> set (dvalues (sc_users s))" using u(1) by force
  ultimately show ?thesis using u by (auto simp: last_owner_problem_in_step [OF assms(1)])
qed

datatype account_op =
  AddUser access string string string string string int
| SetPassword access string string string
| SetRole access string string
| SetDisabled access string bool
| DeleteUser access string
| RotateTotp access string string
| Reload access string

text \<open>The outcome of a call, and the state after it; \<open>Reload\<close> is what every request does to the cache.\<close>

fun account_step :: "account_op \<Rightarrow> sec \<Rightarrow> sec" where
  "account_step (AddUser ac n pw role hash secret now) s = snd (add_user ac n pw role hash secret now s)"
| "account_step (SetPassword ac n pw hash) s = snd (set_password ac n pw hash s)"
| "account_step (SetRole ac n role) s = snd (set_role ac n role s)"
| "account_step (SetDisabled ac n off) s = snd (set_disabled ac n off s)"
| "account_step (DeleteUser ac n) s = snd (delete_user ac n s)"
| "account_step (RotateTotp ac n secret) s = snd (rotate_totp ac n secret s)"
| "account_step (Reload ac n) s = snd (reload_user ac n s)"

lemma governed_parts:
  "governed s \<Longrightarrow> in_step s" "governed s \<Longrightarrow> dget (sc_users s) n = Some u \<Longrightarrow> us_username u = n"
  by (auto simp: governed_def in_step_def well_keyed_dget)

lemma governed_log [simp]: "governed (log_event e s) = governed s"
  by (simp add: governed_def in_step_def log_event_def)

lemma governed_drop [simp]: "governed (drop_sessions n s) = governed s"
  by (simp add: governed_def in_step_def drop_sessions_def)

lemma governed_totp [simp]: "governed (s\<lparr>sc_used_totp := t\<rparr>) = governed s"
  by (simp add: governed_def in_step_def)

lemma add_user_governed: "governed s \<Longrightarrow> governed (snd (add_user ac n pw role hash secret now s))"
  using save_user_governed [of s ac]
  by (auto simp: add_user_def all_accounts_in_step governed_parts(1) Let_def map_of_eq_None_iff split: prod.splits)

lemma set_password_governed:
  assumes "governed s"
  shows "governed (snd (set_password ac n pw hash s))"
proof (cases "dget (sc_users s) n")
  case (Some u)
  obtain ok s' where sv: "save_user ac (u\<lparr>us_password_hash := hash\<rparr>) s = (ok, s')" by fastforce
  have "governed s'"
    using governed_save [OF assms Some _ _ _ sv] governed_parts(2) [OF assms Some] by (simp add: is_owner_def)
  then show ?thesis using assms Some sv by (simp add: set_password_def Let_def)
qed (use assms in \<open>simp add: set_password_def\<close>)

lemma rotate_totp_governed:
  assumes "governed s"
  shows "governed (snd (rotate_totp ac n secret s))"
proof (cases "dget (sc_users s) n")
  case (Some u)
  obtain ok s' where sv: "save_user ac (u\<lparr>us_totp_secret := secret\<rparr>) s = (ok, s')" by fastforce
  have "governed s'"
    using governed_save [OF assms Some _ _ _ sv] governed_parts(2) [OF assms Some] by (simp add: is_owner_def)
  then show ?thesis using assms Some sv by (simp add: rotate_totp_def Let_def)
qed (use assms in \<open>simp add: rotate_totp_def\<close>)

lemma set_role_governed:
  assumes "governed s"
  shows "governed (snd (set_role ac n role s))"
proof (cases "dget (sc_users s) n")
  case (Some u)
  let ?u = "u\<lparr>us_role := role\<rparr>"
  have "governed s'" if "save_user ac ?u s = (ok, s')" "role \<noteq> ''owner'' \<longrightarrow> \<not> (is_owner u \<and> enabled_owners (sc_users s) n = [])" for ok s'
    using governed_save [OF assms Some _ _ _ that(1)] governed_parts(2) [OF assms Some] that(2) by (auto simp: is_owner_def)
  then show ?thesis
    using assms Some
    by (auto simp: set_role_def all_accounts_in_step governed_parts(1) last_owner_problem_in_step Let_def split: prod.splits)
qed (use assms in \<open>simp add: set_role_def all_accounts_in_step governed_parts(1)\<close>)

lemma set_disabled_governed:
  assumes "governed s"
  shows "governed (snd (set_disabled ac n off s))"
proof (cases "dget (sc_users s) n")
  case (Some u)
  let ?u = "u\<lparr>us_disabled := off\<rparr>"
  have "governed s'" if "save_user ac ?u s = (ok, s')" "off \<longrightarrow> \<not> (is_owner u \<and> enabled_owners (sc_users s) n = [])" for ok s'
    using governed_save [OF assms Some _ _ _ that(1)] governed_parts(2) [OF assms Some] that(2) by (auto simp: is_owner_def)
  then show ?thesis
    using assms Some
    by (auto simp: set_disabled_def all_accounts_in_step governed_parts(1) last_owner_problem_in_step Let_def split: prod.splits)
qed (use assms in \<open>simp add: set_disabled_def\<close>)

lemma delete_user_governed:
  assumes "governed s"
  shows "governed (snd (delete_user ac n s))"
proof (cases "\<exists>u. dget (sc_users s) n = Some u \<and> is_owner u \<and> enabled_owners (sc_users s) n = []")
  case False
  have w: "well_keyed (sc_users s)" "has_owner (sc_users s)" using assms by (simp_all add: governed_def in_step_def)
  note ok = remove_keeps_owner [OF w(2,1) False] well_keyed_dpop [OF w(1), of n]
  from assms have "\<And>db. sc_store s = Some db \<Longrightarrow> sc_users s = db" by (simp add: governed_def in_step_def)
  then show ?thesis
    using False assms ok
    by (auto simp: delete_user_def all_accounts_in_step governed_parts(1) last_owner_problem_in_step Let_def
        governed_def in_step_def log_event_def drop_sessions_def split: option.splits)
qed (use assms in \<open>simp add: delete_user_def last_owner_problem_in_step governed_parts(1)\<close>)

lemma account_step_governed: "governed s \<Longrightarrow> governed (account_step op s)"
  by (cases op) (simp_all add: add_user_governed set_password_governed set_role_governed set_disabled_governed
      delete_user_governed rotate_totp_governed reload_user_in_step governed_parts(1))

section \<open>Accounts changed by another process\<close>

text \<open>
  \<open>set_password\<close> (like \<open>rotate_totp\<close>) writes back the whole cached row: a role, a disabling or a deletion made by another
  process since the row was cached is undone.
\<close>

lemma password_change_undoes_external_change:
  assumes "dget (sc_users s) n = Some u" "us_username u = n" "sc_store s = Some db" "ac_writes ac" "\<not> check_password_policy pw n"
  shows "\<exists>s' db' row. set_password ac n pw hash s = (Inr True, s') \<and> sc_store s' = Some db' \<and> dget db' n = Some row
    \<and> us_role row = us_role u \<and> us_disabled row = us_disabled u"
  using assms by (auto simp: set_password_def save_user_def persist_def upsert_def cache_user_def log_event_def update_conv Let_def
      split: option.splits)

text \<open>An account another process created cannot be disabled before it has been used here.\<close>

lemma external_account_cannot_be_disabled:
  "dget (sc_users s) n = None \<Longrightarrow> set_disabled ac n True s = (Inr False, s)"
  by (simp add: set_disabled_def)

end
