(* ===== verification/Sessions.thy ===== *)
theory Sessions
  imports Accounts
begin

text \<open>
  Login, sessions, second factor, lockout and rate limits of \<open>src/sentinel/api/security.py\<close>, and the two guards of
  \<open>src/sentinel/api/main.py\<close> every authenticated route goes through.

  Argon2, TOTP, the JWT library and SHA-256 are the parameters in \<open>sec_parameters\<close>. The clocks come in with the call: the
  monotonic clock in seconds as a double, one reading for each stretch of a call that does not wait, and the wall clock in
  nanoseconds.
\<close>

section \<open>Parameters\<close>

text \<open>
  \<open>or_password pw hash\<close>, \<open>or_dummy\<close>: the hash of the placeholder password, \<open>or_totp secret code now\<close> (with the tolerance of one step), \<open>or_token\<close>: the token id inside a token that
  decodes and has not expired, \<open>or_print\<close>: the fingerprint of user agent and address.
\<close>

record sec_parameters =
  or_password :: "string \<Rightarrow> string \<Rightarrow> bool"
  or_dummy :: string
  or_totp :: "string \<Rightarrow> string \<Rightarrow> int \<Rightarrow> bool"
  or_token :: "string \<Rightarrow> int \<Rightarrow> string option"
  or_print :: "string \<Rightarrow> string \<Rightarrow> string"

record sec_config =
  sc_session_ttl :: int
  sc_max_login_attempts :: nat
  sc_lockout_sec :: int
  sc_write_rate :: nat
  sc_read_rate :: nat

definition MAX_TRACKED_KEYS :: int where
  "MAX_TRACKED_KEYS = 20000"

definition TOTP_REPLAY_TTL_SEC :: pyfloat where
  "TOTP_REPLAY_TTL_SEC = 120"

definition user_key :: "string \<Rightarrow> string" where
  "user_key name = ''user:'' @ name"

definition ip_key :: "string \<Rightarrow> string" where
  "ip_key ip = ''ip:'' @ ip"

definition write_key :: "string \<Rightarrow> string" where
  "write_key name = ''write:'' @ name"

definition read_key :: "string \<Rightarrow> string" where
  "read_key name = ''read:'' @ name"

definition login_key :: "string \<Rightarrow> string" where
  "login_key ip = ''login:'' @ ip"

section \<open>Lockout\<close>

text \<open>The seconds that remain, and the expired entry removed. A lockout time of zero counts as none.\<close>

definition locked_out :: "string \<Rightarrow> pyfloat \<Rightarrow> sec \<Rightarrow> pyfloat option \<times> sec" where
  "locked_out key now s =
     (case dget (sc_lockouts s) key of
        None \<Rightarrow> (None, s)
      | Some until \<Rightarrow>
          if until \<noteq> 0 \<and> now < until then (Some (fround (until - now)), s)
          else if until \<noteq> 0 then (None, s\<lparr>sc_lockouts := dpop (sc_lockouts s) key\<rparr>)
          else (None, s))"

text \<open>\<open>if remaining\<close>: a remainder of zero counts as none.\<close>

definition holds_lock :: "pyfloat option \<Rightarrow> bool" where
  "holds_lock r \<longleftrightarrow> (case r of Some x \<Rightarrow> x \<noteq> 0 | None \<Rightarrow> False)"

definition record_failure :: "sec_config \<Rightarrow> string \<Rightarrow> pyfloat \<Rightarrow> sec \<Rightarrow> sec" where
  "record_failure cf key now s =
     (let window = filter (\<lambda>t. fround (now - t) < of_int (sc_lockout_sec cf)) (dget_default (sc_failures s) key []) @ [now];
          s1 = s\<lparr>sc_failures := dset (sc_failures s) key window\<rparr>
      in if sc_max_login_attempts cf \<le> length window
         then
           let strikes = dget_default (sc_strikes s1) key 0 + 1; factor = (2 :: int) ^ (strikes - 1) in
           s1\<lparr>sc_strikes := dset (sc_strikes s1) key strikes,
              sc_lockouts := dset (sc_lockouts s1) key (fround (now + of_int (sc_lockout_sec cf * min factor 16))),
              sc_failures := dset (sc_failures s1) key []\<rparr>
         else s1)"

section \<open>Pruning\<close>

definition latest :: "pyfloat list \<Rightarrow> pyfloat" where
  "latest ts = (if ts = [] then 0 else Max (set ts))"

text \<open>\<open>sorted(.., key=.., reverse=True)[:_MAX_TRACKED_KEYS]\<close>: descending, ties in the order of the table.\<close>

definition keep_top :: "('v \<Rightarrow> pyfloat) \<Rightarrow> (string, 'v) dict \<Rightarrow> (string, 'v) dict" where
  "keep_top f table = take (nat MAX_TRACKED_KEYS) (sort_key (\<lambda>kv. - f (snd kv)) table)"

definition prune_windows :: "pyfloat \<Rightarrow> pyfloat \<Rightarrow> (string, pyfloat list) dict \<Rightarrow> (string, pyfloat list) dict" where
  "prune_windows horizon now table =
     (let alive = filter (\<lambda>(k, v). v \<noteq> [] \<and> fround (now - latest v) \<le> horizon) table
      in if MAX_TRACKED_KEYS < int (length alive) then keep_top latest alive else alive)"

definition prune_tracking :: "sec_config \<Rightarrow> pyfloat \<Rightarrow> int \<Rightarrow> sec \<Rightarrow> sec" where
  "prune_tracking cf now wall s =
     (let horizon = of_int (max (sc_lockout_sec cf) 60 * 4);
          gone = map fst (filter (\<lambda>(k, until). fround (until + horizon) < now) (sc_lockouts s));
          lockouts = filter (\<lambda>(k, until). k \<notin> set gone) (sc_lockouts s);
          strikes = filter (\<lambda>(k, n). k \<notin> set gone) (sc_strikes s);
          over = MAX_TRACKED_KEYS < int (length lockouts);
          keep = (if over then keep_top id lockouts else lockouts)
      in s\<lparr>sc_failures := prune_windows horizon now (sc_failures s),
           sc_rate := prune_windows horizon now (sc_rate s),
           sc_lockouts := keep,
           sc_strikes := (if over then filter (\<lambda>(k, n). k \<in> set (map fst keep)) strikes else strikes),
           sc_used_totp := filter (\<lambda>(k, ts). \<not> ts < fround (now - TOTP_REPLAY_TTL_SEC)) (sc_used_totp s),
           sc_sessions := filter (\<lambda>(t, sess). \<not> sn_expires_ns sess < wall) (sc_sessions s)\<rparr>)"

section \<open>Rate limits\<close>

definition check_rate :: "string \<Rightarrow> nat \<Rightarrow> pyfloat \<Rightarrow> sec \<Rightarrow> bool \<times> sec" where
  "check_rate key per_minute now s =
     (let window = filter (\<lambda>t. fround (now - t) < 60) (dget_default (sc_rate s) key [])
      in if per_minute \<le> length window then (False, s\<lparr>sc_rate := dset (sc_rate s) key window\<rparr>)
         else (True, s\<lparr>sc_rate := dset (sc_rate s) key (window @ [now])\<rparr>))"

section \<open>Login and sessions\<close>

definition set_session :: "session \<Rightarrow> sec \<Rightarrow> sec" where
  "set_session sess s = s\<lparr>sc_sessions := dset (sc_sessions s) (sn_token_id sess) sess\<rparr>"

definition drop_session :: "string \<Rightarrow> sec \<Rightarrow> sec" where
  "drop_session tid s = s\<lparr>sc_sessions := dpop (sc_sessions s) tid\<rparr>"

definition first_lock :: "string list \<Rightarrow> pyfloat \<Rightarrow> sec \<Rightarrow> bool \<times> sec" where
  "first_lock keys now s =
     foldl (\<lambda>(locked, s') k. if locked then (True, s')
        else (case locked_out k now s' of (r, s'') \<Rightarrow> (holds_lock r, s''))) (False, s) keys"

definition login_failed :: "sec_config \<Rightarrow> string \<Rightarrow> string \<Rightarrow> pyfloat \<Rightarrow> sec \<Rightarrow> sec" where
  "login_failed cf name ip now s =
     log_event (AuthFailure name BadCredentials) (record_failure cf (ip_key ip) now (record_failure cf (user_key name) now s))"

text \<open>
  One login: the tables are pruned and the locks consulted at \<open>now\<close>, the password is checked outside the lock, and the outcome is
  recorded at \<open>later\<close>.
\<close>

definition login ::
  "sec_parameters \<Rightarrow> sec_config \<Rightarrow> access \<Rightarrow> string \<Rightarrow> string \<Rightarrow> string \<Rightarrow> string \<Rightarrow> string \<Rightarrow> pyfloat \<Rightarrow> pyfloat \<Rightarrow> int \<Rightarrow> sec
   \<Rightarrow> session option \<times> sec" where
  "login orc cf ac name password agent ip token_id now later wall s =
     (case first_lock [user_key name, ip_key ip] now (prune_tracking cf now wall s) of (locked, s1) \<Rightarrow>
        if locked then (None, log_event (AuthFailure name LockedOut) s1)
        else
        case reload_user ac name s1 of (found, s2) \<Rightarrow>
          let ok = or_password orc password (case found of Some u \<Rightarrow> us_password_hash u | None \<Rightarrow> or_dummy orc) in
          case found of
            None \<Rightarrow> (None, login_failed cf name ip later s2)
          | Some u \<Rightarrow>
              if \<not> ok \<or> us_disabled u
              then (None, login_failed cf name ip later s2)
              else
              let s3 = s2\<lparr>sc_failures := dpop (dpop (sc_failures s2) (user_key name)) (ip_key ip)\<rparr>;
                  sess = \<lparr>sn_token_id = token_id, sn_username = name, sn_role = us_role u, sn_issued_ns = wall,
                    sn_expires_ns = wall + sc_session_ttl cf * 1000000000, sn_fingerprint = or_print orc agent ip, sn_writes_used = 0\<rparr>
              in (Some sess, log_event (AuthSuccess name) (set_session sess s3)))"

definition verify_token ::
  "sec_parameters \<Rightarrow> access \<Rightarrow> string \<Rightarrow> string \<Rightarrow> string \<Rightarrow> int \<Rightarrow> sec \<Rightarrow> session option \<times> sec" where
  "verify_token orc ac token agent ip wall s =
     (case or_token orc token wall of
        None \<Rightarrow> (None, s)
      | Some tid \<Rightarrow>
          (case dget (sc_sessions s) tid of
             None \<Rightarrow> (None, drop_session tid s)
           | Some sess \<Rightarrow>
               if sn_expires_ns sess < wall then (None, drop_session tid s)
               else if sn_fingerprint sess \<noteq> or_print orc agent ip
               then (None, log_event (AuthFailure (sn_username sess) FingerprintMismatch) s)
               else
               case reload_user ac (sn_username sess) s of (found, s1) \<Rightarrow>
                 (case found of
                    None \<Rightarrow> (None, log_event (AuthFailure (sn_username sess) AccountGone) (drop_session tid s1))
                  | Some u \<Rightarrow>
                      if us_disabled u then (None, log_event (AuthFailure (sn_username sess) AccountGone) (drop_session tid s1))
                      else if us_role u \<noteq> sn_role sess
                      then let sess' = sess\<lparr>sn_role := us_role u\<rparr>
                        in (Some sess', set_session sess' (log_event (WriteDenied (sn_username sess) RoleChanged) s1))
                      else (Some sess, s1))))"

definition logout :: "string \<Rightarrow> sec \<Rightarrow> bool \<times> sec" where
  "logout tid s = (dmem (sc_sessions s) tid, drop_session tid s)"

definition purge_expired :: "int \<Rightarrow> sec \<Rightarrow> nat \<times> sec" where
  "purge_expired wall s =
     (length (filter (\<lambda>(t, sess). sn_expires_ns sess < wall) (sc_sessions s)),
      s\<lparr>sc_sessions := filter (\<lambda>(t, sess). \<not> sn_expires_ns sess < wall) (sc_sessions s)\<rparr>)"

section \<open>The second factor\<close>

definition clean_code :: "string \<Rightarrow> string" where
  "clean_code code = filter (\<lambda>c. c \<noteq> CHR '' '') (strip code)"

definition verify_totp :: "sec_parameters \<Rightarrow> string \<Rightarrow> string \<Rightarrow> bool \<Rightarrow> pyfloat \<Rightarrow> int \<Rightarrow> sec \<Rightarrow> bool \<times> sec" where
  "verify_totp orc name code0 consume now wall s =
     (case dget (sc_users s) name of
        None \<Rightarrow> (False, s)
      | Some u \<Rightarrow>
          let code = clean_code code0 in
          if us_disabled u then (False, s)
          else if \<not> all_digits code \<or> length code \<noteq> 6 then (False, s)
          else if dmem (sc_used_totp s) (name, code) then (False, log_event (WriteDenied name TotpReplay) s)
          else if \<not> or_totp orc (us_totp_secret u) code wall then (False, log_event (WriteDenied name TotpInvalid) s)
          else (True, if consume then s\<lparr>sc_used_totp := dset (sc_used_totp s) (name, code) now\<rparr> else s))"

definition consume_totp :: "string \<Rightarrow> string \<Rightarrow> pyfloat \<Rightarrow> sec \<Rightarrow> sec" where
  "consume_totp name code now s = s\<lparr>sc_used_totp := dset (sc_used_totp s) (name, clean_code code) now\<rparr>"

definition count_write :: "string \<Rightarrow> sec \<Rightarrow> sec" where
  "count_write tid s =
     (case dget (sc_sessions s) tid of
        None \<Rightarrow> s
      | Some sess \<Rightarrow> s\<lparr>sc_sessions := dset (sc_sessions s) tid (sess\<lparr>sn_writes_used := sn_writes_used sess + 1\<rparr>)\<rparr>)"

text \<open>A wrong code counts as a failed login; once that arms the lock the sessions of the user are dropped.\<close>

definition refuse_code :: "sec_config \<Rightarrow> string \<Rightarrow> pyfloat \<Rightarrow> sec \<Rightarrow> sec" where
  "refuse_code cf name now s =
     (case locked_out (user_key name) now (record_failure cf (user_key name) now s) of (r, s1) \<Rightarrow>
        if holds_lock r then drop_sessions name s1 else s1)"

text \<open>What a write has to pass before its code is looked at: role, ownership, write rate, lock.\<close>

definition write_gates ::
  "sec_config \<Rightarrow> access \<Rightarrow> string \<Rightarrow> bool \<Rightarrow> pyfloat \<Rightarrow> sec \<Rightarrow> denial option \<times> sec" where
  "write_gates cf ac name requires_owner now s =
     (case reload_user ac name s of (found, s1) \<Rightarrow>
        if (case found of Some u \<Rightarrow> \<not> can_write u | None \<Rightarrow> True) then (Some RoleNotPermitted, s1)
        else if requires_owner \<and> (case found of Some u \<Rightarrow> \<not> can_change_risk u | None \<Rightarrow> True) then (Some OwnerRequired, s1)
        else
        case check_rate (write_key name) (sc_write_rate cf) now s1 of (free, s2) \<Rightarrow>
          if \<not> free then (Some RateLimited, s2)
          else
          case locked_out (user_key name) now s2 of (remaining, s3) \<Rightarrow>
            if holds_lock remaining then (Some LockedOut, s3) else (None, s3))"

definition authorise_write ::
  "sec_parameters \<Rightarrow> sec_config \<Rightarrow> access \<Rightarrow> session \<Rightarrow> string \<Rightarrow> string \<Rightarrow> bool \<Rightarrow> pyfloat \<Rightarrow> int \<Rightarrow> sec \<Rightarrow> bool \<times> sec" where
  "authorise_write orc cf ac sess code action requires_owner now wall s =
     (let name = sn_username sess in
      case write_gates cf ac name requires_owner now s of
        (Some d, s1) \<Rightarrow> (False, log_event (WriteDenied name d) s1)
      | (None, s1) \<Rightarrow>
          (case verify_totp orc name code False now wall s1 of (ok, s2) \<Rightarrow>
             if \<not> ok then (False, refuse_code cf name now s2)
             else (True, log_event (WriteAction name action) (count_write (sn_token_id sess) (consume_totp name code now s2)))))"

section \<open>The guards of the routes\<close>

definition current_session ::
  "sec_parameters \<Rightarrow> sec_config \<Rightarrow> access \<Rightarrow> string \<Rightarrow> string \<Rightarrow> string \<Rightarrow> pyfloat \<Rightarrow> int \<Rightarrow> sec \<Rightarrow> session option \<times> sec" where
  "current_session orc cf ac authorization agent ip now wall s =
     (if take 7 authorization \<noteq> ''Bearer '' then (None, s)
      else
      case verify_token orc ac (drop 7 authorization) agent ip wall s of (found, s1) \<Rightarrow>
        (case found of
           None \<Rightarrow> (None, s1)
         | Some sess \<Rightarrow>
             (case check_rate (read_key (sn_username sess)) (sc_read_rate cf) now s1 of (free, s2) \<Rightarrow>
                (if free then Some sess else None, s2))))"

definition require_write ::
  "sec_parameters \<Rightarrow> sec_config \<Rightarrow> access \<Rightarrow> string \<Rightarrow> string \<Rightarrow> string \<Rightarrow> string \<Rightarrow> string \<Rightarrow> bool \<Rightarrow> pyfloat \<Rightarrow> int \<Rightarrow> sec
   \<Rightarrow> session option \<times> sec" where
  "require_write orc cf ac token agent ip code action requires_owner now wall s =
     (case current_session orc cf ac token agent ip now wall s of (found, s1) \<Rightarrow>
        (case found of
           None \<Rightarrow> (None, s1)
         | Some sess \<Rightarrow>
             (case authorise_write orc cf ac sess code action requires_owner now wall s1 of (ok, s2) \<Rightarrow>
                (if ok then Some sess else None, s2))))"

definition login_route ::
  "sec_parameters \<Rightarrow> sec_config \<Rightarrow> access \<Rightarrow> string \<Rightarrow> string \<Rightarrow> string \<Rightarrow> string \<Rightarrow> string \<Rightarrow> pyfloat \<Rightarrow> pyfloat \<Rightarrow> int \<Rightarrow> sec
   \<Rightarrow> session option \<times> sec" where
  "login_route orc cf ac name password agent ip token_id now later wall s =
     (case check_rate (login_key ip) 10 now s of (free, s1) \<Rightarrow>
        if free then login orc cf ac name password agent ip token_id now later wall s1 else (None, s1))"

end
