(* ===== verification/SecurityRuns.thy ===== *)
theory SecurityRuns
  imports Sessions
begin

text \<open>
  The dashboard's security as a whole: runs of logins, requests, writes, log-outs and account changes, and what holds over
  all of them.
\<close>

section \<open>Runs\<close>

datatype sec_op =
  Account account_op
| Login access string string string string string pyfloat pyfloat int
| Request access string string string pyfloat int
| Write access string string string string string bool pyfloat int
| Logout string
| Purge int

fun sec_step :: "sec_parameters \<Rightarrow> sec_config \<Rightarrow> sec_op \<Rightarrow> sec \<Rightarrow> sec" where
  "sec_step orc cf (Account op) s = account_step op s"
| "sec_step orc cf (Login ac name password agent ip token_id now later wall) s =
     snd (login_route orc cf ac name password agent ip token_id now later wall s)"
| "sec_step orc cf (Request ac token agent ip now wall) s = snd (current_session orc cf ac token agent ip now wall s)"
| "sec_step orc cf (Write ac token agent ip code action owner now wall) s =
     snd (require_write orc cf ac token agent ip code action owner now wall s)"
| "sec_step orc cf (Logout tid) s = snd (logout tid s)"
| "sec_step orc cf (Purge wall) s = snd (purge_expired wall s)"

fun sec_run :: "sec_parameters \<Rightarrow> sec_config \<Rightarrow> sec_op list \<Rightarrow> sec \<Rightarrow> sec" where
  "sec_run orc cf [] s = s"
| "sec_run orc cf (op # ops) s = sec_run orc cf ops (sec_step orc cf op s)"

text \<open>Who is let in by a step: a login, or a write that is authorised.\<close>

fun admitted :: "sec_parameters \<Rightarrow> sec_config \<Rightarrow> sec_op \<Rightarrow> sec \<Rightarrow> string option" where
  "admitted orc cf (Login ac name password agent ip token_id now later wall) s =
     map_option sn_username (fst (login_route orc cf ac name password agent ip token_id now later wall s))"
| "admitted orc cf (Write ac token agent ip code action owner now wall) s =
     map_option sn_username (fst (require_write orc cf ac token agent ip code action owner now wall s))"
| "admitted orc cf op s = None"


text \<open>The monotonic readings of a step.\<close>

fun op_times :: "sec_op \<Rightarrow> pyfloat list" where
  "op_times (Login ac name password agent ip token_id now later wall) = [now, later]"
| "op_times (Request ac token agent ip now wall) = [now]"
| "op_times (Write ac token agent ip code action owner now wall) = [now]"
| "op_times op = []"

text \<open>Room in the tables an attacker can fill: \<open>_prune_tracking\<close> has nothing to evict.\<close>

definition small_tables :: "sec \<Rightarrow> bool" where
  "small_tables s \<longleftrightarrow> int (length (sc_lockouts s)) \<le> MAX_TRACKED_KEYS \<and> int (length (sc_failures s)) \<le> MAX_TRACKED_KEYS
     \<and> int (length (sc_rate s)) \<le> MAX_TRACKED_KEYS"

definition roomy :: "sec \<Rightarrow> bool" where
  "roomy s \<longleftrightarrow> small_tables s \<and> int (length (sc_rate s)) < MAX_TRACKED_KEYS"

fun roomy_throughout :: "sec_parameters \<Rightarrow> sec_config \<Rightarrow> sec_op list \<Rightarrow> sec \<Rightarrow> bool" where
  "roomy_throughout orc cf [] s \<longleftrightarrow> True"
| "roomy_throughout orc cf (op # ops) s \<longleftrightarrow> roomy s \<and> roomy_throughout orc cf ops (sec_step orc cf op s)"

lemma length_dset: "length (dset d k v) \<le> Suc (length d)"
  by (induction d) auto

lemma dset_within: "int (length d) < m \<Longrightarrow> int (length (dset d k v)) \<le> m"
  using length_dset [of k v d] by linarith

lemma filter_within: "int (length xs) \<le> m \<Longrightarrow> int (length (filter P xs)) \<le> m"
  using length_filter_le [of P xs] by linarith

lemma small_after_rate: "roomy s \<Longrightarrow> small_tables (snd (check_rate k r now s))"
  by (auto simp: roomy_def small_tables_def check_rate_def Let_def intro: dset_within)

text \<open>No lock on a key: none at all, or a time of zero.\<close>

definition unlocked :: "string \<Rightarrow> sec \<Rightarrow> bool" where
  "unlocked k s \<longleftrightarrow> dget (sc_lockouts s) k = None \<or> dget (sc_lockouts s) k = Some 0"

lemma locked_out_free:
  assumes "locked_out k now s = (r, t)" "\<not> holds_lock r"
  shows "unlocked k t"
proof -
  have "0 < fround (until - now)" if "now < until" for until using F.rnd_pos that by simp
  then show ?thesis
    using assms by (auto simp: locked_out_def unlocked_def holds_lock_def AList.delete_conv' split: option.splits if_splits)
      (metis less_irrefl)
qed

lemma user_key_not_ip_key [simp]: "user_key n \<noteq> ip_key i" "ip_key i \<noteq> user_key n"
  by (simp_all add: user_key_def ip_key_def)

lemma unlocked_other: "unlocked k' s \<Longrightarrow> k' \<noteq> k \<Longrightarrow> unlocked k' (record_failure cf k now s)"
  by (auto simp: unlocked_def record_failure_def Let_def update_conv')

lemma reload_user_tables:
  "reload_user ac n s = (u, t) \<Longrightarrow> sc_lockouts t = sc_lockouts s \<and> sc_failures t = sc_failures s \<and> sc_rate t = sc_rate s
     \<and> sc_used_totp t = sc_used_totp s \<and> sc_sessions t = sc_sessions s"
  by (auto simp: reload_user_def split: option.splits if_splits)

lemma verify_totp_tables:
  "verify_totp orc n c False now wall s = (ok, t) \<Longrightarrow> sc_lockouts t = sc_lockouts s \<and> sc_failures t = sc_failures s
     \<and> sc_rate t = sc_rate s \<and> sc_used_totp t = sc_used_totp s"
  by (auto simp: verify_totp_def Let_def log_event_def split: option.splits if_splits)

lemma locked_out_other: "locked_out k now s = (r, t) \<Longrightarrow> k' \<noteq> k \<Longrightarrow> unlocked k' t = unlocked k' s"
  by (auto simp: locked_out_def unlocked_def AList.delete_conv' split: option.splits if_splits)

lemma first_lock_free:
  assumes "first_lock [k, k'] now s = (False, t)" "k \<noteq> k'"
  shows "unlocked k t \<and> unlocked k' t"
proof -
  obtain r s1 where k: "locked_out k now s = (r, s1)" by fastforce
  obtain r' s2 where k': "locked_out k' now s1 = (r', s2)" by fastforce
  have "\<not> holds_lock r" "\<not> holds_lock r'" "t = s2" using assms(1) k k' by (auto simp: first_lock_def split: if_splits)
  then show ?thesis using locked_out_free [OF k] locked_out_free [OF k'] locked_out_other [OF k' assms(2)] by simp
qed

lemma write_gates_free:
  assumes "write_gates cf ac n owner now s = (None, t)"
  shows "unlocked (user_key n) t"
  using assms locked_out_free by (auto simp: write_gates_def split: prod.splits if_splits)

text \<open>
  A relation between states that every stretch of a step keeps: the locale lists the ways the code changes the tables, so that
  a client proves one obligation for each and gets the relation for every step and run.
\<close>

locale sec_relation =
  fixes cf :: sec_config and R :: "sec \<Rightarrow> sec \<Rightarrow> bool" and allowed :: "sec_op \<Rightarrow> bool" and timely :: "pyfloat \<Rightarrow> bool"
  assumes refl: "R s s"
    and trans: "R s t \<Longrightarrow> R t u \<Longrightarrow> R s u"
    and journal: "R s (log_event e s)"
    and sessions: "R s (s\<lparr>sc_sessions := ss\<rparr>)"
    and reload: "R s (snd (reload_user ac n s))"
    and rate: "timely now \<Longrightarrow> R s (snd (check_rate k r now s))"
    and unlock: "timely now \<Longrightarrow> R s (snd (locked_out k now s))"
    and failure: "timely now \<Longrightarrow> unlocked k s \<Longrightarrow> R s (record_failure cf k now s)"
    and prune: "timely now \<Longrightarrow> small_tables s \<Longrightarrow> R s (prune_tracking cf now wall s)"
    and consume: "timely now \<Longrightarrow> R s (consume_totp n c now s)"
    and forgive: "timely now \<Longrightarrow> R s (s\<lparr>sc_failures := dpop (dpop (sc_failures s) (user_key n)) k\<rparr>)"
    and account: "allowed (Account op) \<Longrightarrow> R s (account_step op s)"
begin

lemma first_lock: "timely now \<Longrightarrow> R s (snd (first_lock ks now s))"
proof -
  assume now: "timely now"
  have "R s (snd (foldl (\<lambda>(locked, s') k. if locked then (True, s')
        else (case locked_out k now s' of (r, s'') \<Rightarrow> (holds_lock r, s''))) p ks))"
    if "R s (snd p)" for p
    using that
  proof (induction ks arbitrary: p)
    case (Cons k ks)
    obtain l s1 where p: "p = (l, s1)" by fastforce
    obtain r s2 where k: "locked_out k now s1 = (r, s2)" by fastforce
    have "R s s2" using trans [OF Cons.prems] unlock [OF now, of s1 k] by (simp add: p k)
    then show ?case using Cons.IH Cons.prems by (simp add: p k)
  qed simp
  then show ?thesis unfolding first_lock_def using refl by simp
qed

lemma verify_token: "R s (snd (verify_token orc ac token agent ip wall s))"
proof -
  have drop: "R s t \<Longrightarrow> R s (drop_session tid t)" for t tid unfolding drop_session_def using trans sessions by blast
  have set: "R s t \<Longrightarrow> R s (set_session ss t)" for t ss unfolding set_session_def using trans sessions by blast
  have note_: "R s t \<Longrightarrow> R s (log_event e t)" for t e using trans journal by blast
  have load: "R s t" if "reload_user ac n s = (u, t)" for n u t using reload [of s ac n] that by simp
  show ?thesis
    unfolding verify_token_def Let_def
    by (auto split: option.splits prod.splits intro!: drop set note_ refl dest!: load)
qed

lemma current_session: "timely now \<Longrightarrow> R s (snd (current_session orc cf ac authorization agent ip now wall s))"
proof -
  assume now: "timely now"
  obtain f s1 where v: "verify_token orc ac (drop 7 authorization) agent ip wall s = (f, s1)" by fastforce
  have s1: "R s s1" using verify_token [of s orc ac "drop 7 authorization" agent ip wall] v by simp
  show ?thesis
  proof (cases f)
    case (Some sess)
    obtain free s2 where r: "check_rate (read_key (sn_username sess)) (sc_read_rate cf) now s1 = (free, s2)" by fastforce
    have "R s s2" using trans [OF s1] rate [OF now, of s1] r by (metis snd_conv)
    then show ?thesis by (simp add: current_session_def v Some r refl)
  qed (use s1 in \<open>simp add: current_session_def v refl\<close>)
qed

lemma write_gates: "timely now \<Longrightarrow> R s (snd (write_gates cf ac n owner now s))"
proof -
  assume now: "timely now"
  obtain u s1 where l: "reload_user ac n s = (u, s1)" by fastforce
  obtain f s2 where r: "check_rate (write_key n) (sc_write_rate cf) now s1 = (f, s2)" by fastforce
  obtain x s3 where k: "locked_out (user_key n) now s2 = (x, s3)" by fastforce
  have s1: "R s s1" using reload [of s ac n] l by simp
  have s2: "R s s2" using trans [OF s1 rate [OF now, of s1 "write_key n" "sc_write_rate cf"]] r by simp
  have s3: "R s s3" using trans [OF s2 unlock [OF now, of s2 "user_key n"]] k by simp
  show ?thesis using s1 s2 s3 by (simp add: write_gates_def l r k)
qed

lemma refuse_code: "timely now \<Longrightarrow> unlocked (user_key n) s \<Longrightarrow> R s (refuse_code cf n now s)"
proof -
  assume now: "timely now" "unlocked (user_key n) s"
  obtain x s1 where k: "locked_out (user_key n) now (record_failure cf (user_key n) now s) = (x, s1)" by fastforce
  have "R s s1"
    using trans [OF failure [OF now] unlock [OF now(1), of "record_failure cf (user_key n) now s" "user_key n"]] k by simp
  moreover have "R s1 (drop_sessions n s1)" unfolding drop_sessions_def by (rule sessions)
  ultimately show ?thesis using trans by (auto simp: refuse_code_def k)
qed

lemma verify_totp: "R s (snd (verify_totp orc n c False now wall s))"
  by (auto simp: verify_totp_def Let_def refl journal split: option.splits)

lemma authorise_write: "timely now \<Longrightarrow> R s (snd (authorise_write orc cf ac sess code action owner now wall s))"
proof -
  assume now: "timely now"
  let ?n = "sn_username sess"
  obtain d s1 where g: "write_gates cf ac ?n owner now s = (d, s1)" by fastforce
  obtain ok s2 where v: "verify_totp orc ?n code False now wall s1 = (ok, s2)" by fastforce
  have s1: "R s s1" using write_gates [OF now, of s ac ?n owner] g by simp
  then have s2: "R s s2" using trans [OF _ verify_totp [of s1 orc ?n code now wall]] v by simp
  have free: "unlocked (user_key ?n) s2" if "d = None"
    using write_gates_free [of cf ac ?n owner now s s1] g that verify_totp_tables [OF v] by (simp add: unlocked_def)
  have count: "R t (count_write tid t)" for tid t by (auto simp: count_write_def refl sessions split: option.splits)
  show ?thesis
  proof (cases d)
    case None
    show ?thesis
      using trans [OF s2 refuse_code [OF now free [OF None]]] trans [OF trans [OF s2 consume [OF now]] trans [OF count journal]]
      by (simp add: authorise_write_def Let_def g v None)
  next
    case (Some x)
    then show ?thesis using trans [OF s1 journal] by (simp add: authorise_write_def Let_def g)
  qed
qed

lemma require_write: "timely now \<Longrightarrow> R s (snd (require_write orc cf ac token agent ip code action owner now wall s))"
proof -
  assume now: "timely now"
  obtain f s1 where c: "current_session orc cf ac token agent ip now wall s = (f, s1)" by fastforce
  have s1: "R s s1" using current_session [OF now, of s orc ac token agent ip wall] c by simp
  show ?thesis
  proof (cases f)
    case (Some sess)
    obtain ok s2 where w: "authorise_write orc cf ac sess code action owner now wall s1 = (ok, s2)" by fastforce
    have "R s s2" using trans [OF s1] authorise_write [OF now, of s1 orc ac sess code action owner wall] w by simp
    then show ?thesis by (simp add: require_write_def c Some w)
  qed (use s1 in \<open>simp add: require_write_def c\<close>)
qed

lemma login_failed:
  assumes "timely now" "unlocked (user_key n) s" "unlocked (ip_key ip) s"
  shows "R s (login_failed cf n ip now s)"
proof -
  have "R s (record_failure cf (user_key n) now s)" using failure assms(1,2) by blast
  moreover have "unlocked (ip_key ip) (record_failure cf (user_key n) now s)" using unlocked_other [OF assms(3)] by simp
  ultimately show ?thesis unfolding login_failed_def using trans failure [OF assms(1)] journal by blast
qed

lemma login:
  assumes "timely now" "timely later" "small_tables s"
  shows "R s (snd (login orc cf ac n password agent ip tid now later wall s))"
proof -
  obtain l s1 where k: "first_lock [user_key n, ip_key ip] now (prune_tracking cf now wall s) = (l, s1)" by fastforce
  obtain u s2 where f: "reload_user ac n s1 = (u, s2)" by fastforce
  have s1: "R s s1"
    using trans [OF prune [OF assms(1,3)] first_lock [OF assms(1), of "prune_tracking cf now wall s" "[user_key n, ip_key ip]"]] k by simp
  then have s2: "R s s2" using trans [OF _ reload [of s1 ac n]] f by simp
  have set: "R t (set_session ss t)" for ss t unfolding set_session_def by (rule sessions)
  show ?thesis
  proof (cases l)
    case True
    then show ?thesis using trans [OF s1 journal] by (simp add: login_def k)
  next
    case False
    have free: "unlocked (user_key n) s2" "unlocked (ip_key ip) s2"
      using first_lock_free [of "user_key n" "ip_key ip"] k False reload_user_tables [OF f] by (auto simp: unlocked_def)
    have failed: "R s (login_failed cf n ip later s2)" using trans [OF s2 login_failed [OF assms(2) free]] .
    show ?thesis
    proof (cases u)
      case (Some w)
      show ?thesis
        using failed trans [OF trans [OF s2 forgive [OF assms(2)]] trans [OF set journal]]
        by (simp add: login_def Let_def k f False Some)
    qed (use failed in \<open>simp add: login_def Let_def k f False\<close>)
  qed
qed

lemma login_route:
  assumes "timely now" "timely later" "roomy s"
  shows "R s (snd (login_route orc cf ac n password agent ip tid now later wall s))"
proof -
  obtain free s1 where r: "check_rate (login_key ip) 10 now s = (free, s1)" by fastforce
  have s1: "R s s1" "small_tables s1"
    using rate [OF assms(1), of s "login_key ip" 10] small_after_rate [OF assms(3), of "login_key ip" 10 now] r by simp_all
  then show ?thesis using trans [OF s1(1) login [OF assms(1,2) s1(2)]] by (simp add: login_route_def r)
qed

lemma sec_step:
  assumes "list_all timely (op_times op)" "allowed op" "roomy s"
  shows "R s (sec_step orc cf op s)"
proof (cases op)
  case (Logout tid)
  then show ?thesis using sessions by (simp add: logout_def drop_session_def)
next
  case (Purge wall)
  then show ?thesis using sessions by (simp add: purge_expired_def)
qed (use assms account login_route current_session require_write in auto)

lemma sec_run:
  assumes "\<forall>op \<in> set ops. list_all timely (op_times op) \<and> allowed op" "roomy_throughout orc cf ops s"
  shows "R s (sec_run orc cf ops s)"
  using assms
proof (induction ops arbitrary: s)
  case (Cons op ops)
  then show ?case using trans [OF sec_step [of op s orc] Cons.IH] by simp
qed (simp add: refl)

end

section \<open>Somebody can always administer\<close>

lemma frames [simp]:
  "sc_users (log_event e s) = sc_users s" "sc_store (log_event e s) = sc_store s"
  "sc_lockouts (log_event e s) = sc_lockouts s" "sc_failures (log_event e s) = sc_failures s"
  "sc_rate (log_event e s) = sc_rate s" "sc_used_totp (log_event e s) = sc_used_totp s"
  by (simp_all add: log_event_def)

lemma check_rate_frame [simp]:
  "sc_users (snd (check_rate k r now s)) = sc_users s" "sc_store (snd (check_rate k r now s)) = sc_store s"
  "sc_lockouts (snd (check_rate k r now s)) = sc_lockouts s" "sc_failures (snd (check_rate k r now s)) = sc_failures s"
  "sc_used_totp (snd (check_rate k r now s)) = sc_used_totp s"
  by (simp_all add: check_rate_def Let_def)

lemma locked_out_frame [simp]:
  "sc_users (snd (locked_out k now s)) = sc_users s" "sc_store (snd (locked_out k now s)) = sc_store s"
  "sc_failures (snd (locked_out k now s)) = sc_failures s" "sc_rate (snd (locked_out k now s)) = sc_rate s"
  "sc_used_totp (snd (locked_out k now s)) = sc_used_totp s"
  by (simp_all add: locked_out_def split: option.splits)

lemma record_failure_frame [simp]:
  "sc_users (record_failure cf k now s) = sc_users s" "sc_store (record_failure cf k now s) = sc_store s"
  "sc_rate (record_failure cf k now s) = sc_rate s" "sc_used_totp (record_failure cf k now s) = sc_used_totp s"
  by (simp_all add: record_failure_def Let_def)

lemma prune_tracking_frame [simp]:
  "sc_users (prune_tracking cf now wall s) = sc_users s" "sc_store (prune_tracking cf now wall s) = sc_store s"
  by (simp_all add: prune_tracking_def Let_def)

lemma consume_totp_frame [simp]:
  "sc_users (consume_totp n c now s) = sc_users s" "sc_store (consume_totp n c now s) = sc_store s"
  "sc_lockouts (consume_totp n c now s) = sc_lockouts s" "sc_failures (consume_totp n c now s) = sc_failures s"
  "sc_rate (consume_totp n c now s) = sc_rate s"
  by (simp_all add: consume_totp_def)

interpretation owners: sec_relation cf "\<lambda>s t. governed s \<longrightarrow> governed t" "\<lambda>op. True" "\<lambda>now. True" for cf
  by unfold_locales
    (auto simp: reload_user_in_step governed_parts(1) account_step_governed intro: governed_frame)

text \<open>
  C21. The dashboard cannot lock its administrators out. From a state whose cache agrees with the store and which has an enabled
  owner, every run of logins, requests, writes, log-outs and account changes, with reads and writes of the store that fail or
  not, ends in such a state again.
\<close>

theorem owner_never_lost:
  assumes "governed s" "roomy_throughout orc cf ops s"
  shows "governed (sec_run orc cf ops s)"
  using owners.sec_run [of ops orc cf s] assms by (simp add: list_all_iff)

section \<open>A code authorises one write\<close>

lemma map_of_filter_kept: "dget d k = Some v \<Longrightarrow> P (k, v) \<Longrightarrow> dget (filter P d) k = Some v"
  by (induction d) (auto split: if_splits)

text \<open>The code was used not before \<open>limit\<close> and is still remembered.\<close>

definition code_remembered :: "string \<Rightarrow> string \<Rightarrow> pyfloat \<Rightarrow> sec \<Rightarrow> bool" where
  "code_remembered n c limit s \<longleftrightarrow> (\<exists>ts. dget (sc_used_totp s) (n, c) = Some ts \<and> limit \<le> ts)"

fun rotates :: "string \<Rightarrow> sec_op \<Rightarrow> bool" where
  "rotates n (Account (RotateTotp ac n' secret)) \<longleftrightarrow> n' = n"
| "rotates n op \<longleftrightarrow> False"

lemma code_remembered_frame: "sc_used_totp t = sc_used_totp s \<Longrightarrow> code_remembered n c limit s \<Longrightarrow> code_remembered n c limit t"
  by (simp add: code_remembered_def)

lemma save_user_tables:
  "save_user ac u s = (ok, t) \<Longrightarrow> sc_used_totp t = sc_used_totp s \<and> sc_lockouts t = sc_lockouts s \<and> sc_failures t = sc_failures s
     \<and> sc_rate t = sc_rate s"
  by (auto simp: save_user_def persist_def cache_user_def split: option.splits if_splits)

lemma all_accounts_tables:
  "all_accounts ac s = (d, t) \<Longrightarrow> sc_used_totp t = sc_used_totp s \<and> sc_lockouts t = sc_lockouts s \<and> sc_failures t = sc_failures s
     \<and> sc_rate t = sc_rate s"
  by (auto simp: all_accounts_def split: option.splits if_splits)

lemma last_owner_problem_tables:
  "last_owner_problem ac n s = (p, t) \<Longrightarrow> sc_used_totp t = sc_used_totp s \<and> sc_lockouts t = sc_lockouts s \<and> sc_failures t = sc_failures s
     \<and> sc_rate t = sc_rate s"
  by (auto simp: last_owner_problem_def dest: all_accounts_tables split: prod.splits option.splits)

lemmas reload_user_frame [simp] = reload_user_tables [OF prod.collapse [symmetric]]

lemmas account_tables = save_user_tables all_accounts_tables last_owner_problem_tables reload_user_tables

lemma drop_sessions_frame [simp]:
  "sc_used_totp (drop_sessions n s) = sc_used_totp s" "sc_lockouts (drop_sessions n s) = sc_lockouts s"
  "sc_failures (drop_sessions n s) = sc_failures s" "sc_rate (drop_sessions n s) = sc_rate s"
  by (simp_all add: drop_sessions_def)

lemma account_step_tables:
  "sc_lockouts (account_step op s) = sc_lockouts s \<and> sc_failures (account_step op s) = sc_failures s
     \<and> sc_rate (account_step op s) = sc_rate s
     \<and> ((\<forall>ac n secret. op \<noteq> RotateTotp ac n secret) \<longrightarrow> sc_used_totp (account_step op s) = sc_used_totp s)"
  by (cases op)
    (auto simp: add_user_def set_password_def set_role_def set_disabled_def delete_user_def rotate_totp_def Let_def
      split: prod.splits option.splits if_splits dest!: account_tables)

lemma rotate_totp_used:
  "n' \<noteq> n \<Longrightarrow> code_remembered n c limit s \<Longrightarrow> code_remembered n c limit (snd (rotate_totp ac n' secret s))"
  by (auto simp: rotate_totp_def Let_def code_remembered_def intro!: map_of_filter_kept split: prod.splits option.splits
      dest!: save_user_tables)

interpretation totp: sec_relation cf "\<lambda>s t. code_remembered n c limit s \<longrightarrow> code_remembered n c limit t"
    "\<lambda>op. \<not> rotates n op" "\<lambda>now. limit \<le> now \<and> fround (now - 120) \<le> limit" for cf n c limit
proof unfold_locales
  show "code_remembered n c limit s \<longrightarrow> code_remembered n c limit (prune_tracking cf now wall s)"
    if "limit \<le> now \<and> fround (now - 120) \<le> limit" for now wall s
    using that by (auto simp: code_remembered_def prune_tracking_def Let_def TOTP_REPLAY_TTL_SEC_def intro!: map_of_filter_kept)
  show "code_remembered n c limit s \<longrightarrow> code_remembered n c limit (consume_totp n' code now s)"
    if "limit \<le> now \<and> fround (now - 120) \<le> limit" for now n' code s
    using that by (auto simp: code_remembered_def consume_totp_def update_conv')
  show "code_remembered n c limit s \<longrightarrow> code_remembered n c limit (account_step op s)" if "\<not> rotates n (Account op)" for op s
  proof (cases "\<exists>ac n' secret. op = RotateTotp ac n' secret")
    case True
    then show ?thesis using that rotate_totp_used by auto
  next
    case False
    then show ?thesis using account_step_tables [of op s] code_remembered_frame by auto
  qed
qed (auto simp: code_remembered_def)

lemma authorise_write_ok:
  assumes "authorise_write orc cf ac sess code action owner now wall s = (True, t)"
  shows "\<exists>s1. write_gates cf ac (sn_username sess) owner now s = (None, s1)
    \<and> fst (verify_totp orc (sn_username sess) code False now wall s1)
    \<and> t = log_event (WriteAction (sn_username sess) action)
        (count_write (sn_token_id sess) (consume_totp (sn_username sess) code now (snd (verify_totp orc (sn_username sess) code False now wall s1))))"
  using assms by (auto simp: authorise_write_def Let_def split: prod.splits option.splits if_splits)

lemma require_write_ok:
  assumes "require_write orc cf ac token agent ip code action owner now wall s = (Some sess, t)"
  shows "\<exists>s1. current_session orc cf ac token agent ip now wall s = (Some sess, s1)
    \<and> authorise_write orc cf ac sess code action owner now wall s1 = (True, t)"
  using assms by (auto simp: require_write_def split: prod.splits option.splits if_splits)

lemma count_write_frame [simp]:
  "sc_used_totp (count_write tid s) = sc_used_totp s" "sc_lockouts (count_write tid s) = sc_lockouts s"
  "sc_failures (count_write tid s) = sc_failures s" "sc_rate (count_write tid s) = sc_rate s"
  by (simp_all add: count_write_def split: option.splits)

text \<open>
  C19. A second factor authorises one write. After a write of an account was authorised with a code, no run of operations that
  does not replace the account's second factor lets the same code, spaces aside, authorise another write of that account
  until more than 120 seconds have passed on the monotonic clock.
\<close>

theorem code_authorises_one_write:
  assumes "require_write orc cf ac token agent ip code action owner t1 wall s = (Some sess, s1)"
    and "\<forall>op \<in> set ops. list_all (\<lambda>t. t1 \<le> t \<and> t \<le> t2) (op_times op) \<and> \<not> rotates (sn_username sess) op"
    and "roomy_throughout orc cf ops s1"
    and "require_write orc cf ac' token' agent' ip' code' action' owner' t2 wall' (sec_run orc cf ops s1) = (Some sess', s2)"
    and "sn_username sess' = sn_username sess" "clean_code code' = clean_code code" "t1 \<le> t2"
  shows "t1 < fround (t2 - 120)"
proof (rule ccontr)
  assume late: "\<not> t1 < fround (t2 - 120)"
  let ?n = "sn_username sess" and ?c = "clean_code code"
  have ok: "t1 \<le> t \<and> fround (t - 120) \<le> t1" if "t1 \<le> t" "t \<le> t2" for t
    using F.rnd_mono [of "t - 120" "t2 - 120"] that late by simp
  have used: "code_remembered ?n ?c t1 s1"
    using require_write_ok [OF assms(1)] by (auto dest!: authorise_write_ok simp: code_remembered_def consume_totp_def update_conv')
  have "\<forall>op \<in> set ops. list_all (\<lambda>t. t1 \<le> t \<and> fround (t - 120) \<le> t1) (op_times op) \<and> \<not> rotates ?n op"
    using assms(2) ok by (auto simp: list_all_iff)
  from totp.sec_run [OF this assms(3)] used have later: "code_remembered ?n ?c t1 (sec_run orc cf ops s1)" by simp
  obtain u where u: "current_session orc cf ac' token' agent' ip' t2 wall' (sec_run orc cf ops s1) = (Some sess', u)"
      "authorise_write orc cf ac' sess' code' action' owner' t2 wall' u = (True, s2)"
    using require_write_ok [OF assms(4)] by blast
  have now: "t1 \<le> t2 \<and> fround (t2 - 120) \<le> t1" using ok assms(7) by simp
  have "code_remembered ?n ?c t1 u"
    using totp.current_session [OF now, of ?n ?c "sec_run orc cf ops s1" orc cf ac' token' agent' ip' wall'] later u(1) by simp
  moreover obtain v where v: "write_gates cf ac' ?n owner' t2 u = (None, v)" "fst (verify_totp orc ?n code' False t2 wall' v)"
    using authorise_write_ok [OF u(2)] assms(5) by auto
  ultimately have "code_remembered ?n ?c t1 v"
    using totp.write_gates [OF now, of ?n ?c u cf ac' ?n owner'] by simp
  then have "dmem (sc_used_totp v) (?n, ?c)" by (auto simp: code_remembered_def dest!: map_of_SomeD intro: rev_image_eqI)
  then show False using v(2) assms(6) by (auto simp: verify_totp_def Let_def split: option.splits if_splits)
qed

section \<open>A locked account is let in nowhere\<close>

definition locked_until :: "string \<Rightarrow> pyfloat \<Rightarrow> sec \<Rightarrow> bool" where
  "locked_until n until s \<longleftrightarrow> dget (sc_lockouts s) (user_key n) = Some until \<and> until \<noteq> 0 \<and> fround until = until
     \<and> distinct (map fst (sc_lockouts s))"

lemma locked_until_not_unlocked: "locked_until n until s \<Longrightarrow> \<not> unlocked (user_key n) s"
  by (simp add: locked_until_def unlocked_def)

lemma locked_until_frame: "sc_lockouts t = sc_lockouts s \<Longrightarrow> locked_until n until s \<Longrightarrow> locked_until n until t"
  by (simp add: locked_until_def)

lemma locked_until_unlock:
  assumes "locked_until n until s" "now < until"
  shows "locked_until n until (snd (locked_out k now s))"
  using assms by (auto simp: locked_until_def locked_out_def AList.delete_conv' distinct_delete
      simp del: map_of_eq_Some_iff Some_eq_map_of_iff split: option.splits)

lemma locked_until_failure:
  assumes "locked_until n until s" "unlocked k s"
  shows "locked_until n until (record_failure cf k now s)"
  using assms locked_until_not_unlocked [OF assms(1)]
  by (cases "k = user_key n") (auto simp: locked_until_def record_failure_def Let_def update_conv' distinct_update
      simp del: map_of_eq_Some_iff Some_eq_map_of_iff)

lemma locked_until_prune:
  assumes "locked_until n until s" "now < until" "small_tables s"
  shows "locked_until n until (prune_tracking cf now wall s)"
proof -
  define horizon where "horizon = (of_int (max (sc_lockout_sec cf) 60 * 4) :: rat)"
  define gone where "gone = map fst (filter (\<lambda>(k, until). fround (until + horizon) < now) (sc_lockouts s))"
  have b: "dget (sc_lockouts s) (user_key n) = Some until" "fround until = until" "distinct (map fst (sc_lockouts s))"
    using assms(1) by (simp_all add: locked_until_def)
  have "until \<le> fround (until + horizon)" using F.rnd_ge_fixed [of until "until + horizon"] b(2) by (simp add: horizon_def)
  then have "user_key n \<notin> set gone"
    using b(1,3) assms(2) by (auto simp: gone_def simp del: map_of_eq_Some_iff Some_eq_map_of_iff dest: map_of_is_SomeI)
  then have kept: "dget (filter (\<lambda>(k, until). k \<notin> set gone) (sc_lockouts s)) (user_key n) = Some until"
    using map_of_filter_kept [OF b(1), of "\<lambda>(k, until). k \<notin> set gone"] by simp
  have len: "int (length (filter (\<lambda>(k, until). k \<notin> set gone) (sc_lockouts s))) \<le> MAX_TRACKED_KEYS"
    using assms(3) by (simp add: small_tables_def filter_within)
  have dist: "distinct (map fst (filter (\<lambda>(k, until). k \<notin> set gone) (sc_lockouts s)))"
    using b(3) by (simp add: distinct_map_filter)
  show ?thesis
    using kept len dist assms(1)
    unfolding locked_until_def prune_tracking_def Let_def horizon_def [symmetric] gone_def [symmetric] by simp
qed

interpretation lock: sec_relation cf "\<lambda>s t. locked_until n until s \<longrightarrow> locked_until n until t" "\<lambda>op. True" "\<lambda>now. now < until" for cf n until
  by unfold_locales (auto simp: locked_until_unlock locked_until_failure locked_until_prune account_step_tables intro: locked_until_frame)

lemma locked_until_holds:
  assumes "locked_until n until s" "now < until"
  shows "holds_lock (fst (locked_out (user_key n) now s))"
  using assms F.rnd_pos [of "until - now"] by (auto simp: locked_until_def locked_out_def holds_lock_def)

lemma locked_until_admits_none:
  assumes "locked_until n until s" "list_all (\<lambda>t. t < until) (op_times op)" "roomy s"
  shows "admitted orc cf op s \<noteq> Some n"
proof (cases op)
  case (Login ac name password agent ip tid now later wall)
  obtain free s1 where r: "check_rate (login_key ip) 10 now s = (free, s1)" by fastforce
  have now: "now < until" using assms(2) Login by simp
  have s1: "locked_until n until s1" "small_tables s1"
    using lock.rate [OF now, of n s "login_key ip" 10] small_after_rate [OF assms(3), of "login_key ip" 10 now] r assms(1) by simp_all
  obtain x t where k: "locked_out (user_key n) now (prune_tracking cf now wall s1) = (x, t)" by fastforce
  have "holds_lock x" using locked_until_holds [OF locked_until_prune [OF s1(1) now s1(2)] now, of cf wall] k by simp
  then have "first_lock [user_key n, ip_key ip] now (prune_tracking cf now wall s1) = (True, t)" by (simp add: first_lock_def k)
  then have "fst (login orc cf ac n password agent ip tid now later wall s1) = None" by (simp add: login_def)
  then show ?thesis
    using r by (auto simp: Login login_route_def login_def Let_def split: prod.splits option.splits if_splits)
next
  case (Write ac token agent ip code action owner now wall)
  have now: "now < until" using assms(2) Write by simp
  have "sn_username sess \<noteq> n"
    if "require_write orc cf ac token agent ip code action owner now wall s = (Some sess, t)" for sess t
  proof
    assume n: "sn_username sess = n"
    obtain s1 where c: "current_session orc cf ac token agent ip now wall s = (Some sess, s1)"
        "authorise_write orc cf ac sess code action owner now wall s1 = (True, t)"
      using require_write_ok [OF \<open>require_write orc cf ac token agent ip code action owner now wall s = (Some sess, t)\<close>] by blast
    have s1: "locked_until n until s1" using lock.current_session [OF now, of n s orc cf ac token agent ip wall] c(1) assms(1) by simp
    obtain v where "write_gates cf ac n owner now s1 = (None, v)" using authorise_write_ok [OF c(2)] n by auto
    then have "unlocked (user_key n) v" "locked_until n until v"
      using write_gates_free lock.write_gates [OF now, of n s1 cf ac n owner] s1 by auto
    then show False using locked_until_not_unlocked by blast
  qed
  then show ?thesis
    by (cases "require_write orc cf ac token agent ip code action owner now wall s") (auto simp: Write)
qed simp_all

fun admissions :: "sec_parameters \<Rightarrow> sec_config \<Rightarrow> sec_op list \<Rightarrow> sec \<Rightarrow> string option list" where
  "admissions orc cf [] s = []"
| "admissions orc cf (op # ops) s = admitted orc cf op s # admissions orc cf ops (sec_step orc cf op s)"

text \<open>
  C20. A lock reaches every door. While an account is locked, no run of operations logs it in or authorises one of its writes,
  with open sessions, right passwords and right codes notwithstanding, as long as the tables have not overflowed.
\<close>

theorem locked_account_admits_nothing:
  assumes "locked_until n until s" "\<forall>op \<in> set ops. list_all (\<lambda>t. t < until) (op_times op)" "roomy_throughout orc cf ops s"
  shows "Some n \<notin> set (admissions orc cf ops s)"
  using assms
proof (induction ops arbitrary: s)
  case (Cons op ops)
  have "locked_until n until (sec_step orc cf op s)" using lock.sec_step [of until op s n orc cf] Cons.prems by simp
  then show ?case using Cons locked_until_admits_none [of n until s op orc cf] by auto
qed simp

text \<open>How the lock arms: the failure that fills the window.\<close>

lemma failure_arms_lock:
  assumes "sc_max_login_attempts cf
      \<le> Suc (length (filter (\<lambda>t. fround (now - t) < of_int (sc_lockout_sec cf)) (dget_default (sc_failures s) (user_key n) [])))"
    "0 < now" "0 < sc_lockout_sec cf" "distinct (map fst (sc_lockouts s))"
  shows "\<exists>until. locked_until n until (record_failure cf (user_key n) now s) \<and> fround (now + of_int (sc_lockout_sec cf)) \<le> until"
proof -
  let ?k = "dget_default (sc_strikes s) (user_key n) 0"
  let ?L = "of_int (sc_lockout_sec cf * min (2 ^ ?k) 16) :: rat"
  have f: "1 \<le> min ((2 :: int) ^ ?k) 16" by simp
  have "sc_lockout_sec cf * 1 \<le> sc_lockout_sec cf * min (2 ^ ?k) 16"
    using f assms(3) by (intro mult_left_mono) auto
  then have le: "of_int (sc_lockout_sec cf) \<le> ?L" by (metis mult.right_neutral of_int_le_iff)
  moreover have "0 < (of_int (sc_lockout_sec cf) :: rat)" using assms(3) by simp
  ultimately have "0 < fround (now + ?L)" using assms(2) by (intro F.rnd_pos) linarith
  moreover have "fround (now + of_int (sc_lockout_sec cf)) \<le> fround (now + ?L)" using le by (intro F.rnd_mono) simp
  ultimately show ?thesis
    using assms(1,4) by (auto simp: locked_until_def record_failure_def Let_def update_conv' distinct_update F.rnd_idem
        simp del: map_of_eq_Some_iff Some_eq_map_of_iff)
qed

section \<open>What a write needs\<close>

text \<open>The account as a request sees it: from the store when it can be read, from the cache otherwise.\<close>

definition account_now :: "access \<Rightarrow> sec \<Rightarrow> string \<Rightarrow> user option" where
  "account_now ac s n = (case sc_store s of Some db \<Rightarrow> if ac_reads ac then dget db n else dget (sc_users s) n | None \<Rightarrow> dget (sc_users s) n)"

lemma reload_user_result:
  assumes "reload_user ac n s = (r, t)"
  shows "r = account_now ac s n \<and> dget (sc_users t) n = r \<and> account_now ac t n = account_now ac s n"
  using assms by (auto simp: reload_user_def account_now_def update_conv' AList.delete_conv' split: option.splits if_splits)

lemma account_now_frame: "sc_users t = sc_users s \<Longrightarrow> sc_store t = sc_store s \<Longrightarrow> account_now ac t n = account_now ac s n"
  by (simp add: account_now_def split: option.split)

lemma verify_token_ok:
  assumes "verify_token orc ac token agent ip wall s = (Some sess, t)"
  shows "\<exists>tid sess0 u. or_token orc token wall = Some tid \<and> dget (sc_sessions s) tid = Some sess0 \<and> wall \<le> sn_expires_ns sess0
    \<and> sn_fingerprint sess0 = or_print orc agent ip \<and> sn_username sess = sn_username sess0
    \<and> account_now ac s (sn_username sess) = Some u \<and> \<not> us_disabled u \<and> sn_role sess = us_role u
    \<and> account_now ac t (sn_username sess) = Some u \<and> sc_used_totp t = sc_used_totp s \<and> sc_lockouts t = sc_lockouts s"
proof -
  obtain tid sess0 where s0: "or_token orc token wall = Some tid" "dget (sc_sessions s) tid = Some sess0" "wall \<le> sn_expires_ns sess0"
      "sn_fingerprint sess0 = or_print orc agent ip"
    using assms by (auto simp: verify_token_def split: option.splits if_splits prod.splits)
  obtain r s1 where r: "reload_user ac (sn_username sess0) s = (r, s1)" by fastforce
  then obtain u where u: "r = Some u" "\<not> us_disabled u" "sn_username sess = sn_username sess0" "sn_role sess = us_role u"
      "t = s1 \<or> t = set_session sess (log_event (WriteDenied (sn_username sess0) RoleChanged) s1)"
    using assms s0 by (auto simp: verify_token_def Let_def split: option.splits if_splits)
  have "account_now ac t n = account_now ac s1 n" "sc_used_totp t = sc_used_totp s1" "sc_lockouts t = sc_lockouts s1" for n
    using u(5) by (auto simp: set_session_def intro!: account_now_frame)
  then show ?thesis using s0 u reload_user_result [OF r] reload_user_tables [OF r] by auto
qed

lemma current_session_ok:
  assumes "current_session orc cf ac token agent ip now wall s = (Some sess, t)"
  shows "\<exists>s1. verify_token orc ac (drop 7 token) agent ip wall s = (Some sess, s1) \<and> take 7 token = ''Bearer ''
    \<and> t = snd (check_rate (read_key (sn_username sess)) (sc_read_rate cf) now s1)"
  using assms by (auto simp: current_session_def split: prod.splits option.splits if_splits)

lemma locked_out_fst: "sc_lockouts t = sc_lockouts s \<Longrightarrow> fst (locked_out k now t) = fst (locked_out k now s)"
  by (auto simp: locked_out_def split: option.splits)

lemma write_gates_ok:
  assumes "write_gates cf ac n owner now s = (None, t)"
  shows "\<exists>u. account_now ac s n = Some u \<and> can_write u \<and> (owner \<longrightarrow> can_change_risk u) \<and> dget (sc_users t) n = Some u
    \<and> \<not> holds_lock (fst (locked_out (user_key n) now s)) \<and> sc_used_totp t = sc_used_totp s"
proof -
  obtain r s1 where r: "reload_user ac n s = (r, s1)" by fastforce
  then obtain u where u: "r = Some u" "can_write u" "owner \<longrightarrow> can_change_risk u"
      "\<not> holds_lock (fst (locked_out (user_key n) now (snd (check_rate (write_key n) (sc_write_rate cf) now s1))))"
      "t = snd (locked_out (user_key n) now (snd (check_rate (write_key n) (sc_write_rate cf) now s1)))"
    using assms by (auto simp: write_gates_def split: prod.splits option.splits if_splits)
  have "fst (locked_out (user_key n) now (snd (check_rate (write_key n) (sc_write_rate cf) now s1))) = fst (locked_out (user_key n) now s)"
    using reload_user_tables [OF r] by (intro locked_out_fst) simp
  then show ?thesis using u reload_user_result [OF r] reload_user_tables [OF r] by auto
qed

text \<open>
  C18. A write goes through only with all of: a token that decodes to a session that has not expired and was opened from the
  same client; an account that is, as the store has it at that moment, enabled and of a role that may write, the owner where the
  action asks for it; no lock on the account; and six digits that are valid for the account's second factor now, have not been
  used, and are used afterwards.
\<close>

theorem write_needs_everything:
  assumes "require_write orc cf ac token agent ip code action owner now wall s = (Some sess, t)"
  shows "\<exists>tid sess0 u. take 7 token = ''Bearer '' \<and> or_token orc (drop 7 token) wall = Some tid \<and> dget (sc_sessions s) tid = Some sess0 \<and> wall \<le> sn_expires_ns sess0
    \<and> sn_fingerprint sess0 = or_print orc agent ip \<and> sn_username sess0 = sn_username sess
    \<and> account_now ac s (sn_username sess) = Some u \<and> can_write u \<and> (owner \<longrightarrow> can_change_risk u)
    \<and> \<not> holds_lock (fst (locked_out (user_key (sn_username sess)) now s))
    \<and> all_digits (clean_code code) \<and> length (clean_code code) = 6 \<and> or_totp orc (us_totp_secret u) (clean_code code) wall
    \<and> (sn_username sess, clean_code code) \<notin> fst ` set (sc_used_totp s)
    \<and> dget (sc_used_totp t) (sn_username sess, clean_code code) = Some now"
proof -
  let ?n = "sn_username sess"
  obtain s2 where c: "current_session orc cf ac token agent ip now wall s = (Some sess, s2)"
      "authorise_write orc cf ac sess code action owner now wall s2 = (True, t)" using require_write_ok [OF assms] by blast
  obtain s1 where v: "verify_token orc ac (drop 7 token) agent ip wall s = (Some sess, s1)"
      "take 7 token = ''Bearer ''"
      "s2 = snd (check_rate (read_key ?n) (sc_read_rate cf) now s1)" using current_session_ok [OF c(1)] by blast
  obtain tid sess0 u where tok: "or_token orc (drop 7 token) wall = Some tid" "dget (sc_sessions s) tid = Some sess0" "wall \<le> sn_expires_ns sess0"
      "sn_fingerprint sess0 = or_print orc agent ip" "?n = sn_username sess0" "account_now ac s ?n = Some u"
      "account_now ac s1 ?n = Some u" "sc_used_totp s1 = sc_used_totp s" "sc_lockouts s1 = sc_lockouts s"
    using verify_token_ok [OF v(1)] by blast
  have s2: "account_now ac s2 ?n = Some u" "sc_used_totp s2 = sc_used_totp s" "sc_lockouts s2 = sc_lockouts s"
    using tok(7-9) v(3) account_now_frame [of s2 s1 ac ?n] by simp_all
  obtain s3 where w: "write_gates cf ac ?n owner now s2 = (None, s3)" "fst (verify_totp orc ?n code False now wall s3)"
      "t = log_event (WriteAction ?n action) (count_write (sn_token_id sess) (consume_totp ?n code now (snd (verify_totp orc ?n code False now wall s3))))"
    using authorise_write_ok [OF c(2)] by blast
  have g: "can_write u" "owner \<longrightarrow> can_change_risk u" "dget (sc_users s3) ?n = Some u"
    "\<not> holds_lock (fst (locked_out (user_key ?n) now s2))" "sc_used_totp s3 = sc_used_totp s"
    using write_gates_ok [OF w(1)] s2 by auto
  have lock: "\<not> holds_lock (fst (locked_out (user_key ?n) now s))"
    using g(4) locked_out_fst [OF s2(3)] by simp
  have code: "all_digits (clean_code code)" "length (clean_code code) = 6" "or_totp orc (us_totp_secret u) (clean_code code) wall"
    "(?n, clean_code code) \<notin> fst ` set (sc_used_totp s)"
    using w(2) g(3,5) by (auto simp: verify_totp_def Let_def split: if_splits)
  have "dget (sc_used_totp t) (?n, clean_code code) = Some now"
    using w(3) by (simp add: consume_totp_def update_conv')
  then show ?thesis using v(2) tok(1-6) g(1,2) lock code by metis
qed

section \<open>How fast a second factor can be guessed\<close>














text \<open>The lock, unlike the rate, can be kept from arming: a login with the right password forgets the wrong codes.\<close>

lemma login_forgets_wrong_codes:
  assumes "login orc cf ac name password agent ip tid now later wall s = (Some sess, t)"
  shows "dget (sc_failures t) (user_key name) = None"
  using assms
  by (auto simp: login_def Let_def set_session_def AList.delete_conv' split: prod.splits option.splits if_splits)

text \<open>The strikes of a key whose lock has run out are never pruned: the lookup removes the lock, and pruning follows the locks.\<close>

lemma strikes_outlive_their_lock:
  assumes "dget (sc_strikes s) k = Some n" "dget (sc_lockouts s) k = None" "small_tables s"
  shows "dget (sc_strikes (prune_tracking cf now wall s)) k = Some n"
proof -
  have "\<not> MAX_TRACKED_KEYS < int (length (filter P (sc_lockouts s)))" for P
    using assms(3) by (simp add: small_tables_def not_less filter_within)
  moreover have "(k, until) \<notin> set (sc_lockouts s)" for until using assms(2) by (force simp: map_of_eq_None_iff)
  ultimately show ?thesis
    using assms(1) by (auto simp: prune_tracking_def Let_def intro!: map_of_filter_kept)
qed

section \<open>Witnesses\<close>

definition demo_row :: "string \<Rightarrow> string \<Rightarrow> user" where
  "demo_row name role = \<lparr>us_username = name, us_password_hash = ''long-enough-9'', us_totp_secret = ''123456'', us_role = role,
     us_created_ns = 0, us_disabled = False\<rparr>"

definition demo_session :: session where
  "demo_session = \<lparr>sn_token_id = ''t1'', sn_username = ''ann'', sn_role = ''owner'', sn_issued_ns = 0, sn_expires_ns = 1000,
     sn_fingerprint = ''curlhost'', sn_writes_used = 0\<rparr>"

definition demo_sec :: sec where
  "demo_sec =
     (let rows = [(''ann'', demo_row ''ann'' ''owner''), (''bob'', demo_row ''bob'' ''operator'')]
      in \<lparr>sc_users = rows, sc_store = Some rows, sc_sessions = [(''t1'', demo_session)], sc_failures = [], sc_lockouts = [],
        sc_used_totp = [], sc_strikes = [], sc_rate = [], sc_audit = []\<rparr>)"

definition demo_pars :: sec_parameters where
  "demo_pars = \<lparr>or_password = (=), or_dummy = ''none'', or_totp = (\<lambda>secret code wall. code = secret), or_token = (\<lambda>t wall. Some t),
     or_print = (@)\<rparr>"

definition demo_sec_config :: sec_config where
  "demo_sec_config = \<lparr>sc_session_ttl = 3600, sc_max_login_attempts = 2, sc_lockout_sec = 60, sc_write_rate = 2, sc_read_rate = 30\<rparr>"

definition demo_write :: "string \<Rightarrow> pyfloat \<Rightarrow> sec_op" where
  "demo_write code now = Write \<lparr>ac_reads = True, ac_writes = True\<rparr> ''Bearer t1'' ''curl'' ''host'' code ''kill'' True now 10"

definition demo_login :: "string \<Rightarrow> pyfloat \<Rightarrow> sec_op" where
  "demo_login password now = Login \<lparr>ac_reads = True, ac_writes = True\<rparr> ''ann'' password ''curl'' ''host'' ''t2'' now now 10"

lemmas demo_security = demo_row_def demo_session_def demo_sec_def demo_pars_def demo_sec_config_def demo_write_def demo_login_def

lemma demo_governed: "governed demo_sec"
  by (simp add: demo_security governed_def in_step_def well_keyed_def has_owner_def is_owner_def Let_def)

lemma owner_never_lost_witness:
  "governed (sec_run demo_pars demo_sec_config
     [Account (SetRole \<lparr>ac_reads = True, ac_writes = True\<rparr> ''ann'' ''viewer''), demo_login ''long-enough-9'' 100,
      Account (DeleteUser \<lparr>ac_reads = False, ac_writes = True\<rparr> ''ann'')] demo_sec)"
  by (rule owner_never_lost [OF demo_governed]) code_simp

lemma code_authorises_one_write_witness:
  "\<exists>sess s1 sess' s2. require_write demo_pars demo_sec_config \<lparr>ac_reads = True, ac_writes = True\<rparr> ''Bearer t1'' ''curl'' ''host''
      ''123456'' ''kill'' True 1000 10 demo_sec = (Some sess, s1)
   \<and> require_write demo_pars demo_sec_config \<lparr>ac_reads = True, ac_writes = True\<rparr> ''Bearer t1'' ''curl'' ''host''
      ''123 456'' ''kill'' True 1150 10 (sec_run demo_pars demo_sec_config [demo_login ''long-enough-9'' 1149] s1) = (Some sess', s2)
   \<and> 1000 < fround (1150 - 120)"
proof -
  let ?ac = "\<lparr>ac_reads = True, ac_writes = True\<rparr>" and ?ops = "[demo_login ''long-enough-9'' 1149]"
  let ?first = "require_write demo_pars demo_sec_config ?ac ''Bearer t1'' ''curl'' ''host'' ''123456'' ''kill'' True 1000 10 demo_sec"
  let ?again = "\<lambda>s. require_write demo_pars demo_sec_config ?ac ''Bearer t1'' ''curl'' ''host'' ''123 456'' ''kill'' True 1150 10
    (sec_run demo_pars demo_sec_config ?ops s)"
  have run: "map_option sn_username (fst ?first) = Some ''ann'' \<and> map_option sn_username (fst (?again (snd ?first))) = Some ''ann''
    \<and> roomy_throughout demo_pars demo_sec_config ?ops (snd ?first)" by code_simp
  obtain sess s1 where first: "?first = (Some sess, s1)" "sn_username sess = ''ann''" using run by (cases ?first) auto
  obtain sess' s2 where again: "?again s1 = (Some sess', s2)" "sn_username sess' = ''ann''" using run first by (cases "?again s1") auto
  have "list_all (\<lambda>op. list_all (\<lambda>t. 1000 \<le> t \<and> t \<le> 1150) (op_times op) \<and> \<not> rotates ''ann'' op) ?ops"
    by (simp add: demo_login_def)
  then have times: "\<forall>op \<in> set ?ops. list_all (\<lambda>t. 1000 \<le> t \<and> t \<le> 1150) (op_times op) \<and> \<not> rotates (sn_username sess) op"
    using first(2) by simp
  have "clean_code ''123 456'' = clean_code ''123456''" by code_simp
  then have "1000 < fround (1150 - 120)"
    using code_authorises_one_write [OF first(1) times _ again(1)] run first again(2) by simp
  then show ?thesis using first again by blast
qed

lemma locked_account_admits_nothing_witness:
  "Some ''ann'' \<notin> set (admissions demo_pars demo_sec_config [demo_login ''long-enough-9'' 500, demo_write ''123456'' 600]
     (demo_sec\<lparr>sc_lockouts := [(user_key ''ann'', 1000)]\<rparr>))"
proof (rule locked_account_admits_nothing)
  have "fround 1000 = 1000" by code_simp
  then show "locked_until ''ann'' 1000 (demo_sec\<lparr>sc_lockouts := [(user_key ''ann'', 1000)]\<rparr>)" by (simp add: locked_until_def)
  show "roomy_throughout demo_pars demo_sec_config [demo_login ''long-enough-9'' 500, demo_write ''123456'' 600]
     (demo_sec\<lparr>sc_lockouts := [(user_key ''ann'', 1000)]\<rparr>)" by code_simp
qed (simp add: demo_login_def demo_write_def)

lemma write_needs_everything_witness:
  "\<exists>sess t. require_write demo_pars demo_sec_config \<lparr>ac_reads = True, ac_writes = True\<rparr> ''Bearer t1'' ''curl'' ''host''
      ''123456'' ''kill'' True 1000 10 demo_sec = (Some sess, t)
    \<and> dget (sc_used_totp t) (sn_username sess, clean_code ''123456'') = Some 1000"
proof -
  let ?w = "require_write demo_pars demo_sec_config \<lparr>ac_reads = True, ac_writes = True\<rparr> ''Bearer t1'' ''curl'' ''host''
      ''123456'' ''kill'' True 1000 10 demo_sec"
  have "fst ?w \<noteq> None" by code_simp
  then obtain sess t where w: "?w = (Some sess, t)" by (cases ?w) auto
  from write_needs_everything [OF w] show ?thesis using w by blast
qed


end
