(* ===== verification/Spec2Isabelle.thy ===== *)
theory Spec2Isabelle
  imports Civil RiskEngine Protect OMS PaperBroker Reconcile KillSwitch Ids AgentCycle ProposalQueue LicenceGate SecurityRuns
begin

text \<open>
  Sentinel-FX: a verification library for the trading agent under \<open>src/sentinel/\<close>.

  \<^bold>\<open>The program.\<close> Sentinel-FX trades currencies unattended. A decision cycle reads the venue, lets strategies propose
  orders, asks an independent risk engine for permission and a size, sends what was permitted through an order manager
  that never submits the same intent twice, tightens the stops of what is open, and journals every step into a
  hash-chained file. A kill file, a heartbeat and a separate watchdog process stop it; after a restart or an unknown
  outcome the local book is reconciled with the venue's. The library models the parts that decide and the parts that
  keep state, which is where an error costs money; the parts around them are named at the end.

  \<^bold>\<open>Theories and sources.\<close>

  \<^item> \<open>Prelude\<close>: decimals, doubles, dictionaries, exceptions, the state-and-exception actions; the locales
    \<open>rounding\<close> (what a correctly rounded arithmetic promises, interpreted on the decimal context, the 34-digit
    context and the doubles) and \<open>refinement\<close> (a concrete step function implementing an abstract one).
  \<^item> \<open>Money\<close>: \<open>core/money.py\<close>. Price and lot grids, contract specifications, pip values, conversions, costs.
  \<^item> \<open>Civil\<close>: \<open>core/tzrules.py\<close> over the proleptic calendar of Python's \<open>datetime\<close>. The locale \<open>dst_rule\<close> states what a
    rule with a summer-time window promises; it is interpreted on the US and the EU rule.
  \<^item> \<open>Domain\<close>: \<open>core/types.py\<close>. The records every layer passes, with the checks of their constructors.
  \<^item> \<open>Config\<close>: \<open>RiskConfig\<close> of \<open>core/config.py\<close> with its bounds and cross-validation.
  \<^item> \<open>Sizing\<close>, \<open>Exposure\<close>, \<open>RiskEngine\<close>, \<open>Protect\<close>: \<open>risk/sizing.py\<close>; \<open>risk/exposure.py\<close>, \<open>risk/stress.py\<close>,
    \<open>risk/portfolio.py\<close>; \<open>risk/engine.py\<close>; \<open>risk/protect.py\<close>. One definition per section of \<open>evaluate_entry\<close>, in the
    order of the code and composed the way the code composes them, early returns included.
  \<^item> \<open>OMS\<close>: \<open>execution/oms.py\<close> over the interface of \<open>brokers/base.py\<close>. The broker is an argument whose calls thread its
    own state and may raise; the journal entries and the calls are one trace, so that their order can be stated. The
    locales \<open>oms_step_relation\<close> and \<open>oms_relation\<close> say what a relation between states must satisfy to hold over every
    run; they are interpreted on the legal evolution of orders, the accounting of fills, the write-ahead order of the
    journal, the frame of other orders, the quarantine and the number of submissions.
  \<^item> \<open>PaperBroker\<close>: \<open>brokers/paper.py\<close>, every operation, over an arbitrary random generator; \<open>paper_ops\<close> is the instance
    of the broker interface. The locale \<open>paper_relation\<close> plays the part of \<open>oms_relation\<close> and is interpreted on the
    well-formedness of the book, the growth of the history, the orders a call leaves alone and the calls that touch none.
    Properties that span the order manager and the venue are proved here.
  \<^item> \<open>Reconcile\<close>: \<open>execution/reconcile.py\<close>, the comparison of the two books and the emergency stop.
  \<^item> \<open>Json\<close>, \<open>AuditChain\<close>: the JSON texts of Python's \<open>json.dumps\<close>, and \<open>core/audit.py\<close>. A journal file is the list of its lines
    with a mark of whether the last one is terminated, which is what a torn write leaves behind. The interpretation
    \<open>journal\<close> of \<open>refinement\<close> says that appends, restarts and torn writes implement a list of entries.
  \<^item> \<open>KillSwitch\<close>: \<open>ops/killswitch.py\<close> and \<open>ops/watchdog.py\<close>: the kill file, the heartbeat and one turn of the watchdog,
    composed with the engine and the operator into runs of single steps.
  \<^item> \<open>Ids\<close>: \<open>core/ids.py\<close>, the canonical text of an intent and its client order id.

  \<^bold>\<open>How the code is represented.\<close> A dataclass is a record with the field names of the code behind a short prefix, an enum
  a datatype, a dictionary whose order matters an association list, a raise the left of a sum, a method that changes its
  object a function to the changed object. A method that may raise after a change returns both. Money is the rational a
  \<open>Decimal\<close> denotes, and every operation is rounded to 28 significant digits as the context does; doubles are rationals
  rounded to 53 bits where the code computes with them. Trailing zeros and exponent ranges are not tracked. Messages,
  reasons and other display texts are left out or kept as kinds.

  \<^bold>\<open>Loops.\<close> Structural recursion where the code walks a list; the retry loop of a submission counts down its
  attempts; the margin close-out of the simulated venue and the search of a cluster's root are partial functions, and
  that they return is part of the properties (each turn of the close-out removes a position, and each link of the
  search leads closer to a root). No fuel is used.

  \<^bold>\<open>What the lemmas show.\<close> The risk engine: an approved entry respects every limit of the envelope with the new position
  counted in and risks at most the budget; exactly which contexts halt, refuse and raise. The order manager: orders follow
  the transition table in every run against every broker, unknown outcomes freeze the instrument, submissions are
  bounded and journaled first, no fill is counted twice. The venue: it always returns, its stream resumes exactly, a
  client order id is booked once, and with the order manager a timed-out order is resolved to the fill it hid.
  Reconciliation: no naked position without a halt, and every difference is reported. The journal: a refinement of a list of
  entries, tamper evident up to collisions of the hash. Kill switch and watchdog: the file fails closed, a dead loop is
  stopped. Protection only tightens stops, sizing stays within the budget, the ladder only reduces risk, clusters
  are the connected components of the correlation graph, time-zone conversions are inverse outside the changeover hour.
  Where the code does something its comments or documents deny, the theorem states what the code does.

  \<^bold>\<open>Parameters.\<close> SHA-256 and BLAKE2b are arbitrary functions; collision freedom is never assumed, the theorems end in
  "or two texts collide". The random generator, the broker, the wall clock and the text \<open>str\<close> gives for a value JSON does not
  know are arguments.

  \<^bold>\<open>Not modelled, and why.\<close> The decision cycle and its learning (\<open>agent/\<close>), the news calendar and policy, the
  licence and session rules and the data-quality rules keep state worth modelling and come next, in this order: regime,
  news policy, calendar and schedule; licence clock and enforcement; lesson memory and proposals; the decision cycle over the
  models above. Strategy families, research statistics and labelling compute with arrays of doubles and library functions
  (square roots, logarithms); only their decision rules are candidates. Venue adapters other than the simulator, feeds,
  the web routes, notifications and language-model calls are input and output around vendor libraries.
\<close>

end
